(* ===== verification/Prelude.thy ===== *)
theory Prelude
  imports Main "HOL-Library.Word" "HOL-Library.Monad_Syntax"
begin

text \<open>
  Shared types, rule collections and generic lemmas of the development.

  Machine integers keep the width they have in the C code: \<open>u8\<close>, \<open>u16\<close>, \<open>u32\<close> and
  \<open>u64\<close> are words whose arithmetic wraps. A C \<open>int\<close> that only takes small values
  (return codes, loop counters) is an \<open>int\<close> or a \<open>nat\<close>, with the range check
  written out where it matters.

  A definition that returns an \<open>option\<close> returns \<open>None\<close> exactly where the C code has no
  defined behaviour (an access outside a block or outside the disk image, a null or
  freed pointer, an indeterminate value that decides a branch) or does not return.
  Error codes of the program are ordinary values inside \<open>Some\<close>.
\<close>

unbundle bit_operations_syntax

type_synonym u8 = "8 word"
type_synonym u16 = "16 word"
type_synonym u32 = "32 word"
type_synonym u64 = "64 word"

named_theorems page_simps \<open>reading a page after writing it\<close>
named_theorems store_simps \<open>the effect of an operation on the block store\<close>

subsection \<open>Conversions of the C code between integer types\<close>

text \<open>A value of type \<open>uint64_t\<close> passed where an \<open>int\<close> is expected keeps its low 32 bits.\<close>

definition int_of_u64 :: "u64 \<Rightarrow> int" where
  "int_of_u64 w = sint (ucast w :: u32)"

text \<open>An \<open>int\<close> in an expression with a \<open>uint64_t\<close> is sign-extended and wraps.\<close>

definition u64_of_int :: "int \<Rightarrow> u64" where
  "u64_of_int i = word_of_int i"

lemma sint_ucast_u32:
  assumes "unat (w :: u64) < 2 ^ 31"
  shows "sint (ucast w :: u32) = int (unat w)"
proof -
  have lt: "uint w < 2 ^ 31"
    using assms by (metis of_nat_less_iff uint_nat of_nat_numeral of_nat_power)
  then have "uint (ucast w :: u32) = uint w"
    by (simp add: unsigned_ucast_eq take_bit_eq_mod)
  then have "sint (ucast w :: u32) = signed_take_bit 31 (uint w)"
    by (simp add: sint_uint)
  also have "\<dots> = uint w"
    by (rule signed_take_bit_int_eq_self) (use lt in \<open>auto intro: order_trans [of _ 0]\<close>)
  finally show ?thesis by simp
qed

lemma int_of_u64_small: "unat w < 2 ^ 31 \<Longrightarrow> int_of_u64 w = int (unat w)"
  unfolding int_of_u64_def by (rule sint_ucast_u32)

lemma u64_of_int_of_nat [simp]: "u64_of_int (int n) = of_nat n"
  by (simp add: u64_of_int_def)

lemma u64_of_int_0 [simp]: "u64_of_int 0 = 0"
  by (simp add: u64_of_int_def)

lemma u64_of_int_diff: "u64_of_int (a - b) = u64_of_int a - u64_of_int b"
  by (simp add: u64_of_int_def)

lemma u64_of_int_uint [simp]: "u64_of_int (uint w) = w"
  by (simp add: u64_of_int_def)

lemma int_of_u64_of_int:
  assumes "- (2 ^ 31) \<le> x" "x < 2 ^ 31"
  shows "int_of_u64 (u64_of_int x) = x"
proof -
  have "(ucast (word_of_int x :: u64) :: u32) = word_of_int x"
    by (rule bit_word_eqI) (simp add: bit_ucast_iff bit_word_of_int_iff)
  then show ?thesis
    using assms by (simp add: int_of_u64_def u64_of_int_def sint_sbintrunc' signed_take_bit_int_eq_self)
qed

lemma unat_u64_less: "unat (w :: u64) < 2 ^ 64"
  using unsigned_less [of w, where ?'a = nat] by simp

lemma int_less_uint_iff: "int k < uint (w :: u64) \<longleftrightarrow> k < unat w"
  by (metis of_nat_less_iff uint_nat)

lemma nat_less_unat_iff: "0 \<le> i \<Longrightarrow> nat i < unat (w :: u64) \<longleftrightarrow> i < uint w"
  by (metis int_less_uint_iff int_nat_eq)

lemma unat_of_nat_u64: "n < 2 ^ 64 \<Longrightarrow> unat (of_nat n :: u64) = n"
  by (simp add: unat_of_nat)

lemma unat_of_nat_u16: "n < 2 ^ 16 \<Longrightarrow> unat (of_nat n :: u16) = n"
  by (simp add: unat_of_nat)

lemma of_nat_u64_inject:
  "m < 2 ^ 64 \<Longrightarrow> n < 2 ^ 64 \<Longrightarrow> (of_nat m :: u64) = of_nat n \<longleftrightarrow> m = n"
  by (metis unat_of_nat_u64)

subsection \<open>Options\<close>

lemma bind_Some_iff:
  "Option.bind m f = Some r \<longleftrightarrow> (\<exists>x. m = Some x \<and> f x = Some r)"
  by (cases m) auto

lemma bind_None_iff:
  "Option.bind m f = None \<longleftrightarrow> m = None \<or> (\<exists>x. m = Some x \<and> f x = None)"
  by (cases m) auto

lemma bind_all_None: "(\<And>x. f x = None) \<Longrightarrow> Option.bind m f = None"
  by (cases m) auto

lemma bind_pair_Some_iff:
  "Option.bind m (\<lambda>(a, b). f a b) = Some r \<longleftrightarrow> (\<exists>a b. m = Some (a, b) \<and> f a b = Some r)"
  by (cases m) auto

subsection \<open>Counting loops\<close>

text \<open>
  A \<open>for\<close> loop without \<open>break\<close> runs its body for each index in turn; \<open>None\<close> in the
  body is \<open>None\<close> of the loop.
\<close>

fun for_each :: "'i list \<Rightarrow> ('i \<Rightarrow> 's \<Rightarrow> 's option) \<Rightarrow> 's \<Rightarrow> 's option" where
  "for_each [] body s = Some s"
| "for_each (i # is) body s = Option.bind (body i s) (for_each is body)"

lemma for_each_append:
  "for_each (is @ js) body s = Option.bind (for_each is body s) (for_each js body)"
proof (induction "is" arbitrary: s)
  case (Cons i "is")
  then show ?case by (cases "body i s") simp_all
qed simp

lemma for_each_Some_invariant:
  assumes "for_each is body s = Some s'" "P s"
    and "\<And>i s s'. i \<in> set is \<Longrightarrow> P s \<Longrightarrow> body i s = Some s' \<Longrightarrow> P s'"
  shows "P s'"
  using assms by (induction "is" arbitrary: s) (auto simp: bind_Some_iff)

lemma for_each_None:
  "i \<in> set is \<Longrightarrow> (\<And>s. body i s = None) \<Longrightarrow> for_each is body s = None"
proof (induction "is" arbitrary: s)
  case (Cons j js)
  then show ?case by (cases "body j s") auto
qed simp

lemma for_each_cong:
  "(\<And>i s. i \<in> set is \<Longrightarrow> f i s = g i s) \<Longrightarrow> for_each is f s = for_each is g s"
proof (induction "is" arbitrary: s)
  case (Cons i "is")
  then show ?case by (cases "g i s") simp_all
qed simp

subsection \<open>Lists\<close>

lemma nth_map_upt0: "i < n \<Longrightarrow> map f [0..<n] ! i = f i"
  by simp

lemma map_upt_cong: "(\<And>i. i < n \<Longrightarrow> f i = g i) \<Longrightarrow> map f [0..<n] = map g [0..<n]"
  by simp

lemma map_nth_eq: "length xs = n \<Longrightarrow> map (\<lambda>i. xs ! i) [0..<n] = xs"
  by (simp add: list_eq_iff_nth_eq)

end
