(* ===== verification/Page.thy ===== *)
theory Page
  imports Prelude
begin

text \<open>
  The constants of \<open>config.h\<close> and the content of one 4096-byte block. A page is the
  function from byte offsets to bytes; the C code reads and writes it through pointers
  to structures laid over it, little-endian, so every field access is a read or a write
  of a run of bytes at a fixed offset. The lemmas give what a read returns after a
  write at the same place or elsewhere.
\<close>

unbundle bit_operations_syntax

subsection \<open>config.h\<close>

definition BLOCK_SIZE :: nat where [simp]: "BLOCK_SIZE = 4096"

definition USABLE_BLOCK_SIZE :: nat where [simp]: "USABLE_BLOCK_SIZE = 4092"

definition MAX_KEYS :: nat where [simp]: "MAX_KEYS = 250"

definition MIN_KEYS :: nat where [simp]: "MIN_KEYS = MAX_KEYS div 2"

definition HASHMAP_SIZE :: nat where [simp]: "HASHMAP_SIZE = 32"

datatype block_type =
    BLOCK_TYPE_DATA
  | BLOCK_TYPE_BTREE_NODE
  | BLOCK_TYPE_BITMAP
  | BLOCK_TYPE_INODE
  | BLOCK_TYPE_SUPER
  | BLOCK_TYPE_JOURNAL

primrec block_type_code :: "block_type \<Rightarrow> u32" where
  "block_type_code BLOCK_TYPE_DATA = 0"
| "block_type_code BLOCK_TYPE_BTREE_NODE = 1"
| "block_type_code BLOCK_TYPE_BITMAP = 2"
| "block_type_code BLOCK_TYPE_INODE = 3"
| "block_type_code BLOCK_TYPE_SUPER = 4"
| "block_type_code BLOCK_TYPE_JOURNAL = 5"

lemma block_type_code_inject [simp]:
  "block_type_code a = block_type_code b \<longleftrightarrow> a = b"
  by (cases a, simp_all) (cases b, simp_all)+

subsection \<open>Bytes of a page\<close>

type_synonym page = "nat \<Rightarrow> u8"

definition zero_page :: page where
  "zero_page = (\<lambda>_. 0)"

definition rd_bytes :: "page \<Rightarrow> nat \<Rightarrow> nat \<Rightarrow> u8 list" where
  "rd_bytes pg a n = map (\<lambda>i. pg (a + i)) [0..<n]"

definition wr_bytes :: "page \<Rightarrow> nat \<Rightarrow> u8 list \<Rightarrow> page" where
  "wr_bytes pg a bs = (\<lambda>x. if a \<le> x \<and> x < a + length bs then bs ! (x - a) else pg x)"

lemma length_rd_bytes [simp]: "length (rd_bytes pg a n) = n"
  by (simp add: rd_bytes_def)

lemma rd_bytes_wr_bytes_same [page_simps]:
  "n = length bs \<Longrightarrow> rd_bytes (wr_bytes pg a bs) a n = bs"
  by (rule nth_equalityI) (simp_all add: rd_bytes_def wr_bytes_def)

lemma rd_bytes_wr_bytes_other [page_simps]:
  "a + n \<le> b \<or> b + length bs \<le> a \<Longrightarrow> rd_bytes (wr_bytes pg b bs) a n = rd_bytes pg a n"
  by (auto simp: rd_bytes_def wr_bytes_def)

lemma wr_bytes_outside [page_simps]:
  "x < b \<or> b + length bs \<le> x \<Longrightarrow> wr_bytes pg b bs x = pg x"
  by (auto simp: wr_bytes_def)

lemma wr_bytes_rd_bytes: "wr_bytes pg a (rd_bytes pg a n) = pg"
  by (rule ext) (auto simp: wr_bytes_def rd_bytes_def)

subsection \<open>Little-endian integers\<close>

fun le_bytes :: "nat \<Rightarrow> 'a::len word \<Rightarrow> u8 list" where
  "le_bytes 0 w = []"
| "le_bytes (Suc n) w = ucast w # le_bytes n (drop_bit 8 w)"

fun le_word :: "u8 list \<Rightarrow> 'a::len word" where
  "le_word [] = 0"
| "le_word (b # bs) = ucast b OR push_bit 8 (le_word bs)"

lemma length_le_bytes [simp]: "length (le_bytes n w) = n"
  by (induction n w rule: le_bytes.induct) auto

lemma le_word_le_bytes: "le_word (le_bytes n w) = take_bit (8 * n) (w :: 'a::len word)"
proof (induction n w rule: le_bytes.induct)
  case (1 w)
  then show ?case by simp
next
  case (2 n w)
  then show ?case
    by (intro bit_word_eqI)
      (auto simp: bit_or_iff bit_push_bit_iff bit_take_bit_iff bit_drop_bit_eq bit_ucast_iff
        dest: bit_imp_le_length)
qed

lemma take_bit_full: "LENGTH('a) \<le> n \<Longrightarrow> take_bit n (w :: 'a::len word) = w"
  by (rule take_bit_word_eq_self)

lemma bit_le_word:
  "bit (le_word bs :: 'a::len word) k \<longleftrightarrow>
     k < LENGTH('a) \<and> k < 8 * length bs \<and> bit (bs ! (k div 8)) (k mod 8)"
proof (induction bs arbitrary: k)
  case Nil
  then show ?case by simp
next
  case (Cons b bs)
  show ?case
  proof (cases "k < 8")
    case True
    then show ?thesis
      by (auto simp: bit_or_iff bit_push_bit_iff bit_ucast_iff)
  next
    case False
    then have "k div 8 = Suc ((k - 8) div 8)" and "k mod 8 = (k - 8) mod 8"
      by (simp_all add: le_div_geq le_mod_geq)
    then show ?thesis
      using False Cons.IH [of "k - 8"]
      by (auto simp: bit_or_iff bit_push_bit_iff bit_ucast_iff dest: bit_imp_le_length)
  qed
qed

definition rd16 :: "page \<Rightarrow> nat \<Rightarrow> u16" where
  "rd16 pg a = le_word (rd_bytes pg a 2)"

definition rd32 :: "page \<Rightarrow> nat \<Rightarrow> u32" where
  "rd32 pg a = le_word (rd_bytes pg a 4)"

definition rd64 :: "page \<Rightarrow> nat \<Rightarrow> u64" where
  "rd64 pg a = le_word (rd_bytes pg a 8)"

definition wr16 :: "page \<Rightarrow> nat \<Rightarrow> u16 \<Rightarrow> page" where
  "wr16 pg a v = wr_bytes pg a (le_bytes 2 v)"

definition wr32 :: "page \<Rightarrow> nat \<Rightarrow> u32 \<Rightarrow> page" where
  "wr32 pg a v = wr_bytes pg a (le_bytes 4 v)"

definition wr64 :: "page \<Rightarrow> nat \<Rightarrow> u64 \<Rightarrow> page" where
  "wr64 pg a v = wr_bytes pg a (le_bytes 8 v)"

text \<open>A C \<open>bool\<close> is one byte: 0 or 1 when stored, true when not 0.\<close>

definition rd_bool :: "page \<Rightarrow> nat \<Rightarrow> bool" where
  "rd_bool pg a \<longleftrightarrow> pg a \<noteq> 0"

definition wr_bool :: "page \<Rightarrow> nat \<Rightarrow> bool \<Rightarrow> page" where
  "wr_bool pg a v = wr_bytes pg a [if v then 1 else 0]"

lemmas wr_defs = wr16_def wr32_def wr64_def wr_bool_def
lemmas rd_defs = rd16_def rd32_def rd64_def

lemma rd_wr_same [page_simps]:
  "rd16 (wr16 pg a v) a = v"
  "rd32 (wr32 pg a w) a = w"
  "rd64 (wr64 pg a x) a = x"
  "rd_bool (wr_bool pg a b) a = b"
  by (simp_all add: rd_defs wr_defs page_simps le_word_le_bytes take_bit_full)
    (simp add: rd_bool_def wr_bytes_def)

text \<open>A read of a field does not see a write to another field.\<close>

lemma rd_bool_wr_bytes_other:
  "a < b \<or> b + length bs \<le> a \<Longrightarrow> rd_bool (wr_bytes pg b bs) a = rd_bool pg a"
  by (simp add: rd_bool_def page_simps)

lemma rd16_other [page_simps]:
  "a + 2 \<le> b \<or> b + 2 \<le> a \<Longrightarrow> rd16 (wr16 pg b v16) a = rd16 pg a"
  "a + 2 \<le> b \<or> b + 4 \<le> a \<Longrightarrow> rd16 (wr32 pg b v32) a = rd16 pg a"
  "a + 2 \<le> b \<or> b + 8 \<le> a \<Longrightarrow> rd16 (wr64 pg b v64) a = rd16 pg a"
  "a + 2 \<le> b \<or> b + 1 \<le> a \<Longrightarrow> rd16 (wr_bool pg b vb) a = rd16 pg a"
  "a + 2 \<le> b \<or> b + length bs \<le> a \<Longrightarrow> rd16 (wr_bytes pg b bs) a = rd16 pg a"
  by (simp_all add: rd_defs wr_defs rd_bytes_wr_bytes_other)

lemma rd32_other [page_simps]:
  "a + 4 \<le> b \<or> b + 2 \<le> a \<Longrightarrow> rd32 (wr16 pg b v16) a = rd32 pg a"
  "a + 4 \<le> b \<or> b + 4 \<le> a \<Longrightarrow> rd32 (wr32 pg b v32) a = rd32 pg a"
  "a + 4 \<le> b \<or> b + 8 \<le> a \<Longrightarrow> rd32 (wr64 pg b v64) a = rd32 pg a"
  "a + 4 \<le> b \<or> b + 1 \<le> a \<Longrightarrow> rd32 (wr_bool pg b vb) a = rd32 pg a"
  "a + 4 \<le> b \<or> b + length bs \<le> a \<Longrightarrow> rd32 (wr_bytes pg b bs) a = rd32 pg a"
  by (simp_all add: rd_defs wr_defs rd_bytes_wr_bytes_other)

lemma rd64_other [page_simps]:
  "a + 8 \<le> b \<or> b + 2 \<le> a \<Longrightarrow> rd64 (wr16 pg b v16) a = rd64 pg a"
  "a + 8 \<le> b \<or> b + 4 \<le> a \<Longrightarrow> rd64 (wr32 pg b v32) a = rd64 pg a"
  "a + 8 \<le> b \<or> b + 8 \<le> a \<Longrightarrow> rd64 (wr64 pg b v64) a = rd64 pg a"
  "a + 8 \<le> b \<or> b + 1 \<le> a \<Longrightarrow> rd64 (wr_bool pg b vb) a = rd64 pg a"
  "a + 8 \<le> b \<or> b + length bs \<le> a \<Longrightarrow> rd64 (wr_bytes pg b bs) a = rd64 pg a"
  by (simp_all add: rd_defs wr_defs rd_bytes_wr_bytes_other)

lemma rd_bool_other [page_simps]:
  "a < b \<or> b + 2 \<le> a \<Longrightarrow> rd_bool (wr16 pg b v16) a = rd_bool pg a"
  "a < b \<or> b + 4 \<le> a \<Longrightarrow> rd_bool (wr32 pg b v32) a = rd_bool pg a"
  "a < b \<or> b + 8 \<le> a \<Longrightarrow> rd_bool (wr64 pg b v64) a = rd_bool pg a"
  "a < b \<or> b + 1 \<le> a \<Longrightarrow> rd_bool (wr_bool pg b vb) a = rd_bool pg a"
  "a < b \<or> b + length bs \<le> a \<Longrightarrow> rd_bool (wr_bytes pg b bs) a = rd_bool pg a"
  by (simp_all add: wr_defs rd_bool_wr_bytes_other)

lemma rd_bytes_other [page_simps]:
  "a + n \<le> b \<or> b + 2 \<le> a \<Longrightarrow> rd_bytes (wr16 pg b v16) a n = rd_bytes pg a n"
  "a + n \<le> b \<or> b + 4 \<le> a \<Longrightarrow> rd_bytes (wr32 pg b v32) a n = rd_bytes pg a n"
  "a + n \<le> b \<or> b + 8 \<le> a \<Longrightarrow> rd_bytes (wr64 pg b v64) a n = rd_bytes pg a n"
  "a + n \<le> b \<or> b + 1 \<le> a \<Longrightarrow> rd_bytes (wr_bool pg b vb) a n = rd_bytes pg a n"
  by (simp_all add: wr_defs rd_bytes_wr_bytes_other)

subsection \<open>Arrays of 64-bit integers\<close>

definition rd64s :: "page \<Rightarrow> nat \<Rightarrow> nat \<Rightarrow> u64 list" where
  "rd64s pg a n = map (\<lambda>i. rd64 pg (a + 8 * i)) [0..<n]"

fun wr64s :: "page \<Rightarrow> nat \<Rightarrow> u64 list \<Rightarrow> page" where
  "wr64s pg a [] = pg"
| "wr64s pg a (v # vs) = wr64s (wr64 pg a v) (a + 8) vs"

lemma length_rd64s [simp]: "length (rd64s pg a n) = n"
  by (simp add: rd64s_def)

lemma nth_rd64s [simp]: "i < n \<Longrightarrow> rd64s pg a n ! i = rd64 pg (a + 8 * i)"
  by (simp add: rd64s_def)

lemma wr64s_other [page_simps]:
  "a + 8 \<le> b \<or> b + 8 * length vs \<le> a \<Longrightarrow> rd64 (wr64s pg b vs) a = rd64 pg a"
  "a + 4 \<le> b \<or> b + 8 * length vs \<le> a \<Longrightarrow> rd32 (wr64s pg b vs) a = rd32 pg a"
  "a + 2 \<le> b \<or> b + 8 * length vs \<le> a \<Longrightarrow> rd16 (wr64s pg b vs) a = rd16 pg a"
  "a < b \<or> b + 8 * length vs \<le> a \<Longrightarrow> rd_bool (wr64s pg b vs) a = rd_bool pg a"
  "a + n \<le> b \<or> b + 8 * length vs \<le> a \<Longrightarrow> rd_bytes (wr64s pg b vs) a n = rd_bytes pg a n"
  by (induction vs arbitrary: pg b) (auto simp: page_simps)

lemma rd64_wr64s:
  "i < length vs \<Longrightarrow> rd64 (wr64s pg a vs) (a + 8 * i) = vs ! i"
proof (induction vs arbitrary: pg a i)
  case Nil
  then show ?case by simp
next
  case (Cons v vs)
  show ?case
  proof (cases i)
    case 0
    then show ?thesis by (simp add: page_simps)
  next
    case (Suc j)
    then show ?thesis
      using Cons.IH [of j "wr64 pg a v" "a + 8"] Cons.prems by (simp add: algebra_simps)
  qed
qed

lemma rd64s_wr64s_same [page_simps]: "n = length vs \<Longrightarrow> rd64s (wr64s pg a vs) a n = vs"
  by (rule nth_equalityI) (simp_all add: rd64_wr64s)

lemma rd64s_other [page_simps]:
  "a + 8 * n \<le> b \<or> b + 2 \<le> a \<Longrightarrow> rd64s (wr16 pg b v16) a n = rd64s pg a n"
  "a + 8 * n \<le> b \<or> b + 4 \<le> a \<Longrightarrow> rd64s (wr32 pg b v32) a n = rd64s pg a n"
  "a + 8 * n \<le> b \<or> b + 8 \<le> a \<Longrightarrow> rd64s (wr64 pg b v64) a n = rd64s pg a n"
  "a + 8 * n \<le> b \<or> b + 1 \<le> a \<Longrightarrow> rd64s (wr_bool pg b vb) a n = rd64s pg a n"
  "a + 8 * n \<le> b \<or> b + length bs \<le> a \<Longrightarrow> rd64s (wr_bytes pg b bs) a n = rd64s pg a n"
  "a + 8 * n \<le> b \<or> b + 8 * length vs \<le> a \<Longrightarrow> rd64s (wr64s pg b vs) a n = rd64s pg a n"
  by (auto simp: rd64s_def page_simps)

subsection \<open>The type tag of a block\<close>

definition page_type :: "page \<Rightarrow> u32" where
  "page_type pg = rd32 pg 0"

definition set_page_type :: "page \<Rightarrow> block_type \<Rightarrow> page" where
  "set_page_type pg t = wr32 pg 0 (block_type_code t)"

lemma page_type_set [simp]: "page_type (set_page_type pg t) = block_type_code t"
  by (simp add: page_type_def set_page_type_def page_simps)

lemma page_type_wr [page_simps]:
  "4 \<le> b \<Longrightarrow> page_type (wr16 pg b v16) = page_type pg"
  "4 \<le> b \<Longrightarrow> page_type (wr32 pg b v32) = page_type pg"
  "4 \<le> b \<Longrightarrow> page_type (wr64 pg b v64) = page_type pg"
  "4 \<le> b \<Longrightarrow> page_type (wr_bool pg b vb) = page_type pg"
  "4 \<le> b \<Longrightarrow> page_type (wr_bytes pg b bs) = page_type pg"
  "4 \<le> b \<Longrightarrow> page_type (wr64s pg b vs) = page_type pg"
  by (simp_all add: page_type_def page_simps)

lemma rd_set_page_type [page_simps]:
  "4 \<le> a \<Longrightarrow> rd16 (set_page_type pg t) a = rd16 pg a"
  "4 \<le> a \<Longrightarrow> rd32 (set_page_type pg t) a = rd32 pg a"
  "4 \<le> a \<Longrightarrow> rd64 (set_page_type pg t) a = rd64 pg a"
  "4 \<le> a \<Longrightarrow> rd_bool (set_page_type pg t) a = rd_bool pg a"
  "4 \<le> a \<Longrightarrow> rd_bytes (set_page_type pg t) a n = rd_bytes pg a n"
  "4 \<le> a \<Longrightarrow> rd64s (set_page_type pg t) a n = rd64s pg a n"
  by (simp_all add: set_page_type_def page_simps)

end
