(* ===== verification/Disk.thy ===== *)
theory Disk
  imports Page
begin

text \<open>
  The disk image of \<open>disk.c\<close>, memory-mapped as an array of 4096-byte blocks, and the
  block interface of \<open>cache.c\<close> as it is compiled with \<open>CACHE_DISABLED\<close>: \<open>get_block\<close>
  hands out a pointer into the mapping, here the index of the block, and
  \<open>write_block\<close> has an empty body. A pointer stays valid for the whole run, and a
  store through it is seen by every later read of the block.
\<close>

subsection \<open>The memory-mapped image\<close>

record DiskInterface =
  disk_base :: "nat \<Rightarrow> page"
  total_blocks :: u64

definition page_at :: "DiskInterface \<Rightarrow> nat \<Rightarrow> page" where
  "page_at d k = disk_base d k"

definition set_page :: "DiskInterface \<Rightarrow> nat \<Rightarrow> page \<Rightarrow> DiskInterface" where
  "set_page d k pg = d\<lparr>disk_base := (disk_base d)(k := pg)\<rparr>"

lemma page_at_set_page [simp]: "page_at (set_page d k pg) j = (if j = k then pg else page_at d j)"
  by (simp add: page_at_def set_page_def)

lemma total_blocks_set_page [simp]: "total_blocks (set_page d k pg) = total_blocks d"
  by (simp add: set_page_def)

lemma set_page_set_page [simp]: "set_page (set_page d k pg) k pg' = set_page d k pg'"
  by (simp add: set_page_def)

lemma set_page_commute:
  "j \<noteq> k \<Longrightarrow> set_page (set_page d j p) k q = set_page (set_page d k q) j p"
  by (simp add: set_page_def fun_upd_twist)

lemma set_page_same [simp]: "set_page d k (page_at d k) = d"
  by (simp add: set_page_def page_at_def)

lemma disk_eqI:
  "total_blocks d = total_blocks d' \<Longrightarrow> (\<And>k. page_at d k = page_at d' k) \<Longrightarrow> d = (d' :: DiskInterface)"
  by (simp add: page_at_def fun_eq_iff)

text \<open>
  \<open>disk_open\<close>: the image file is a byte list, or \<open>None\<close> when \<open>stat\<close> fails and the
  function returns a null pointer, here the inner \<open>None\<close>. An empty file cannot be mapped:
  \<open>mmap\<close> fails and the assertion aborts the program. The mapping shows the bytes of the file.
\<close>

definition disk_open :: "u8 list option \<Rightarrow> DiskInterface option option" where
  "disk_open img = (case img of
     None \<Rightarrow> Some None
   | Some bytes \<Rightarrow>
       if bytes = [] then None
       else Some (Some \<lparr>
         disk_base = (\<lambda>b a. if BLOCK_SIZE * b + a < length bytes then bytes ! (BLOCK_SIZE * b + a) else 0),
         total_blocks = of_nat (length bytes div BLOCK_SIZE)\<rparr>))"

text \<open>\<open>disk_close\<close> unmaps the blocks; the shared mapping leaves them in the file.\<close>

definition disk_close :: "DiskInterface \<Rightarrow> u8 list" where
  "disk_close d = map (\<lambda>x. page_at d (x div BLOCK_SIZE) (x mod BLOCK_SIZE))
     [0..<unat (total_blocks d) * BLOCK_SIZE]"

lemma disk_close_open:
  assumes "length bytes < 2 ^ 63" and "disk_open (Some bytes) = Some (Some d)"
  shows "disk_close d = take (length bytes div BLOCK_SIZE * BLOCK_SIZE) bytes"
proof -
  have "length bytes div 4096 < 2 ^ 64"
    using assms(1) by (simp add: less_mult_imp_div_less)
  then have tb: "unat (of_nat (length bytes div 4096) :: u64) = length bytes div 4096"
    by (rule unat_of_nat_u64)
  have len: "length bytes div 4096 * 4096 \<le> length bytes"
    by simp
  from assms(2) have d: "total_blocks d = of_nat (length bytes div 4096)"
    "\<And>b a. page_at d b a = (if 4096 * b + a < length bytes then bytes ! (4096 * b + a) else 0)"
    by (auto simp: disk_open_def page_at_def split: if_splits)
  show ?thesis
    by (rule nth_equalityI)
      (use len in \<open>auto simp: d disk_close_def tb\<close>)
qed

subsection \<open>Access to a block\<close>

text \<open>
  The block number is an \<open>int\<close> and the offset \<open>BLOCK_SIZE * pnum\<close> is computed in
  \<open>int\<close>: beyond \<open>2 ^ 31\<close> bytes it overflows, and outside the mapping the pointer
  must not be used.
\<close>

definition disk_get_block :: "DiskInterface \<Rightarrow> int \<Rightarrow> nat option" where
  "disk_get_block d pnum =
     (if 0 \<le> pnum \<and> int BLOCK_SIZE * pnum < 2 ^ 31 \<and> pnum < uint (total_blocks d)
      then Some (nat pnum) else None)"

definition disk_read_block :: "DiskInterface \<Rightarrow> u64 \<Rightarrow> (int \<times> page) option" where
  "disk_read_block d block_num = do {
     block \<leftarrow> disk_get_block d (int_of_u64 block_num);
     Some (0, page_at d block)
   }"

definition disk_write_block :: "DiskInterface \<Rightarrow> u64 \<Rightarrow> page \<Rightarrow> (int \<times> DiskInterface) option" where
  "disk_write_block d block_num buffer = do {
     block \<leftarrow> disk_get_block d (int_of_u64 block_num);
     Some (0, set_page d block buffer)
   }"

text \<open>
  A block number that does not fit the \<open>int\<close> has an implementation-defined conversion, which
  the model leaves undefined here.
\<close>

definition get_block_direct :: "DiskInterface \<Rightarrow> u64 \<Rightarrow> u64 \<Rightarrow> nat option" where
  "get_block_direct d inum pnum =
     (if unat pnum < 2 ^ 31 then disk_get_block d (int_of_u64 pnum) else None)"

definition write_block_direct ::
    "DiskInterface \<Rightarrow> nat \<Rightarrow> u64 \<Rightarrow> u64 \<Rightarrow> DiskInterface" where
  "write_block_direct d buf inum pnum = d"

lemma write_block_direct_id [simp]: "write_block_direct d buf inum pnum = d"
  by (simp add: write_block_direct_def)

text \<open>The block numbers for which all of this is defined.\<close>

definition valid_block :: "DiskInterface \<Rightarrow> nat \<Rightarrow> bool" where
  "valid_block d k \<longleftrightarrow> k < 2 ^ 19 \<and> k < unat (total_blocks d)"

lemma valid_block_set_page [simp]: "valid_block (set_page d k pg) j = valid_block d j"
  by (simp add: valid_block_def)

lemma valid_block_mono: "valid_block d k \<Longrightarrow> j \<le> k \<Longrightarrow> valid_block d j"
  by (simp add: valid_block_def)

lemma valid_block_unat [simp]: "valid_block d k \<Longrightarrow> unat (of_nat k :: u64) = k"
  by (simp add: valid_block_def unat_of_nat_u64)

lemma disk_get_block_valid:
  "valid_block d k \<Longrightarrow> disk_get_block d (int k) = Some k"
  by (simp add: disk_get_block_def valid_block_def int_less_uint_iff)

lemma disk_get_block_Some:
  "disk_get_block d i = Some k \<longleftrightarrow> valid_block d k \<and> i = int k"
proof
  assume "disk_get_block d i = Some k"
  then show "valid_block d k \<and> i = int k"
    by (auto simp: disk_get_block_def valid_block_def nat_less_unat_iff split: if_splits)
next
  assume "valid_block d k \<and> i = int k"
  then show "disk_get_block d i = Some k"
    by (simp add: disk_get_block_valid)
qed

lemma int_of_u64_valid: "valid_block d (unat p) \<Longrightarrow> int_of_u64 p = int (unat p)"
  by (rule int_of_u64_small) (simp add: valid_block_def)

lemma int_of_u64_nat: "valid_block d k \<Longrightarrow> int_of_u64 (of_nat k) = int k"
  using int_of_u64_valid [of d "of_nat k"] valid_block_unat [of d k] by (metis)

lemma get_block_direct_unat [simp]:
  assumes "valid_block d (unat p)"
  shows "get_block_direct d inum p = Some (unat p)"
  unfolding get_block_direct_def int_of_u64_valid [OF assms]
  using disk_get_block_valid [OF assms] assms by (simp only: valid_block_def) simp

lemma get_block_direct_nat [simp]:
  "valid_block d k \<Longrightarrow> get_block_direct d inum (of_nat k) = Some k"
  by (metis get_block_direct_unat valid_block_unat)

lemma get_block_direct_Some:
  "get_block_direct d inum p = Some k \<Longrightarrow> valid_block d (unat p) \<and> k = unat p"
  by (simp only: get_block_direct_def split: if_splits)
    (auto simp only: disk_get_block_Some int_of_u64_small of_nat_eq_iff)

lemma get_block_direct_valid: "get_block_direct d inum p = Some k \<Longrightarrow> valid_block d k"
  using get_block_direct_Some by blast

lemma get_block_direct_set_page [simp]:
  "get_block_direct (set_page d k pg) inum p = get_block_direct d inum p"
  by (simp add: get_block_direct_def disk_get_block_def)

end
