(* ===== verification/Superblock.thy ===== *)
theory Superblock
  imports Disk
begin

text \<open>
  The superblock of \<open>superblock.c\<close>: the structure behind the type tag of block 0
  (seven 64-bit fields, a 32-byte label and two time stamps, 104 bytes without
  padding), its initialisation and the layout arithmetic that the other components
  use to find the bitmaps and the inode table.
\<close>

record Superblock =
  magic_number :: u64
  block_size :: u64
  sb_total_blocks :: u64
  free_blocks :: u64
  inode_bitmap :: u64
  root_inode :: u64
  btree_root :: u64
  volume_name :: "u8 list"
  sb_creation_time :: u64
  last_mount_time :: u64

definition superblock_of_page :: "page \<Rightarrow> Superblock" where
  "superblock_of_page pg = \<lparr>
     magic_number = rd64 pg 4,
     block_size = rd64 pg 12,
     sb_total_blocks = rd64 pg 20,
     free_blocks = rd64 pg 28,
     inode_bitmap = rd64 pg 36,
     root_inode = rd64 pg 44,
     btree_root = rd64 pg 52,
     volume_name = rd_bytes pg 60 32,
     sb_creation_time = rd64 pg 92,
     last_mount_time = rd64 pg 100\<rparr>"

definition superblock_to_page :: "Superblock \<Rightarrow> page \<Rightarrow> page" where
  "superblock_to_page sb pg =
     wr64 (wr64 (wr_bytes (wr64 (wr64 (wr64 (wr64 (wr64 (wr64 (wr64 pg
       4 (magic_number sb))
       12 (block_size sb))
       20 (sb_total_blocks sb))
       28 (free_blocks sb))
       36 (inode_bitmap sb))
       44 (root_inode sb))
       52 (btree_root sb))
       60 (volume_name sb))
       92 (sb_creation_time sb))
       100 (last_mount_time sb)"

lemma superblock_of_to_page:
  "length (volume_name sb) = 32 \<Longrightarrow> superblock_of_page (superblock_to_page sb pg) = sb"
  by (simp add: superblock_of_page_def superblock_to_page_def page_simps)

lemma page_type_superblock_to_page [simp]:
  "page_type (superblock_to_page sb pg) = page_type pg"
  by (simp add: superblock_to_page_def page_simps)

lemma volume_name_length [simp]: "length (volume_name (superblock_of_page pg)) = 32"
  by (simp add: superblock_of_page_def)

subsection \<open>Reading and writing it\<close>

text \<open>
  \<open>superblock_read\<close> fills the caller's structure, or leaves it untouched (\<open>None\<close>) when
  block 0 has another type.
\<close>

definition superblock_read :: "DiskInterface \<Rightarrow> (int \<times> Superblock option) option" where
  "superblock_read d = do {
     k \<leftarrow> get_block_direct d 0 0;
     if page_type (page_at d k) \<noteq> block_type_code BLOCK_TYPE_SUPER then Some (-1, None)
     else Some (0, Some (superblock_of_page (page_at d k)))
   }"

definition superblock_write :: "DiskInterface \<Rightarrow> Superblock \<Rightarrow> (int \<times> DiskInterface) option" where
  "superblock_write d sb = do {
     k \<leftarrow> get_block_direct d 0 0;
     if page_type (page_at d k) \<noteq> block_type_code BLOCK_TYPE_SUPER then Some (-1, d)
     else
       let d1 = set_page d k (superblock_to_page sb (page_at d k))
       in Some (0, write_block_direct d1 k 0 0)
   }"

subsection \<open>Layout arithmetic\<close>

text \<open>\<open>sizeof(Inode)\<close> on the platforms the makefiles name.\<close>

definition sizeof_Inode :: nat where [simp]: "sizeof_Inode = 184"

definition calculate_inode_bitmap_size :: "Superblock \<Rightarrow> int" where
  "calculate_inode_bitmap_size sb =
     (let t = sb_total_blocks sb; u = of_nat (4 * USABLE_BLOCK_SIZE) :: u64
      in int_of_u64 (if t mod u \<noteq> 0 then t div u + 1 else t div u))"

definition calculate_inode_table_size :: "Superblock \<Rightarrow> int" where
  "calculate_inode_table_size sb =
     int_of_u64 ((sb_total_blocks sb div 4) div of_nat (USABLE_BLOCK_SIZE div sizeof_Inode))"

text \<open>The first block of the inode table, as every caller computes it.\<close>

definition inode_table_start :: "Superblock \<Rightarrow> u64" where
  "inode_table_start sb = inode_bitmap sb + u64_of_int (calculate_inode_bitmap_size sb)"

definition block_bitmap_space :: "u64 \<Rightarrow> u32" where
  "block_bitmap_space t =
     (let u = of_nat USABLE_BLOCK_SIZE :: u64
      in ucast (if t mod u \<noteq> 0 then t div u + 1 else t div u))"

text \<open>
  \<open>superblock_initialize\<close>: the label is a C string given by its bytes, \<open>strcpy\<close> stores
  them and the terminating zero; \<open>now\<close> is what \<open>time(NULL)\<close> returns.
\<close>

definition superblock_initialize ::
    "DiskInterface \<Rightarrow> u8 list \<Rightarrow> u64 \<Rightarrow> (int \<times> DiskInterface) option" where
  "superblock_initialize d name now =
     (if length name > 31 then Some (-1, d)
      else do {
        k \<leftarrow> get_block_direct d 0 0;
        let p0 = set_page_type (page_at d k) BLOCK_TYPE_SUPER;
        let p1 = wr64 p0 4 0x53465452424e;
        let p2 = wr64 p1 12 (of_nat BLOCK_SIZE);
        let p3 = wr64 p2 20 (total_blocks d);
        let p4 = wr64 p3 28 (total_blocks d);
        let bs = block_bitmap_space (rd64 p4 20);
        let p5 = wr64 p4 36 (ucast (1 + bs));
        let p6 = wr_bytes p5 60 (name @ [0]);
        let p7 = wr64 p6 92 now;
        Some (0, set_page d k p7)
      })"

subsection \<open>Facts\<close>

definition super_ok :: "DiskInterface \<Rightarrow> bool" where
  "super_ok d \<longleftrightarrow> valid_block d 0 \<and> page_type (page_at d 0) = block_type_code BLOCK_TYPE_SUPER"

definition the_sb :: "DiskInterface \<Rightarrow> Superblock" where
  "the_sb d = superblock_of_page (page_at d 0)"

lemma get_block_direct_0 [simp]: "valid_block d 0 \<Longrightarrow> get_block_direct d inum 0 = Some 0"
  using get_block_direct_nat [of d 0 inum] by simp

lemma superblock_read_ok: "super_ok d \<Longrightarrow> superblock_read d = Some (0, Some (the_sb d))"
  by (simp add: super_ok_def superblock_read_def the_sb_def)

lemma superblock_write_ok:
  "super_ok d \<Longrightarrow> superblock_write d sb = Some (0, set_page d 0 (superblock_to_page sb (page_at d 0)))"
  by (simp add: super_ok_def superblock_write_def)

lemma superblock_write_not_super:
  "valid_block d 0 \<Longrightarrow> page_type (page_at d 0) \<noteq> block_type_code BLOCK_TYPE_SUPER \<Longrightarrow>
   superblock_write d sb = Some (-1, d)"
  by (simp add: superblock_write_def)

lemma super_ok_set_page_other [simp]: "k \<noteq> 0 \<Longrightarrow> super_ok (set_page d k pg) = super_ok d"
  by (simp add: super_ok_def)

lemma the_sb_set_page_other [simp]: "k \<noteq> 0 \<Longrightarrow> the_sb (set_page d k pg) = the_sb d"
  by (simp add: the_sb_def)

lemma super_ok_set_page_0 [simp]:
  "super_ok (set_page d 0 (superblock_to_page sb (page_at d 0))) = super_ok d"
  by (simp add: super_ok_def)

lemma the_sb_set_page_0 [simp]:
  "length (volume_name sb) = 32 \<Longrightarrow> the_sb (set_page d 0 (superblock_to_page sb pg)) = sb"
  by (simp add: the_sb_def superblock_of_to_page)

lemma the_sb_volume_name [simp]: "length (volume_name (the_sb d)) = 32"
  by (simp add: the_sb_def)

text \<open>Ceiling division, as the two sizes compute it.\<close>

lemma u64_ceil_div:
  assumes "0 < u" "u < 2 ^ 32"
  shows "unat (if (t :: u64) mod of_nat u \<noteq> 0 then t div of_nat u + 1 else t div of_nat u)
       = (unat t + u - 1) div u"
proof -
  have u: "unat (of_nat u :: u64) = u"
    using assms(2) by (intro unat_of_nat_u64) simp
  have z: "t mod of_nat u = 0 \<longleftrightarrow> unat t mod u = 0"
    by (metis u unat_eq_zero unat_mod)
  have d: "unat (t div of_nat u) = unat t div u"
    by (simp add: unat_div u)
  have ceil: "(unat t + u - 1) div u = (if unat t mod u = 0 then unat t div u else Suc (unat t div u))"
  proof (cases "unat t mod u = 0")
    case True
    then obtain q where q: "unat t = q * u"
      by (metis dvdE mod_0_imp_dvd mult.commute)
    have "q * u + u - 1 = (u - 1) + q * u"
      using assms(1) by simp
    moreover have "((u - 1) + q * u) div u = q"
      using assms(1) by (simp only: div_mult_self1) simp
    ultimately have "(q * u + u - 1) div u = q" by simp
    then show ?thesis using True q assms(1) by simp
  next
    case False
    have eq: "unat t + u - 1 = unat t mod u - 1 + Suc (unat t div u) * u"
      using False assms(1) div_mult_mod_eq [of "unat t" u] by simp
    have "unat t mod u - 1 < u"
      using assms(1) by (meson less_imp_diff_less mod_less_divisor)
    then have "(unat t mod u - 1 + Suc (unat t div u) * u) div u = Suc (unat t div u)"
      using assms(1) by (simp only: div_mult_self1) simp
    with False eq show ?thesis by simp
  qed
  have lt: "unat t div u + 1 < 2 ^ 64" if "unat t mod u \<noteq> 0"
  proof -
    have "u \<noteq> 1" using that by auto
    then have "2 \<le> u" using assms(1) by simp
    then have "unat t div u \<le> unat t div 2"
      by (simp add: div_le_mono2)
    then show ?thesis using unat_u64_less [of t] by simp
  qed
  have s: "unat (t div of_nat u + 1) = Suc (unat t div u)" if "unat t mod u \<noteq> 0"
    using lt [OF that] d by (simp add: unat_word_ariths)
  show ?thesis
    using z d ceil s by simp
qed

lemma calculate_inode_bitmap_size_ceil:
  assumes "unat (sb_total_blocks sb) < 2 ^ 31"
  shows "calculate_inode_bitmap_size sb = int ((unat (sb_total_blocks sb) + 16367) div 16368)"
proof -
  let ?u = "4 * USABLE_BLOCK_SIZE"
  let ?w = "if sb_total_blocks sb mod of_nat ?u \<noteq> 0 then sb_total_blocks sb div of_nat ?u + 1
    else sb_total_blocks sb div (of_nat ?u :: u64)"
  have w: "unat ?w = (unat (sb_total_blocks sb) + ?u - 1) div ?u"
    by (rule u64_ceil_div) simp_all
  with assms have "unat ?w < 2 ^ 31" by simp
  then have "int_of_u64 ?w = int (unat ?w)"
    by (rule int_of_u64_small)
  then have "calculate_inode_bitmap_size sb = int (unat ?w)"
    by (simp only: calculate_inode_bitmap_size_def Let_def)
  with w show ?thesis by simp
qed

lemma calculate_inode_table_size_floor:
  assumes "unat (sb_total_blocks sb) < 2 ^ 31"
  shows "calculate_inode_table_size sb = int (unat (sb_total_blocks sb) div 88)"
proof -
  let ?w = "(sb_total_blocks sb div 4) div (22 :: u64)"
  have w: "unat ?w = unat (sb_total_blocks sb) div 88"
    by (simp add: unat_div div_mult2_eq [symmetric])
  with assms have "unat ?w < 2 ^ 31" by simp
  then have "int_of_u64 ?w = int (unat ?w)"
    by (rule int_of_u64_small)
  with w show ?thesis
    by (simp add: calculate_inode_table_size_def)
qed

end
