(* ===== verification/Bitmap.thy ===== *)
theory Bitmap
  imports Page
begin

text \<open>
  The allocation bitmaps of \<open>bitmap.c\<close>: bit \<open>ii\<close> of a bitmap block is bit
  \<open>ii mod 64\<close> of its 64-bit word \<open>ii div 64\<close>, the words following the type tag.
  The index is a C \<open>int\<close>. A negative one shifts by a negative amount or reaches in
  front of the block, a large one reaches behind it: both are undefined here.
\<close>

unbundle bit_operations_syntax

text \<open>The C expression \<open>(uint64_t)1 << k\<close>.\<close>

definition one_shl :: "nat \<Rightarrow> u64" where
  "one_shl k = push_bit k 1"

lemma bit_one_shl [simp]: "bit (one_shl k) j \<longleftrightarrow> j = k \<and> k < 64"
  by (auto simp: one_shl_def bit_push_bit_iff bit_1_iff bit_exp_iff)

definition bitmap_index_ok :: "int \<Rightarrow> bool" where
  "bitmap_index_ok ii \<longleftrightarrow> 0 \<le> ii \<and> 4 + 8 * (nat ii div 64) + 8 \<le> BLOCK_SIZE"

definition bitmap_get :: "page \<Rightarrow> int \<Rightarrow> int option" where
  "bitmap_get bm ii =
     (if page_type bm \<noteq> block_type_code BLOCK_TYPE_BITMAP then Some (-1)
      else if \<not> bitmap_index_ok ii then None
      else
        let w = rd64 bm (4 + 8 * (nat ii div 64));
            k = nat ii mod 64
        in Some (uint (drop_bit k (w AND one_shl k))))"

definition bitmap_put :: "page \<Rightarrow> int \<Rightarrow> int \<Rightarrow> (int \<times> page) option" where
  "bitmap_put bm ii vv =
     (if page_type bm \<noteq> block_type_code BLOCK_TYPE_BITMAP then Some (-1, bm)
      else if \<not> bitmap_index_ok ii then None
      else
        let a = 4 + 8 * (nat ii div 64);
            w = rd64 bm a;
            k = nat ii mod 64
        in Some (0, wr64 bm a (if vv = 0 then w AND NOT (one_shl k) else w OR one_shl k)))"

subsection \<open>Bits of a bitmap block\<close>

text \<open>What the block means: the truth value of each index.\<close>

definition bitmap_bit :: "page \<Rightarrow> nat \<Rightarrow> bool" where
  "bitmap_bit bm i \<longleftrightarrow> bit (rd64 bm (4 + 8 * (i div 64))) (i mod 64)"

definition is_bitmap :: "page \<Rightarrow> bool" where
  "is_bitmap bm \<longleftrightarrow> page_type bm = block_type_code BLOCK_TYPE_BITMAP"

lemma bitmap_index_ok_nat: "i < USABLE_BLOCK_SIZE \<Longrightarrow> bitmap_index_ok (int i)"
  by (simp add: bitmap_index_ok_def)

lemma extract_bit:
  "k < 64 \<Longrightarrow> drop_bit k (w AND one_shl k) = (of_bool (bit w k) :: u64)"
  by (rule bit_word_eqI)
    (auto simp del: drop_bit_and simp: bit_drop_bit_eq bit_and_iff bit_1_iff intro: gr0I split: if_splits)

lemma bitmap_get_bit:
  assumes "is_bitmap bm" and "bitmap_index_ok (int i)"
  shows "bitmap_get bm (int i) = Some (of_bool (bitmap_bit bm i))"
  using assms by (simp add: bitmap_get_def is_bitmap_def bitmap_bit_def extract_bit Let_def del: drop_bit_and)

lemma bitmap_get_other: "\<not> is_bitmap bm \<Longrightarrow> bitmap_get bm i = Some (-1)"
  by (simp add: bitmap_get_def is_bitmap_def)

lemma bitmap_put_other: "\<not> is_bitmap bm \<Longrightarrow> bitmap_put bm i v = Some (-1, bm)"
  by (simp add: bitmap_put_def is_bitmap_def)

text \<open>The block that \<open>bitmap_put\<close> leaves, and what it means.\<close>

definition bitmap_set :: "page \<Rightarrow> nat \<Rightarrow> bool \<Rightarrow> page" where
  "bitmap_set bm i v =
     (let a = 4 + 8 * (i div 64); w = rd64 bm a
      in wr64 bm a (if v then w OR one_shl (i mod 64) else w AND NOT (one_shl (i mod 64))))"

lemma bitmap_put_set:
  assumes "is_bitmap bm" and "bitmap_index_ok (int i)"
  shows "bitmap_put bm (int i) v = Some (0, bitmap_set bm i (v \<noteq> 0))"
  using assms by (simp add: bitmap_put_def is_bitmap_def bitmap_set_def Let_def)

lemma is_bitmap_set [simp]: "is_bitmap (bitmap_set bm i v) = is_bitmap bm"
  by (simp add: is_bitmap_def bitmap_set_def Let_def page_simps)

lemma bit_or_one: "k < 64 \<Longrightarrow> j < 64 \<Longrightarrow> bit (w OR one_shl k :: u64) j \<longleftrightarrow> j = k \<or> bit w j"
  by (auto simp: bit_or_iff)

lemma bit_and_not_one:
  "k < 64 \<Longrightarrow> j < 64 \<Longrightarrow> bit (w AND NOT (one_shl k) :: u64) j \<longleftrightarrow> j \<noteq> k \<and> bit w j"
  by (auto simp: bit_and_iff bit_not_iff)

lemma bitmap_bit_set [simp]:
  "bitmap_bit (bitmap_set bm i v) j = (if j = i then v else bitmap_bit bm j)"
proof (cases "j div 64 = i div 64")
  case True
  then have "j mod 64 = i mod 64 \<longleftrightarrow> j = i"
    by (metis div_mult_mod_eq)
  with True show ?thesis
    by (auto simp: bitmap_bit_def bitmap_set_def Let_def page_simps bit_or_one bit_and_not_one)
next
  case False
  then have "4 + 8 * (j div 64) + 8 \<le> 4 + 8 * (i div 64) \<or> 4 + 8 * (i div 64) + 8 \<le> 4 + 8 * (j div 64)"
    by linarith
  with False show ?thesis
    by (auto simp: bitmap_bit_def bitmap_set_def Let_def page_simps)
qed

end
