(* ===== verification/Alloc.thy ===== *)
theory Alloc
  imports Superblock Bitmap "HOL-Library.Signed_Division"
begin

text \<open>
  Block allocation of \<open>disk.c\<close>: \<open>alloc_page\<close> scans the block bitmaps, which start at
  block 1 and use \<open>USABLE_BLOCK_SIZE\<close> bits each, for the first clear bit below
  \<open>total_blocks\<close>; \<open>free_page\<close> clears a bit. Both rewrite the free-block count of the
  superblock.
\<close>

subsection \<open>An allocator that hands out the first free index\<close>

text \<open>
  The interface its clients rely on: which indices are in use, the code a successful
  and a failing call return, and what a call changes; \<open>same\<close> relates two states that
  agree on everything else.
\<close>

locale first_fit =
  fixes ok :: "'s \<Rightarrow> bool"
    and cap :: "'s \<Rightarrow> nat"
    and in_use :: "'s \<Rightarrow> nat \<Rightarrow> bool"
    and alloc :: "'s \<Rightarrow> ('r \<times> 's) option"
    and code :: "nat \<Rightarrow> 'r"
    and same :: "'s \<Rightarrow> 's \<Rightarrow> bool"
  assumes alloc_found:
      "ok s \<Longrightarrow> b < cap s \<Longrightarrow> \<not> in_use s b \<Longrightarrow> \<forall>c<b. in_use s c \<Longrightarrow>
       \<exists>s'. alloc s = Some (code b, s') \<and> ok s' \<and> cap s' = cap s
         \<and> in_use s' = (in_use s)(b := True) \<and> same s s'"
    and same_refl: "same s s"
    and same_trans: "same s s' \<Longrightarrow> same s' s'' \<Longrightarrow> same s s''"

text \<open>An allocator that reports a full volume and leaves it as it is.\<close>

locale first_fit_total = first_fit +
  fixes fail :: "'b"
  assumes alloc_full: "ok s \<Longrightarrow> \<forall>b<cap s. in_use s b \<Longrightarrow> alloc s = Some (fail, s)"

text \<open>Calls in a row, given up when one returns the failure code.\<close>

primrec alloc_times :: "('s \<Rightarrow> ('r \<times> 's) option) \<Rightarrow> ('r \<Rightarrow> bool) \<Rightarrow> nat \<Rightarrow> 's \<Rightarrow> (bool \<times> 's) option" where
  "alloc_times alloc failed 0 s = Some (True, s)"
| "alloc_times alloc failed (Suc n) s = do {
     (r, s') \<leftarrow> alloc s;
     if failed r then Some (False, s') else alloc_times alloc failed n s'
   }"

context first_fit begin

text \<open>Consecutive calls extend a prefix of used indices one by one.\<close>

lemma alloc_times_prefix:
  "ok s \<Longrightarrow> (\<And>b. in_use s b \<longleftrightarrow> b < k) \<Longrightarrow> k + n \<le> cap s \<Longrightarrow>
   (\<And>b. k \<le> b \<Longrightarrow> b < k + n \<Longrightarrow> \<not> failed (code b)) \<Longrightarrow>
   \<exists>s'. alloc_times alloc failed n s = Some (True, s') \<and> ok s' \<and> cap s' = cap s
     \<and> (\<forall>b. in_use s' b \<longleftrightarrow> b < k + n) \<and> same s s'"
proof (induction n arbitrary: s k)
  case 0
  then show ?case by (simp add: same_refl)
next
  case (Suc n)
  have "k < cap s" "\<not> in_use s k" "\<forall>c<k. in_use s c"
    using Suc.prems by auto
  then obtain s1 where s1: "alloc s = Some (code k, s1)" "ok s1" "cap s1 = cap s"
      "in_use s1 = (in_use s)(k := True)" "same s s1"
    using alloc_found [OF Suc.prems(1)] by blast
  have "in_use s1 b \<longleftrightarrow> b < Suc k" for b
    unfolding s1(4) fun_upd_apply Suc.prems(2) by (simp add: less_Suc_eq)
  then have "\<exists>s'. alloc_times alloc failed n s1 = Some (True, s') \<and> ok s' \<and> cap s' = cap s1
      \<and> (\<forall>b. in_use s' b \<longleftrightarrow> b < Suc k + n) \<and> same s1 s'"
    using Suc.IH [of s1 "Suc k"] s1(2,3) Suc.prems(3,4) by simp
  moreover have "\<not> failed (code k)" using Suc.prems(4) [of k] by simp
  ultimately show ?case
    using s1(1,3,5) same_trans by auto
qed

end

context first_fit_total begin

lemma alloc_total: "ok s \<Longrightarrow> \<exists>r s'. alloc s = Some (r, s') \<and> ok s' \<and> cap s' = cap s"
proof (cases "\<forall>b<cap s. in_use s b")
  case True
  moreover assume "ok s"
  ultimately show ?thesis using alloc_full by blast
next
  case False
  moreover assume "ok s"
  moreover from False obtain b where "b < cap s" "\<not> in_use s b" "\<forall>c<b. in_use s c"
    using exists_least_iff [of "\<lambda>b. b < cap s \<and> \<not> in_use s b"] by (auto dest: less_trans)
  ultimately show ?thesis using alloc_found by blast
qed

end

subsection \<open>alloc\_page\<close>

text \<open>
  Storing a superblock that \<open>superblock_read\<close> did not fill: the write refuses as the
  read did, unless the type tag changed in between.
\<close>

definition superblock_write_opt ::
    "DiskInterface \<Rightarrow> Superblock option \<Rightarrow> (int \<times> DiskInterface) option" where
  "superblock_write_opt d sbo = (case sbo of
     Some sb \<Rightarrow> superblock_write d sb
   | None \<Rightarrow> (if page_type (page_at d 0) = block_type_code BLOCK_TYPE_SUPER then None
             else Some (-1, d)))"

definition dec_free_blocks :: "Superblock option \<Rightarrow> Superblock option" where
  "dec_free_blocks = map_option (\<lambda>sb. sb\<lparr>free_blocks := free_blocks sb - 1\<rparr>)"

text \<open>
  The loop of \<open>alloc_page\<close>: \<open>r\<close> iterations are left, \<open>ii\<close> is the loop counter, which
  overflows at \<open>2 ^ 31\<close>, \<open>pbm\<close> points to the bitmap block number \<open>pbmn\<close>.
\<close>

fun alloc_scan ::
    "nat \<Rightarrow> DiskInterface \<Rightarrow> Superblock option \<Rightarrow> nat \<Rightarrow> nat \<Rightarrow> nat \<Rightarrow> (u64 \<times> DiskInterface) option" where
  "alloc_scan 0 d sbo pbm pbmn ii = Some (0, d)"
| "alloc_scan (Suc r) d sbo pbm pbmn ii =
     (if 2 ^ 31 \<le> ii then None
      else do {
        (pbm, pbmn) \<leftarrow>
          (if ii mod USABLE_BLOCK_SIZE = 0 \<and> ii \<noteq> 0
           then do { k \<leftarrow> get_block_direct d 0 (of_nat (pbmn + 1)); Some (k, pbmn + 1) }
           else Some (pbm, pbmn));
        let idx = int ii - int ((pbmn - 1) * USABLE_BLOCK_SIZE);
        b \<leftarrow> bitmap_get (page_at d pbm) idx;
        if b = 0 then do {
          (rv, pg) \<leftarrow> bitmap_put (page_at d pbm) idx 1;
          let d1 = set_page d pbm pg;
          if rv \<noteq> 0 then Some (0, d1)
          else do {
            (_, d2) \<leftarrow> superblock_write_opt d1 (dec_free_blocks sbo);
            Some (of_nat ii, write_block_direct d2 pbm 0 (of_nat pbmn))
          }
        }
        else alloc_scan r d sbo pbm pbmn (Suc ii)
      })"

definition alloc_page :: "DiskInterface \<Rightarrow> (u64 \<times> DiskInterface) option" where
  "alloc_page d = do {
     pbm \<leftarrow> get_block_direct d 0 1;
     (_, sbo) \<leftarrow> superblock_read d;
     alloc_scan (unat (total_blocks d)) d sbo pbm 1 0
   }"

subsection \<open>free\_page\<close>

definition free_page :: "DiskInterface \<Rightarrow> int \<Rightarrow> DiskInterface option" where
  "free_page d pnum = do {
     let pbmn = 1 + (pnum sdiv int USABLE_BLOCK_SIZE);
     pbm \<leftarrow> get_block_direct d 0 (u64_of_int pbmn);
     (_, sbo) \<leftarrow> superblock_read d;
     (_, pg) \<leftarrow> bitmap_put (page_at d pbm) (pnum - (pbmn - 1) * int USABLE_BLOCK_SIZE) 0;
     let d1 = set_page d pbm pg;
     (_, d2) \<leftarrow> superblock_write_opt d1 (dec_free_blocks sbo);
     Some (write_block_direct d2 pbm 0 (u64_of_int pbmn))
   }"

subsection \<open>What the bitmaps mean\<close>

definition bitmap_block :: "nat \<Rightarrow> nat" where
  "bitmap_block b = 1 + b div USABLE_BLOCK_SIZE"

definition used :: "DiskInterface \<Rightarrow> nat \<Rightarrow> bool" where
  "used d b \<longleftrightarrow> bitmap_bit (page_at d (bitmap_block b)) (b mod USABLE_BLOCK_SIZE)"

definition n_blocks :: "DiskInterface \<Rightarrow> nat" where
  "n_blocks d = unat (total_blocks d)"

text \<open>A volume on which allocation is defined: a superblock, and bitmaps for every block.\<close>

definition alloc_ok :: "DiskInterface \<Rightarrow> bool" where
  "alloc_ok d \<longleftrightarrow> super_ok d \<and> n_blocks d \<le> 2 ^ 19 \<and>
     (\<forall>b<n_blocks d. valid_block d (bitmap_block b) \<and> is_bitmap (page_at d (bitmap_block b)))"

definition set_used :: "DiskInterface \<Rightarrow> nat \<Rightarrow> bool \<Rightarrow> DiskInterface" where
  "set_used d b v =
     set_page d (bitmap_block b) (bitmap_set (page_at d (bitmap_block b)) (b mod USABLE_BLOCK_SIZE) v)"

definition set_free_blocks :: "DiskInterface \<Rightarrow> u64 \<Rightarrow> DiskInterface" where
  "set_free_blocks d n =
     set_page d 0 (superblock_to_page ((the_sb d)\<lparr>free_blocks := n\<rparr>) (page_at d 0))"

lemma bitmap_block_pos [simp]: "0 < bitmap_block b" "bitmap_block b \<noteq> 0"
  by (simp_all add: bitmap_block_def)

lemma n_blocks_set_page [simp]: "n_blocks (set_page d k pg) = n_blocks d"
  by (simp add: n_blocks_def)

lemma n_blocks_updates [simp]:
  "n_blocks (set_used d b v) = n_blocks d"
  "n_blocks (set_free_blocks d n) = n_blocks d"
  by (simp_all add: set_used_def set_free_blocks_def)

lemma valid_block_updates [simp]:
  "valid_block (set_used d b v) k = valid_block d k"
  "valid_block (set_free_blocks d n) k = valid_block d k"
  by (simp_all add: set_used_def set_free_blocks_def)

lemma used_set_used [simp]:
  "used (set_used d b v) c = (if c = b then v else used d c)"
proof (cases "bitmap_block c = bitmap_block b")
  case True
  then have "c mod 4092 = b mod 4092 \<longleftrightarrow> c = b"
    by (metis One_nat_def USABLE_BLOCK_SIZE_def add_left_cancel bitmap_block_def div_mult_mod_eq)
  with True show ?thesis by (simp add: used_def set_used_def)
next
  case False
  then show ?thesis by (auto simp: used_def set_used_def)
qed

lemma used_set_free_blocks [simp]: "used (set_free_blocks d n) c = used d c"
  by (simp add: used_def set_free_blocks_def)

lemma the_sb_updates [simp]:
  "the_sb (set_used d b v) = the_sb d"
  "the_sb (set_free_blocks d n) = (the_sb d)\<lparr>free_blocks := n\<rparr>"
  by (simp_all add: set_used_def set_free_blocks_def)

lemma super_ok_updates [simp]:
  "super_ok (set_used d b v) = super_ok d"
  "super_ok (set_free_blocks d n) = super_ok d"
  by (simp_all add: set_used_def set_free_blocks_def)

lemma page_at_set_used_other: "k \<noteq> bitmap_block b \<Longrightarrow> page_at (set_used d b v) k = page_at d k"
  by (simp add: set_used_def)

lemma page_at_set_free_blocks_other: "k \<noteq> 0 \<Longrightarrow> page_at (set_free_blocks d n) k = page_at d k"
  by (simp add: set_free_blocks_def)

lemma is_bitmap_updates [simp]:
  "is_bitmap (page_at (set_used d b v) k) = is_bitmap (page_at d k)"
  by (simp add: set_used_def)

lemma alloc_ok_updates [simp]:
  "alloc_ok (set_used d b v) = alloc_ok d"
  "alloc_ok (set_free_blocks d n) = alloc_ok d"
  by (simp_all add: alloc_ok_def page_at_set_free_blocks_other)

lemma alloc_okD:
  assumes "alloc_ok d" "b < n_blocks d"
  shows "valid_block d (bitmap_block b)" "is_bitmap (page_at d (bitmap_block b))" "super_ok d"
    "b < 2 ^ 19"
  using assms by (auto simp: alloc_ok_def)

lemma superblock_write_opt_dec:
  "super_ok d \<Longrightarrow> the_sb d = sb \<Longrightarrow>
   superblock_write_opt d (dec_free_blocks (Some sb)) = Some (0, set_free_blocks d (free_blocks sb - 1))"
  by (simp add: superblock_write_opt_def dec_free_blocks_def superblock_write_ok set_free_blocks_def)

subsection \<open>Correctness of the scan\<close>

text \<open>The loop head keeps \<open>pbm\<close> on the bitmap block of \<open>ii\<close>.\<close>

definition scan_at :: "nat \<Rightarrow> nat \<Rightarrow> bool" where
  "scan_at pbmn ii \<longleftrightarrow> pbmn = (if ii = 0 then 1 else bitmap_block (ii - 1))"

lemma scan_at_next:
  assumes "scan_at pbmn ii"
  shows "ii mod 4092 = 0 \<and> ii \<noteq> 0 \<Longrightarrow> pbmn + 1 = bitmap_block ii"
    "\<not> (ii mod 4092 = 0 \<and> ii \<noteq> 0) \<Longrightarrow> pbmn = bitmap_block ii"
proof -
  show "pbmn + 1 = bitmap_block ii" if "ii mod 4092 = 0 \<and> ii \<noteq> 0"
    using assms that by (auto simp: scan_at_def bitmap_block_def elim!: dvdE)
  show "pbmn = bitmap_block ii" if "\<not> (ii mod 4092 = 0 \<and> ii \<noteq> 0)"
    using assms that by (cases ii) (auto simp: scan_at_def bitmap_block_def div_Suc)
qed

lemma scan_head:
  assumes "alloc_ok d" "ii < n_blocks d" "scan_at pbmn ii"
  shows "(if ii mod USABLE_BLOCK_SIZE = 0 \<and> ii \<noteq> 0
          then do { k \<leftarrow> get_block_direct d 0 (of_nat (pbmn + 1)); Some (k, pbmn + 1) }
          else Some (pbmn, pbmn)) = Some (bitmap_block ii, bitmap_block ii)"
proof (cases "ii mod 4092 = 0 \<and> ii \<noteq> 0")
  case True
  with scan_at_next(1) [OF assms(3)] alloc_okD(1) [OF assms(1,2)] show ?thesis by simp
next
  case False
  with scan_at_next(2) [OF assms(3)] show ?thesis by auto
qed

lemma scan_index: "int b - int ((bitmap_block b - 1) * USABLE_BLOCK_SIZE) = int (b mod USABLE_BLOCK_SIZE)"
  by (simp add: bitmap_block_def minus_div_mult_eq_mod [symmetric] of_nat_diff)

lemma scan_get:
  assumes "alloc_ok d" "b < n_blocks d"
  shows "bitmap_get (page_at d (bitmap_block b)) (int (b mod USABLE_BLOCK_SIZE)) = Some (of_bool (used d b))"
  using assms alloc_okD(2) [OF assms] bitmap_index_ok_nat [of "b mod 4092"]
  by (simp add: bitmap_get_bit used_def)

lemma scan_at_Suc: "scan_at (bitmap_block ii) (Suc ii)"
  by (simp add: scan_at_def)

definition alloc_result :: "DiskInterface \<Rightarrow> nat \<Rightarrow> DiskInterface" where
  "alloc_result d b = set_free_blocks (set_used d b True) (free_blocks (the_sb d) - 1)"

lemma alloc_scan_found:
  assumes "alloc_ok d" "b < n_blocks d" "\<not> used d b" "\<forall>c<b. used d c"
    and "ii + r = n_blocks d" "ii \<le> b" "scan_at pbmn ii"
  shows "alloc_scan r d (Some (the_sb d)) pbmn pbmn ii = Some (of_nat b, alloc_result d b)"
  using assms(5-7)
proof (induction r arbitrary: ii pbmn)
  case 0
  then show ?case using assms(2) by simp
next
  case (Suc r)
  have ii: "ii < n_blocks d" using Suc.prems by simp
  then have small: "ii < 2 ^ 31" using alloc_okD(4) [OF assms(1)] by fastforce
  note head = scan_head [OF assms(1) ii Suc.prems(3)]
  show ?case
  proof (cases "ii = b")
    case True
    have "bitmap_put (page_at d (bitmap_block b)) (int (b mod USABLE_BLOCK_SIZE)) 1
        = Some (0, bitmap_set (page_at d (bitmap_block b)) (b mod USABLE_BLOCK_SIZE) True)"
      using alloc_okD(2) [OF assms(1,2)] bitmap_index_ok_nat [of "b mod 4092"]
      by (simp add: bitmap_put_set)
    then show ?thesis
      unfolding alloc_scan.simps head bind.simps prod.case Let_def scan_index
      using True small assms(3) alloc_okD(3) [OF assms(1,2)]
      by (simp del: USABLE_BLOCK_SIZE_def
          add: scan_get [OF assms(1,2)] set_used_def [symmetric]
            superblock_write_opt_dec alloc_result_def)
  next
    case False
    with Suc.prems assms(4) have "used d ii" by simp
    then have get: "bitmap_get (page_at d (bitmap_block ii)) (int (ii mod USABLE_BLOCK_SIZE)) = Some 1"
      using scan_get [OF assms(1) ii] by simp
    have "alloc_scan r d (Some (the_sb d)) (bitmap_block ii) (bitmap_block ii) (Suc ii)
        = Some (of_nat b, alloc_result d b)"
      using Suc.prems False scan_at_Suc by (intro Suc.IH) auto
    then show ?thesis
      unfolding alloc_scan.simps head bind.simps prod.case Let_def scan_index
      using small by (simp del: USABLE_BLOCK_SIZE_def add: get)
  qed
qed

lemma alloc_scan_full:
  assumes "alloc_ok d" "\<forall>c<n_blocks d. used d c"
    and "ii + r = n_blocks d" "scan_at pbmn ii"
  shows "alloc_scan r d sbo pbmn pbmn ii = Some (0, d)"
  using assms(3,4)
proof (induction r arbitrary: ii pbmn)
  case 0
  then show ?case by simp
next
  case (Suc r)
  have ii: "ii < n_blocks d" using Suc.prems by simp
  then have small: "ii < 2 ^ 31" using alloc_okD(4) [OF assms(1)] by fastforce
  note head = scan_head [OF assms(1) ii Suc.prems(2)]
  have get: "bitmap_get (page_at d (bitmap_block ii)) (int (ii mod USABLE_BLOCK_SIZE)) = Some 1"
    using scan_get [OF assms(1) ii] assms(2) ii by simp
  have "alloc_scan r d sbo (bitmap_block ii) (bitmap_block ii) (Suc ii) = Some (0, d)"
    using Suc.prems scan_at_Suc by (intro Suc.IH) auto
  then show ?case
    unfolding alloc_scan.simps head bind.simps prod.case Let_def scan_index
    using small by (simp del: USABLE_BLOCK_SIZE_def add: get)
qed

subsection \<open>alloc\_page and free\_page on a sound volume\<close>

lemma alloc_page_found:
  assumes "alloc_ok d" "b < n_blocks d" "\<not> used d b" "\<forall>c<b. used d c"
  shows "alloc_page d = Some (of_nat b, alloc_result d b)"
proof -
  have "valid_block d 1"
    using alloc_okD(1) [of d 0] assms(1,2) by (simp add: bitmap_block_def)
  then have "get_block_direct d 0 1 = Some 1"
    using get_block_direct_nat [of d 1 0] by simp
  moreover have "scan_at 1 0" by (simp add: scan_at_def)
  ultimately show ?thesis
    using alloc_scan_found [OF assms, of 0 "n_blocks d" 1] superblock_read_ok [OF alloc_okD(3) [OF assms(1,2)]]
    by (simp add: alloc_page_def n_blocks_def)
qed

lemma alloc_page_full:
  assumes "alloc_ok d" "\<forall>b<n_blocks d. used d b"
  shows "alloc_page d = Some (0, d)"
proof -
  have sb: "super_ok d" and pos: "0 < n_blocks d"
    using assms(1) by (auto simp: alloc_ok_def super_ok_def valid_block_def n_blocks_def)
  have "valid_block d 1"
    using alloc_okD(1) [OF assms(1) pos] by (simp add: bitmap_block_def)
  then have "get_block_direct d 0 1 = Some 1"
    using get_block_direct_nat [of d 1 0] by simp
  moreover have "scan_at 1 0" by (simp add: scan_at_def)
  ultimately show ?thesis
    using alloc_scan_full [OF assms, of 0 "n_blocks d" 1] superblock_read_ok [OF sb]
    by (simp add: alloc_page_def n_blocks_def)
qed

text \<open>What allocation keeps: everything but the bitmap blocks and the count of free blocks.\<close>

definition alloc_same :: "DiskInterface \<Rightarrow> DiskInterface \<Rightarrow> bool" where
  "alloc_same d d' \<longleftrightarrow> n_blocks d' = n_blocks d \<and>
     (\<forall>k. page_type (page_at d' k) = page_type (page_at d k)) \<and>
     (\<forall>k. valid_block d' k = valid_block d k) \<and>
     (\<forall>k. k \<noteq> 0 \<longrightarrow> (\<forall>c<n_blocks d. k \<noteq> bitmap_block c) \<longrightarrow> page_at d' k = page_at d k) \<and>
     (\<exists>f. the_sb d' = (the_sb d)\<lparr>free_blocks := f\<rparr>)"

lemma page_type_bitmap_set [simp]: "page_type (bitmap_set pg i v) = page_type pg"
  by (simp add: bitmap_set_def Let_def page_simps)

lemma alloc_same_result:
  assumes "b < n_blocks d"
  shows "alloc_same d (alloc_result d b)"
proof -
  have "page_type (page_at (alloc_result d b) k) = page_type (page_at d k)" for k
    by (simp add: alloc_result_def set_free_blocks_def set_used_def)
  then show ?thesis
    using assms by (auto simp: alloc_same_def alloc_result_def page_at_set_free_blocks_other page_at_set_used_other)
qed

lemma alloc_same_trans: "alloc_same d d' \<Longrightarrow> alloc_same d' d'' \<Longrightarrow> alloc_same d d''"
  by (auto simp: alloc_same_def)

interpretation page_alloc:
  first_fit_total alloc_ok n_blocks used alloc_page "of_nat :: nat \<Rightarrow> u64" alloc_same 0
proof unfold_locales
  fix d b
  assume "alloc_ok d" "b < n_blocks d" "\<not> used d b" "\<forall>c<b. used d c"
  then show "\<exists>d'. alloc_page d = Some (of_nat b, d') \<and> alloc_ok d' \<and> n_blocks d' = n_blocks d
      \<and> used d' = (used d)(b := True) \<and> alloc_same d d'"
    using alloc_same_result [of b d] by (auto simp: alloc_page_found alloc_result_def fun_eq_iff)
next
  fix d :: DiskInterface
  show "alloc_same d d" by (cases "the_sb d") (auto simp: alloc_same_def)
next
  fix d d' d''
  assume "alloc_same d d'" "alloc_same d' d''"
  then show "alloc_same d d''" by (rule alloc_same_trans)
qed (simp add: alloc_page_full)

lemma free_page_ok:
  assumes "alloc_ok d" "b < n_blocks d"
  shows "free_page d (int b) = Some (set_free_blocks (set_used d b False) (free_blocks (the_sb d) - 1))"
proof -
  have pb: "1 + int b sdiv int USABLE_BLOCK_SIZE = int (bitmap_block b)"
    by (cases "b = 0") (simp_all add: bitmap_block_def signed_divide_int_def of_nat_div)
  have ix: "int b - (int (bitmap_block b) - 1) * int USABLE_BLOCK_SIZE = int (b mod USABLE_BLOCK_SIZE)"
    by (simp add: bitmap_block_def zdiv_int zmod_int minus_div_mult_eq_mod)
  have put: "bitmap_put (page_at d (bitmap_block b)) (int (b mod USABLE_BLOCK_SIZE)) 0
      = Some (0, bitmap_set (page_at d (bitmap_block b)) (b mod USABLE_BLOCK_SIZE) False)"
    using alloc_okD(2) [OF assms] bitmap_index_ok_nat [of "b mod 4092"] by (simp add: bitmap_put_set)
  show ?thesis
    unfolding free_page_def Let_def pb ix
    using alloc_okD(1,3) [OF assms]
    by (simp add: put superblock_read_ok set_used_def [symmetric] superblock_write_opt_dec
        del: USABLE_BLOCK_SIZE_def)
qed

subsection \<open>Volumes whose own blocks are in use\<close>

definition volume_ok :: "DiskInterface \<Rightarrow> bool" where
  "volume_ok d \<longleftrightarrow> alloc_ok d \<and> used d 0 \<and> (\<forall>c<n_blocks d. used d (bitmap_block c))"

definition next_free :: "DiskInterface \<Rightarrow> nat \<Rightarrow> bool" where
  "next_free d b \<longleftrightarrow> b < n_blocks d \<and> \<not> used d b \<and> (\<forall>c<b. used d c)"

lemma next_freeD:
  assumes "volume_ok d" "next_free d b"
  shows "b \<noteq> 0" "valid_block d b" "c < n_blocks d \<Longrightarrow> b \<noteq> bitmap_block c" "alloc_ok d" "b < n_blocks d"
proof -
  show "b \<noteq> 0" "c < n_blocks d \<Longrightarrow> b \<noteq> bitmap_block c" "alloc_ok d" "b < n_blocks d"
    using assms by (auto simp: volume_ok_def next_free_def intro: gr0I)
  then show "valid_block d b"
    using alloc_okD(4) by (simp add: valid_block_def n_blocks_def)
qed

lemma alloc_page_next:
  "volume_ok d \<Longrightarrow> next_free d b \<Longrightarrow> alloc_page d = Some (of_nat b, alloc_result d b)"
  by (simp add: volume_ok_def next_free_def alloc_page_found)

lemma alloc_result_frame:
  "used (alloc_result d b) = (used d)(b := True)"
  "n_blocks (alloc_result d b) = n_blocks d"
  "valid_block (alloc_result d b) k = valid_block d k"
  "the_sb (alloc_result d b) = (the_sb d)\<lparr>free_blocks := free_blocks (the_sb d) - 1\<rparr>"
  "alloc_ok (alloc_result d b) = alloc_ok d"
  "super_ok (alloc_result d b) = super_ok d"
  "k \<noteq> 0 \<Longrightarrow> k \<noteq> bitmap_block b \<Longrightarrow> page_at (alloc_result d b) k = page_at d k"
  by (simp_all add: alloc_result_def fun_eq_iff page_at_set_free_blocks_other page_at_set_used_other)

lemma volume_ok_alloc_result: "volume_ok d \<Longrightarrow> volume_ok (alloc_result d b)"
  by (simp add: volume_ok_def alloc_result_frame)

text \<open>Changing a block that is neither the superblock nor a bitmap keeps all of this.\<close>

lemma set_page_plain:
  assumes "k \<noteq> 0" "\<And>c. c < n_blocks d \<Longrightarrow> k \<noteq> bitmap_block c"
  shows "c < n_blocks d \<Longrightarrow> used (set_page d k pg) c = used d c"
    "alloc_ok (set_page d k pg) = alloc_ok d"
    "the_sb (set_page d k pg) = the_sb d"
  using assms by (auto simp: used_def alloc_ok_def)

lemma volume_ok_set_page:
  assumes "volume_ok d" "k \<noteq> 0" "\<And>c. c < n_blocks d \<Longrightarrow> k \<noteq> bitmap_block c"
  shows "volume_ok (set_page d k pg)"
proof -
  have ok: "alloc_ok d" using assms(1) by (simp add: volume_ok_def)
  have pos: "0 < n_blocks d"
    using ok by (auto simp: alloc_ok_def super_ok_def valid_block_def n_blocks_def)
  have "bitmap_block c < n_blocks d" if "c < n_blocks d" for c
    using alloc_okD(1) [OF ok that] by (simp add: valid_block_def n_blocks_def)
  then show ?thesis
    using assms(1) pos set_page_plain [OF assms(2,3)] by (simp add: volume_ok_def)
qed

lemma volume_ok_cong:
  assumes "volume_ok d" "n_blocks d' = n_blocks d" "super_ok d'"
    and "\<forall>c<n_blocks d. page_at d' (bitmap_block c) = page_at d (bitmap_block c)"
  shows "volume_ok d'" "c < n_blocks d \<Longrightarrow> used d' c = used d c"
proof -
  have v: "valid_block d' k = valid_block d k" for k
    using assms(2) by (simp add: valid_block_def n_blocks_def)
  have ok: "alloc_ok d" using assms(1) by (simp add: volume_ok_def)
  have b: "bitmap_block c < n_blocks d" if "c < n_blocks d" for c
    using alloc_okD(1) [OF ok that] by (simp add: valid_block_def n_blocks_def)
  have pos: "0 < n_blocks d"
    using ok by (auto simp: alloc_ok_def super_ok_def valid_block_def n_blocks_def)
  show "c < n_blocks d \<Longrightarrow> used d' c = used d c" for c
    using assms(4) by (simp add: used_def)
  then show "volume_ok d'"
    using assms b pos ok by (simp add: volume_ok_def alloc_ok_def v)
qed

end
