(* ===== verification/Inode.thy ===== *)
theory Inode
  imports Alloc
begin

text \<open>
  The inode table of \<open>inode.c\<close>: 184-byte structures, 22 to a block, behind the inode
  bitmap that the superblock locates; reading, writing, allocating and freeing an
  inode, and the map from the blocks of a file to blocks of the disk (twelve direct
  pointers and one indirect block).
\<close>

unbundle bit_operations_syntax

subsection \<open>The structure\<close>

record Inode =
  i_number :: u64
  i_mode :: u32
  i_size :: u64
  i_block_count :: u64
  direct_blocks :: "u64 list"
  indirect_block :: u64
  double_indirect_block :: u64
  i_creation_time :: u64
  i_modification_time :: u64
  i_access_time :: u64
  reference_count :: u64
  owner_id :: u32
  group_id :: u32

definition inode_of_page :: "page \<Rightarrow> nat \<Rightarrow> Inode" where
  "inode_of_page pg a = \<lparr>
     i_number = rd64 pg a,
     i_mode = rd32 pg (a + 8),
     i_size = rd64 pg (a + 16),
     i_block_count = rd64 pg (a + 24),
     direct_blocks = rd64s pg (a + 32) 12,
     indirect_block = rd64 pg (a + 128),
     double_indirect_block = rd64 pg (a + 136),
     i_creation_time = rd64 pg (a + 144),
     i_modification_time = rd64 pg (a + 152),
     i_access_time = rd64 pg (a + 160),
     reference_count = rd64 pg (a + 168),
     owner_id = rd32 pg (a + 176),
     group_id = rd32 pg (a + 180)\<rparr>"

definition inode_to_page :: "Inode \<Rightarrow> page \<Rightarrow> nat \<Rightarrow> page" where
  "inode_to_page n pg a =
     wr32 (wr32 (wr64 (wr64 (wr64 (wr64 (wr64 (wr64 (wr64s (wr64 (wr64 (wr32 (wr64 pg
       a (i_number n))
       (a + 8) (i_mode n))
       (a + 16) (i_size n))
       (a + 24) (i_block_count n))
       (a + 32) (direct_blocks n))
       (a + 128) (indirect_block n))
       (a + 136) (double_indirect_block n))
       (a + 144) (i_creation_time n))
       (a + 152) (i_modification_time n))
       (a + 160) (i_access_time n))
       (a + 168) (reference_count n))
       (a + 176) (owner_id n))
       (a + 180) (group_id n)"

definition inode_wf :: "Inode \<Rightarrow> bool" where
  "inode_wf n \<longleftrightarrow> length (direct_blocks n) = 12"

lemma inode_of_to_page: "inode_wf n \<Longrightarrow> inode_of_page (inode_to_page n pg a) a = n"
  by (simp add: inode_wf_def inode_of_page_def inode_to_page_def page_simps)

lemma inode_of_to_page_other:
  "inode_wf n \<Longrightarrow> a + 184 \<le> b \<or> b + 184 \<le> a \<Longrightarrow>
   inode_of_page (inode_to_page n pg b) a = inode_of_page pg a"
  by (auto simp: inode_wf_def inode_of_page_def inode_to_page_def page_simps)

lemma inode_wf_of_page [simp]: "inode_wf (inode_of_page pg a)"
  by (simp add: inode_wf_def inode_of_page_def)

lemma page_type_inode_to_page [simp]: "4 \<le> a \<Longrightarrow> page_type (inode_to_page n pg a) = page_type pg"
  by (simp add: inode_to_page_def page_simps)

text \<open>Inodes per block, and the place of an inode inside its block.\<close>

definition inode_per_page :: nat where [simp]: "inode_per_page = USABLE_BLOCK_SIZE div sizeof_Inode"

definition inode_slot :: "nat \<Rightarrow> nat" where
  "inode_slot i = 4 + sizeof_Inode * i"

lemma inode_slot_disjoint:
  "i \<noteq> j \<Longrightarrow> inode_slot i + 184 \<le> inode_slot j \<or> inode_slot j + 184 \<le> inode_slot i"
  by (auto simp: inode_slot_def)

subsection \<open>inode\_read and inode\_write\<close>

text \<open>
  When block 0 is not a superblock, the local structure stays indeterminate and the
  block address computed from it is meaningless. \<open>inode_read\<close> fills the caller's
  structure or, on an error, leaves it untouched (\<open>None\<close>).
\<close>

definition inode_read :: "DiskInterface \<Rightarrow> u64 \<Rightarrow> (int \<times> Inode option) option" where
  "inode_read d n = do {
     (_, sbo) \<leftarrow> superblock_read d;
     sb \<leftarrow> sbo;
     let inode_page = n div of_nat inode_per_page;
     k \<leftarrow> get_block_direct d 0 (inode_table_start sb + inode_page);
     if page_type (page_at d k) \<noteq> block_type_code BLOCK_TYPE_INODE then Some (-1, None)
     else Some (0, Some (inode_of_page (page_at d k) (inode_slot (unat (n mod of_nat inode_per_page)))))
   }"

text \<open>The inode number is signed: a negative one has a negative remainder.\<close>

definition inode_write :: "DiskInterface \<Rightarrow> Inode \<Rightarrow> (int \<times> DiskInterface) option" where
  "inode_write d n = do {
     (_, sbo) \<leftarrow> superblock_read d;
     sb \<leftarrow> sbo;
     let inode_page = u64_of_int (sint (i_number n) sdiv int inode_per_page);
     k \<leftarrow> get_block_direct d 0 (inode_table_start sb + inode_page);
     if page_type (page_at d k) \<noteq> block_type_code BLOCK_TYPE_INODE then Some (-1, d)
     else
       let r = sint (i_number n) smod int inode_per_page
       in if r < 0 then None
          else
            let d1 = set_page d k (inode_to_page n (page_at d k) (inode_slot (nat r)))
            in Some (0, write_block_direct d1 k 0 (inode_table_start sb + inode_page))
   }"

subsection \<open>inode\_allocate\<close>

text \<open>
  One iteration finds a free bit: the bit is set, the inode structure is filled in and
  stored. An error after that leaves the bit set.
\<close>

definition inode_claim ::
    "DiskInterface \<Rightarrow> nat \<Rightarrow> int \<Rightarrow> int \<Rightarrow> nat \<Rightarrow> u32 \<Rightarrow> u32 \<Rightarrow> u32 \<Rightarrow> (int \<times> DiskInterface) option" where
  "inode_claim d ibm idx ibmn ii mode uid gid = do {
     (rv, pg) \<leftarrow> bitmap_put (page_at d ibm) idx 1;
     let d1 = set_page d ibm pg;
     if rv \<noteq> 0 then Some (-1, d1)
     else do {
       (rv1, no) \<leftarrow> inode_read d1 (of_nat ii);
       if rv1 \<noteq> 0 then Some (-1, d1)
       else do {
         node \<leftarrow> no;
         (rv2, d2) \<leftarrow> inode_write d1 (node\<lparr>i_number := of_nat ii, i_mode := mode, owner_id := uid,
           group_id := gid, reference_count := 1\<rparr>);
         if rv2 \<noteq> 0 then Some (-1, d2)
         else Some (int ii, write_block_direct d2 ibm 0 (u64_of_int ibmn))
       }
     }
   }"

fun inode_scan ::
    "nat \<Rightarrow> DiskInterface \<Rightarrow> Superblock \<Rightarrow> nat \<Rightarrow> int \<Rightarrow> nat \<Rightarrow> u32 \<Rightarrow> u32 \<Rightarrow> u32 \<Rightarrow> (int \<times> DiskInterface) option" where
  "inode_scan 0 d sb ibm ibmn ii mode uid gid = None"
| "inode_scan (Suc r) d sb ibm ibmn ii mode uid gid =
     (if page_type (page_at d ibm) \<noteq> block_type_code BLOCK_TYPE_BITMAP then Some (-1, d)
      else do {
        (ibm, ibmn) \<leftarrow>
          (if ii mod USABLE_BLOCK_SIZE = 0 \<and> ii \<noteq> 0
           then do { k \<leftarrow> get_block_direct d 0 (u64_of_int (ibmn + 1)); Some (k, ibmn + 1) }
           else Some (ibm, ibmn));
        let idx = int_of_u64 (of_nat ii - (u64_of_int ibmn - inode_bitmap sb) * of_nat USABLE_BLOCK_SIZE);
        b \<leftarrow> bitmap_get (page_at d ibm) idx;
        if b = 0 then inode_claim d ibm idx ibmn ii mode uid gid
        else inode_scan r d sb ibm ibmn (Suc ii) mode uid gid
      })"

text \<open>
  The loop has no bound of its own. Every \<open>USABLE_BLOCK_SIZE\<close> iterations it moves to the
  next block, and stops at a block with another type, so it cannot make more iterations
  than the image has bits in bitmap blocks: the fuel is never the reason for \<open>None\<close>.
\<close>

definition inode_allocate ::
    "DiskInterface \<Rightarrow> u32 \<Rightarrow> u32 \<Rightarrow> u32 \<Rightarrow> (int \<times> DiskInterface) option" where
  "inode_allocate d mode uid gid = do {
     (_, sbo) \<leftarrow> superblock_read d;
     sb \<leftarrow> sbo;
     let ibmn = int_of_u64 (inode_bitmap sb);
     ibm \<leftarrow> get_block_direct d 0 (u64_of_int ibmn);
     inode_scan (Suc (USABLE_BLOCK_SIZE * Suc (n_blocks d))) d sb ibm ibmn 0 mode uid gid
   }"

subsection \<open>inode\_free\<close>

text \<open>The function returns 0 on every path, also where it computed an error.\<close>

definition inode_free :: "DiskInterface \<Rightarrow> u64 \<Rightarrow> (int \<times> DiskInterface) option" where
  "inode_free d n = do {
     (_, sbo) \<leftarrow> superblock_read d;
     sb \<leftarrow> sbo;
     let ibmn = int_of_u64 (inode_bitmap sb + n div of_nat USABLE_BLOCK_SIZE);
     ibm \<leftarrow> get_block_direct d 0 (u64_of_int ibmn);
     (rv, pg) \<leftarrow> bitmap_put (page_at d ibm)
       (int_of_u64 (n - u64_of_int ((ibmn - 1) * int USABLE_BLOCK_SIZE))) 0;
     let d1 = set_page d ibm pg;
     if rv \<noteq> 0 then Some (0, d1)
     else do {
       let inode_page = int_of_u64 (n div of_nat inode_per_page);
       k \<leftarrow> get_block_direct d1 0 (inode_table_start sb + u64_of_int inode_page);
       if page_type (page_at d1 k) \<noteq> block_type_code BLOCK_TYPE_INODE then Some (0, d1)
       else do {
         let a = inode_slot (unat (n mod of_nat inode_per_page));
         let d2 = set_page d1 k (wr_bytes (page_at d1 k) a (replicate sizeof_Inode 0));
         let d3 = write_block_direct d2 k 0 (inode_table_start sb + u64_of_int inode_page);
         Some (0, write_block_direct d3 ibm 0 (u64_of_int ibmn))
       }
     }
   }"

subsection \<open>inode\_get\_block and inode\_set\_block\<close>

definition NDIRECT :: nat where [simp]: "NDIRECT = 12"

definition PTRS_PER_BLOCK :: nat where [simp]: "PTRS_PER_BLOCK = USABLE_BLOCK_SIZE div 8"

text \<open>\<open>cur\<close> is what \<open>*physical_block\<close> holds before the call; an error may leave it there.\<close>

definition inode_get_block ::
    "DiskInterface \<Rightarrow> Inode \<Rightarrow> u64 \<Rightarrow> u64 \<Rightarrow> (int \<times> u64) option" where
  "inode_get_block d n idx cur =
     (if unat idx < NDIRECT then
        let p = direct_blocks n ! unat idx in Some (if p \<noteq> 0 then 0 else -1, p)
      else if unat idx \<le> PTRS_PER_BLOCK then
        if indirect_block n = 0 then Some (-1, cur)
        else do {
          k \<leftarrow> get_block_direct d (i_number n) (indirect_block n);
          if page_type (page_at d k) \<noteq> block_type_code BLOCK_TYPE_DATA then Some (-1, cur)
          else Some (0, rd64 (page_at d k) (4 + 8 * (unat idx - NDIRECT)))
        }
      else Some (-1, cur))"

definition inode_set_block ::
    "DiskInterface \<Rightarrow> Inode \<Rightarrow> u64 \<Rightarrow> u64 \<Rightarrow> (int \<times> Inode \<times> DiskInterface) option" where
  "inode_set_block d n idx phys =
     (if unat idx < NDIRECT then
        Some (0, n\<lparr>direct_blocks := (direct_blocks n)[unat idx := phys]\<rparr>, d)
      else if unat idx \<le> PTRS_PER_BLOCK then
        if indirect_block n = 0 then do {
          (p, d1) \<leftarrow> alloc_page d;
          let n1 = n\<lparr>indirect_block := p\<rparr>;
          if p = 0 then Some (-1, n1, d1)
          else do {
            k \<leftarrow> get_block_direct d1 (i_number n1) p;
            let pg = set_page_type (page_at d1 k) BLOCK_TYPE_DATA;
            let d2 = set_page d1 k (wr64 pg (4 + 8 * (unat idx - NDIRECT)) phys);
            Some (0, n1, d2)
          }
        }
        else Some (-1, n, d)
      else Some (-1, n, d))"

end
