(* ===== verification/Inode_Facts.thy ===== *)
theory Inode_Facts
  imports Inode
begin

text \<open>
  What the operations of the inode table do on a volume whose inode bitmap and inode
  table are in place: reads return what was written, allocation takes the first free
  inode and changes nothing else, and freeing an inode computes a negative bit index.
\<close>

unbundle bit_operations_syntax

subsection \<open>The place of an inode on a sound volume\<close>

definition inode_capacity :: "DiskInterface \<Rightarrow> nat" where
  "inode_capacity d = nat (calculate_inode_table_size (the_sb d)) * inode_per_page"

definition inode_bitmap_block :: "DiskInterface \<Rightarrow> nat \<Rightarrow> nat" where
  "inode_bitmap_block d i = unat (inode_bitmap (the_sb d)) + i div USABLE_BLOCK_SIZE"

definition inode_table_block :: "DiskInterface \<Rightarrow> nat \<Rightarrow> nat" where
  "inode_table_block d i = unat (inode_table_start (the_sb d)) + i div inode_per_page"

definition is_inode_block :: "page \<Rightarrow> bool" where
  "is_inode_block pg \<longleftrightarrow> page_type pg = block_type_code BLOCK_TYPE_INODE"

definition inode_ok :: "DiskInterface \<Rightarrow> bool" where
  "inode_ok d \<longleftrightarrow> super_ok d \<and> (\<forall>i<inode_capacity d.
     valid_block d (inode_bitmap_block d i) \<and> is_bitmap (page_at d (inode_bitmap_block d i)) \<and>
     valid_block d (inode_table_block d i) \<and> is_inode_block (page_at d (inode_table_block d i)))"

definition inode_at :: "DiskInterface \<Rightarrow> nat \<Rightarrow> Inode" where
  "inode_at d i = inode_of_page (page_at d (inode_table_block d i)) (inode_slot (i mod inode_per_page))"

definition inode_used :: "DiskInterface \<Rightarrow> nat \<Rightarrow> bool" where
  "inode_used d i = bitmap_bit (page_at d (inode_bitmap_block d i)) (i mod USABLE_BLOCK_SIZE)"

definition set_inode :: "DiskInterface \<Rightarrow> nat \<Rightarrow> Inode \<Rightarrow> DiskInterface" where
  "set_inode d i n = set_page d (inode_table_block d i)
     (inode_to_page n (page_at d (inode_table_block d i)) (inode_slot (i mod inode_per_page)))"

definition set_inode_used :: "DiskInterface \<Rightarrow> nat \<Rightarrow> bool \<Rightarrow> DiskInterface" where
  "set_inode_used d i v = set_page d (inode_bitmap_block d i)
     (bitmap_set (page_at d (inode_bitmap_block d i)) (i mod USABLE_BLOCK_SIZE) v)"

lemma inode_okD:
  assumes "inode_ok d" "i < inode_capacity d"
  shows "super_ok d" "valid_block d (inode_bitmap_block d i)"
    "is_bitmap (page_at d (inode_bitmap_block d i))"
    "valid_block d (inode_table_block d i)" "is_inode_block (page_at d (inode_table_block d i))"
  using assms by (auto simp: inode_ok_def)

lemma inode_capacity_less: "inode_capacity d < 2 ^ 36"
proof -
  have "int_of_u64 w < 2 ^ 31" for w
    unfolding int_of_u64_def using sint_lt [of "ucast w :: u32"] by simp
  then have "nat (calculate_inode_table_size (the_sb d)) \<le> 2 ^ 31"
    by (simp add: calculate_inode_table_size_def less_imp_le nat_le_iff)
  then show ?thesis by (simp add: inode_capacity_def)
qed

lemma type_neq:
  "is_bitmap pg \<Longrightarrow> page_type pg = 2"
  "is_inode_block pg \<Longrightarrow> page_type pg = 3"
  by (simp_all add: is_bitmap_def is_inode_block_def)

lemma super_not_bitmap: "super_ok d \<Longrightarrow> is_bitmap (page_at d k) \<Longrightarrow> k \<noteq> 0"
  by (rule notI) (simp add: super_ok_def is_bitmap_def)

lemma super_not_inode: "super_ok d \<Longrightarrow> is_inode_block (page_at d k) \<Longrightarrow> k \<noteq> 0"
  by (rule notI) (simp add: super_ok_def is_inode_block_def)

lemma inode_not_bitmap: "is_inode_block (page_at d k) \<Longrightarrow> is_bitmap (page_at d j) \<Longrightarrow> k \<noteq> j"
  by (rule notI) (simp add: is_bitmap_def is_inode_block_def)

lemma is_inode_block_to_page [simp]:
  "is_inode_block (inode_to_page n pg (inode_slot i)) = is_inode_block pg"
  by (simp add: is_inode_block_def inode_slot_def)

lemma of_nat_div_u64:
  assumes "i < 2 ^ 64" "k < 2 ^ 64"
  shows "(of_nat i :: u64) div of_nat k = of_nat (i div k)"
proof -
  have "i div k < 2 ^ 64" using assms(1) by (meson div_le_dividend le_less_trans)
  then have "unat ((of_nat i :: u64) div of_nat k) = unat (of_nat (i div k) :: u64)"
    using assms by (simp add: unat_div unat_of_nat_u64)
  then show ?thesis by (simp only: word_unat_eq_iff)
qed

lemma unat_of_nat_mod_u64:
  assumes "i < 2 ^ 64" "0 < k" "k < 2 ^ 64"
  shows "unat ((of_nat i :: u64) mod of_nat k) = i mod k"
  using assms by (simp add: unat_mod unat_of_nat_u64)

lemma unat_slot:
  "i < 2 ^ 64 \<Longrightarrow> unat ((of_nat i :: u64) mod of_nat inode_per_page) = i mod inode_per_page"
  by (rule unat_of_nat_mod_u64) simp_all

text \<open>The block address that \<open>inode_read\<close>, \<open>inode_write\<close> and \<open>inode_free\<close> compute.\<close>

lemma inode_table_address:
  assumes "i < 2 ^ 64"
  shows "inode_table_start (the_sb d) + of_nat i div of_nat inode_per_page
       = of_nat (inode_table_block d i)"
  using assms by (simp add: inode_table_block_def of_nat_div_u64 del: of_nat_numeral)

lemma inode_number_small:
  assumes "i < inode_capacity d"
  shows "i < 2 ^ 64" "i < 2 ^ 63"
  using inode_capacity_less [of d] assms by simp_all

subsection \<open>Reading and writing\<close>

lemma inode_read_ok:
  assumes "inode_ok d" "i < inode_capacity d"
  shows "inode_read d (of_nat i) = Some (0, Some (inode_at d i))"
  using inode_okD [OF assms] inode_number_small [OF assms(2)]
  by (simp add: inode_read_def superblock_read_ok inode_table_address inode_at_def
      unat_slot type_neq del: inode_per_page_def)

lemma sint_of_nat_u64:
  assumes "i < 2 ^ 63"
  shows "sint (of_nat i :: u64) = int i"
proof -
  have "unat (of_nat i :: u64) = i"
    using assms by (intro unat_of_nat_u64) simp
  then have u: "uint (of_nat i :: u64) = int i"
    by (metis uint_nat)
  have "sint (of_nat i :: u64) = signed_take_bit 63 (uint (of_nat i :: u64))"
    by (simp add: sint_uint)
  also have "\<dots> = int i"
    unfolding u using assms by (intro signed_take_bit_int_eq_self) (simp_all add: order_trans [of _ 0])
  finally show ?thesis .
qed

lemma int_sdiv_nat: "0 < k \<Longrightarrow> int i sdiv int k = int (i div k)"
  by (cases "i = 0") (simp_all add: signed_divide_int_def zdiv_int)

lemma int_smod_nat: "0 < k \<Longrightarrow> int i smod int k = int (i mod k)"
  by (cases "i = 0") (simp_all add: signed_modulo_int_def zmod_int)

lemma inode_write_ok:
  assumes "inode_ok d" "i < inode_capacity d" "i_number n = of_nat i"
  shows "inode_write d n = Some (0, set_inode d i n)"
proof -
  have sn: "sint (i_number n) = int i"
    unfolding assms(3) by (rule sint_of_nat_u64) (rule inode_number_small [OF assms(2)])
  have pg: "u64_of_int (sint (i_number n) sdiv int inode_per_page) = of_nat i div of_nat inode_per_page"
    using inode_number_small [OF assms(2)] int_sdiv_nat [of inode_per_page i]
      of_nat_div_u64 [of i inode_per_page]
    unfolding sn by simp
  have sl: "sint (i_number n) smod int inode_per_page = int (i mod inode_per_page)"
    unfolding sn by (rule int_smod_nat) simp
  show ?thesis
    using inode_okD [OF assms(1,2)] inode_number_small [OF assms(2)]
    by (simp add: inode_write_def superblock_read_ok Let_def pg sl inode_table_address type_neq
        set_inode_def del: inode_per_page_def)
qed

subsection \<open>What the updates leave alone\<close>

lemma layout_cong:
  assumes "the_sb d' = the_sb d"
  shows "inode_capacity d' = inode_capacity d" "inode_bitmap_block d' = inode_bitmap_block d"
    "inode_table_block d' = inode_table_block d"
  using assms by (simp_all add: inode_capacity_def inode_bitmap_block_def inode_table_block_def fun_eq_iff)

text \<open>The fields of the superblock that the places of inodes depend on.\<close>

definition layout_of :: "DiskInterface \<Rightarrow> u64 \<times> u64" where
  "layout_of d = (sb_total_blocks (the_sb d), inode_bitmap (the_sb d))"

lemma layout_cong':
  assumes "layout_of d' = layout_of d"
  shows "inode_capacity d' = inode_capacity d" "inode_bitmap_block d' = inode_bitmap_block d"
    "inode_table_block d' = inode_table_block d"
  using assms
  by (simp_all add: inode_capacity_def inode_bitmap_block_def inode_table_block_def fun_eq_iff layout_of_def
      inode_table_start_def calculate_inode_table_size_def calculate_inode_bitmap_size_def)

text \<open>A change elsewhere keeps the inode table.\<close>

lemma inode_cong:
  assumes "inode_ok d" "layout_of d' = layout_of d" "super_ok d'" "\<And>k. valid_block d' k = valid_block d k"
    and "\<forall>i<inode_capacity d. page_at d' (inode_bitmap_block d i) = page_at d (inode_bitmap_block d i)
      \<and> page_at d' (inode_table_block d i) = page_at d (inode_table_block d i)"
  shows "inode_ok d'" "i < inode_capacity d \<Longrightarrow> inode_used d' i = inode_used d i"
    "i < inode_capacity d \<Longrightarrow> inode_at d' i = inode_at d i" "inode_capacity d' = inode_capacity d"
  using assms
  by (simp_all add: inode_ok_def layout_cong' [OF assms(2)] inode_used_def inode_at_def)

lemma set_inode_frame:
  assumes "inode_ok d" "i < inode_capacity d"
  shows "the_sb (set_inode d i n) = the_sb d" "super_ok (set_inode d i n)"
    "page_type (page_at (set_inode d i n) k) = page_type (page_at d k)"
    "valid_block (set_inode d i n) k = valid_block d k"
    "k \<noteq> inode_table_block d i \<Longrightarrow> page_at (set_inode d i n) k = page_at d k"
proof -
  have nz: "inode_table_block d i \<noteq> 0"
    using inode_okD [OF assms] super_not_inode by blast
  then show "the_sb (set_inode d i n) = the_sb d" "super_ok (set_inode d i n)"
    using inode_okD(1) [OF assms] by (simp_all add: set_inode_def)
  show "page_type (page_at (set_inode d i n) k) = page_type (page_at d k)"
    by (simp add: set_inode_def inode_slot_def)
  show "valid_block (set_inode d i n) k = valid_block d k"
    by (simp add: set_inode_def)
  show "k \<noteq> inode_table_block d i \<Longrightarrow> page_at (set_inode d i n) k = page_at d k"
    by (simp add: set_inode_def)
qed

lemma set_inode_used_frame:
  assumes "inode_ok d" "i < inode_capacity d"
  shows "the_sb (set_inode_used d i v) = the_sb d" "super_ok (set_inode_used d i v)"
    "page_type (page_at (set_inode_used d i v) k) = page_type (page_at d k)"
    "valid_block (set_inode_used d i v) k = valid_block d k"
    "k \<noteq> inode_bitmap_block d i \<Longrightarrow> page_at (set_inode_used d i v) k = page_at d k"
proof -
  have nz: "inode_bitmap_block d i \<noteq> 0"
    using inode_okD [OF assms] super_not_bitmap by blast
  then show "the_sb (set_inode_used d i v) = the_sb d" "super_ok (set_inode_used d i v)"
    using inode_okD(1) [OF assms] by (simp_all add: set_inode_used_def)
  show "page_type (page_at (set_inode_used d i v) k) = page_type (page_at d k)"
    using inode_okD(3) [OF assms]
    by (cases "k = inode_bitmap_block d i") (simp_all add: set_inode_used_def type_neq)
  show "valid_block (set_inode_used d i v) k = valid_block d k"
    by (simp add: set_inode_used_def)
  show "k \<noteq> inode_bitmap_block d i \<Longrightarrow> page_at (set_inode_used d i v) k = page_at d k"
    by (simp add: set_inode_used_def)
qed

lemma inode_ok_frame:
  assumes "inode_ok d" "the_sb d' = the_sb d" "super_ok d'"
    and "\<And>k. valid_block d' k = valid_block d k"
    and "\<And>k. page_type (page_at d' k) = page_type (page_at d k)"
  shows "inode_ok d'"
  using assms by (simp add: inode_ok_def layout_cong [OF assms(2)] is_bitmap_def is_inode_block_def)

lemma inode_ok_set_inode:
  "inode_ok d \<Longrightarrow> i < inode_capacity d \<Longrightarrow> inode_ok (set_inode d i n)"
  by (rule inode_ok_frame) (simp_all add: set_inode_frame)

lemma inode_ok_set_inode_used:
  "inode_ok d \<Longrightarrow> i < inode_capacity d \<Longrightarrow> inode_ok (set_inode_used d i v)"
  by (rule inode_ok_frame) (simp_all add: set_inode_used_frame)

lemma page_at_set_inode:
  "page_at (set_inode d i n) k = (if k = inode_table_block d i
     then inode_to_page n (page_at d k) (inode_slot (i mod inode_per_page)) else page_at d k)"
  by (simp add: set_inode_def)

lemma page_at_set_inode_used:
  "page_at (set_inode_used d i v) k = (if k = inode_bitmap_block d i
     then bitmap_set (page_at d k) (i mod USABLE_BLOCK_SIZE) v else page_at d k)"
  by (simp add: set_inode_used_def)

lemma inode_at_set_inode:
  assumes "inode_ok d" "i < inode_capacity d" "inode_wf n"
  shows "inode_at (set_inode d i n) j = (if j = i then n else inode_at d j)"
proof (cases "inode_table_block d j = inode_table_block d i")
  case True
  then have slot: "j mod inode_per_page = i mod inode_per_page \<longleftrightarrow> j = i"
    by (metis add_left_cancel div_mult_mod_eq inode_table_block_def)
  show ?thesis
  proof (cases "j = i")
    case True
    then show ?thesis
      using assms(3) by (simp add: inode_at_def layout_cong [OF set_inode_frame(1) [OF assms(1,2)]]
          page_at_set_inode inode_of_to_page)
  next
    case False
    then show ?thesis
      using assms(3) True slot inode_slot_disjoint [of "j mod inode_per_page" "i mod inode_per_page"]
      by (simp add: inode_at_def layout_cong [OF set_inode_frame(1) [OF assms(1,2)]]
          page_at_set_inode inode_of_to_page_other)
  qed
next
  case False
  then have "j \<noteq> i" by auto
  with False show ?thesis
    by (simp add: inode_at_def layout_cong [OF set_inode_frame(1) [OF assms(1,2)]] page_at_set_inode)
qed

lemma inode_used_set_inode:
  assumes "inode_ok d" "i < inode_capacity d" "j < inode_capacity d"
  shows "inode_used (set_inode d i n) j = inode_used d j"
proof -
  have "inode_bitmap_block d j \<noteq> inode_table_block d i"
    using inode_okD [OF assms(1,2)] inode_okD [OF assms(1,3)] inode_not_bitmap by metis
  then show ?thesis
    by (simp add: inode_used_def layout_cong [OF set_inode_frame(1) [OF assms(1,2)]] page_at_set_inode)
qed

lemma inode_at_set_inode_used:
  assumes "inode_ok d" "i < inode_capacity d" "j < inode_capacity d"
  shows "inode_at (set_inode_used d i v) j = inode_at d j"
proof -
  have "inode_table_block d j \<noteq> inode_bitmap_block d i"
    using inode_okD [OF assms(1,2)] inode_okD [OF assms(1,3)] inode_not_bitmap by metis
  then show ?thesis
    by (simp add: inode_at_def layout_cong [OF set_inode_used_frame(1) [OF assms(1,2)]]
        page_at_set_inode_used)
qed

lemma inode_used_set_inode_used:
  assumes "inode_ok d" "i < inode_capacity d"
  shows "inode_used (set_inode_used d i v) j = (if j = i then v else inode_used d j)"
proof (cases "inode_bitmap_block d j = inode_bitmap_block d i")
  case True
  then have "j mod USABLE_BLOCK_SIZE = i mod USABLE_BLOCK_SIZE \<longleftrightarrow> j = i"
    by (metis add_left_cancel div_mult_mod_eq inode_bitmap_block_def)
  with True show ?thesis
    by (simp add: inode_used_def layout_cong [OF set_inode_used_frame(1) [OF assms]]
        page_at_set_inode_used del: USABLE_BLOCK_SIZE_def)
next
  case False
  then have "j \<noteq> i" by auto
  with False show ?thesis
    by (simp add: inode_used_def layout_cong [OF set_inode_used_frame(1) [OF assms]]
        page_at_set_inode_used)
qed

subsection \<open>Allocation\<close>

definition fresh_inode :: "Inode \<Rightarrow> nat \<Rightarrow> u32 \<Rightarrow> u32 \<Rightarrow> u32 \<Rightarrow> Inode" where
  "fresh_inode n i mode uid gid = n\<lparr>i_number := of_nat i, i_mode := mode, owner_id := uid,
     group_id := gid, reference_count := 1\<rparr>"

lemma inode_wf_fresh [simp]: "inode_wf (fresh_inode n i mode uid gid) = inode_wf n"
  by (simp add: fresh_inode_def inode_wf_def)

lemma inode_wf_at [simp]: "inode_wf (inode_at d i)"
  by (simp add: inode_at_def)

definition inode_alloc_result :: "DiskInterface \<Rightarrow> nat \<Rightarrow> u32 \<Rightarrow> u32 \<Rightarrow> u32 \<Rightarrow> DiskInterface" where
  "inode_alloc_result d i mode uid gid =
     set_inode (set_inode_used d i True) i (fresh_inode (inode_at d i) i mode uid gid)"

lemma inode_claim_ok:
  assumes "inode_ok d" "i < inode_capacity d"
  shows "inode_claim d (inode_bitmap_block d i) (int (i mod USABLE_BLOCK_SIZE)) ibmn i mode uid gid
       = Some (int i, inode_alloc_result d i mode uid gid)"
proof -
  let ?d1 = "set_inode_used d i True"
  have cap: "i < inode_capacity ?d1"
    using assms layout_cong(1) [OF set_inode_used_frame(1) [OF assms]] by simp
  note ok1 = inode_ok_set_inode_used [OF assms, of True]
  have put: "bitmap_put (page_at d (inode_bitmap_block d i)) (int (i mod USABLE_BLOCK_SIZE)) 1
      = Some (0, bitmap_set (page_at d (inode_bitmap_block d i)) (i mod USABLE_BLOCK_SIZE) True)"
    using inode_okD(3) [OF assms] bitmap_index_ok_nat [of "i mod 4092"] by (simp add: bitmap_put_set)
  have wr: "inode_write ?d1 (fresh_inode (inode_at d i) i mode uid gid)
      = Some (0, inode_alloc_result d i mode uid gid)"
    unfolding inode_alloc_result_def by (rule inode_write_ok [OF ok1 cap]) (simp add: fresh_inode_def)
  show ?thesis
    using inode_read_ok [OF ok1 cap] wr
    by (simp add: inode_claim_def put set_inode_used_def [symmetric] fresh_inode_def
        inode_at_set_inode_used [OF assms assms(2)] del: USABLE_BLOCK_SIZE_def)
qed

lemma inode_bitmap_index:
  assumes "inode_ok d" "i < inode_capacity d"
  shows "int_of_u64 (of_nat i - (u64_of_int (int (inode_bitmap_block d i)) - inode_bitmap (the_sb d))
           * of_nat USABLE_BLOCK_SIZE) = int (i mod USABLE_BLOCK_SIZE)"
proof -
  let ?q = "i div USABLE_BLOCK_SIZE"
  have "u64_of_int (int (inode_bitmap_block d i)) - inode_bitmap (the_sb d) = of_nat ?q"
    unfolding u64_of_int_of_nat by (simp add: inode_bitmap_block_def)
  moreover have "(of_nat i :: u64) - of_nat ?q * of_nat USABLE_BLOCK_SIZE = of_nat (i - ?q * USABLE_BLOCK_SIZE)"
    by (simp add: of_nat_diff del: USABLE_BLOCK_SIZE_def)
  moreover have "i - ?q * USABLE_BLOCK_SIZE = i mod USABLE_BLOCK_SIZE"
    by (rule minus_div_mult_eq_mod)
  moreover have "i mod USABLE_BLOCK_SIZE < 4092" by simp
  then have u: "unat (of_nat (i mod USABLE_BLOCK_SIZE) :: u64) = i mod USABLE_BLOCK_SIZE"
    by (intro unat_of_nat_u64) simp
  moreover have "int_of_u64 (of_nat (i mod USABLE_BLOCK_SIZE)) = int (i mod USABLE_BLOCK_SIZE)"
    using int_of_u64_small [of "of_nat (i mod USABLE_BLOCK_SIZE)"] \<open>i mod USABLE_BLOCK_SIZE < 4092\<close>
    unfolding u by simp
  ultimately show ?thesis by metis
qed

definition iscan_at :: "DiskInterface \<Rightarrow> nat \<Rightarrow> nat \<Rightarrow> bool" where
  "iscan_at d ibm ii \<longleftrightarrow> ibm = inode_bitmap_block d (ii - 1)"

lemma iscan_head:
  assumes "inode_ok d" "ii < inode_capacity d" "iscan_at d ibm ii"
  shows "(if ii mod USABLE_BLOCK_SIZE = 0 \<and> ii \<noteq> 0
          then do { k \<leftarrow> get_block_direct d 0 (u64_of_int (int ibm + 1)); Some (k, int ibm + 1) }
          else Some (ibm, int ibm)) = Some (inode_bitmap_block d ii, int (inode_bitmap_block d ii))"
proof (cases "ii mod 4092 = 0 \<and> ii \<noteq> 0")
  case True
  then have e: "Suc ibm = inode_bitmap_block d ii"
    using assms(3) by (auto simp: iscan_at_def inode_bitmap_block_def elim!: dvdE)
  have "int ibm + 1 = int (inode_bitmap_block d ii)"
    unfolding e [symmetric] by simp
  with True inode_okD(2) [OF assms(1,2)] show ?thesis by simp
next
  case False
  then have "ibm = inode_bitmap_block d ii"
    using assms(3) by (cases ii) (auto simp: iscan_at_def inode_bitmap_block_def div_Suc)
  with False show ?thesis by auto
qed

lemma inode_scan_found:
  assumes "inode_ok d" "b < inode_capacity d" "\<not> inode_used d b" "\<forall>c<b. inode_used d c"
    and "b < ii + r" "ii \<le> b" "iscan_at d ibm ii" "is_bitmap (page_at d ibm)"
  shows "inode_scan r d (the_sb d) ibm (int ibm) ii mode uid gid
       = Some (int b, inode_alloc_result d b mode uid gid)"
  using assms(5-8)
proof (induction r arbitrary: ii ibm)
  case 0
  then show ?case by simp
next
  case (Suc r)
  have ii: "ii < inode_capacity d" using Suc.prems assms(2) by simp
  note head = iscan_head [OF assms(1) ii Suc.prems(3)]
  note index = inode_bitmap_index [OF assms(1) ii]
  have get: "bitmap_get (page_at d (inode_bitmap_block d ii)) (int (ii mod USABLE_BLOCK_SIZE))
      = Some (of_bool (inode_used d ii))"
    using inode_okD(3) [OF assms(1) ii] bitmap_index_ok_nat [of "ii mod 4092"]
    by (simp add: bitmap_get_bit inode_used_def)
  have tag: "page_type (page_at d ibm) = block_type_code BLOCK_TYPE_BITMAP"
    using Suc.prems(4) by (simp add: is_bitmap_def)
  show ?case
  proof (cases "ii = b")
    case True
    then show ?thesis
      unfolding inode_scan.simps head bind.simps prod.case Let_def index get
      using assms(3) inode_claim_ok [OF assms(1,2)] tag
      by (simp del: USABLE_BLOCK_SIZE_def)
  next
    case False
    with Suc.prems assms(4) have "inode_used d ii" by simp
    moreover have "inode_scan r d (the_sb d) (inode_bitmap_block d ii) (int (inode_bitmap_block d ii))
        (Suc ii) mode uid gid = Some (int b, inode_alloc_result d b mode uid gid)"
      using Suc.prems False inode_okD(3) [OF assms(1) ii] by (intro Suc.IH) (auto simp: iscan_at_def)
    ultimately show ?thesis
      unfolding inode_scan.simps head bind.simps prod.case Let_def index get
      using tag by (simp del: USABLE_BLOCK_SIZE_def)
  qed
qed

text \<open>The inode bitmap lies on the image, so the fuel exceeds the number of inodes.\<close>

lemma inode_fuel:
  assumes "inode_ok d" "i < inode_capacity d"
  shows "i < Suc (USABLE_BLOCK_SIZE * Suc (n_blocks d))"
proof -
  have "inode_bitmap_block d i < n_blocks d"
    using inode_okD(2) [OF assms] by (simp add: valid_block_def n_blocks_def)
  then have "i div 4092 < n_blocks d" by (simp add: inode_bitmap_block_def)
  then have "i < n_blocks d * 4092" by (simp add: div_less_iff_less_mult)
  then show ?thesis by simp
qed

lemma inode_allocate_found:
  assumes "inode_ok d" "b < inode_capacity d" "\<not> inode_used d b" "\<forall>c<b. inode_used d c"
  shows "inode_allocate d mode uid gid = Some (int b, inode_alloc_result d b mode uid gid)"
proof -
  let ?ib = "unat (inode_bitmap (the_sb d))"
  have pos: "0 < inode_capacity d" using assms(2) by simp
  have b0: "inode_bitmap_block d 0 = ?ib" by (simp add: inode_bitmap_block_def)
  have vb: "valid_block d ?ib" and bm: "is_bitmap (page_at d ?ib)"
    using inode_okD(2,3) [OF assms(1) pos] by (simp_all add: b0)
  have i0: "int_of_u64 (inode_bitmap (the_sb d)) = int ?ib"
    by (rule int_of_u64_valid [OF vb])
  have scan: "inode_scan (Suc (USABLE_BLOCK_SIZE * Suc (n_blocks d))) d (the_sb d) ?ib (int ?ib) 0 mode uid gid
      = Some (int b, inode_alloc_result d b mode uid gid)"
    using inode_fuel [OF assms(1,2)] bm
    by (intro inode_scan_found [OF assms]) (simp_all add: iscan_at_def b0)
  show ?thesis
    unfolding inode_allocate_def superblock_read_ok [OF inode_okD(1) [OF assms(1,2)]] bind.simps
      prod.case Let_def i0
    using vb scan by simp
qed

lemma inode_alloc_result_facts:
  assumes "inode_ok d" "b < inode_capacity d"
  shows "inode_ok (inode_alloc_result d b mode uid gid)"
    "inode_capacity (inode_alloc_result d b mode uid gid) = inode_capacity d"
    "j < inode_capacity d \<Longrightarrow>
       inode_used (inode_alloc_result d b mode uid gid) j = (if j = b then True else inode_used d j)"
    "j < inode_capacity d \<Longrightarrow> inode_at (inode_alloc_result d b mode uid gid) j
       = (if j = b then fresh_inode (inode_at d b) b mode uid gid else inode_at d j)"
    "the_sb (inode_alloc_result d b mode uid gid) = the_sb d"
    "n_blocks (inode_alloc_result d b mode uid gid) = n_blocks d"
    "k \<noteq> inode_bitmap_block d b \<Longrightarrow> k \<noteq> inode_table_block d b \<Longrightarrow>
       page_at (inode_alloc_result d b mode uid gid) k = page_at d k"
proof -
  let ?d1 = "set_inode_used d b True"
  note cap1 = layout_cong(1) [OF set_inode_used_frame(1) [OF assms, of True]]
  note ok1 = inode_ok_set_inode_used [OF assms, of True]
  have b1: "b < inode_capacity ?d1" using assms(2) cap1 by simp
  show "inode_ok (inode_alloc_result d b mode uid gid)"
    unfolding inode_alloc_result_def by (rule inode_ok_set_inode [OF ok1 b1])
  show "the_sb (inode_alloc_result d b mode uid gid) = the_sb d"
    unfolding inode_alloc_result_def
    using set_inode_frame(1) [OF ok1 b1] set_inode_used_frame(1) [OF assms] by simp
  show "n_blocks (inode_alloc_result d b mode uid gid) = n_blocks d"
    by (simp add: inode_alloc_result_def set_inode_def set_inode_used_def)
  show "page_at (inode_alloc_result d b mode uid gid) k = page_at d k"
    if "k \<noteq> inode_bitmap_block d b" "k \<noteq> inode_table_block d b"
    using that layout_cong(3) [OF set_inode_used_frame(1) [OF assms]]
    by (simp add: inode_alloc_result_def page_at_set_inode page_at_set_inode_used)
  show "inode_capacity (inode_alloc_result d b mode uid gid) = inode_capacity d"
    unfolding inode_alloc_result_def by (simp add: layout_cong(1) [OF set_inode_frame(1) [OF ok1 b1]] cap1)
  assume j: "j < inode_capacity d"
  then have j1: "j < inode_capacity ?d1" using cap1 by simp
  show "inode_used (inode_alloc_result d b mode uid gid) j = (if j = b then True else inode_used d j)"
    unfolding inode_alloc_result_def inode_used_set_inode [OF ok1 b1 j1]
    by (rule inode_used_set_inode_used [OF assms])
  show "inode_at (inode_alloc_result d b mode uid gid) j
       = (if j = b then fresh_inode (inode_at d b) b mode uid gid else inode_at d j)"
    unfolding inode_alloc_result_def
    using inode_at_set_inode_used [OF assms j, of True]
    by (simp add: inode_at_set_inode [OF ok1 b1])
qed

text \<open>
  The inode table as a first-fit allocator: its state is a sound volume, and the
  indices beyond the table count as used.
\<close>

definition inode_taken :: "DiskInterface \<Rightarrow> nat \<Rightarrow> bool" where
  "inode_taken d i \<longleftrightarrow> inode_capacity d \<le> i \<or> inode_used d i"

interpretation inode_alloc:
  first_fit inode_ok inode_capacity inode_taken "\<lambda>d. inode_allocate d mode uid gid" int
    "\<lambda>d d'. the_sb d' = the_sb d" for mode uid gid
proof unfold_locales
  fix d b
  assume a: "inode_ok d" "b < inode_capacity d" "\<not> inode_taken d b" "\<forall>c<b. inode_taken d c"
  let ?d = "inode_alloc_result d b mode uid gid"
  have "\<not> inode_used d b" "\<forall>c<b. inode_used d c"
    using a by (auto simp: inode_taken_def)
  then have "inode_allocate d mode uid gid = Some (int b, ?d)"
    by (rule inode_allocate_found [OF a(1,2)])
  moreover have "inode_taken ?d = (inode_taken d)(b := True)"
  proof
    fix j
    show "inode_taken ?d j = ((inode_taken d)(b := True)) j"
      using inode_alloc_result_facts(2,3) [OF a(1,2), where mode = mode and uid = uid and gid = gid] a(2)
      by (cases "j < inode_capacity d") (auto simp: inode_taken_def)
  qed
  ultimately show "\<exists>s'. inode_allocate d mode uid gid = Some (int b, s') \<and> inode_ok s'
      \<and> inode_capacity s' = inode_capacity d \<and> inode_taken s' = (inode_taken d)(b := True)
      \<and> the_sb s' = the_sb d"
    using inode_alloc_result_facts(5) [OF a(1,2), where mode = mode and uid = uid and gid = gid]
      inode_alloc_result_facts(1,2) [OF a(1,2), where mode = mode and uid = uid and gid = gid] by blast
qed simp_all

subsection \<open>inode\_free\<close>

text \<open>
  The bit index that \<open>inode_free\<close> hands to \<open>bitmap_put\<close> is relative to block 1, not to
  the first inode bitmap block. With a block bitmap in front it is negative.
\<close>

lemma inode_free_index:
  assumes "2 \<le> ib" "ib < 2 ^ 19" "i div USABLE_BLOCK_SIZE < 2 ^ 19"
  shows "int_of_u64 (of_nat i - u64_of_int ((int (ib + i div USABLE_BLOCK_SIZE) - 1) * int USABLE_BLOCK_SIZE))
       = int (i mod USABLE_BLOCK_SIZE) - (int ib - 1) * int USABLE_BLOCK_SIZE"
    (is "?l = ?r")
proof -
  have "int i = int (i div USABLE_BLOCK_SIZE) * int USABLE_BLOCK_SIZE + int (i mod USABLE_BLOCK_SIZE)"
    by (metis div_mult_mod_eq of_nat_add of_nat_mult)
  then have "int i - (int (ib + i div USABLE_BLOCK_SIZE) - 1) * int USABLE_BLOCK_SIZE = ?r"
    unfolding of_nat_add by (simp only: left_diff_distrib distrib_right)
  then have "(of_nat i :: u64) - u64_of_int ((int (ib + i div USABLE_BLOCK_SIZE) - 1) * int USABLE_BLOCK_SIZE)
      = u64_of_int ?r"
    by (metis u64_of_int_diff u64_of_int_of_nat)
  then have "?l = int_of_u64 (u64_of_int ?r)" by simp
  also have "\<dots> = ?r"
    using assms by (intro int_of_u64_of_int) simp_all
  finally show ?thesis .
qed

lemma inode_free_negative:
  assumes "inode_ok d" "i < inode_capacity d" "2 \<le> unat (inode_bitmap (the_sb d))"
  shows "inode_free d (of_nat i) = None"
proof -
  let ?ib = "unat (inode_bitmap (the_sb d))"
  note small = inode_number_small [OF assms(2)]
  have valid: "valid_block d (inode_bitmap_block d i)"
    by (rule inode_okD(2) [OF assms(1,2)])
  then have b: "?ib + i div USABLE_BLOCK_SIZE < 2 ^ 19"
    by (simp add: valid_block_def inode_bitmap_block_def)
  have addr: "inode_bitmap (the_sb d) + of_nat i div of_nat USABLE_BLOCK_SIZE = of_nat (inode_bitmap_block d i)"
    using small by (simp add: inode_bitmap_block_def of_nat_div_u64 del: of_nat_numeral)
  have ibmn: "int_of_u64 (inode_bitmap (the_sb d) + of_nat i div of_nat USABLE_BLOCK_SIZE)
      = int (inode_bitmap_block d i)"
    unfolding addr using int_of_u64_valid [of d "of_nat (inode_bitmap_block d i)"] valid by simp
  have idx: "int_of_u64 (of_nat i - u64_of_int ((int (inode_bitmap_block d i) - 1) * int USABLE_BLOCK_SIZE)) < 0"
  proof -
    have "int 2 \<le> int ?ib"
      using assms(3) by (simp only: of_nat_le_iff)
    then have "1 \<le> int ?ib - 1" by simp
    then have "(1::int) * int USABLE_BLOCK_SIZE \<le> (int ?ib - 1) * int USABLE_BLOCK_SIZE"
      by (rule mult_right_mono) simp
    moreover have "int (i mod USABLE_BLOCK_SIZE) < int USABLE_BLOCK_SIZE" by simp
    ultimately show ?thesis
      using inode_free_index [OF assms(3), of i] b by (simp add: inode_bitmap_block_def)
  qed
  then have "bitmap_put (page_at d (inode_bitmap_block d i))
      (int_of_u64 (of_nat i - u64_of_int ((int (inode_bitmap_block d i) - 1) * int USABLE_BLOCK_SIZE))) 0 = None"
    using inode_okD(3) [OF assms(1,2)] by (simp add: bitmap_put_def type_neq bitmap_index_ok_def)
  then show ?thesis
    unfolding inode_free_def superblock_read_ok [OF inode_okD(1) [OF assms(1,2)]] bind.simps prod.case
      Let_def ibmn
    using valid by simp
qed

subsection \<open>The block map of a file\<close>

lemma inode_get_set_direct:
  assumes "inode_wf n" "unat idx < NDIRECT" "inode_set_block d n idx p = Some (rv, n', d')"
  shows "rv = 0" "d' = d" "inode_wf n'"
    "inode_get_block d' n' idx cur = Some (if p \<noteq> 0 then 0 else -1, p)"
  using assms by (auto simp: inode_set_block_def inode_get_block_def inode_wf_def Let_def)

lemma inode_get_set_direct_other:
  assumes "inode_wf n" "unat idx < NDIRECT" "inode_set_block d n idx p = Some (rv, n', d')"
    and "j \<noteq> idx"
  shows "inode_get_block d' n' j cur = inode_get_block d n j cur"
proof -
  have "unat j \<noteq> unat idx" using assms(4) by (simp add: word_unat_eq_iff)
  with assms show ?thesis
    by (auto simp: inode_set_block_def inode_get_block_def inode_wf_def Let_def)
qed

end
