(* ===== verification/Btree.thy ===== *)
theory Btree
  imports Alloc
begin

text \<open>
  The on-disk tree of \<open>btr.c\<close>: its node structure and every operation on it. A node
  fills one block. A leaf stands for one key; an inner node holds up to \<open>MAX_KEYS\<close> keys
  and \<open>MAX_KEYS + 1\<close> children. Reading a node copies it into a local structure; a node
  just created is used through the pointer into its block.

  An array index beyond the array is \<open>None\<close>. The recursions of the code have no bound of
  their own; they follow child pointers, and a path without repetition is no longer
  than the number of blocks, so a fuel above that number runs out only where the C
  code does not return.
\<close>

subsection \<open>The node structure\<close>

record BTreeNode =
  block_number :: u64
  is_leaf :: bool
  node_type :: u32
  key :: u64
  val :: u64
  num_keys :: u16
  keys :: "u64 list"
  children :: "u64 list"
  parent :: u64
  left_sibling :: u64
  right_sibling :: u64

definition node_of_page :: "page \<Rightarrow> BTreeNode" where
  "node_of_page pg = \<lparr>
     block_number = rd64 pg 4,
     is_leaf = rd_bool pg 12,
     node_type = rd32 pg 16,
     key = rd64 pg 20,
     val = rd64 pg 28,
     num_keys = rd16 pg 36,
     keys = rd64s pg 44 MAX_KEYS,
     children = rd64s pg 2044 (MAX_KEYS + 1),
     parent = rd64 pg 4052,
     left_sibling = rd64 pg 4060,
     right_sibling = rd64 pg 4068\<rparr>"

definition node_to_page :: "BTreeNode \<Rightarrow> page \<Rightarrow> page" where
  "node_to_page n pg =
     wr64 (wr64 (wr64 (wr64s (wr64s (wr16 (wr64 (wr64 (wr32 (wr_bool (wr64 pg
       4 (block_number n))
       12 (is_leaf n))
       16 (node_type n))
       20 (key n))
       28 (val n))
       36 (num_keys n))
       44 (keys n))
       2044 (children n))
       4052 (parent n))
       4060 (left_sibling n))
       4068 (right_sibling n)"

definition node_wf :: "BTreeNode \<Rightarrow> bool" where
  "node_wf n \<longleftrightarrow> length (keys n) = MAX_KEYS \<and> length (children n) = MAX_KEYS + 1"

lemma node_of_to_page: "node_wf n \<Longrightarrow> node_of_page (node_to_page n pg) = n"
  by (simp add: node_wf_def node_of_page_def node_to_page_def page_simps)

lemma node_wf_of_page [simp]: "node_wf (node_of_page pg)"
  by (simp add: node_wf_def node_of_page_def)

lemma page_type_node_to_page [simp]: "page_type (node_to_page n pg) = page_type pg"
  by (simp add: node_to_page_def page_simps)

lemma node_of_set_page_type [simp]: "node_of_page (set_page_type pg t) = node_of_page pg"
  by (simp add: node_of_page_def page_simps)

text \<open>Array accesses, and a change of a node through the pointer into its block.\<close>

definition child_at :: "BTreeNode \<Rightarrow> nat \<Rightarrow> u64 option" where
  "child_at n i = (if i \<le> MAX_KEYS then Some (children n ! i) else None)"

definition key_at :: "BTreeNode \<Rightarrow> nat \<Rightarrow> u64 option" where
  "key_at n i = (if i < MAX_KEYS then Some (keys n ! i) else None)"

definition set_child :: "BTreeNode \<Rightarrow> nat \<Rightarrow> u64 \<Rightarrow> BTreeNode option" where
  "set_child n i v = (if i \<le> MAX_KEYS then Some (n\<lparr>children := (children n)[i := v]\<rparr>) else None)"

definition set_key :: "BTreeNode \<Rightarrow> nat \<Rightarrow> u64 \<Rightarrow> BTreeNode option" where
  "set_key n i v = (if i < MAX_KEYS then Some (n\<lparr>keys := (keys n)[i := v]\<rparr>) else None)"

definition node_at :: "DiskInterface \<Rightarrow> nat \<Rightarrow> BTreeNode" where
  "node_at d k = node_of_page (page_at d k)"

definition set_node :: "DiskInterface \<Rightarrow> nat \<Rightarrow> BTreeNode \<Rightarrow> DiskInterface" where
  "set_node d k n = set_page d k (node_to_page n (page_at d k))"

subsection \<open>Node management\<close>

text \<open>
  \<open>btree_node_create\<close> returns the node pointer (\<open>None\<close> for a null pointer) and the
  page number. It leaves the field \<open>type\<close> as the block had it.
\<close>

definition btree_node_create :: "DiskInterface \<Rightarrow> bool \<Rightarrow> (nat option \<times> u64 \<times> DiskInterface) option" where
  "btree_node_create d leaf = do {
     (page, d1) \<leftarrow> alloc_page d;
     if page = 0 then Some (None, page, d1)
     else do {
       k \<leftarrow> get_block_direct d1 0 page;
       let d2 = set_page d1 k (set_page_type (page_at d1 k) BLOCK_TYPE_BTREE_NODE);
       let d3 = set_node d2 k ((node_at d2 k)\<lparr>block_number := page, is_leaf := leaf, key := 0,
         num_keys := 0, val := 0, parent := 0, left_sibling := 0, right_sibling := 0,
         keys := replicate MAX_KEYS 0, children := replicate (MAX_KEYS + 1) 0\<rparr>);
       Some (Some k, page, write_block_direct d3 k 0 (block_number (node_at d3 k)))
     }
   }"

definition btree_node_free :: "DiskInterface \<Rightarrow> u64 \<Rightarrow> DiskInterface option" where
  "btree_node_free d block = free_page d (int_of_u64 block)"

definition btree_node_read :: "DiskInterface \<Rightarrow> u64 \<Rightarrow> (int \<times> BTreeNode option) option" where
  "btree_node_read d block_num = do {
     k \<leftarrow> get_block_direct d 0 block_num;
     if page_type (page_at d k) \<noteq> block_type_code BLOCK_TYPE_BTREE_NODE then Some (-1, None)
     else Some (0, Some (node_at d k))
   }"

definition btree_node_write :: "DiskInterface \<Rightarrow> BTreeNode \<Rightarrow> (int \<times> DiskInterface) option" where
  "btree_node_write d n = do {
     k \<leftarrow> get_block_direct d 0 (block_number n);
     if page_type (page_at d k) \<noteq> block_type_code BLOCK_TYPE_BTREE_NODE then Some (-1, d)
     else
       let d1 = set_node d k n
       in Some (0, write_block_direct d1 k 0 (block_number n))
   }"

text \<open>
  Most callers read into a local structure and ignore the return code: after a failed
  read the structure is indeterminate.
\<close>

definition node_get :: "DiskInterface \<Rightarrow> u64 \<Rightarrow> BTreeNode option" where
  "node_get d b = do { (_, no) \<leftarrow> btree_node_read d b; no }"

text \<open>Reading into a structure that already has a value keeps it on an error.\<close>

definition node_reread :: "DiskInterface \<Rightarrow> u64 \<Rightarrow> BTreeNode \<Rightarrow> BTreeNode option" where
  "node_reread d b old = do {
     (_, no) \<leftarrow> btree_node_read d b;
     Some (case no of None \<Rightarrow> old | Some n \<Rightarrow> n)
   }"

definition tree_fuel :: "DiskInterface \<Rightarrow> nat" where
  "tree_fuel d = Suc (n_blocks d)"

subsection \<open>Search\<close>

fun search_children :: "(u64 \<Rightarrow> u64 option) \<Rightarrow> BTreeNode \<Rightarrow> nat list \<Rightarrow> u64 option" where
  "search_children rec n [] = Some 0"
| "search_children rec n (i # is) = do {
     c \<leftarrow> child_at n i;
     if c \<noteq> 0 then do {
       rv \<leftarrow> rec c;
       if rv \<noteq> 0 then Some rv else search_children rec n is
     }
     else search_children rec n is
   }"

fun btree_search_fuel :: "nat \<Rightarrow> DiskInterface \<Rightarrow> u64 \<Rightarrow> u64 \<Rightarrow> u64 option" where
  "btree_search_fuel 0 d b k = None"
| "btree_search_fuel (Suc f) d b k = do {
     n \<leftarrow> node_get d b;
     if is_leaf n then Some (if key n = k then block_number n else 0)
     else search_children (\<lambda>c. btree_search_fuel f d c k) n [0..<Suc (unat (num_keys n))]
   }"

definition btree_search :: "DiskInterface \<Rightarrow> u64 \<Rightarrow> u64 \<Rightarrow> u64 option" where
  "btree_search d node_block k = btree_search_fuel (tree_fuel d) d node_block k"

fun find_depth_loop :: "nat \<Rightarrow> DiskInterface \<Rightarrow> BTreeNode \<Rightarrow> int \<Rightarrow> int option" where
  "find_depth_loop 0 d n depth = None"
| "find_depth_loop (Suc f) d n depth =
     (if is_leaf n then Some depth
      else do {
        c \<leftarrow> child_at n 0;
        if c \<noteq> 0 then do {
          n' \<leftarrow> node_reread d c n;
          find_depth_loop f d n' (depth + 1)
        }
        else Some (-1)
      })"

definition btree_find_depth :: "DiskInterface \<Rightarrow> u64 \<Rightarrow> int option" where
  "btree_find_depth d node_block = do {
     n \<leftarrow> node_get d node_block;
     find_depth_loop (tree_fuel d) d n 0
   }"

fun find_height_loop :: "nat \<Rightarrow> DiskInterface \<Rightarrow> BTreeNode \<Rightarrow> int \<Rightarrow> int option" where
  "find_height_loop 0 d n height = None"
| "find_height_loop (Suc f) d n height =
     (if \<not> is_leaf n then do {
        c \<leftarrow> child_at n 0;
        n' \<leftarrow> node_reread d c n;
        find_height_loop f d n' (height + 1)
      }
      else Some height)"

definition btree_find_height :: "DiskInterface \<Rightarrow> u64 \<Rightarrow> int option" where
  "btree_find_height d node_block = do {
     n \<leftarrow> node_get d node_block;
     c \<leftarrow> child_at n 0;
     if parent n = 0 \<and> c = 0 then Some 0
     else find_height_loop (tree_fuel d) d n 0
   }"

text \<open>\<open>btree_find_minimum\<close> returns the key as an \<open>int\<close>.\<close>

fun find_minimum_fuel :: "nat \<Rightarrow> DiskInterface \<Rightarrow> u64 \<Rightarrow> int option" where
  "find_minimum_fuel 0 d root_block = None"
| "find_minimum_fuel (Suc f) d root_block = do {
     root \<leftarrow> node_get d root_block;
     c \<leftarrow> child_at root 0;
     first_child \<leftarrow> node_get d c;
     if is_leaf first_child then Some (int_of_u64 (key first_child))
     else find_minimum_fuel f d (block_number first_child)
   }"

definition btree_find_minimum :: "DiskInterface \<Rightarrow> u64 \<Rightarrow> int option" where
  "btree_find_minimum d root_block = find_minimum_fuel (tree_fuel d) d root_block"

text \<open>The rightmost child that is not 0.\<close>

fun last_child :: "BTreeNode \<Rightarrow> nat list \<Rightarrow> u64 option" where
  "last_child n [] = Some 0"
| "last_child n (i # is) = do {
     c \<leftarrow> child_at n i;
     if c \<noteq> 0 then Some c else last_child n is
   }"

fun find_maximum_fuel :: "nat \<Rightarrow> DiskInterface \<Rightarrow> u64 \<Rightarrow> u64 option" where
  "find_maximum_fuel 0 d root_block = None"
| "find_maximum_fuel (Suc f) d root_block = do {
     root \<leftarrow> node_get d root_block;
     if is_leaf root then Some (key root)
     else do {
       c \<leftarrow> last_child root (rev [0..<Suc (unat (num_keys root))]);
       if c \<noteq> 0 then find_maximum_fuel f d c else Some 0
     }
   }"

definition btree_find_maximum :: "DiskInterface \<Rightarrow> u64 \<Rightarrow> u64 option" where
  "btree_find_maximum d root_block = find_maximum_fuel (tree_fuel d) d root_block"

subsection \<open>Insertion into an inner node\<close>

text \<open>
  \<open>btree_insert_nonfull\<close> changes both structures it is given: the results are the
  return code, the inner node and the new node.
\<close>

definition insert_pos_step ::
    "DiskInterface \<Rightarrow> BTreeNode \<Rightarrow> BTreeNode \<Rightarrow> nat \<Rightarrow> nat \<Rightarrow> nat option" where
  "insert_pos_step d root node j pos = do {
     c \<leftarrow> child_at root j;
     if c \<noteq> 0 then do {
       child \<leftarrow> node_get d c;
       if is_leaf child \<and> key child < key node then Some (j + 1)
       else if \<not> is_leaf child then do {
         max_key \<leftarrow> btree_find_maximum d (block_number child);
         Some (if max_key < key node then j + 1 else pos)
       }
       else Some pos
     }
     else Some pos
   }"

definition btree_insert_nonfull ::
    "DiskInterface \<Rightarrow> BTreeNode \<Rightarrow> BTreeNode \<Rightarrow> (int \<times> BTreeNode \<times> BTreeNode) option" where
  "btree_insert_nonfull d root node =
     (if is_leaf root then Some (-1, root, node)
      else do {
        let n = unat (num_keys root);
        pos0 \<leftarrow> for_each [0..<Suc n] (insert_pos_step d root node) 0;
        let child_pos = (if n < pos0 then n else pos0);
        r1 \<leftarrow> for_each (rev [child_pos..<Suc n])
          (\<lambda>j r. do { c \<leftarrow> child_at r j; set_child r (j + 1) c }) root;
        r2 \<leftarrow> for_each (rev [Suc child_pos..<Suc n])
          (\<lambda>j r. do { k \<leftarrow> key_at r (j - 1); set_key r j k }) r1;
        r3 \<leftarrow> set_child r2 child_pos (block_number node);
        Some (0, r3\<lparr>num_keys := num_keys r3 + 1\<rparr>, node\<lparr>parent := block_number root\<rparr>)
      })"

subsection \<open>The place of a new key\<close>

fun pick_child :: "DiskInterface \<Rightarrow> BTreeNode \<Rightarrow> u64 \<Rightarrow> nat list \<Rightarrow> nat \<Rightarrow> nat option" where
  "pick_child d n k [] idx = Some idx"
| "pick_child d n k (i # is) idx = do {
     c \<leftarrow> child_at n i;
     if c \<noteq> 0 then do {
       child_max \<leftarrow> btree_find_maximum d c;
       if k \<le> child_max then Some i else pick_child d n k is (i + 1)
     }
     else pick_child d n k is idx
   }"

text \<open>One descent: the node below, or \<open>None\<close> inside when there is no child to descend to.\<close>

definition descend :: "DiskInterface \<Rightarrow> BTreeNode \<Rightarrow> u64 \<Rightarrow> BTreeNode option option" where
  "descend d n k = do {
     idx0 \<leftarrow> pick_child d n k [0..<unat (num_keys n)] 0;
     let idx = (if unat (num_keys n) < idx0 then unat (num_keys n) else idx0);
     c \<leftarrow> child_at n idx;
     if c \<noteq> 0 then do { n' \<leftarrow> node_reread d c n; Some (Some n') }
     else do {
       c' \<leftarrow> last_child n (rev [0..<Suc (unat (num_keys n))]);
       if c' \<noteq> 0 then do { n' \<leftarrow> node_reread d c' n; Some (Some n') } else Some None
     }
   }"

fun insertion_loop :: "nat \<Rightarrow> DiskInterface \<Rightarrow> u64 \<Rightarrow> u64 \<Rightarrow> BTreeNode \<Rightarrow> int \<Rightarrow> BTreeNode option" where
  "insertion_loop 0 d root_block k n depth = None"
| "insertion_loop (Suc f) d root_block k n depth = do {
     h \<leftarrow> btree_find_depth d root_block;
     if depth < h - 1 then do {
       r \<leftarrow> descend d n k;
       case r of None \<Rightarrow> Some n | Some n' \<Rightarrow> insertion_loop f d root_block k n' (depth + 1)
     }
     else Some n
   }"

definition btree_insertion_search :: "DiskInterface \<Rightarrow> u64 \<Rightarrow> u64 \<Rightarrow> int option" where
  "btree_insertion_search d root_block k = do {
     root \<leftarrow> node_get d root_block;
     c \<leftarrow> child_at root 0;
     if c = 0 then Some (int_of_u64 (block_number root))
     else do {
       h \<leftarrow> btree_find_depth d root_block;
       if h - 1 \<le> 0 then Some (int_of_u64 (block_number root))
       else do {
         n \<leftarrow> insertion_loop (tree_fuel d) d root_block k root 0;
         Some (int_of_u64 (block_number n))
       }
     }
   }"

text \<open>Every key of a node becomes the maximum of the child at the same index.\<close>

definition refresh_keys :: "DiskInterface \<Rightarrow> BTreeNode \<Rightarrow> BTreeNode option" where
  "refresh_keys d n = for_each [0..<unat (num_keys n)]
     (\<lambda>i p. do {
        c \<leftarrow> child_at p i;
        if c \<noteq> 0 then do { m \<leftarrow> btree_find_maximum d c; set_key p i m } else Some p
      }) n"

definition btree_update_parent_keys :: "DiskInterface \<Rightarrow> BTreeNode \<Rightarrow> DiskInterface option" where
  "btree_update_parent_keys d node =
     (if parent node = 0 then Some d
      else do {
        p \<leftarrow> node_get d (parent node);
        p' \<leftarrow> refresh_keys d p;
        (_, d1) \<leftarrow> btree_node_write d p';
        Some d1
      })"

end
