(* ===== verification/Btree_Balance.thy ===== *)
theory Btree_Balance
  imports Btree
begin

text \<open>
  The operations of \<open>btr.c\<close> that restructure the tree: insertion with its splits, and
  deletion with borrowing, merging and the promotion of the root. Structures passed by
  pointer come back as results; structures created in a block are changed there.
\<close>

subsection \<open>Splitting\<close>

text \<open>Point the \<open>parent\<close> field of the node in block \<open>c\<close> to \<open>p\<close>, as all splits do.\<close>

definition set_parent :: "DiskInterface \<Rightarrow> u64 \<Rightarrow> u64 \<Rightarrow> DiskInterface option" where
  "set_parent d c p = do {
     child \<leftarrow> node_get d c;
     (_, d1) \<leftarrow> btree_node_write d (child\<lparr>parent := p\<rparr>);
     Some d1
   }"

text \<open>
  \<open>btree_split_root\<close>: the structure \<open>root\<close> is the caller's copy; the two new nodes live
  in the blocks \<open>ka\<close> and \<open>kb\<close>.
\<close>

definition split_root_lower ::
    "BTreeNode \<Rightarrow> nat \<Rightarrow> nat \<Rightarrow> DiskInterface \<Rightarrow> DiskInterface option" where
  "split_root_lower root ka i d = do {
     k \<leftarrow> key_at root i;
     c \<leftarrow> child_at root i;
     a1 \<leftarrow> set_key (node_at d ka) i k;
     a2 \<leftarrow> set_child a1 i c;
     let d1 = set_node d ka a2;
     d2 \<leftarrow> (if c \<noteq> 0 then set_parent d1 c (block_number (node_at d1 ka)) else Some d1);
     Some (set_node d2 ka ((node_at d2 ka)\<lparr>num_keys := num_keys (node_at d2 ka) + 1\<rparr>))
   }"

definition split_root_upper_key ::
    "BTreeNode \<Rightarrow> nat \<Rightarrow> nat \<Rightarrow> DiskInterface \<Rightarrow> DiskInterface option" where
  "split_root_upper_key root kb i d = do {
     k \<leftarrow> key_at root i;
     b1 \<leftarrow> set_key (node_at d kb) (i - MIN_KEYS - 1) k;
     Some (set_node d kb (b1\<lparr>num_keys := num_keys b1 + 1\<rparr>))
   }"

definition split_root_upper_child ::
    "BTreeNode \<Rightarrow> nat \<Rightarrow> nat \<Rightarrow> DiskInterface \<Rightarrow> DiskInterface option" where
  "split_root_upper_child root kb i d = do {
     c \<leftarrow> child_at root i;
     b1 \<leftarrow> set_child (node_at d kb) (i - MIN_KEYS - 1) c;
     let d1 = set_node d kb b1;
     if c \<noteq> 0 then set_parent d1 c (block_number (node_at d1 kb)) else Some d1
   }"

definition btree_split_root :: "DiskInterface \<Rightarrow> BTreeNode \<Rightarrow> (BTreeNode \<times> DiskInterface) option" where
  "btree_split_root d root = do {
     (pa, _, d1) \<leftarrow> btree_node_create d False;
     (pb, _, d2) \<leftarrow> btree_node_create d1 False;
     ka \<leftarrow> pa;
     kb \<leftarrow> pb;
     let d3 = set_node d2 ka ((node_at d2 ka)\<lparr>right_sibling := block_number (node_at d2 kb)\<rparr>);
     let d4 = set_node d3 kb ((node_at d3 kb)\<lparr>left_sibling := block_number (node_at d3 ka)\<rparr>);
     d5 \<leftarrow> for_each [0..<MIN_KEYS] (split_root_lower root ka) d4;
     cm \<leftarrow> child_at root MIN_KEYS;
     am \<leftarrow> set_child (node_at d5 ka) MIN_KEYS cm;
     let d6 = set_node d5 ka am;
     d7 \<leftarrow> (if cm \<noteq> 0 then set_parent d6 cm (block_number (node_at d6 ka)) else Some d6);
     d8 \<leftarrow> for_each [MIN_KEYS + 1..<unat (num_keys root)] (split_root_upper_key root kb) d7;
     d9 \<leftarrow> for_each [MIN_KEYS + 1..<Suc (unat (num_keys root))] (split_root_upper_child root kb) d8;
     cl \<leftarrow> child_at root MAX_KEYS;
     d10 \<leftarrow> (if cl \<noteq> 0 then do {
         bl \<leftarrow> set_child (node_at d9 kb) (unat (num_keys (node_at d9 kb))) cl;
         let d' = set_node d9 kb bl;
         set_parent d' cl (block_number (node_at d' kb))
       } else Some d9);
     let root1 = root\<lparr>is_leaf := False, num_keys := 1,
       children := block_number (node_at d10 ka) # block_number (node_at d10 kb) # replicate (MAX_KEYS - 1) 0,
       keys := hd (keys root) # replicate (MAX_KEYS - 1) 0\<rparr>;
     let d11 = set_node d10 ka ((node_at d10 ka)\<lparr>parent := block_number root1\<rparr>);
     let d12 = set_node d11 kb ((node_at d11 kb)\<lparr>parent := block_number root1\<rparr>);
     m \<leftarrow> btree_find_maximum d12 (block_number (node_at d12 ka));
     root2 \<leftarrow> set_key root1 0 m;
     Some (root2, d12)
   }"

text \<open>The index of a child block in a node, or one more than \<open>num_keys\<close>.\<close>

fun child_index :: "BTreeNode \<Rightarrow> u64 \<Rightarrow> nat list \<Rightarrow> nat option" where
  "child_index n b [] = Some (unat (num_keys n) + 1)"
| "child_index n b (i # is) = do {
     c \<leftarrow> child_at n i;
     if c = b then Some i else child_index n b is
   }"

text \<open>Make room behind child \<open>index\<close> and put the new child there.\<close>

definition link_child :: "BTreeNode \<Rightarrow> nat \<Rightarrow> u64 \<Rightarrow> BTreeNode option" where
  "link_child n index b = do {
     n1 \<leftarrow> for_each (rev [Suc index..<Suc (unat (num_keys n))])
       (\<lambda>i r. do { c \<leftarrow> child_at r i; set_child r (i + 1) c }) n;
     set_child n1 (index + 1) b
   }"

definition split_child_key ::
    "nat \<Rightarrow> nat \<Rightarrow> BTreeNode \<times> DiskInterface \<Rightarrow> (BTreeNode \<times> DiskInterface) option" where
  "split_child_key kb i s = (case s of (child, d) \<Rightarrow> do {
     k \<leftarrow> key_at child i;
     b1 \<leftarrow> set_key (node_at d kb) (i - MIN_KEYS - 1) k;
     child1 \<leftarrow> set_key child i 0;
     Some (child1, set_node d kb (b1\<lparr>num_keys := num_keys b1 + 1\<rparr>))
   })"

definition split_child_child ::
    "nat \<Rightarrow> nat \<Rightarrow> BTreeNode \<times> DiskInterface \<Rightarrow> (BTreeNode \<times> DiskInterface) option" where
  "split_child_child kb i s = (case s of (child, d) \<Rightarrow> do {
     c \<leftarrow> child_at child i;
     b1 \<leftarrow> set_child (node_at d kb) (i - MIN_KEYS - 1) c;
     let d1 = set_node d kb b1;
     d2 \<leftarrow> (if c \<noteq> 0 then set_parent d1 c (block_number (node_at d1 kb)) else Some d1);
     child1 \<leftarrow> set_child child i 0;
     Some (child1, d2)
   })"

fun split_child_fuel ::
    "nat \<Rightarrow> DiskInterface \<Rightarrow> BTreeNode \<Rightarrow> nat \<Rightarrow> BTreeNode \<Rightarrow> (BTreeNode \<times> BTreeNode \<times> DiskInterface) option" where
  "split_child_fuel 0 d node index child = None"
| "split_child_fuel (Suc f) d node index child = do {
     (pb, _, d1) \<leftarrow> btree_node_create d False;
     kb \<leftarrow> pb;
     let d2 = set_node d1 kb ((node_at d1 kb)\<lparr>parent := block_number node\<rparr>);
     let child1 = child\<lparr>right_sibling := block_number (node_at d2 kb)\<rparr>;
     let d3 = set_node d2 kb ((node_at d2 kb)\<lparr>left_sibling := block_number child1\<rparr>);
     (child2, d4) \<leftarrow> for_each [MIN_KEYS + 1..<unat (num_keys child)] (split_child_key kb) (child1, d3);
     (child3, d5) \<leftarrow> for_each [MIN_KEYS + 1..<Suc (unat (num_keys child))] (split_child_child kb) (child2, d4);
     child4 \<leftarrow> set_key child3 MIN_KEYS 0;
     let child5 = child4\<lparr>num_keys := of_nat MIN_KEYS\<rparr>;
     let b = block_number (node_at d5 kb);
     if unat (num_keys node) < MAX_KEYS then do {
       n1 \<leftarrow> link_child node index b;
       m \<leftarrow> btree_find_maximum d5 b;
       n2 \<leftarrow> set_key n1 index m;
       let d6 = set_node d5 kb ((node_at d5 kb)\<lparr>parent := block_number n2\<rparr>);
       n3 \<leftarrow> refresh_keys d6 (n2\<lparr>num_keys := num_keys n2 + 1\<rparr>);
       Some (n3, child5, d6)
     }
     else do {
       (node1, d6) \<leftarrow>
         (if parent node \<noteq> 0 then do {
            grandparent \<leftarrow> node_get d5 (parent node);
            parent_index \<leftarrow> child_index grandparent (block_number node) [0..<Suc (unat (num_keys grandparent))];
            (gp1, nd1, d') \<leftarrow> split_child_fuel f d5 grandparent parent_index node;
            (_, d'') \<leftarrow> btree_node_write d' gp1;
            Some (nd1, d'')
          }
          else btree_split_root d5 node);
       current_parent \<leftarrow> node_get d6 (parent child5);
       new_index \<leftarrow> child_index current_parent (block_number child5) [0..<Suc (unat (num_keys current_parent))];
       cp \<leftarrow> (if unat (num_keys current_parent) < MAX_KEYS then do {
           cp1 \<leftarrow> link_child current_parent new_index b;
           refresh_keys d6 (cp1\<lparr>num_keys := num_keys cp1 + 1\<rparr>)
         } else Some current_parent);
       (_, d7) \<leftarrow> btree_node_write d6 cp;
       Some (node1, child5, d7)
     }
   }"

definition btree_split_child ::
    "DiskInterface \<Rightarrow> BTreeNode \<Rightarrow> nat \<Rightarrow> BTreeNode \<Rightarrow> (BTreeNode \<times> BTreeNode \<times> DiskInterface) option" where
  "btree_split_child d node index child = split_child_fuel (tree_fuel d) d node index child"

subsection \<open>Insertion\<close>

text \<open>The first index whose key is 0 or not below the given key.\<close>

definition key_index :: "BTreeNode \<Rightarrow> u64 \<Rightarrow> nat" where
  "key_index n k = length (takeWhile (\<lambda>x. x < k \<and> x \<noteq> 0) (keys n))"

text \<open>
  The new node is used through the pointer into its block \<open>kn\<close>; \<open>target\<close> is a local copy
  that is written back only after \<open>btree_insert_nonfull\<close>.
\<close>

definition insert_into_target :: "DiskInterface \<Rightarrow> BTreeNode \<Rightarrow> nat \<Rightarrow> DiskInterface option" where
  "insert_into_target d target kn = do {
     (_, t1, n1) \<leftarrow> btree_insert_nonfull d target (node_at d kn);
     let d1 = set_node d kn n1;
     (_, d2) \<leftarrow> btree_node_write d1 t1;
     Some d2
   }"

definition insert_into_full ::
    "DiskInterface \<Rightarrow> u64 \<Rightarrow> u64 \<Rightarrow> BTreeNode \<Rightarrow> nat \<Rightarrow> DiskInterface option" where
  "insert_into_full d root_block k target kn = do {
     kl \<leftarrow> key_at target (MAX_KEYS - 1);
     cl \<leftarrow> child_at target MAX_KEYS;
     if kl < k \<and> cl = 0 then do {
       target' \<leftarrow> set_child target MAX_KEYS (block_number (node_at d kn));
       Some (set_node d kn ((node_at d kn)\<lparr>parent := block_number target'\<rparr>))
     }
     else do {
       d1 \<leftarrow> (if parent target \<noteq> 0 then do {
           p \<leftarrow> node_get d (parent target);
           m \<leftarrow> btree_find_maximum d (block_number target);
           (_, _, d') \<leftarrow> btree_split_child d p (key_index p m) target;
           Some d'
         }
         else do { (_, d') \<leftarrow> btree_split_root d target; Some d' });
       tb \<leftarrow> btree_insertion_search d1 root_block k;
       target' \<leftarrow> node_get d1 (u64_of_int tb);
       insert_into_target d1 target' kn
     }
   }"

definition btree_insert ::
    "DiskInterface \<Rightarrow> u64 \<Rightarrow> u64 \<Rightarrow> u64 \<Rightarrow> u32 \<Rightarrow> (int \<times> DiskInterface) option" where
  "btree_insert d root_block k v type = do {
     (pn, _, d1) \<leftarrow> btree_node_create d True;
     kn \<leftarrow> pn;
     let d2 = set_node d1 kn ((node_at d1 kn)\<lparr>key := k, val := v, node_type := type\<rparr>);
     (_, d3) \<leftarrow> btree_node_write d2 (node_at d2 kn);
     target_block \<leftarrow> btree_insertion_search d3 root_block k;
     target \<leftarrow> node_get d3 (u64_of_int target_block);
     d4 \<leftarrow> (if unat (num_keys target) = MAX_KEYS
       then insert_into_full d3 root_block k target kn
       else insert_into_target d3 target kn);
     d5 \<leftarrow> btree_update_parent_keys d4 (node_at d4 kn);
     Some (0, d5)
   }"

subsection \<open>Borrowing\<close>

text \<open>Both return the borrowed child as an \<open>int\<close>, or -1.\<close>

fun borrow_last :: "BTreeNode \<Rightarrow> nat list \<Rightarrow> (int \<times> BTreeNode) option" where
  "borrow_last n [] = Some (-1, n)"
| "borrow_last n (i # is) = do {
     c \<leftarrow> child_at n i;
     if c \<noteq> 0 then do {
       n1 \<leftarrow> (if i < unat (num_keys n) then set_key n i 0 else Some n);
       n2 \<leftarrow> set_child n1 i 0;
       Some (int_of_u64 c, n2\<lparr>num_keys := num_keys n2 - 1\<rparr>)
     }
     else borrow_last n is
   }"

definition btree_borrow_left :: "DiskInterface \<Rightarrow> BTreeNode \<Rightarrow> (int \<times> DiskInterface) option" where
  "btree_borrow_left d node =
     (if left_sibling node = 0 then Some (-1, d)
      else do {
        s \<leftarrow> node_get d (left_sibling node);
        if unat (num_keys s) = MIN_KEYS then Some (-1, d)
        else do {
          (rv, s1) \<leftarrow> borrow_last s (rev [0..<Suc (unat (num_keys s))]);
          (_, d1) \<leftarrow> btree_node_write d s1;
          Some (rv, d1)
        }
      })"

definition btree_borrow_right :: "DiskInterface \<Rightarrow> BTreeNode \<Rightarrow> (int \<times> DiskInterface) option" where
  "btree_borrow_right d node =
     (if right_sibling node = 0 then Some (-1, d)
      else do {
        s \<leftarrow> node_get d (right_sibling node);
        if unat (num_keys s) = MIN_KEYS then Some (-1, d)
        else do {
          c0 \<leftarrow> child_at s 0;
          s1 \<leftarrow> for_each [0..<MAX_KEYS] (\<lambda>i r. do { k \<leftarrow> key_at r (i + 1); set_key r i k }) s;
          s2 \<leftarrow> for_each [0..<MAX_KEYS + 1] (\<lambda>i r. do { c \<leftarrow> child_at r (i + 1); set_child r i c }) s1;
          s3 \<leftarrow> set_key s2 (MAX_KEYS - 1) 0;
          s4 \<leftarrow> set_child s3 MAX_KEYS 0;
          (_, d1) \<leftarrow> btree_node_write d (s4\<lparr>num_keys := num_keys s4 - 1\<rparr>);
          Some (int_of_u64 c0, d1)
        }
      })"

subsection \<open>Promotion of the root and merging\<close>

text \<open>
  The loop of \<open>btree_promote_root\<close> reads each child into the same local structure, which
  is wiped after use: \<open>None\<close> stands for the wiped structure.
\<close>

definition promote_step ::
    "BTreeNode \<Rightarrow> nat \<Rightarrow> BTreeNode option \<times> DiskInterface \<Rightarrow> (BTreeNode option \<times> DiskInterface) option" where
  "promote_step root i s = (case s of (local, d) \<Rightarrow> do {
     c \<leftarrow> child_at root i;
     if c \<noteq> 0 then do {
       (_, no) \<leftarrow> btree_node_read d c;
       child \<leftarrow> (case no of None \<Rightarrow> local | Some n \<Rightarrow> Some n);
       (_, d1) \<leftarrow> btree_node_write d (child\<lparr>parent := block_number root\<rparr>);
       Some (None, d1)
     }
     else Some (local, d)
   })"

definition btree_promote_root :: "DiskInterface \<Rightarrow> BTreeNode \<Rightarrow> (BTreeNode \<times> DiskInterface) option" where
  "btree_promote_root d root = do {
     let page = int_of_u64 (block_number root);
     c \<leftarrow> child_at root 0;
     child \<leftarrow> node_get d c;
     let root1 = child\<lparr>block_number := u64_of_int page, parent := 0\<rparr>;
     d1 \<leftarrow> btree_node_free d (block_number child);
     (_, d2) \<leftarrow> for_each [0..<Suc (unat (num_keys root1))] (promote_step root1) (Some child, d1);
     Some (root1, d2)
   }"

text \<open>
  The second copying loop of \<open>btree_merge_children\<close> stores children into the array of
  keys, also at the index \<open>MAX_KEYS\<close>.
\<close>

definition merge_copy :: "BTreeNode \<Rightarrow> BTreeNode \<Rightarrow> BTreeNode option" where
  "merge_copy a b = do {
     a1 \<leftarrow> for_each [MIN_KEYS + 1..<MAX_KEYS] (\<lambda>i r. do {
        k \<leftarrow> key_at b (i - MIN_KEYS - 1);
        r1 \<leftarrow> set_key r i k;
        Some (r1\<lparr>num_keys := num_keys r1 + 1\<rparr>)
      }) a;
     for_each [MIN_KEYS + 1..<MAX_KEYS + 1] (\<lambda>i r. do {
        c \<leftarrow> child_at b (i - MIN_KEYS - 1);
        set_key r i c
      }) a1
   }"

fun merge_children_fuel ::
    "nat \<Rightarrow> DiskInterface \<Rightarrow> BTreeNode \<Rightarrow> nat \<Rightarrow> (BTreeNode \<times> DiskInterface) option" where
  "merge_children_fuel 0 d prnt index = None"
| "merge_children_fuel (Suc f) d prnt index =
     (if index = MAX_KEYS then merge_children_fuel f d prnt (index - 1)
      else do {
        ca \<leftarrow> child_at prnt index;
        cb \<leftarrow> child_at prnt (index + 1);
        if ca = 0 \<or> cb = 0 then Some (prnt, d)
        else do {
          child_a \<leftarrow> node_get d ca;
          child_b \<leftarrow> node_get d cb;
          a1 \<leftarrow> merge_copy (child_a\<lparr>right_sibling := right_sibling child_b\<rparr>) child_b;
          (_, d1) \<leftarrow> btree_node_write d a1;
          p1 \<leftarrow> for_each [index + 1..<MAX_KEYS - 1] (\<lambda>i r. do { k \<leftarrow> key_at r (i + 1); set_key r i k }) prnt;
          p2 \<leftarrow> set_key p1 (MAX_KEYS - 1) 0;
          p3 \<leftarrow> for_each [index + 1..<MAX_KEYS] (\<lambda>i r. do { c \<leftarrow> child_at r (i + 1); set_child r i c }) p2;
          d2 \<leftarrow> btree_node_free d1 (block_number child_b);
          let p4 = p3\<lparr>num_keys := num_keys p3 - 1\<rparr>;
          if unat (num_keys p4) < MIN_KEYS then
            if parent p4 = 0 then do {
              c1 \<leftarrow> child_at p4 1;
              if c1 = 0 then btree_promote_root d2 p4 else Some (p4, d2)
            }
            else do {
              (rv, d3) \<leftarrow> btree_borrow_left d2 p4;
              (rv', d4) \<leftarrow> (if rv = -1 then btree_borrow_right d3 p4 else Some (rv, d3));
              if rv' = -1 then do {
                grandparent \<leftarrow> node_get d4 (parent p4);
                m \<leftarrow> btree_find_maximum d4 (block_number p4);
                (gp, d5) \<leftarrow> merge_children_fuel f d4 grandparent (key_index grandparent m);
                (_, d6) \<leftarrow> btree_node_write d5 gp;
                Some (p4, d6)
              }
              else Some (p4, d4)
            }
          else Some (p4, d2)
        }
      })"

definition btree_merge_children ::
    "DiskInterface \<Rightarrow> BTreeNode \<Rightarrow> nat \<Rightarrow> (BTreeNode \<times> DiskInterface) option" where
  "btree_merge_children d prnt index = merge_children_fuel (Suc (tree_fuel d)) d prnt index"

subsection \<open>Deletion\<close>

text \<open>Make up for a node that would fall below \<open>MIN_KEYS\<close>: the borrowed block, or -1.\<close>

definition rebalance :: "DiskInterface \<Rightarrow> BTreeNode \<Rightarrow> u64 \<Rightarrow> (int \<times> DiskInterface) option" where
  "rebalance d root k =
     (if unat (num_keys root) = MIN_KEYS \<and> parent root \<noteq> 0 then do {
        (rv, d1) \<leftarrow> btree_borrow_left d root;
        if rv \<noteq> -1 then Some (rv, d1)
        else do {
          (rv', d2) \<leftarrow> btree_borrow_right d1 root;
          if rv' \<noteq> -1 then Some (rv', d2)
          else do {
            grandparent \<leftarrow> node_get d2 (parent root);
            (gp, d3) \<leftarrow> btree_merge_children d2 grandparent (key_index grandparent k);
            (_, d4) \<leftarrow> btree_node_write d3 gp;
            Some (-1, d4)
          }
        }
      }
      else Some (-1, d))"

text \<open>Close the gap at index \<open>i\<close>: the keys and children behind it move down by one.\<close>

definition unlink_child :: "BTreeNode \<Rightarrow> nat \<Rightarrow> BTreeNode option" where
  "unlink_child n i = do {
     let m = unat (num_keys n);
     n1 \<leftarrow> for_each [i..<m] (\<lambda>j r. do { k \<leftarrow> key_at r (j + 1); set_key r j k }) n;
     n2 \<leftarrow> for_each [i..<Suc m] (\<lambda>j r. do { c \<leftarrow> child_at r (j + 1); set_child r j c }) n1;
     n3 \<leftarrow> (if m = 0 then None else set_key n2 (m - 1) 0);
     n4 \<leftarrow> set_child n3 m 0;
     Some (n4\<lparr>num_keys := num_keys n4 - 1\<rparr>)
   }"

definition btree_remove_key :: "DiskInterface \<Rightarrow> u64 \<Rightarrow> u64 \<Rightarrow> DiskInterface option" where
  "btree_remove_key d root_block k = do {
     root \<leftarrow> node_get d root_block;
     c \<leftarrow> child_at root (key_index root k);
     (_, no) \<leftarrow> btree_node_read d c;
     (rv, d1) \<leftarrow> rebalance d root k;
     root1 \<leftarrow> unlink_child root (key_index root k);
     (_, d2) \<leftarrow> btree_node_write d1 root1;
     c0 \<leftarrow> child_at root1 0;
     root2 \<leftarrow> (if num_keys root1 = 0 \<and> c0 \<noteq> 0 then do {
         m \<leftarrow> btree_find_maximum d2 root_block;
         r \<leftarrow> set_key root1 0 m;
         Some (r\<lparr>num_keys := num_keys r + 1\<rparr>)
       } else Some root1);
     root3 \<leftarrow> (if rv \<noteq> -1 then do {
         borrowed \<leftarrow> node_get d2 (u64_of_int rv);
         (_, r, _) \<leftarrow> btree_insert_nonfull d2 root2 borrowed;
         Some r
       } else Some root2);
     node \<leftarrow> no;
     d3 \<leftarrow> btree_update_parent_keys d2 node;
     (_, d4) \<leftarrow> btree_node_write d3 root3;
     Some d4
   }"

definition btree_delete :: "DiskInterface \<Rightarrow> u64 \<Rightarrow> u64 \<Rightarrow> (u64 \<times> DiskInterface) option" where
  "btree_delete d root_block k = do {
     rv \<leftarrow> btree_search d root_block k;
     if rv \<noteq> 0 then do {
       d1 \<leftarrow> btree_remove_key d root_block k;
       d2 \<leftarrow> btree_node_free d1 rv;
       Some (rv, d2)
     }
     else Some (0, d)
   }"

end
