(* ===== verification/Btree_Flat.thy ===== *)
theory Btree_Flat
  imports Btree_Balance
begin

text \<open>
  The tree as the program uses it for a directory: an inner root whose children are all
  leaves. The abstraction is the list of leaf blocks, in the order of the root's
  children; search, insertion and deletion act on that list.
\<close>

subsection \<open>Node blocks and frames\<close>

definition is_node_block :: "DiskInterface \<Rightarrow> nat \<Rightarrow> bool" where
  "is_node_block d k \<longleftrightarrow> page_type (page_at d k) = block_type_code BLOCK_TYPE_BTREE_NODE"

definition node_ok :: "DiskInterface \<Rightarrow> nat \<Rightarrow> bool" where
  "node_ok d k \<longleftrightarrow> k \<noteq> 0 \<and> valid_block d k \<and> is_node_block d k \<and> block_number (node_at d k) = of_nat k"

lemma node_wf_at [simp]: "node_wf (node_at d k)"
  by (simp add: node_at_def)

lemma node_at_lengths [simp]:
  "length (keys (node_at d k)) = 250" "length (children (node_at d k)) = 251"
  using node_wf_at [of d k] by (simp_all add: node_wf_def del: node_wf_at)

lemma node_at_set_node [simp]:
  "node_wf n \<Longrightarrow> node_at (set_node d k n) j = (if j = k then n else node_at d j)"
  by (simp add: node_at_def set_node_def node_of_to_page)

lemma node_at_set_page: "node_at (set_page d k pg) j = (if j = k then node_of_page pg else node_at d j)"
  by (simp add: node_at_def)

lemma set_node_frame [simp]:
  "valid_block (set_node d k n) j = valid_block d j"
  "is_node_block (set_node d k n) j = is_node_block d j"
  "n_blocks (set_node d k n) = n_blocks d"
  "total_blocks (set_node d k n) = total_blocks d"
  "page_type (page_at (set_node d k n) j) = page_type (page_at d j)"
  by (simp_all add: set_node_def is_node_block_def)

lemma page_at_set_node_other: "j \<noteq> k \<Longrightarrow> page_at (set_node d k n) j = page_at d j"
  by (simp add: set_node_def)

lemma node_block_kind:
  "is_node_block d k \<Longrightarrow> super_ok d \<Longrightarrow> k \<noteq> 0"
  "is_node_block d k \<Longrightarrow> is_bitmap (page_at d j) \<Longrightarrow> k \<noteq> j"
  by (rule notI, simp add: is_node_block_def super_ok_def is_bitmap_def)+

lemma node_get_ok: "node_ok d k \<Longrightarrow> node_get d (of_nat k) = Some (node_at d k)"
  by (simp add: node_ok_def node_get_def btree_node_read_def is_node_block_def)

lemma btree_node_read_ok: "node_ok d k \<Longrightarrow> btree_node_read d (of_nat k) = Some (0, Some (node_at d k))"
  by (simp add: node_ok_def btree_node_read_def is_node_block_def)

lemma btree_node_write_ok:
  "valid_block d k \<Longrightarrow> is_node_block d k \<Longrightarrow> block_number n = of_nat k \<Longrightarrow>
   btree_node_write d n = Some (0, set_node d k n)"
  by (simp add: btree_node_write_def is_node_block_def)

lemma node_ok_of_nat_nz: "node_ok d k \<Longrightarrow> (of_nat k :: u64) \<noteq> 0"
  by (metis node_ok_def of_nat_0 unat_0 valid_block_unat)

lemma node_ok_unat: "node_ok d k \<Longrightarrow> unat (of_nat k :: u64) = k"
  by (auto simp: node_ok_def)

lemma node_ok_set_node:
  "node_wf n \<Longrightarrow> node_ok (set_node d j n) k \<longleftrightarrow>
     (if k = j then k \<noteq> 0 \<and> valid_block d k \<and> is_node_block d k \<and> block_number n = of_nat k
      else node_ok d k)"
  by (simp add: node_ok_def)

subsection \<open>Flat trees\<close>

definition leaf_ok :: "DiskInterface \<Rightarrow> nat \<Rightarrow> nat \<Rightarrow> bool" where
  "leaf_ok d r l \<longleftrightarrow> l \<noteq> r \<and> node_ok d l \<and> is_leaf (node_at d l) \<and> parent (node_at d l) = of_nat r"

definition leaf_key :: "DiskInterface \<Rightarrow> nat \<Rightarrow> u64" where
  "leaf_key d l = key (node_at d l)"

definition flat_tree :: "DiskInterface \<Rightarrow> nat \<Rightarrow> nat list \<Rightarrow> bool" where
  "flat_tree d r ls \<longleftrightarrow>
     node_ok d r \<and> \<not> is_leaf (node_at d r) \<and> parent (node_at d r) = 0 \<and>
     length ls \<le> MAX_KEYS \<and> num_keys (node_at d r) = of_nat (length ls) \<and>
     children (node_at d r) = map of_nat ls @ replicate (MAX_KEYS + 1 - length ls) 0 \<and>
     keys (node_at d r) = map (leaf_key d) ls @ replicate (MAX_KEYS - length ls) 0 \<and>
     distinct ls \<and> list_all (leaf_ok d r) ls \<and> sorted (map (leaf_key d) ls)"

lemma flat_treeD:
  assumes "flat_tree d r ls"
  shows "node_ok d r" "\<not> is_leaf (node_at d r)" "parent (node_at d r) = 0" "length ls \<le> MAX_KEYS"
    "unat (num_keys (node_at d r)) = length ls"
    "children (node_at d r) = map of_nat ls @ replicate (MAX_KEYS + 1 - length ls) 0"
    "keys (node_at d r) = map (leaf_key d) ls @ replicate (MAX_KEYS - length ls) 0"
    "distinct ls" "\<And>l. l \<in> set ls \<Longrightarrow> leaf_ok d r l" "sorted (map (leaf_key d) ls)"
    "\<And>i. i < length ls \<Longrightarrow> leaf_ok d r (ls ! i)"
  using assms by (auto simp: flat_tree_def list_all_iff unat_of_nat)

lemma leaf_okD:
  assumes "leaf_ok d r l"
  shows "l \<noteq> r" "node_ok d l" "is_leaf (node_at d l)" "block_number (node_at d l) = of_nat l"
    "parent (node_at d l) = of_nat r"
  using assms by (auto simp: leaf_ok_def node_ok_def)

lemma flat_child:
  assumes "flat_tree d r ls" "i \<le> length ls"
  shows "child_at (node_at d r) i = Some (if i < length ls then of_nat (ls ! i) else 0)"
  using flat_treeD(4,6) [OF assms(1)] assms(2) by (simp add: child_at_def nth_append)

lemma n_blocks_pos: "valid_block d k \<Longrightarrow> \<exists>m. n_blocks d = Suc m"
  by (cases "n_blocks d") (simp_all add: valid_block_def n_blocks_def)

text \<open>The maximum of a leaf is its key, the depth of a flat tree is 1.\<close>

lemma find_maximum_leaf:
  "node_ok d l \<Longrightarrow> is_leaf (node_at d l) \<Longrightarrow> btree_find_maximum d (of_nat l) = Some (leaf_key d l)"
  by (simp add: btree_find_maximum_def tree_fuel_def node_get_ok leaf_key_def)

lemma find_depth_flat:
  assumes "flat_tree d r ls" "ls \<noteq> []"
  shows "btree_find_depth d (of_nat r) = Some 1"
proof -
  have pos: "0 < length ls" using assms(2) by simp
  have leaf: "leaf_ok d r (ls ! 0)" by (rule flat_treeD(11) [OF assms(1) pos])
  obtain m where m: "n_blocks d = Suc m"
    using flat_treeD(1) [OF assms(1)] n_blocks_pos by (auto simp: node_ok_def)
  show ?thesis
    using flat_treeD(1,2) [OF assms(1)] flat_child [OF assms(1), of 0] pos leaf_okD [OF leaf]
      node_ok_of_nat_nz [OF leaf_okD(2) [OF leaf]]
    by (simp add: btree_find_depth_def tree_fuel_def m node_get_ok node_reread_def btree_node_read_ok)
qed

lemma insertion_search_flat:
  assumes "flat_tree d r ls"
  shows "btree_insertion_search d (of_nat r) k = Some (int r)"
proof -
  note r = flat_treeD(1) [OF assms]
  have i: "int_of_u64 (block_number (node_at d r)) = int r"
    using r int_of_u64_nat [of d r] by (auto simp: node_ok_def)
  show ?thesis
  proof (cases "ls = []")
    case True
    then show ?thesis
      using r flat_child [OF assms, of 0] i by (simp add: btree_insertion_search_def node_get_ok)
  next
    case False
    then have "leaf_ok d r (ls ! 0)" using flat_treeD(11) [OF assms] by simp
    then have "(of_nat (ls ! 0) :: u64) \<noteq> 0" using node_ok_of_nat_nz leaf_okD(2) by blast
    with False show ?thesis
      using r flat_child [OF assms, of 0] i find_depth_flat [OF assms False]
      by (simp add: btree_insertion_search_def node_get_ok)
  qed
qed

subsection \<open>Search\<close>

text \<open>The block of the first leaf with the key, 0 if there is none.\<close>

definition find_leaf :: "DiskInterface \<Rightarrow> nat list \<Rightarrow> u64 \<Rightarrow> u64" where
  "find_leaf d ls k = (case List.find (\<lambda>l. leaf_key d l = k) ls of None \<Rightarrow> 0 | Some l \<Rightarrow> of_nat l)"

lemma search_leaf:
  "node_ok d l \<Longrightarrow> is_leaf (node_at d l) \<Longrightarrow>
   btree_search_fuel (Suc f) d (of_nat l) k = Some (if leaf_key d l = k then of_nat l else 0)"
  by (simp add: node_get_ok leaf_key_def) (simp add: node_ok_def)

lemma search_children_flat:
  assumes "flat_tree d r ls" "i \<le> length ls"
  shows "search_children (\<lambda>c. btree_search_fuel (Suc f) d c k) (node_at d r) [i..<Suc (length ls)]
       = Some (find_leaf d (drop i ls) k)"
  using assms(2)
proof (induction rule: inc_induct)
  case base
  then show ?case
    using flat_child [OF assms(1), of "length ls"] by (simp add: find_leaf_def)
next
  case (step i)
  have leaf: "leaf_ok d r (ls ! i)" by (rule flat_treeD(11) [OF assms(1) step.hyps(2)])
  have up: "[i..<Suc (length ls)] = i # [Suc i..<Suc (length ls)]"
    using step.hyps by (simp add: upt_conv_Cons del: upt_Suc)
  have dr: "drop i ls = ls ! i # drop (Suc i) ls"
    using step.hyps by (simp add: Cons_nth_drop_Suc)
  show ?case
    unfolding up
    using step.IH flat_child [OF assms(1), of i] step.hyps leaf_okD(2,3) [OF leaf]
      node_ok_of_nat_nz [OF leaf_okD(2) [OF leaf]]
    by (simp add: search_leaf dr find_leaf_def del: btree_search_fuel.simps upt_Suc)
qed

lemma btree_search_flat:
  assumes "flat_tree d r ls"
  shows "btree_search d (of_nat r) k = Some (find_leaf d ls k)"
proof -
  obtain m where m: "n_blocks d = Suc m"
    using flat_treeD(1) [OF assms] n_blocks_pos by (auto simp: node_ok_def)
  show ?thesis
    unfolding btree_search_def tree_fuel_def m btree_search_fuel.simps(2) [of "Suc m"]
    using flat_treeD(1,2,5) [OF assms] search_children_flat [OF assms, of 0 m k]
    by (simp add: node_get_ok del: btree_search_fuel.simps upt_Suc)
qed

end
