(* ===== verification/Btree_Flat_Insert.thy ===== *)
theory Btree_Flat_Insert
  imports Btree_Flat
begin

text \<open>
  Insertion into a flat tree that is not full: the new leaf goes in front of the first
  leaf whose key is not below the new key, and the tree stays flat and sorted.
\<close>

subsection \<open>The loops of btree\_insert\_nonfull\<close>

definition ins_pos :: "DiskInterface \<Rightarrow> nat list \<Rightarrow> u64 \<Rightarrow> nat" where
  "ins_pos d ls k = length (takeWhile (\<lambda>l. leaf_key d l < k) ls)"

lemma ins_pos_le: "ins_pos d ls k \<le> length ls"
  by (simp add: ins_pos_def length_takeWhile_le)

lemma sorted_takeWhile_less:
  assumes "sorted (map f ls)" "i < length ls"
  shows "i < length (takeWhile (\<lambda>l. f l < (k :: 'a::linorder)) ls) \<longleftrightarrow> f (ls ! i) < k"
proof
  assume "i < length (takeWhile (\<lambda>l. f l < k) ls)"
  then show "f (ls ! i) < k"
    by (metis nth_mem set_takeWhileD takeWhile_nth)
next
  assume *: "f (ls ! i) < k"
  show "i < length (takeWhile (\<lambda>l. f l < k) ls)"
  proof (rule ccontr)
    assume "\<not> ?thesis"
    then have le: "length (takeWhile (\<lambda>l. f l < k) ls) \<le> i" by simp
    then have "length (takeWhile (\<lambda>l. f l < k) ls) < length ls" using assms(2) by simp
    then have "\<not> f (ls ! length (takeWhile (\<lambda>l. f l < k) ls)) < k"
      using nth_length_takeWhile by blast
    moreover have "f (ls ! length (takeWhile (\<lambda>l. f l < k) ls)) \<le> f (ls ! i)"
      using assms le sorted_nth_mono [of "map f ls"] by simp
    ultimately show False using * by simp
  qed
qed

lemma insert_pos_step_leaf:
  assumes "flat_tree d r ls" "j < length ls"
  shows "insert_pos_step d (node_at d r) n j pos
       = Some (if leaf_key d (ls ! j) < key n then j + 1 else pos)"
proof -
  note leaf = leaf_okD [OF flat_treeD(11) [OF assms]]
  show ?thesis
    using flat_child [OF assms(1), of j] assms(2) leaf(2,3) node_ok_of_nat_nz [OF leaf(2)]
    by (simp add: insert_pos_step_def node_get_ok leaf_key_def)
qed

lemma insert_pos_loop:
  assumes "flat_tree d r ls"
  shows "for_each [0..<Suc (length ls)] (insert_pos_step d (node_at d r) n) 0
       = Some (ins_pos d ls (key n))"
proof -
  let ?p = "ins_pos d ls (key n)"
  have "for_each [0..<m] (insert_pos_step d (node_at d r) n) 0 = Some (min m ?p)"
    if "m \<le> length ls" for m
    using that
  proof (induction m)
    case 0
    then show ?case by simp
  next
    case (Suc m)
    then have m: "m < length ls" by simp
    have "m < ?p \<longleftrightarrow> leaf_key d (ls ! m) < key n"
      unfolding ins_pos_def by (rule sorted_takeWhile_less [OF flat_treeD(10) [OF assms] m])
    then show ?case
      using Suc m insert_pos_step_leaf [OF assms m]
      by (auto simp: for_each_append min_def)
  qed
  from this [of "length ls"] show ?thesis
    using flat_child [OF assms, of "length ls"] ins_pos_le [of d ls "key n"]
    by (simp add: for_each_append insert_pos_step_def min_def)
qed

definition shift_up :: "'a list \<Rightarrow> nat \<Rightarrow> nat \<Rightarrow> 'a list" where
  "shift_up xs p q = map (\<lambda>i. if p < i \<and> i \<le> q then xs ! (i - 1) else xs ! i) [0..<length xs]"

lemma length_shift_up [simp]: "length (shift_up xs p q) = length xs"
  by (simp add: shift_up_def)

lemma shift_up_same [simp]: "shift_up xs p p = xs"
  by (rule nth_equalityI) (auto simp: shift_up_def)

lemma shift_up_step:
  assumes "p \<le> q" "Suc q < length xs"
  shows "shift_up (xs[Suc q := xs ! q]) p q = shift_up xs p (Suc q)"
  using assms by (intro nth_equalityI) (auto simp: shift_up_def nth_list_update le_Suc_eq)

lemma shift_children_loop:
  assumes "p \<le> q" "q \<le> MAX_KEYS" "node_wf n"
  shows "for_each (rev [p..<q]) (\<lambda>j r. do { c \<leftarrow> child_at r j; set_child r (j + 1) c }) n
       = Some (n\<lparr>children := shift_up (children n) p q\<rparr>)"
  using assms
proof (induction q arbitrary: n rule: dec_induct)
  case base
  then show ?case by simp
next
  case (step q)
  let ?n1 = "n\<lparr>children := (children n)[Suc q := children n ! q]\<rparr>"
  have "for_each (rev [p..<q]) (\<lambda>j r. do { c \<leftarrow> child_at r j; set_child r (j + 1) c }) ?n1
      = Some (?n1\<lparr>children := shift_up (children ?n1) p q\<rparr>)"
    using step.prems by (intro step.IH) (simp_all add: node_wf_def)
  then show ?case
    using step.prems step.hyps
    by (simp add: child_at_def set_child_def shift_up_step node_wf_def)
qed

lemma shift_keys_loop:
  assumes "p \<le> q" "q < MAX_KEYS" "node_wf n"
  shows "for_each (rev [Suc p..<Suc q]) (\<lambda>j r. do { k \<leftarrow> key_at r (j - 1); set_key r j k }) n
       = Some (n\<lparr>keys := shift_up (keys n) p q\<rparr>)"
  using assms
proof (induction q arbitrary: n rule: dec_induct)
  case base
  then show ?case by simp
next
  case (step q)
  let ?n1 = "n\<lparr>keys := (keys n)[Suc q := keys n ! q]\<rparr>"
  have "for_each (rev [Suc p..<Suc q]) (\<lambda>j r. do { k \<leftarrow> key_at r (j - 1); set_key r j k }) ?n1
      = Some (?n1\<lparr>keys := shift_up (keys ?n1) p q\<rparr>)"
    using step.prems by (intro step.IH) (simp_all add: node_wf_def)
  then show ?case
    using step.prems step.hyps
    by (simp add: key_at_def set_key_def shift_up_step node_wf_def)
qed

text \<open>Shifting and storing is insertion into the used part of the array.\<close>

lemma shift_up_insert:
  assumes "p \<le> length xs" "0 < m"
  shows "(shift_up (xs @ replicate (Suc m) z) p (Suc (length xs)))[p := v]
       = (take p xs @ v # drop p xs) @ replicate m z"
proof (rule nth_equalityI)
  show "length ((shift_up (xs @ replicate (Suc m) z) p (Suc (length xs)))[p := v])
      = length ((take p xs @ v # drop p xs) @ replicate m z)"
    using assms by simp
next
  fix i
  assume "i < length ((shift_up (xs @ replicate (Suc m) z) p (Suc (length xs)))[p := v])"
  then have "i < length xs + Suc m" by simp
  then show "(shift_up (xs @ replicate (Suc m) z) p (Suc (length xs)))[p := v] ! i
      = ((take p xs @ v # drop p xs) @ replicate m z) ! i"
    using assms
    by (cases "i = p"; cases "i < p"; cases "i \<le> length xs")
      (auto simp: shift_up_def nth_append nth_Cons' nth_list_update min_def)
qed

subsection \<open>Refreshing the keys\<close>

lemma refresh_keys_leaves:
  assumes "node_wf n" "unat (num_keys n) = length ls" "length ls \<le> MAX_KEYS"
    and "take (length ls) (children n) = map of_nat ls"
    and "\<And>l. l \<in> set ls \<Longrightarrow> node_ok d l \<and> is_leaf (node_at d l)"
  shows "refresh_keys d n = Some (n\<lparr>keys := map (leaf_key d) ls @ drop (length ls) (keys n)\<rparr>)"
proof -
  let ?body = "\<lambda>i p. do {
        c \<leftarrow> child_at p i;
        if c \<noteq> 0 then do { m \<leftarrow> btree_find_maximum d c; set_key p i m } else Some p }"
  have "for_each [0..<m] ?body n = Some (n\<lparr>keys := map (leaf_key d) (take m ls) @ drop m (keys n)\<rparr>)"
    if "m \<le> length ls" for m
    using that
  proof (induction m)
    case 0
    then show ?case by simp
  next
    case (Suc m)
    then have m: "m < length ls" by simp
    have ok: "node_ok d (ls ! m)" "is_leaf (node_at d (ls ! m))"
      using assms(5) [OF nth_mem [OF m]] by auto
    have "children n ! m = take (length ls) (children n) ! m" using m by simp
    then have c: "children n ! m = of_nat (ls ! m)" using assms(4) m by simp
    have len: "length (keys n) = 250" using assms(1) by (simp add: node_wf_def)
    have "(map (leaf_key d) (take m ls) @ drop m (keys n))[m := leaf_key d (ls ! m)]
        = map (leaf_key d) (take (Suc m) ls) @ drop (Suc m) (keys n)"
      using m assms(3) len
      by (simp add: list_update_append take_Suc_conv_app_nth min_def Cons_nth_drop_Suc [symmetric])
    then show ?case
      using Suc m assms(3) c node_ok_of_nat_nz [OF ok(1)] find_maximum_leaf [OF ok]
      by (simp add: for_each_append child_at_def set_key_def)
  qed
  from this [of "length ls"] show ?thesis
    using assms(2) by (simp add: refresh_keys_def)
qed

subsection \<open>A new node\<close>

definition blank_node :: "BTreeNode \<Rightarrow> bool \<Rightarrow> nat \<Rightarrow> BTreeNode" where
  "blank_node n leaf b = n\<lparr>block_number := of_nat b, is_leaf := leaf, key := 0,
     num_keys := 0, val := 0, parent := 0, left_sibling := 0, right_sibling := 0,
     keys := replicate MAX_KEYS 0, children := replicate (MAX_KEYS + 1) 0\<rparr>"

definition create_result :: "DiskInterface \<Rightarrow> bool \<Rightarrow> nat \<Rightarrow> DiskInterface" where
  "create_result d leaf b =
     (let d1 = alloc_result d b; d2 = set_page d1 b (set_page_type (page_at d1 b) BLOCK_TYPE_BTREE_NODE)
      in set_node d2 b (blank_node (node_at d b) leaf b))"

lemma node_wf_blank [simp]: "node_wf (blank_node n leaf b)"
  by (simp add: blank_node_def node_wf_def)

lemma create_ok:
  assumes "volume_ok d" "next_free d b"
  shows "btree_node_create d leaf = Some (Some b, of_nat b, create_result d leaf b)"
proof -
  note b = next_freeD [OF assms]
  have nz: "(of_nat b :: u64) \<noteq> 0"
    by (metis b(1,2) of_nat_0 unat_0 valid_block_unat)
  have pg: "page_at (alloc_result d b) b = page_at d b"
    using b(1) b(3) [OF b(5)] by (rule alloc_result_frame(7))
  have "node_at (set_page (alloc_result d b) b (set_page_type (page_at (alloc_result d b) b) BLOCK_TYPE_BTREE_NODE)) b
      = node_at d b"
    by (simp add: node_at_def pg)
  then show ?thesis
    using b(2) nz
    by (simp add: btree_node_create_def alloc_page_next [OF assms] alloc_result_frame Let_def
        create_result_def blank_node_def)
qed

lemma create_result_frame:
  assumes "volume_ok d" "next_free d b"
  shows "node_at (create_result d leaf b) b = blank_node (node_at d b) leaf b"
    "is_node_block (create_result d leaf b) b"
    "n_blocks (create_result d leaf b) = n_blocks d"
    "valid_block (create_result d leaf b) k = valid_block d k"
    "node_ok (create_result d leaf b) b"
    "k \<noteq> 0 \<Longrightarrow> k \<noteq> bitmap_block b \<Longrightarrow> k \<noteq> b \<Longrightarrow> page_at (create_result d leaf b) k = page_at d k"
    "c < n_blocks d \<Longrightarrow> used (create_result d leaf b) c = (c = b \<or> used d c)"
    "volume_ok (create_result d leaf b)"
    "the_sb (create_result d leaf b) = (the_sb d)\<lparr>free_blocks := free_blocks (the_sb d) - 1\<rparr>"
proof -
  note b = next_freeD [OF assms]
  let ?d1 = "alloc_result d b"
  have plain: "\<And>c. c < n_blocks ?d1 \<Longrightarrow> b \<noteq> bitmap_block c"
    using b(3) by (simp add: alloc_result_frame)
  show n: "node_at (create_result d leaf b) b = blank_node (node_at d b) leaf b"
    and t: "is_node_block (create_result d leaf b) b"
    and "n_blocks (create_result d leaf b) = n_blocks d"
    and v: "\<And>k. valid_block (create_result d leaf b) k = valid_block d k"
    by (simp_all add: create_result_def Let_def alloc_result_frame is_node_block_def)
  show "node_ok (create_result d leaf b) b"
    using b(1,2) n t v by (simp add: node_ok_def blank_node_def)
  show "k \<noteq> 0 \<Longrightarrow> k \<noteq> bitmap_block b \<Longrightarrow> k \<noteq> b \<Longrightarrow> page_at (create_result d leaf b) k = page_at d k"
    by (simp add: create_result_def Let_def set_node_def alloc_result_frame)
  show "c < n_blocks d \<Longrightarrow> used (create_result d leaf b) c = (c = b \<or> used d c)"
    using set_page_plain(1) [where d = ?d1, OF b(1) plain]
    by (simp add: create_result_def Let_def set_node_def alloc_result_frame)
  show "volume_ok (create_result d leaf b)"
    using volume_ok_set_page [OF volume_ok_alloc_result [OF assms(1)] b(1) plain]
    by (simp add: create_result_def Let_def set_node_def)
  show "the_sb (create_result d leaf b) = (the_sb d)\<lparr>free_blocks := free_blocks (the_sb d) - 1\<rparr>"
    using b(1) by (simp add: create_result_def Let_def set_node_def alloc_result_frame)
qed

subsection \<open>Insertion\<close>

definition ins_leaf :: "DiskInterface \<Rightarrow> nat list \<Rightarrow> u64 \<Rightarrow> nat \<Rightarrow> nat list" where
  "ins_leaf d ls k b = take (ins_pos d ls k) ls @ b # drop (ins_pos d ls k) ls"

lemma set_ins_leaf [simp]: "set (ins_leaf d ls k b) = insert b (set ls)"
  unfolding ins_leaf_def by (simp add: set_append [symmetric])

lemma length_ins_leaf [simp]: "length (ins_leaf d ls k b) = Suc (length ls)"
  using ins_pos_le [of d ls k] by (simp add: ins_leaf_def)

lemma distinct_ins_leaf: "distinct ls \<Longrightarrow> b \<notin> set ls \<Longrightarrow> distinct (ins_leaf d ls k b)"
  unfolding ins_leaf_def
  by (metis append_take_drop_id distinct.simps(2) distinct_append Un_iff
      disjoint_insert(1) distinct_take distinct_drop list.set(2) set_append)

lemma flat_tree_cong:
  assumes "\<And>k. k = r \<or> k \<in> set ls \<Longrightarrow>
      node_at d' k = node_at d k \<and> valid_block d' k = valid_block d k \<and> is_node_block d' k = is_node_block d k"
  shows "flat_tree d' r ls = flat_tree d r ls"
proof -
  have k: "map (leaf_key d') ls = map (leaf_key d) ls"
    using assms by (simp add: leaf_key_def)
  have l: "list_all (leaf_ok d' r) ls = list_all (leaf_ok d r) ls"
    using assms by (auto simp: list_all_iff leaf_ok_def node_ok_def)
  show ?thesis
    unfolding flat_tree_def k l using assms by (simp add: node_ok_def)
qed

lemma insert_nonfull_flat:
  fixes n :: BTreeNode
  assumes "flat_tree d r ls" "length ls < MAX_KEYS"
  defines "p \<equiv> ins_pos d ls (key n)"
  shows "\<exists>r1. btree_insert_nonfull d (node_at d r) n = Some (0, r1, n\<lparr>parent := of_nat r\<rparr>)
    \<and> node_wf r1 \<and> block_number r1 = of_nat r \<and> \<not> is_leaf r1 \<and> parent r1 = 0
    \<and> num_keys r1 = of_nat (Suc (length ls))
    \<and> children r1 = (map of_nat (take p ls) @ block_number n # map of_nat (drop p ls))
        @ replicate (MAX_KEYS - length ls) 0
    \<and> drop (Suc (length ls)) (keys r1) = replicate (MAX_KEYS - Suc (length ls)) 0
    \<and> val r1 = val (node_at d r) \<and> node_type r1 = node_type (node_at d r)"
proof -
  note f = flat_treeD [OF assms(1)]
  let ?n = "length ls"
  let ?root = "node_at d r"
  have p: "p \<le> ?n" unfolding p_def by (rule ins_pos_le)
  have wf: "node_wf ?root" by simp
  let ?r1 = "?root\<lparr>children := shift_up (children ?root) p (Suc ?n)\<rparr>"
  have ch: "for_each (rev [p..<Suc ?n]) (\<lambda>j r. do { c \<leftarrow> child_at r j; set_child r (j + 1) c }) ?root = Some ?r1"
    using p assms(2) by (intro shift_children_loop) simp_all
  have wf1: "node_wf ?r1" using wf by (simp add: node_wf_def)
  let ?r2 = "?r1\<lparr>keys := shift_up (keys ?r1) p ?n\<rparr>"
  have ks: "for_each (rev [Suc p..<Suc ?n]) (\<lambda>j r. do { k \<leftarrow> key_at r (j - 1); set_key r j k }) ?r1 = Some ?r2"
    using p assms(2) wf1 by (intro shift_keys_loop) simp_all
  have cs: "(shift_up (children ?root) p (Suc ?n))[p := block_number n]
      = (map of_nat (take p ls) @ block_number n # map of_nat (drop p ls)) @ replicate (MAX_KEYS - ?n) 0"
  proof -
    have "MAX_KEYS + 1 - ?n = Suc (MAX_KEYS - ?n)" using assms(2) by simp
    then show ?thesis
      using shift_up_insert [of p "map of_nat ls" "MAX_KEYS - ?n" "0" "block_number n"] p assms(2)
      by (simp only: f(6) length_map take_map drop_map)
  qed
  have dk: "drop (Suc ?n) (shift_up (keys ?root) p ?n) = replicate (MAX_KEYS - Suc ?n) 0"
    using p assms(2) f(7) by (intro nth_equalityI) (auto simp: shift_up_def nth_append)
  have nk: "num_keys ?root + 1 = of_nat (Suc ?n)"
    using assms(1) by (simp add: flat_tree_def)
  have pos: "for_each [0..<Suc ?n] (insert_pos_step d ?root n) 0 = Some p"
    unfolding p_def by (rule insert_pos_loop [OF assms(1)])
  let ?r3 = "?r2\<lparr>children := (children ?r2)[p := block_number n]\<rparr>"
  have st: "set_child ?r2 p (block_number n) = Some ?r3"
    using p assms(2) by (simp add: set_child_def)
  have min: "(if ?n < p then ?n else p) = p" using p by simp
  have "btree_insert_nonfull d ?root n
      = Some (0, ?r3\<lparr>num_keys := num_keys ?r3 + 1\<rparr>, n\<lparr>parent := block_number ?root\<rparr>)"
    unfolding btree_insert_nonfull_def Let_def f(5) pos if_not_P [OF f(2)] bind.simps min ch ks st ..
  then show ?thesis
    using cs dk nk f(1,2,3) p assms(2) by (simp add: node_wf_def node_ok_def)
qed

lemma sorted_insert_before:
  assumes "sorted (map f ls)" "f b = (k :: 'a::linorder)"
  shows "sorted (map f (takeWhile (\<lambda>l. f l < k) ls @ b # dropWhile (\<lambda>l. f l < k) ls))"
  using assms by (induction ls) (auto simp: sorted_append dest: set_takeWhileD set_dropWhileD)

lemma ins_leaf_takeWhile:
  "ins_leaf d ls k b = takeWhile (\<lambda>l. leaf_key d l < k) ls @ b # dropWhile (\<lambda>l. leaf_key d l < k) ls"
  by (simp add: ins_leaf_def ins_pos_def takeWhile_eq_take [symmetric] dropWhile_eq_drop [symmetric])

text \<open>The leaf that \<open>btree_insert\<close> makes, before and after it is linked to its parent.\<close>

definition new_leaf :: "BTreeNode \<Rightarrow> nat \<Rightarrow> u64 \<Rightarrow> u64 \<Rightarrow> u32 \<Rightarrow> BTreeNode" where
  "new_leaf n b k v ty = (blank_node n True b)\<lparr>key := k, val := v, node_type := ty\<rparr>"

lemma new_leaf_fields [simp]:
  "node_wf (new_leaf n b k v ty)" "block_number (new_leaf n b k v ty) = of_nat b"
  "is_leaf (new_leaf n b k v ty)" "key (new_leaf n b k v ty) = k" "val (new_leaf n b k v ty) = v"
  "node_type (new_leaf n b k v ty) = ty"
  by (simp_all add: new_leaf_def blank_node_def node_wf_def)

lemma node_wf_parent [simp]: "node_wf (n\<lparr>parent := x\<rparr>) = node_wf n"
  by (simp add: node_wf_def)

text \<open>The state after the new leaf is written: the tree is still as it was.\<close>

definition leaf_made :: "DiskInterface \<Rightarrow> nat \<Rightarrow> u64 \<Rightarrow> u64 \<Rightarrow> u32 \<Rightarrow> DiskInterface" where
  "leaf_made d b k v ty =
     (let n = new_leaf (node_at d b) b k v ty in set_node (set_node (create_result d True b) b n) b n)"

lemma tree_block_apart:
  assumes "volume_ok d" "next_free d b" "node_ok d x" "used d x"
  shows "x \<noteq> 0" "x \<noteq> b" "c < n_blocks d \<Longrightarrow> x \<noteq> bitmap_block c"
proof -
  show "x \<noteq> 0" using assms(3) by (simp add: node_ok_def)
  show "x \<noteq> b" using assms(2,4) by (auto simp: next_free_def)
  show "x \<noteq> bitmap_block c" if "c < n_blocks d"
    using alloc_okD(2) [OF next_freeD(4) [OF assms(1,2)] that] assms(3) node_block_kind(2)
    by (auto simp: node_ok_def)
qed

lemma leaf_made_frame:
  assumes "volume_ok d" "next_free d b"
  shows "node_at (leaf_made d b k v ty) b = new_leaf (node_at d b) b k v ty"
    "node_ok (leaf_made d b k v ty) b"
    "node_ok d x \<Longrightarrow> used d x \<Longrightarrow> page_at (leaf_made d b k v ty) x = page_at d x"
    "valid_block (leaf_made d b k v ty) x = valid_block d x"
    "j \<noteq> 0 \<Longrightarrow> j \<noteq> bitmap_block b \<Longrightarrow> j \<noteq> b \<Longrightarrow> page_at (leaf_made d b k v ty) j = page_at d j"
proof -
  note c = create_result_frame [OF assms, where leaf = True]
  show "node_at (leaf_made d b k v ty) b = new_leaf (node_at d b) b k v ty"
    by (simp add: leaf_made_def Let_def)
  show "node_ok (leaf_made d b k v ty) b"
    using next_freeD(1,2) [OF assms] c(2,4) by (simp add: leaf_made_def Let_def node_ok_def)
  show "valid_block (leaf_made d b k v ty) x = valid_block d x"
    by (simp add: leaf_made_def Let_def c)
  show o: "page_at (leaf_made d b k v ty) j = page_at d j"
    if "j \<noteq> 0" "j \<noteq> bitmap_block b" "j \<noteq> b" for j
    using that by (simp add: leaf_made_def Let_def page_at_set_node_other c)
  show "node_ok d x \<Longrightarrow> used d x \<Longrightarrow> page_at (leaf_made d b k v ty) x = page_at d x"
    using tree_block_apart [OF assms] next_freeD(5) [OF assms] by (intro o) blast+
qed

lemma flat_tree_leaf_made:
  assumes "volume_ok d" "next_free d b" "flat_tree d r ls" "\<forall>l\<in>set (r # ls). used d l"
  shows "flat_tree (leaf_made d b k v ty) r ls" "b \<notin> set ls" "b \<noteq> r"
    "l \<in> set ls \<Longrightarrow> node_at (leaf_made d b k v ty) l = node_at d l"
    "node_at (leaf_made d b k v ty) r = node_at d r"
proof -
  note f = flat_treeD [OF assms(3)]
  have pg: "page_at (leaf_made d b k v ty) x = page_at d x" if "x = r \<or> x \<in> set ls" for x
    using that f(1,9) assms(4) by (intro leaf_made_frame(3) [OF assms(1,2)]) (auto simp: leaf_ok_def)
  then show "flat_tree (leaf_made d b k v ty) r ls"
    using assms(3) flat_tree_cong [of r ls "leaf_made d b k v ty" d]
    by (simp add: node_at_def is_node_block_def leaf_made_frame(4) [OF assms(1,2)])
  show "b \<notin> set ls" "b \<noteq> r" using assms(2,4) by (auto simp: next_free_def)
  show "l \<in> set ls \<Longrightarrow> node_at (leaf_made d b k v ty) l = node_at d l"
    "node_at (leaf_made d b k v ty) r = node_at d r"
    using pg by (simp_all add: node_at_def)
qed

text \<open>Two writes to a flat tree's root and new leaf make the longer flat tree.\<close>

lemma flat_tree_linked:
  assumes "flat_tree d r ls" "length ls < MAX_KEYS" "node_ok d b" "b \<noteq> r" "b \<notin> set ls"
    and nb: "node_wf nb" "block_number nb = of_nat b" "is_leaf nb" "parent nb = of_nat r" "key nb = k"
    and nr: "node_wf nr" "block_number nr = of_nat r" "\<not> is_leaf nr" "parent nr = 0"
      "num_keys nr = of_nat (Suc (length ls))"
      "children nr = map of_nat (ins_leaf d ls k b) @ replicate (MAX_KEYS - length ls) 0"
    and d': "\<And>j. node_at d' j = (if j = r then nr else if j = b then nb else node_at d j)"
      "\<And>j. valid_block d' j = valid_block d j" "\<And>j. is_node_block d' j = is_node_block d j"
      "keys nr = map (leaf_key d') (ins_leaf d ls k b) @ replicate (MAX_KEYS - Suc (length ls)) 0"
  shows "flat_tree d' r (ins_leaf d ls k b)"
proof -
  note f = flat_treeD [OF assms(1)]
  have lk: "leaf_key d' l = leaf_key d l" if "l \<in> set ls" for l
    using that assms(5) leaf_okD(1) [OF f(9) [OF that]] by (auto simp: leaf_key_def d')
  have lkb: "leaf_key d' b = k" using assms(4) nb by (simp add: leaf_key_def d')
  have lo: "leaf_ok d' r l" if "l \<in> set (ins_leaf d ls k b)" for l
    using that f(9) [of l] assms(3,4,5) nb by (auto simp: leaf_ok_def node_ok_def d')
  have eq: "takeWhile (\<lambda>l. leaf_key d l < k) ls = takeWhile (\<lambda>l. leaf_key d' l < k) ls"
    "dropWhile (\<lambda>l. leaf_key d l < k) ls = dropWhile (\<lambda>l. leaf_key d' l < k) ls"
    using lk by (auto intro: takeWhile_cong dropWhile_cong)
  have "sorted (map (leaf_key d') ls)" using f(10) lk by (simp cong: map_cong)
  then have so: "sorted (map (leaf_key d') (ins_leaf d ls k b))"
    unfolding ins_leaf_takeWhile eq by (rule sorted_insert_before) (rule lkb)
  have di: "distinct (ins_leaf d ls k b)" using f(8) assms(5) by (rule distinct_ins_leaf)
  show ?thesis
    unfolding flat_tree_def
    using f(1) assms(2) nr d' lo so di by (simp add: node_ok_def list_all_iff)
qed

lemma node_wf_set_key [simp]: "node_wf (n\<lparr>key := x\<rparr>) = node_wf n"
  by (simp add: node_wf_def)

text \<open>The steps of \<open>btree_insert\<close> up to the choice of the target.\<close>

lemma btree_insert_leaf_made:
  assumes "volume_ok d" "next_free d b"
  shows "btree_insert d rb k v ty = do {
      target_block \<leftarrow> btree_insertion_search (leaf_made d b k v ty) rb k;
      target \<leftarrow> node_get (leaf_made d b k v ty) (u64_of_int target_block);
      d4 \<leftarrow> (if unat (num_keys target) = MAX_KEYS
        then insert_into_full (leaf_made d b k v ty) rb k target b
        else insert_into_target (leaf_made d b k v ty) target b);
      d5 \<leftarrow> btree_update_parent_keys d4 (node_at d4 b);
      Some (0, d5)
    }"
proof -
  note c = create_result_frame [OF assms, where leaf = True]
  let ?n = "new_leaf (node_at d b) b k v ty"
  have n: "(node_at (create_result d True b) b)\<lparr>key := k, val := v, node_type := ty\<rparr> = ?n"
    by (simp add: c(1) new_leaf_def)
  have w: "btree_node_write (set_node (create_result d True b) b ?n) ?n
      = Some (0, leaf_made d b k v ty)"
    using next_freeD(2) [OF assms] c(2,4)
    by (simp add: btree_node_write_ok leaf_made_def Let_def)
  show ?thesis
    by (simp add: btree_insert_def create_ok [OF assms] Let_def n w)
qed

lemma btree_insert_flat_aux:
  assumes "volume_ok d" "flat_tree d r ls" "length ls < MAX_KEYS"
    and "\<forall>l\<in>set (r # ls). used d l" "next_free d b"
  shows "\<exists>nr. btree_insert d (of_nat r) k v ty = Some (0, set_node (set_node (set_node
        (leaf_made d b k v ty) b ((new_leaf (node_at d b) b k v ty)\<lparr>parent := of_nat r\<rparr>)) r nr) r
        (nr\<lparr>keys := map (leaf_key (set_node (leaf_made d b k v ty) b
               ((new_leaf (node_at d b) b k v ty)\<lparr>parent := of_nat r\<rparr>))) (ins_leaf d ls k b)
            @ replicate (MAX_KEYS - Suc (length ls)) 0\<rparr>))
    \<and> node_wf nr \<and> block_number nr = of_nat r \<and> \<not> is_leaf nr \<and> parent nr = 0
    \<and> num_keys nr = of_nat (Suc (length ls))
    \<and> children nr = map of_nat (ins_leaf d ls k b) @ replicate (MAX_KEYS - length ls) 0
    \<and> val nr = val (node_at d r) \<and> node_type nr = node_type (node_at d r)"
proof -
  let ?d1 = "leaf_made d b k v ty"
  let ?nb = "new_leaf (node_at d b) b k v ty"
  let ?nb' = "?nb\<lparr>parent := of_nat r\<rparr>"
  let ?d2 = "set_node ?d1 b ?nb'"
  let ?ls = "ins_leaf d ls k b"
  note lm = leaf_made_frame [OF assms(1,5), where k = k and v = v and ty = ty]
  note fl = flat_tree_leaf_made(1) [OF assms(1,5,2,4), where k = k and v = v and ty = ty]
    flat_tree_leaf_made(2,3) [OF assms(1,5,2,4)]
    flat_tree_leaf_made(4,5) [OF assms(1,5,2,4), where k = k and v = v and ty = ty]
  note f = flat_treeD [OF fl(1)]
  have lk: "leaf_key ?d1 l = leaf_key d l" if "l \<in> set ls" for l
    using fl(4) [OF that] by (simp add: leaf_key_def)
  have pos: "ins_pos ?d1 ls k = ins_pos d ls k"
    unfolding ins_pos_def using lk by (metis (mono_tags, lifting) takeWhile_cong)
  have ch: "(map of_nat (take (ins_pos d ls k) ls) @ of_nat b # map of_nat (drop (ins_pos d ls k) ls) :: u64 list)
      = map of_nat ?ls"
    by (simp add: ins_leaf_def)
  from insert_nonfull_flat [OF fl(1) assms(3), of ?nb]
  obtain nr where nr: "btree_insert_nonfull ?d1 (node_at ?d1 r) ?nb = Some (0, nr, ?nb')"
      "node_wf nr" "block_number nr = of_nat r" "\<not> is_leaf nr" "parent nr = 0"
      "num_keys nr = of_nat (Suc (length ls))"
      "children nr = map of_nat ?ls @ replicate (MAX_KEYS - length ls) 0"
      "drop (Suc (length ls)) (keys nr) = replicate (MAX_KEYS - Suc (length ls)) 0"
      "val nr = val (node_at d r)" "node_type nr = node_type (node_at d r)"
    unfolding new_leaf_fields pos ch fl(5) by blast
  let ?d3 = "set_node ?d2 r nr"
  have search: "btree_insertion_search ?d1 (of_nat r) k = Some (int r)"
    by (rule insertion_search_flat [OF fl(1)])
  have get: "node_get ?d1 (of_nat r) = Some (node_at ?d1 r)"
    by (rule node_get_ok [OF f(1)])
  have r: "valid_block ?d1 r" "is_node_block ?d1 r" "r \<noteq> 0" "(of_nat r :: u64) \<noteq> 0"
    using f(1) node_ok_of_nat_nz [OF f(1)] by (auto simp: node_ok_def)
  have tgt: "insert_into_target ?d1 (node_at ?d1 r) b = Some ?d3"
    unfolding insert_into_target_def lm(1) nr(1)
    using r nr(3) by (simp add: btree_node_write_ok)
  have nf: "unat (num_keys (node_at ?d1 r)) \<noteq> MAX_KEYS"
    using f(5) assms(3) by simp
  have at: "node_at ?d3 j = (if j = r then nr else if j = b then ?nb' else node_at ?d1 j)" for j
    using nr(2) fl(3) by simp
  have ok3: "node_ok ?d3 l \<and> is_leaf (node_at ?d3 l)" if "l \<in> set ?ls" for l
    using that lm(2) fl(2,3) f(9) [of l]
    by (auto simp: at nr(2) node_ok_set_node leaf_ok_def) (auto simp: node_ok_def)
  have lk3: "map (leaf_key ?d3) ?ls = map (leaf_key ?d2) ?ls"
    using f(9) fl(3) by (auto simp: leaf_key_def at nr(2) leaf_ok_def simp del: node_at_set_node)
      (auto simp: nr(2))
  have len: "length ?ls \<le> MAX_KEYS" "unat (num_keys nr) = length ?ls"
    using assms(3) unat_of_nat_u16 [of "Suc (length ls)"] by (simp_all add: nr(6) del: of_nat_Suc)
  have "take (length ?ls) (children nr) = map of_nat ?ls"
    unfolding nr(7) by simp
  then have rk: "refresh_keys ?d3 nr = Some (nr\<lparr>keys := map (leaf_key ?d2) ?ls
      @ replicate (MAX_KEYS - Suc (length ls)) 0\<rparr>)"
    using refresh_keys_leaves [OF nr(2) len(2,1) _ ok3] nr(8) by (simp only: lk3 length_ins_leaf)
  have ok3r: "node_ok ?d3 r" using r nr(2,3) by (simp add: node_ok_set_node)
  have upd: "btree_update_parent_keys ?d3 (node_at ?d3 b) = Some (set_node ?d3 r
      (nr\<lparr>keys := map (leaf_key ?d2) ?ls @ replicate (MAX_KEYS - Suc (length ls)) 0\<rparr>))"
    unfolding btree_update_parent_keys_def at
    using fl(3) r nr(3) rk node_get_ok [OF ok3r] by (simp add: at nr(2) btree_node_write_ok)
  have "btree_insert d (of_nat r) k v ty = Some (0, set_node ?d3 r
      (nr\<lparr>keys := map (leaf_key ?d2) ?ls @ replicate (MAX_KEYS - Suc (length ls)) 0\<rparr>))"
    unfolding btree_insert_leaf_made [OF assms(1,5)] search bind.simps u64_of_int_of_nat get
      if_not_P [OF nf] tgt upd ..
  then show ?thesis using nr by blast
qed

lemma leaf_made_volume:
  assumes "volume_ok d" "next_free d b"
  shows "volume_ok (leaf_made d b k v ty)" "n_blocks (leaf_made d b k v ty) = n_blocks d"
    "c < n_blocks d \<Longrightarrow> used (leaf_made d b k v ty) c = (c = b \<or> used d c)"
    "the_sb (leaf_made d b k v ty) = (the_sb d)\<lparr>free_blocks := free_blocks (the_sb d) - 1\<rparr>"
proof -
  note c = create_result_frame [OF assms, where leaf = True]
  note b = next_freeD [OF assms]
  have v: "volume_ok (set_node d1 b n) \<and> (\<forall>c<n_blocks d1. used (set_node d1 b n) c = used d1 c)
      \<and> the_sb (set_node d1 b n) = the_sb d1"
    if "volume_ok d1" "n_blocks d1 = n_blocks d" for d1 n
    using that b(1,3) volume_ok_set_page set_page_plain unfolding set_node_def by metis
  show "n_blocks (leaf_made d b k v ty) = n_blocks d"
    by (simp add: leaf_made_def Let_def c)
  show "volume_ok (leaf_made d b k v ty)"
    "c < n_blocks d \<Longrightarrow> used (leaf_made d b k v ty) c = (c = b \<or> used d c)"
    "the_sb (leaf_made d b k v ty) = (the_sb d)\<lparr>free_blocks := free_blocks (the_sb d) - 1\<rparr>"
    using v c by (simp_all add: leaf_made_def Let_def)
qed

lemma set_node_volume:
  assumes "volume_ok d" "node_ok d k"
  shows "volume_ok (set_node d k n)" "c < n_blocks d \<Longrightarrow> used (set_node d k n) c = used d c"
    "the_sb (set_node d k n) = the_sb d"
proof -
  have k: "k \<noteq> 0" "\<And>c. c < n_blocks d \<Longrightarrow> k \<noteq> bitmap_block c"
    using assms node_block_kind(2) alloc_okD(2) [of d]
    by (auto simp: node_ok_def volume_ok_def)
  show "volume_ok (set_node d k n)" "c < n_blocks d \<Longrightarrow> used (set_node d k n) c = used d c"
    "the_sb (set_node d k n) = the_sb d"
    using volume_ok_set_page [OF assms(1) k] set_page_plain [OF k] by (simp_all add: set_node_def)
qed

text \<open>The effect of an insertion on a directory's tree and on the rest of the volume.\<close>

definition flat_inserted ::
    "DiskInterface \<Rightarrow> nat \<Rightarrow> nat list \<Rightarrow> nat \<Rightarrow> u64 \<Rightarrow> u64 \<Rightarrow> u32 \<Rightarrow> DiskInterface \<Rightarrow> bool" where
  "flat_inserted d r ls b k v ty d' \<longleftrightarrow>
     flat_tree d' r (ins_leaf d ls k b) \<and> volume_ok d' \<and> n_blocks d' = n_blocks d \<and>
     (\<forall>c<n_blocks d. used d' c = (c = b \<or> used d c)) \<and>
     the_sb d' = (the_sb d)\<lparr>free_blocks := free_blocks (the_sb d) - 1\<rparr> \<and>
     leaf_key d' b = k \<and> val (node_at d' b) = v \<and> node_type (node_at d' b) = ty \<and>
     val (node_at d' r) = val (node_at d r) \<and> node_type (node_at d' r) = node_type (node_at d r) \<and>
     (\<forall>j. valid_block d' j = valid_block d j) \<and>
     (\<forall>j. j \<notin> {0, bitmap_block b, b, r} \<longrightarrow> page_at d' j = page_at d j)"

lemma btree_insert_flat_step:
  assumes "volume_ok d" "flat_tree d r ls" "length ls < MAX_KEYS"
    and "\<forall>l\<in>set (r # ls). used d l" "next_free d b"
  shows "\<exists>d'. btree_insert d (of_nat r) k v ty = Some (0, d') \<and> flat_inserted d r ls b k v ty d'"
proof -
  let ?d1 = "leaf_made d b k v ty"
  let ?nb = "(new_leaf (node_at d b) b k v ty)\<lparr>parent := of_nat r\<rparr>"
  let ?d2 = "set_node ?d1 b ?nb"
  let ?ls = "ins_leaf d ls k b"
  let ?ks = "map (leaf_key ?d2) ?ls @ replicate (MAX_KEYS - Suc (length ls)) 0"
  note lm = leaf_made_frame [OF assms(1,5), where k = k and v = v and ty = ty]
  note lv = leaf_made_volume [OF assms(1,5), where k = k and v = v and ty = ty]
  note fl = flat_tree_leaf_made(1) [OF assms(1,5,2,4), where k = k and v = v and ty = ty]
    flat_tree_leaf_made(2,3) [OF assms(1,5,2,4)]
    flat_tree_leaf_made(4,5) [OF assms(1,5,2,4), where k = k and v = v and ty = ty]
  note f = flat_treeD [OF fl(1)]
  obtain nr where ins: "btree_insert d (of_nat r) k v ty
        = Some (0, set_node (set_node ?d2 r nr) r (nr\<lparr>keys := ?ks\<rparr>))"
    and nr: "node_wf nr" "block_number nr = of_nat r" "\<not> is_leaf nr" "parent nr = 0"
      "num_keys nr = of_nat (Suc (length ls))"
      "children nr = map of_nat ?ls @ replicate (MAX_KEYS - length ls) 0"
      "val nr = val (node_at d r)" "node_type nr = node_type (node_at d r)"
    using btree_insert_flat_aux [OF assms] by blast
  let ?nr = "nr\<lparr>keys := ?ks\<rparr>"
  let ?d' = "set_node (set_node ?d2 r nr) r ?nr"
  have wf: "node_wf ?nr" using nr(1) assms(3) by (simp add: node_wf_def)
  have wfb: "node_wf ?nb" by simp
  have at: "node_at ?d' j = (if j = r then ?nr else if j = b then ?nb else node_at ?d1 j)" for j
    using nr(1) wf by simp
  have lk: "leaf_key ?d' l = leaf_key ?d2 l" if "l \<in> set ?ls" for l
    unfolding leaf_key_def at using that f(9) [of l] fl(3) wfb by (auto simp: leaf_ok_def)
  have il: "ins_leaf ?d1 ls k b = ?ls"
  proof -
    have "ins_pos ?d1 ls k = ins_pos d ls k"
      unfolding ins_pos_def using fl(4) by (metis (mono_tags, lifting) leaf_key_def takeWhile_cong)
    then show ?thesis by (simp add: ins_leaf_def)
  qed
  have tree: "flat_tree ?d' r (ins_leaf ?d1 ls k b)"
  proof (rule flat_tree_linked [OF fl(1) assms(3) lm(2) fl(3) fl(2), where nb = ?nb and nr = ?nr])
    show "node_at ?d' j = (if j = r then ?nr else if j = b then ?nb else node_at ?d1 j)" for j
      by (rule at)
    show "keys ?nr = map (leaf_key ?d') (ins_leaf ?d1 ls k b) @ replicate (MAX_KEYS - Suc (length ls)) 0"
      unfolding il using lk by simp
  qed (use nr wf wfb in \<open>simp_all add: il\<close>)
  have ok: "node_ok ?d2 r" "node_ok (set_node ?d2 r nr) r"
    using f(1) nr(1,2) fl(3) by (simp_all add: node_ok_set_node) (simp_all add: node_ok_def)
  note v2 = set_node_volume [OF lv(1) lm(2), where n = ?nb]
  note v3 = set_node_volume [OF v2(1) ok(1), where n = nr]
  note v4 = set_node_volume [OF v3(1) ok(2), where n = ?nr]
  have "flat_inserted d r ls b k v ty ?d'"
    unfolding flat_inserted_def
  proof (intro conjI)
    show "flat_tree ?d' r ?ls" using tree by (simp add: il)
    show "volume_ok ?d'" by (rule v4(1))
    show "n_blocks ?d' = n_blocks d" by (simp add: lv)
    show "\<forall>c<n_blocks d. used ?d' c = (c = b \<or> used d c)"
      using v2(2) v3(2) v4(2) lv(2,3) by simp
    show "the_sb ?d' = (the_sb d)\<lparr>free_blocks := free_blocks (the_sb d) - 1\<rparr>"
      using v2(3) v3(3) v4(3) lv(4) by simp
    show "leaf_key ?d' b = k" "val (node_at ?d' b) = v" "node_type (node_at ?d' b) = ty"
      unfolding leaf_key_def at using fl(3) by simp_all
    show "val (node_at ?d' r) = val (node_at d r)" "node_type (node_at ?d' r) = node_type (node_at d r)"
      unfolding at using nr(7,8) by simp_all
    show "\<forall>j. valid_block ?d' j = valid_block d j" by (simp add: lm)
    show "\<forall>j. j \<notin> {0, bitmap_block b, b, r} \<longrightarrow> page_at ?d' j = page_at d j"
      by (simp add: page_at_set_node_other lm)
  qed
  with ins show ?thesis by blast
qed

end
