(* ===== verification/Format.thy ===== *)
theory Format
  imports Inode_Facts Btree_Flat_Insert
begin

text \<open>
  \<open>disk_format\<close> of \<open>disk.c\<close> and the program \<open>mkfs.c\<close>: they lay out a volume, with the
  superblock in block 0, the block bitmaps from block 1, the inode bitmaps and the
  inode table behind them, and the root node of the directory tree in the first block
  after that. The lemmas show that the result satisfies everything that the other
  components rely on.
\<close>

subsection \<open>disk\_format\<close>

text \<open>The file mode bits of \<open>sys/stat.h\<close>.\<close>

definition S_IFMT :: u32 where "S_IFMT = 0xF000"

definition S_IFDIR :: u32 where "S_IFDIR = 0x4000"

definition S_IFREG :: u32 where "S_IFREG = 0x8000"

definition S_IFLNK :: u32 where "S_IFLNK = 0xA000"

definition set_block_type :: "block_type \<Rightarrow> nat \<Rightarrow> DiskInterface \<Rightarrow> DiskInterface option" where
  "set_block_type t i d = do {
     k \<leftarrow> get_block_direct d 0 (of_nat i);
     Some (set_page d k (set_page_type (page_at d k) t))
   }"

text \<open>
  A name that is too long is only reported. When block 0 is then not a superblock, the
  local structure stays indeterminate. \<open>now\<close>, \<open>uid\<close> and \<open>gid\<close> are what the system calls
  return. The result of the first allocation, block 0, is not looked at.
\<close>

definition disk_format ::
    "DiskInterface \<Rightarrow> u8 list \<Rightarrow> u64 \<Rightarrow> u32 \<Rightarrow> u32 \<Rightarrow> (int \<times> DiskInterface) option" where
  "disk_format d label now uid gid = do {
     (_, d0) \<leftarrow> superblock_initialize d label now;
     (_, sbo) \<leftarrow> superblock_read d0;
     sb \<leftarrow> sbo;
     let table = unat (inode_table_start sb);
     let table_end = unat (inode_table_start sb + u64_of_int (calculate_inode_table_size sb));
     d1 \<leftarrow> for_each [1..<table] (set_block_type BLOCK_TYPE_BITMAP) d0;
     d2 \<leftarrow> for_each [table..<table_end] (set_block_type BLOCK_TYPE_INODE) d1;
     (_, d3) \<leftarrow> alloc_page d2;
     (all_allocated, d4) \<leftarrow> alloc_times alloc_page (\<lambda>p. p = 0) (table_end - 1) d3;
     if \<not> all_allocated then Some (-1, d4)
     else do {
       (rootp, page, d5) \<leftarrow> btree_node_create d4 False;
       root \<leftarrow> rootp;
       (inum, d6) \<leftarrow> inode_allocate d5 (S_IFDIR OR 0x1ED) uid gid;
       let d7 = set_node d6 root ((node_at d6 root)\<lparr>val := u64_of_int inum\<rparr>);
       (_, d8) \<leftarrow> superblock_write d7 (sb\<lparr>btree_root := page\<rparr>);
       Some (0, d8)
     }
   }"

subsection \<open>mkfs\<close>

text \<open>
  \<open>main\<close> of \<open>mkfs.c\<close>: \<open>argv\<close> are the arguments with the program name, \<open>files\<close> gives the
  content of an image file or \<open>None\<close>. The label is copied into 32 bytes; one of 32 or
  more characters stays without a terminating zero there. The result is the exit code
  and the volume.
\<close>

definition untitled :: "u8 list" where
  "untitled = [0x55, 0x4E, 0x54, 0x49, 0x54, 0x4C, 0x45, 0x44]"

definition mkfs_main ::
    "u8 list list \<Rightarrow> (u8 list \<Rightarrow> u8 list option) \<Rightarrow> u64 \<Rightarrow> u32 \<Rightarrow> u32 \<Rightarrow> (int \<times> DiskInterface option) option" where
  "mkfs_main argv files now uid gid =
     (if length argv mod 2 \<noteq> 0 then Some (-1, None)
      else if argv = [] then None
      else
        let label = (if 2 < length argv \<and> argv ! 1 = [0x2D, 0x6C] then argv ! 2 else untitled)
        in if 32 \<le> length label then None
        else do {
          p \<leftarrow> disk_open (files (last argv));
          d \<leftarrow> p;
          (rv, d1) \<leftarrow> disk_format d label now uid gid;
          if rv \<noteq> 0 then Some (-1, Some d1) else Some (0, Some d1)
        })"

subsection \<open>The layout\<close>

text \<open>The numbers that the layout arithmetic gives for a volume of \<open>n\<close> blocks.\<close>

definition lay_ib :: "nat \<Rightarrow> nat" where "lay_ib n = 1 + (n + 4091) div 4092"

definition lay_table :: "nat \<Rightarrow> nat" where "lay_table n = lay_ib n + (n + 16367) div 16368"

definition lay_root :: "nat \<Rightarrow> nat" where "lay_root n = lay_table n + n div 88"

lemma lay_bounds:
  assumes "88 \<le> n"
  shows "2 \<le> lay_ib n" "lay_ib n < lay_table n" "lay_table n < lay_root n" "lay_root n < n"
proof -
  show "2 \<le> lay_ib n" "lay_ib n < lay_table n" "lay_table n < lay_root n"
    using assms by (simp_all add: lay_ib_def lay_table_def lay_root_def Suc_le_eq div_greater_zero_iff)
  show "lay_root n < n"
    using assms by (simp add: lay_ib_def lay_table_def lay_root_def)
qed

lemma lay_bitmap_block: "b < n \<Longrightarrow> bitmap_block b < lay_ib n"
  by (simp add: bitmap_block_def lay_ib_def)

lemma lay_inode_bitmap: "i < n div 88 * 22 \<Longrightarrow> lay_ib n + i div 4092 < lay_table n"
  by (simp add: lay_table_def)

lemma lay_inode_table: "i < n div 88 * 22 \<Longrightarrow> lay_table n + i div 22 < lay_root n"
  by (simp add: lay_root_def)

subsection \<open>Tagging\<close>

definition tag_blocks :: "nat \<Rightarrow> nat \<Rightarrow> block_type \<Rightarrow> DiskInterface \<Rightarrow> DiskInterface" where
  "tag_blocks a b t d =
     d\<lparr>disk_base := (\<lambda>k. if a \<le> k \<and> k < b then set_page_type (disk_base d k) t else disk_base d k)\<rparr>"

lemma tag_blocks_simps [simp]:
  "page_at (tag_blocks a b t d) k = (if a \<le> k \<and> k < b then set_page_type (page_at d k) t else page_at d k)"
  "total_blocks (tag_blocks a b t d) = total_blocks d"
  "n_blocks (tag_blocks a b t d) = n_blocks d"
  "valid_block (tag_blocks a b t d) k = valid_block d k"
  by (simp_all add: tag_blocks_def page_at_def n_blocks_def valid_block_def)

lemma set_block_type_loop:
  assumes "a \<le> b" "\<And>k. k < b \<Longrightarrow> valid_block d k"
  shows "for_each [a..<b] (set_block_type t) d = Some (tag_blocks a b t d)"
  using assms
proof (induction b rule: dec_induct)
  case base
  have "tag_blocks a a t d = d" by (rule disk_eqI) auto
  then show ?case by simp
next
  case (step b)
  have "valid_block (tag_blocks a b t d) b" using step.prems by simp
  then have "set_block_type t b (tag_blocks a b t d) = Some (tag_blocks a (Suc b) t d)"
    using step.hyps(1)
    by (auto simp: set_block_type_def intro!: disk_eqI)
  then show ?case using step by (simp add: for_each_append)
qed

lemma rd_zero_page [simp]: "rd64 zero_page a = 0" "rd16 zero_page a = 0" "rd_bool zero_page a = False"
    "rd32 zero_page a = 0" "page_type zero_page = 0"
  by (simp_all add: rd_defs rd_bytes_def zero_page_def rd_bool_def page_type_def upt_rec)

subsection \<open>The superblock of a new volume\<close>

definition new_superblock :: "nat \<Rightarrow> u8 list \<Rightarrow> u64 \<Rightarrow> Superblock \<Rightarrow> bool" where
  "new_superblock n name now sb \<longleftrightarrow>
     magic_number sb = 0x53465452424e \<and> block_size sb = 4096 \<and> sb_total_blocks sb = of_nat n \<and>
     free_blocks sb = of_nat n \<and> inode_bitmap sb = of_nat (lay_ib n) \<and>
     volume_name sb = name @ [0] @ replicate (31 - length name) 0 \<and> sb_creation_time sb = now"

lemma rd_bytes_wr_bytes_prefix:
  assumes "length bs \<le> n"
  shows "rd_bytes (wr_bytes pg a bs) a n = bs @ rd_bytes pg (a + length bs) (n - length bs)"
  using assms by (intro nth_equalityI) (auto simp: rd_bytes_def wr_bytes_def nth_append)

lemma rd_bytes_zero_page [simp]: "rd_bytes zero_page a n = replicate n 0"
  by (simp add: rd_bytes_def zero_page_def map_replicate_const)

lemma block_bitmap_space_ceil:
  assumes "unat t \<le> 2 ^ 19"
  shows "(ucast (1 + block_bitmap_space t) :: u64) = of_nat (lay_ib (unat t))"
proof -
  let ?w = "if t mod of_nat USABLE_BLOCK_SIZE \<noteq> 0 then t div of_nat USABLE_BLOCK_SIZE + 1
    else t div of_nat USABLE_BLOCK_SIZE"
  have w: "unat ?w = (unat t + 4091) div 4092"
    using u64_ceil_div [of USABLE_BLOCK_SIZE t] by simp
  have b: "(unat t + 4091) div 4092 < 2 ^ 20" using assms by simp
  have m: "unat (of_nat ((unat t + 4091) div 4092) :: u64) = (unat t + 4091) div 4092"
    by (rule unat_of_nat_u64) (use b in simp)
  have "?w = of_nat ((unat t + 4091) div 4092)"
    by (rule word_unat_eq_iff [THEN iffD2]) (simp only: w m)
  then have "block_bitmap_space t = ucast (of_nat ((unat t + 4091) div 4092) :: u64)"
    by (simp only: block_bitmap_space_def Let_def)
  also have "\<dots> = of_nat ((unat t + 4091) div 4092)"
    using b by (simp add: unsigned_of_nat take_bit_nat_eq_self)
  finally show ?thesis
    unfolding word_unat_eq_iff using b by (simp add: lay_ib_def unat_word_ariths unat_of_nat take_bit_nat_eq_self unsigned_ucast_eq)
qed

text \<open>A blank image: every byte 0.\<close>

definition blank_disk :: "nat \<Rightarrow> DiskInterface" where
  "blank_disk n = \<lparr>disk_base = (\<lambda>_. zero_page), total_blocks = of_nat n\<rparr>"

definition fits :: "nat \<Rightarrow> bool" where
  "fits n \<longleftrightarrow> 88 \<le> n \<and> n \<le> 2 ^ 19"

lemma blank_disk_simps [simp]:
  "page_at (blank_disk n) k = zero_page" "total_blocks (blank_disk n) = of_nat n"
  "fits n \<Longrightarrow> n_blocks (blank_disk n) = n"
  "fits n \<Longrightarrow> valid_block (blank_disk n) k = (k < n)"
  by (auto simp: blank_disk_def page_at_def n_blocks_def valid_block_def fits_def unat_of_nat_u64)

lemma superblock_initialize_blank:
  assumes "fits n" "length name \<le> 31"
  shows "\<exists>p. superblock_initialize (blank_disk n) name now = Some (0, set_page (blank_disk n) 0 p)
    \<and> page_type p = block_type_code BLOCK_TYPE_SUPER \<and> new_superblock n name now (superblock_of_page p)"
proof -
  have u: "unat (of_nat n :: u64) = n" using assms(1) by (auto simp: fits_def unat_of_nat_u64)
  have t: "unat (of_nat n :: u64) \<le> 2 ^ 19" unfolding u using assms(1) by (auto simp: fits_def)
  have v: "valid_block (blank_disk n) 0" using assms(1) by (simp add: fits_def)
  show ?thesis
    using assms(2) v block_bitmap_space_ceil [OF t]
    by (simp add: superblock_initialize_def Let_def new_superblock_def superblock_of_page_def
        page_simps u add.commute)
      (rule exI, rule conjI, rule refl, simp add: page_simps rd_bytes_wr_bytes_prefix)
qed

lemma new_superblock_layout:
  assumes "fits n" "new_superblock n name now sb"
  shows "unat (inode_bitmap sb) = lay_ib n"
    "inode_table_start sb = of_nat (lay_table n)" "calculate_inode_table_size sb = int (n div 88)"
proof -
  have n: "n < 2 ^ 20" using assms(1) by (auto simp: fits_def)
  have sb: "sb_total_blocks sb = of_nat n" "inode_bitmap sb = of_nat (lay_ib n)"
    using assms(2) by (simp_all add: new_superblock_def)
  have u: "unat (of_nat n :: u64) = n" using n by (simp add: unat_of_nat_u64)
  have small: "unat (sb_total_blocks sb) < 2 ^ 31" unfolding sb u using n by simp
  have ib: "lay_ib n < 2 ^ 21" using n by (simp add: lay_ib_def)
  then show "unat (inode_bitmap sb) = lay_ib n" by (simp add: sb unat_of_nat_u64)
  show "inode_table_start sb = of_nat (lay_table n)"
    unfolding inode_table_start_def calculate_inode_bitmap_size_ceil [OF small]
    by (simp add: sb u lay_table_def)
  show "calculate_inode_table_size sb = int (n div 88)"
    unfolding calculate_inode_table_size_floor [OF small] by (simp add: sb u)
qed

subsection \<open>The volume before any allocation\<close>

definition laid_out :: "nat \<Rightarrow> page \<Rightarrow> DiskInterface" where
  "laid_out n p = tag_blocks (lay_table n) (lay_root n) BLOCK_TYPE_INODE
     (tag_blocks 1 (lay_table n) BLOCK_TYPE_BITMAP (set_page (blank_disk n) 0 p))"

lemma page_at_laid_out:
  "page_at (laid_out n p) k =
     (if k = 0 \<and> 0 < lay_table n then p
      else if lay_table n \<le> k \<and> k < lay_root n then set_page_type (if k = 0 then p else zero_page) BLOCK_TYPE_INODE
      else if 1 \<le> k \<and> k < lay_table n then set_page_type zero_page BLOCK_TYPE_BITMAP
      else if k = 0 then p else zero_page)"
  by (auto simp: laid_out_def)

lemma laid_out_frame:
  assumes "fits n"
  shows "page_at (laid_out n p) 0 = p"
    "1 \<le> k \<Longrightarrow> k < lay_table n \<Longrightarrow> page_at (laid_out n p) k = set_page_type zero_page BLOCK_TYPE_BITMAP"
    "lay_table n \<le> k \<Longrightarrow> k < lay_root n \<Longrightarrow> page_at (laid_out n p) k = set_page_type zero_page BLOCK_TYPE_INODE"
    "n_blocks (laid_out n p) = n" "valid_block (laid_out n p) k = (k < n)"
    "\<not> used (laid_out n p) b" "lay_root n \<le> k \<Longrightarrow> page_at (laid_out n p) k = zero_page"
proof -
  have b: "2 \<le> lay_ib n" "lay_ib n < lay_table n"
    using assms lay_bounds [of n] by (simp_all add: fits_def)
  then show "page_at (laid_out n p) 0 = p"
    "1 \<le> k \<Longrightarrow> k < lay_table n \<Longrightarrow> page_at (laid_out n p) k = set_page_type zero_page BLOCK_TYPE_BITMAP"
    "lay_table n \<le> k \<Longrightarrow> k < lay_root n \<Longrightarrow> page_at (laid_out n p) k = set_page_type zero_page BLOCK_TYPE_INODE"
    by (simp_all add: page_at_laid_out)
  show "n_blocks (laid_out n p) = n" "valid_block (laid_out n p) k = (k < n)"
    using assms by (simp_all add: laid_out_def)
  show "\<not> used (laid_out n p) b"
    using b by (simp add: used_def bitmap_bit_def page_at_laid_out page_simps)
  show "lay_root n \<le> k \<Longrightarrow> page_at (laid_out n p) k = zero_page"
    using b assms lay_bounds [of n] by (simp add: page_at_laid_out fits_def)
qed

lemma alloc_ok_laid_out:
  assumes "fits n" "page_type p = block_type_code BLOCK_TYPE_SUPER"
  shows "alloc_ok (laid_out n p)"
proof -
  note l = laid_out_frame [OF assms(1), where p = p]
  have n: "88 \<le> n" "n \<le> 2 ^ 19" using assms(1) by (simp_all add: fits_def)
  note b = lay_bounds [OF n(1)]
  have "valid_block (laid_out n p) (bitmap_block c) \<and> is_bitmap (page_at (laid_out n p) (bitmap_block c))"
    if "c < n" for c
  proof -
    have "bitmap_block c < lay_ib n" using that by (rule lay_bitmap_block)
    then have "1 \<le> bitmap_block c" "bitmap_block c < lay_table n" "bitmap_block c < n"
      using b by (simp_all add: bitmap_block_def)
    then show ?thesis using l(2) l(5) by (simp add: is_bitmap_def)
  qed
  moreover have "super_ok (laid_out n p)"
    using n(1) assms(2) l(1,5) by (simp add: super_ok_def)
  ultimately show ?thesis using l(4) n(2) by (simp add: alloc_ok_def)
qed

subsection \<open>Allocating the blocks of the layout\<close>

lemma alloc_sameD:
  assumes "alloc_same d d'"
  shows "n_blocks d' = n_blocks d" "page_type (page_at d' k) = page_type (page_at d k)"
    "valid_block d' k = valid_block d k"
    "k \<noteq> 0 \<Longrightarrow> (\<And>c. c < n_blocks d \<Longrightarrow> k \<noteq> bitmap_block c) \<Longrightarrow> page_at d' k = page_at d k"
    "layout_of d' = layout_of d"
  using assms by (auto simp: alloc_same_def layout_of_def)

lemma alloc_layout:
  assumes "fits n" "page_type p = block_type_code BLOCK_TYPE_SUPER"
  shows "\<exists>d3 d4. alloc_page (laid_out n p) = Some (0, d3)
    \<and> alloc_times alloc_page (\<lambda>q. q = 0) (lay_root n - 1) d3 = Some (True, d4)
    \<and> volume_ok d4 \<and> alloc_same (laid_out n p) d4 \<and> (\<forall>b. used d4 b = (b < lay_root n))"
proof -
  note l = laid_out_frame [OF assms(1), where p = p]
  have n: "88 \<le> n" "n \<le> 2 ^ 19" using assms(1) by (simp_all add: fits_def)
  note b = lay_bounds [OF n(1)]
  have pos: "0 < n_blocks (laid_out n p)" using n l(4) by simp
  obtain d3 where d3: "alloc_page (laid_out n p) = Some (of_nat 0, d3)" "alloc_ok d3"
      "n_blocks d3 = n_blocks (laid_out n p)" "used d3 = (used (laid_out n p))(0 := True)"
      "alloc_same (laid_out n p) d3"
    using page_alloc.alloc_found [OF alloc_ok_laid_out [OF assms] pos] l(6) by blast
  have "used d3 c = (c < 1)" for c using d3(4) l(6) by simp
  moreover have "1 + (lay_root n - 1) \<le> n_blocks d3" using d3(3) l(4) b by simp
  moreover have "\<not> (of_nat c :: u64) = 0" if "1 \<le> c" "c < 1 + (lay_root n - 1)" for c
  proof -
    have "unat (of_nat c :: u64) = c" using that b n by (intro unat_of_nat_u64) simp
    then show ?thesis using that(1) by (metis not_one_le_zero unat_0)
  qed
  ultimately obtain d4 where d4: "alloc_times alloc_page (\<lambda>q. q = 0) (lay_root n - 1) d3 = Some (True, d4)"
      "alloc_ok d4" "n_blocks d4 = n_blocks d3" "\<forall>c. used d4 c = (c < 1 + (lay_root n - 1))" "alloc_same d3 d4"
    using page_alloc.alloc_times_prefix [OF d3(2), of 1 "lay_root n - 1" "\<lambda>q. q = 0"] by blast
  have u: "used d4 c = (c < lay_root n)" for c using d4(4) b by simp
  have "bitmap_block c < lay_root n" if "c < n" for c
    using lay_bitmap_block [OF that] b by simp
  then have "volume_ok d4"
    using d4(2,3) d3(3) l(4) b u by (simp add: volume_ok_def)
  then show ?thesis
    using d3(1) d4(1) u alloc_same_trans [OF d3(5) d4(5)] by simp
qed

subsection \<open>The new volume\<close>

definition new_volume :: "nat \<Rightarrow> u8 list \<Rightarrow> u64 \<Rightarrow> u32 \<Rightarrow> u32 \<Rightarrow> DiskInterface \<Rightarrow> bool" where
  "new_volume n name now uid gid d \<longleftrightarrow>
     n_blocks d = n \<and> volume_ok d \<and> inode_ok d \<and> flat_tree d (lay_root n) [] \<and>
     (\<forall>b<n. used d b = (b \<le> lay_root n)) \<and>
     (\<exists>sb. new_superblock n name now sb \<and> the_sb d = sb\<lparr>btree_root := of_nat (lay_root n)\<rparr>) \<and>
     inode_capacity d = n div 88 * 22 \<and>
     (\<forall>i<inode_capacity d. inode_used d i = (i = 0)) \<and>
     val (node_at d (lay_root n)) = 0 \<and>
     i_mode (inode_at d 0) = S_IFDIR OR 0x1ED \<and> owner_id (inode_at d 0) = uid \<and>
     group_id (inode_at d 0) = gid \<and> reference_count (inode_at d 0) = 1 \<and>
     i_number (inode_at d 0) = 0 \<and>
     (\<forall>i<inode_capacity d. i_size (inode_at d i) = 0 \<and> direct_blocks (inode_at d i) = replicate 12 0 \<and>
        indirect_block (inode_at d i) = 0 \<and> i_creation_time (inode_at d i) = 0 \<and>
        i_modification_time (inode_at d i) = 0 \<and> i_access_time (inode_at d i) = 0) \<and>
     (\<forall>k. lay_root n < k \<longrightarrow> k < n \<longrightarrow> page_at d k = zero_page)"

text \<open>The state after the root node is made: everything in place but the root's inode.\<close>

lemma root_node_made:
  assumes "fits n" "page_type p = block_type_code BLOCK_TYPE_SUPER"
    and sb: "new_superblock n name now (superblock_of_page p)"
    and d4: "volume_ok d4" "alloc_same (laid_out n p) d4" "\<forall>b. used d4 b = (b < lay_root n)"
  defines "d5 \<equiv> create_result d4 False (lay_root n)"
  shows "btree_node_create d4 False = Some (Some (lay_root n), of_nat (lay_root n), d5)"
    "volume_ok d5" "n_blocks d5 = n" "\<forall>b<n. used d5 b = (b \<le> lay_root n)"
    "node_ok d5 (lay_root n)" "node_at d5 (lay_root n) = blank_node (node_at d4 (lay_root n)) False (lay_root n)"
    "layout_of d5 = (of_nat n, of_nat (lay_ib n))"
    "\<forall>k. lay_ib n \<le> k \<and> k \<noteq> lay_root n \<longrightarrow> page_at d5 k = page_at (laid_out n p) k"
    "valid_block d5 k = (k < n)"
proof -
  note l = laid_out_frame [OF assms(1), where p = p]
  note a = alloc_sameD [OF d4(2)]
  have n: "88 \<le> n" "n \<le> 2 ^ 19" using assms(1) by (simp_all add: fits_def)
  note b = lay_bounds [OF n(1)]
  have nf: "next_free d4 (lay_root n)"
    using b d4(3) a(1) l(4) by (simp add: next_free_def)
  note c = create_result_frame [OF d4(1) nf, where leaf = False, folded d5_def]
  show "btree_node_create d4 False = Some (Some (lay_root n), of_nat (lay_root n), d5)"
    unfolding d5_def by (rule create_ok [OF d4(1) nf])
  show "volume_ok d5" "n_blocks d5 = n" "node_ok d5 (lay_root n)"
    "node_at d5 (lay_root n) = blank_node (node_at d4 (lay_root n)) False (lay_root n)"
    "valid_block d5 k = (k < n)"
    using c a l(4,5) by simp_all
  show "\<forall>b<n. used d5 b = (b \<le> lay_root n)"
    using c(7) d4(3) a(1) l(4) by auto
  have "layout_of (laid_out n p) = (of_nat n, of_nat (lay_ib n))"
    using sb l(1) by (simp add: layout_of_def the_sb_def new_superblock_def)
  then show "layout_of d5 = (of_nat n, of_nat (lay_ib n))"
    using c(9) a(5) by (simp add: layout_of_def)
  show "\<forall>k. lay_ib n \<le> k \<and> k \<noteq> lay_root n \<longrightarrow> page_at d5 k = page_at (laid_out n p) k"
  proof (intro allI impI)
    fix k
    assume "lay_ib n \<le> k \<and> k \<noteq> lay_root n"
    then have k: "lay_ib n \<le> k" "k \<noteq> lay_root n" by simp_all
    have nb: "k \<noteq> bitmap_block i" if "i < n" for i
      using lay_bitmap_block [OF that] k(1) by simp
    have "page_at d5 k = page_at d4 k"
      using k b nb [of "lay_root n"] by (intro c(6)) auto
    then show "page_at d5 k = page_at (laid_out n p) k"
      using a(4) [of k] k b nb l(4) by simp
  qed
qed

lemma rd_zero_arrays [simp]: "rd64s zero_page a k = replicate k 0"
  by (rule nth_equalityI) simp_all

text \<open>The root's inode is the first of the table.\<close>

lemma root_inode_made:
  fixes mode uid gid :: u32
  assumes "fits n" "layout_of d5 = (of_nat n, of_nat (lay_ib n))" "volume_ok d5"
    and pages: "\<forall>k. lay_ib n \<le> k \<and> k \<noteq> lay_root n \<longrightarrow> page_at d5 k = page_at (laid_out n p) k"
    and valid: "\<And>k. valid_block d5 k = (k < n)"
  defines "d6 \<equiv> inode_alloc_result d5 0 mode uid gid"
  shows "inode_allocate d5 mode uid gid = Some (0, d6)" "inode_ok d6" "inode_capacity d6 = n div 88 * 22"
    "inode_bitmap_block d6 i = lay_ib n + i div 4092" "inode_table_block d6 i = lay_table n + i div 22"
    "the_sb d6 = the_sb d5" "n_blocks d6 = n_blocks d5"
    "k \<noteq> lay_ib n \<Longrightarrow> k \<noteq> lay_table n \<Longrightarrow> page_at d6 k = page_at d5 k"
    "i < n div 88 * 22 \<Longrightarrow> inode_used d6 i = (i = 0)"
    "i < n div 88 * 22 \<Longrightarrow> inode_at d6 i = (if i = 0
       then fresh_inode (inode_of_page zero_page 4) 0 mode uid gid else inode_of_page zero_page 4)"
proof -
  note l = laid_out_frame [OF assms(1), where p = p]
  have n: "88 \<le> n" "n \<le> 2 ^ 19" using assms(1) by (simp_all add: fits_def)
  note b = lay_bounds [OF n(1)]
  have sb: "sb_total_blocks (the_sb d5) = of_nat n" "inode_bitmap (the_sb d5) = of_nat (lay_ib n)"
    using assms(2) by (simp_all add: layout_of_def)
  have u: "unat (of_nat n :: u64) = n" using n by (simp add: unat_of_nat_u64)
  have small: "unat (sb_total_blocks (the_sb d5)) < 2 ^ 31" unfolding sb u using n by simp
  have ts: "inode_table_start (the_sb d5) = of_nat (lay_table n)"
    unfolding inode_table_start_def calculate_inode_bitmap_size_ceil [OF small]
    by (simp add: sb u lay_table_def)
  have cap: "inode_capacity d5 = n div 88 * 22"
    unfolding inode_capacity_def calculate_inode_table_size_floor [OF small] by (simp add: sb u)
  have tb: "unat (of_nat (lay_table n) :: u64) = lay_table n" "unat (of_nat (lay_ib n) :: u64) = lay_ib n"
    using b n by (simp_all add: unat_of_nat_u64)
  have ibb: "inode_bitmap_block d5 i = lay_ib n + i div 4092" for i
    by (simp add: inode_bitmap_block_def sb tb)
  have itb: "inode_table_block d5 i = lay_table n + i div 22" for i
    by (simp add: inode_table_block_def ts tb)
  have ib: "valid_block d5 (inode_bitmap_block d5 i)"
      "page_at d5 (inode_bitmap_block d5 i) = set_page_type zero_page BLOCK_TYPE_BITMAP"
      if i: "i < n div 88 * 22" for i
    using lay_inode_bitmap [OF i] b l(2) pages by (simp_all add: ibb valid)
  have it: "valid_block d5 (inode_table_block d5 i)"
      "page_at d5 (inode_table_block d5 i) = set_page_type zero_page BLOCK_TYPE_INODE"
      if i: "i < n div 88 * 22" for i
    using lay_inode_table [OF i] b l(3) pages by (simp_all add: itb valid)
  have ok: "inode_ok d5"
    using assms(3) ib it cap alloc_okD(3) [of d5]
    by (auto simp: inode_ok_def is_bitmap_def is_inode_block_def volume_ok_def alloc_ok_def)
  have pos: "0 < inode_capacity d5" using cap n by (simp add: div_greater_zero_iff)
  have free: "\<not> inode_used d5 i" if "i < n div 88 * 22" for i
    using ib(2) [OF that] by (simp add: inode_used_def bitmap_bit_def page_simps)
  note r = inode_alloc_result_facts [OF ok pos, where mode = mode and uid = uid and gid = gid, folded d6_def]
  show "inode_allocate d5 mode uid gid = Some (0, d6)"
    using inode_allocate_found [OF ok pos] free [of 0] pos cap by (simp add: d6_def)
  show "inode_ok d6" "inode_capacity d6 = n div 88 * 22" "the_sb d6 = the_sb d5" "n_blocks d6 = n_blocks d5"
    using r cap by simp_all
  show "inode_bitmap_block d6 i = lay_ib n + i div 4092" "inode_table_block d6 i = lay_table n + i div 22"
    using ibb itb by (simp_all add: layout_cong [OF r(5)])
  show "page_at d6 k = page_at d5 k" if "k \<noteq> lay_ib n" "k \<noteq> lay_table n"
    using that by (intro r(7)) (simp_all add: ibb itb)
  show "i < n div 88 * 22 \<Longrightarrow> inode_used d6 i = (i = 0)"
    using r(3) free cap by simp
  assume i: "i < n div 88 * 22"
  have "inode_at d5 j = inode_of_page zero_page 4" if "j < n div 88 * 22" for j
    using it(2) [OF that] by (simp add: inode_at_def inode_slot_def inode_of_page_def page_simps)
  then show "inode_at d6 i = (if i = 0
       then fresh_inode (inode_of_page zero_page 4) 0 mode uid gid else inode_of_page zero_page 4)"
    using r(4) [of i] i cap pos by simp
qed

lemma disk_format_blank:
  assumes "fits n" "length name \<le> 31"
  shows "\<exists>d. disk_format (blank_disk n) name now uid gid = Some (0, d) \<and> new_volume n name now uid gid d"
proof -
  have n: "88 \<le> n" "n \<le> 2 ^ 19" using assms(1) by (simp_all add: fits_def)
  note b = lay_bounds [OF n(1)]
  obtain p where p: "superblock_initialize (blank_disk n) name now = Some (0, set_page (blank_disk n) 0 p)"
      "page_type p = block_type_code BLOCK_TYPE_SUPER" "new_superblock n name now (superblock_of_page p)"
    using superblock_initialize_blank [OF assms] by blast
  let ?sb = "superblock_of_page p"
  let ?d0 = "set_page (blank_disk n) 0 p"
  have super0: "super_ok ?d0" "the_sb ?d0 = ?sb"
    using p(2) assms(1) n by (simp_all add: super_ok_def the_sb_def)
  note lay = new_superblock_layout [OF assms(1) p(3)]
  have te: "of_nat (lay_table n) + u64_of_int (calculate_inode_table_size ?sb) = of_nat (lay_root n)"
    unfolding lay(3) by (simp add: lay_root_def)
  have un: "unat (of_nat (lay_table n) :: u64) = lay_table n" "unat (of_nat (lay_root n) :: u64) = lay_root n"
    using b n by (simp_all add: unat_of_nat_u64)
  have loops: "for_each [1..<lay_table n] (set_block_type BLOCK_TYPE_BITMAP) ?d0
        = Some (tag_blocks 1 (lay_table n) BLOCK_TYPE_BITMAP ?d0)"
      "for_each [lay_table n..<lay_root n] (set_block_type BLOCK_TYPE_INODE)
         (tag_blocks 1 (lay_table n) BLOCK_TYPE_BITMAP ?d0) = Some (laid_out n p)"
    unfolding laid_out_def using b assms(1) by (intro set_block_type_loop; simp)+
  obtain d3 d4 where d4: "alloc_page (laid_out n p) = Some (0, d3)"
      "alloc_times alloc_page (\<lambda>q. q = 0) (lay_root n - 1) d3 = Some (True, d4)"
      "volume_ok d4" "alloc_same (laid_out n p) d4" "\<forall>b. used d4 b = (b < lay_root n)"
    using alloc_layout [OF assms(1) p(2)] by blast
  note r5 = root_node_made [OF assms(1) p(2,3) d4(3-5)]
  let ?te = "lay_root n"
  let ?d5 = "create_result d4 False ?te"
  note r6 = root_inode_made [OF assms(1) r5(7) r5(2) r5(8) r5(9),
      where mode = "S_IFDIR OR 0x1ED" and uid = uid and gid = gid]
  let ?d6 = "inode_alloc_result ?d5 0 (S_IFDIR OR 0x1ED) uid gid"
  let ?nd = "(node_at ?d6 ?te)\<lparr>val := 0\<rparr>"
  let ?d7 = "set_node ?d6 ?te ?nd"
  let ?sb' = "?sb\<lparr>btree_root := of_nat ?te\<rparr>"
  let ?d8 = "set_page ?d7 0 (superblock_to_page ?sb' (page_at ?d7 0))"
  have nt: "?te \<noteq> 0" using b by simp
  have super7: "super_ok ?d7"
    using r6(2) nt by (simp add: set_node_def inode_ok_def)
  have fmt: "disk_format (blank_disk n) name now uid gid = Some (0, ?d8)"
    unfolding disk_format_def p(1) bind.simps prod.case superblock_read_ok [OF super0(1)] super0(2)
      Let_def te lay(2) un loops d4(1,2) r5(1) r6(1)
    by (simp add: r5(1) r6(1) superblock_write_ok [OF super7])
  obtain d8 where d8: "d8 = ?d8" by blast
  have pg: "page_at d8 k = page_at ?d6 k" if "k \<noteq> 0" "k \<noteq> ?te" for k
    using that by (simp add: d8 page_at_set_node_other)
  have n8: "n_blocks d8 = n" "\<And>k. valid_block d8 k = (k < n)"
  proof -
    show *: "n_blocks d8 = n" using r6(7) r5(3) by (simp add: d8)
    show "valid_block d8 k = (k < n)" for k
      using * n unfolding valid_block_def n_blocks_def by auto
  qed
  have sb8: "the_sb d8 = ?sb'" "super_ok d8" using super7 by (simp_all add: d8)
  have lo: "layout_of d8 = layout_of ?d6"
    using p(3) r5(7) r6(6) sb8(1) by (simp add: layout_of_def new_superblock_def)
  have bb: "\<forall>c<n. page_at d8 (bitmap_block c) = page_at ?d5 (bitmap_block c)"
    using lay_bitmap_block [of _ n] b r6(8) by (fastforce simp: d8 page_at_set_node_other)
  note vol = volume_ok_cong [OF r5(2) _ sb8(2), unfolded r5(3), OF n8(1) bb]
  have at6: "node_at ?d6 ?te = node_at ?d5 ?te"
    using b r6(8) [of ?te] by (simp add: node_at_def)
  have node8: "node_at d8 ?te = ?nd"
    using nt by (simp add: d8 node_at_set_page node_wf_def)
  have nb8: "is_node_block d8 ?te"
    using r5(5) nt b r6(8) [of ?te] by (simp add: d8 is_node_block_def node_ok_def)
  have tree: "flat_tree d8 ?te []"
    using b n8(2) nb8 r5(6) nt by (simp add: flat_tree_def node_ok_def node8 at6 blank_node_def)
  have ilay: "inode_capacity d8 = n div 88 * 22"
      "\<And>i. inode_bitmap_block d8 i = lay_ib n + i div 4092"
      "\<And>i. inode_table_block d8 i = lay_table n + i div 22"
    using layout_cong' [OF lo] r6(3-5) by simp_all
  have ipg: "\<forall>i<inode_capacity ?d6. page_at d8 (inode_bitmap_block ?d6 i) = page_at ?d6 (inode_bitmap_block ?d6 i)
      \<and> page_at d8 (inode_table_block ?d6 i) = page_at ?d6 (inode_table_block ?d6 i)"
  proof (intro allI impI)
    fix i
    assume "i < inode_capacity ?d6"
    then have "i < n div 88 * 22" using r6(3) by simp
    then show "page_at d8 (inode_bitmap_block ?d6 i) = page_at ?d6 (inode_bitmap_block ?d6 i)
      \<and> page_at d8 (inode_table_block ?d6 i) = page_at ?d6 (inode_table_block ?d6 i)"
      using lay_inode_bitmap [of i n] lay_inode_table [of i n] b by (simp add: pg r6(4,5))
  qed
  have blank: "page_at d8 k = zero_page" if "lay_root n < k" for k
    using that b r5(8) r6(8) [of k] laid_out_frame(7) [OF assms(1), of k] by (simp add: pg)
  have v8: "valid_block d8 k = valid_block ?d6 k" for k
    using n8 r6(7) r5(3) by (simp add: valid_block_def n_blocks_def)
  note ino = inode_cong [OF r6(2) lo sb8(2) v8 ipg]
  have "new_volume n name now uid gid d8"
    unfolding new_volume_def
    using n8(1) vol tree sb8(1) p(3) ilay(1) node8 r6(9,10) r5(4) ino n blank
    by (auto simp: fresh_inode_def inode_of_page_def div_greater_zero_iff)
  with fmt d8 show ?thesis by blast
qed

text \<open>A file of zero bytes maps to a blank disk.\<close>

lemma disk_open_zeros:
  assumes "fits n"
  shows "disk_open (Some (replicate (n * 4096) 0)) = Some (Some (blank_disk n))"
proof -
  have "(\<lambda>b a. if BLOCK_SIZE * b + a < length (replicate (n * 4096) (0 :: u8))
      then replicate (n * 4096) (0 :: u8) ! (BLOCK_SIZE * b + a) else 0) = (\<lambda>_. zero_page)"
    by (intro ext) (simp add: zero_page_def)
  moreover have "0 < n" using assms by (simp add: fits_def)
  ultimately show ?thesis by (simp add: disk_open_def blank_disk_def)
qed

end
