(* ===== verification/Btree_Flat_Delete.thy ===== *)
theory Btree_Flat_Delete
  imports Btree_Flat_Insert
begin

text \<open>
  Deletion from a flat tree that is not full: the first leaf with the key is unlinked
  from the root and its block is given back; the other leaves stay where they are.
\<close>

subsection \<open>The loops of btree\_remove\_key\<close>

definition shift_down :: "'a list \<Rightarrow> nat \<Rightarrow> nat \<Rightarrow> 'a list" where
  "shift_down xs p q = map (\<lambda>i. if p \<le> i \<and> i < q then xs ! Suc i else xs ! i) [0..<length xs]"

lemma length_shift_down [simp]: "length (shift_down xs p q) = length xs"
  by (simp add: shift_down_def)

lemma shift_down_same [simp]: "shift_down xs p p = xs"
  by (rule nth_equalityI) (auto simp: shift_down_def)

lemma shift_down_step:
  assumes "p \<le> q" "Suc q < length xs"
  shows "(shift_down xs p q)[q := shift_down xs p q ! Suc q] = shift_down xs p (Suc q)"
  using assms by (intro nth_equalityI) (auto simp: shift_down_def nth_list_update less_Suc_eq)

lemma down_children_loop:
  assumes "p \<le> q" "q \<le> MAX_KEYS" "node_wf n"
  shows "for_each [p..<q] (\<lambda>j r. do { c \<leftarrow> child_at r (j + 1); set_child r j c }) n
       = Some (n\<lparr>children := shift_down (children n) p q\<rparr>)"
  using assms
proof (induction q rule: dec_induct)
  case base
  then show ?case by simp
next
  case (step q)
  then show ?case
    by (simp add: for_each_append child_at_def set_child_def shift_down_step node_wf_def)
qed

lemma down_keys_loop:
  assumes "p \<le> q" "q < MAX_KEYS" "node_wf n"
  shows "for_each [p..<q] (\<lambda>j r. do { k \<leftarrow> key_at r (j + 1); set_key r j k }) n
       = Some (n\<lparr>keys := shift_down (keys n) p q\<rparr>)"
  using assms
proof (induction q rule: dec_induct)
  case base
  then show ?case by simp
next
  case (step q)
  then show ?case
    by (simp add: for_each_append key_at_def set_key_def shift_down_step node_wf_def)
qed

lemma shift_down_remove:
  assumes "i < length xs" "length xs \<le> q" "q < length xs + k"
  shows "shift_down (xs @ replicate k z) i q = (take i xs @ drop (Suc i) xs) @ replicate (Suc k) z"
proof (rule nth_equalityI)
  show "length (shift_down (xs @ replicate k z) i q)
      = length ((take i xs @ drop (Suc i) xs) @ replicate (Suc k) z)"
    using assms by simp
next
  fix j
  assume "j < length (shift_down (xs @ replicate k z) i q)"
  then have "j < length xs + k" by simp
  then show "shift_down (xs @ replicate k z) i q ! j
      = ((take i xs @ drop (Suc i) xs) @ replicate (Suc k) z) ! j"
    using assms by (auto simp: shift_down_def nth_append simp del: replicate_Suc)
qed

definition without :: "nat \<Rightarrow> 'a list \<Rightarrow> 'a list" where
  "without i xs = take i xs @ drop (Suc i) xs"

lemma length_without [simp]: "i < length xs \<Longrightarrow> length (without i xs) = length xs - 1"
  by (simp add: without_def)

lemma map_without: "map f (without i xs) = without i (map f xs)"
  by (simp add: without_def take_map drop_map)

lemma set_without: "set (without i xs) \<subseteq> set xs"
  unfolding without_def by (auto dest: in_set_takeD in_set_dropD)

lemma without_split:
  "i < length xs \<Longrightarrow> xs = take i xs @ xs ! i # drop (Suc i) xs"
  by (rule id_take_nth_drop)

lemma distinct_without: "distinct xs \<Longrightarrow> i < length xs \<Longrightarrow> distinct (without i xs)"
  unfolding without_def by (subst (asm) without_split, assumption) auto

lemma sorted_without: "sorted xs \<Longrightarrow> i < length xs \<Longrightarrow> sorted (without i xs)"
  unfolding without_def by (subst (asm) without_split, assumption) (simp add: sorted_append)

lemma without_remove1:
  "distinct xs \<Longrightarrow> i < length xs \<Longrightarrow> without i xs = remove1 (xs ! i) xs"
proof (induction xs arbitrary: i)
  case (Cons x xs)
  then show ?case
    by (cases i) (auto simp: without_def)
qed simp

subsection \<open>The place of the key\<close>

lemma key_index_flat:
  assumes "flat_tree d r ls" "\<forall>l\<in>set ls. leaf_key d l \<noteq> 0" "i < length ls" "leaf_key d (ls ! i) = k"
    and "\<forall>j<i. leaf_key d (ls ! j) \<noteq> k"
  shows "key_index (node_at d r) k = i"
proof -
  note f = flat_treeD [OF assms(1)]
  have less: "leaf_key d (ls ! j) < k" if "j < i" for j
  proof -
    have "leaf_key d (ls ! j) \<le> leaf_key d (ls ! i)"
      using that assms(3) sorted_nth_mono [OF f(10), of j i] by simp
    then show ?thesis using that assms(4,5) by (simp add: order.strict_iff_order)
  qed
  have "takeWhile (\<lambda>x. x < k \<and> x \<noteq> 0) (keys (node_at d r)) = take i (keys (node_at d r))"
    unfolding f(7)
    using assms(2,3,4) less by (intro takeWhile_eq_take_P_nth) (auto simp: nth_append)
  then show ?thesis using assms(3) f(4) by (simp add: key_index_def)
qed

lemma unlink_child_flat:
  assumes "flat_tree d r ls" "length ls < MAX_KEYS" "i < length ls"
  shows "\<exists>n. unlink_child (node_at d r) i = Some n \<and> node_wf n \<and> block_number n = of_nat r
    \<and> \<not> is_leaf n \<and> parent n = 0 \<and> num_keys n = of_nat (length (without i ls))
    \<and> children n = map of_nat (without i ls) @ replicate (MAX_KEYS + 1 - length (without i ls)) 0
    \<and> keys n = map (leaf_key d) (without i ls) @ replicate (MAX_KEYS - length (without i ls)) 0"
proof -
  note f = flat_treeD [OF assms(1)]
  let ?m = "length ls"
  let ?n = "node_at d r"
  let ?n1 = "?n\<lparr>keys := shift_down (keys ?n) i ?m\<rparr>"
  let ?n2 = "?n1\<lparr>children := shift_down (children ?n) i (Suc ?m)\<rparr>"
  have wf1: "node_wf ?n1" by (simp add: node_wf_def)
  have l1: "for_each [i..<?m] (\<lambda>j r. do { k \<leftarrow> key_at r (j + 1); set_key r j k }) ?n = Some ?n1"
    using assms by (intro down_keys_loop) simp_all
  have l2: "for_each [i..<Suc ?m] (\<lambda>j r. do { c \<leftarrow> child_at r (j + 1); set_child r j c }) ?n1 = Some ?n2"
    using down_children_loop [OF _ _ wf1, of i "Suc ?m"] assms by simp
  have k: "shift_down (keys ?n) i ?m = map (leaf_key d) (without i ls) @ replicate (Suc (MAX_KEYS - ?m)) 0"
    using shift_down_remove [of i "map (leaf_key d) ls" ?m "MAX_KEYS - ?m" 0] assms(2,3)
    by (simp only: f(7) length_map map_without without_def take_map drop_map map_append)
  have c: "shift_down (children ?n) i (Suc ?m)
      = map of_nat (without i ls) @ replicate (Suc (MAX_KEYS + 1 - ?m)) 0"
    using shift_down_remove [of i "map of_nat ls" "Suc ?m" "MAX_KEYS + 1 - ?m" "0 :: u64"] assms(2,3)
    by (simp only: f(6) length_map map_without without_def take_map drop_map map_append)
  let ?n3 = "?n2\<lparr>keys := (keys ?n2)[?m - 1 := 0]\<rparr>"
  let ?n4 = "?n3\<lparr>children := (children ?n3)[?m := 0]\<rparr>"
  have k0: "(keys ?n2)[?m - 1 := 0] = keys ?n2"
    using assms(3) by (simp add: k list_update_append)
  have c0: "(children ?n2)[?m := 0] = children ?n2"
    using assms(2,3) by (intro nth_equalityI) (auto simp: c nth_append nth_list_update simp del: replicate_Suc)
  have nk: "num_keys ?n - 1 = of_nat (length (without i ls))"
  proof -
    have "num_keys ?n = of_nat (length ls)" using assms(1) by (simp add: flat_tree_def)
    moreover have "length ls = Suc (length (without i ls))" using assms(3) by simp
    ultimately show ?thesis by simp
  qed
  have s3: "(if ?m = 0 then None else set_key ?n2 (?m - 1) 0) = Some ?n3"
    using assms(2,3) by (auto simp: set_key_def)
  have s4: "set_child ?n3 ?m 0 = Some ?n4"
    using assms(2) by (simp add: set_child_def)
  have "unlink_child ?n i = Some (?n4\<lparr>num_keys := num_keys ?n4 - 1\<rparr>)"
    unfolding unlink_child_def Let_def f(5) l1 bind.simps l2 s3 s4 ..
  moreover have "MAX_KEYS - length (without i ls) = Suc (MAX_KEYS - ?m)"
      "MAX_KEYS + 1 - length (without i ls) = Suc (MAX_KEYS + 1 - ?m)"
    using assms(2,3) by simp_all
  ultimately show ?thesis
    using k0 c0 k c nk f(1,2,3) assms(2,3) length_without [OF assms(3)] by (simp add: node_wf_def node_ok_def)
qed

subsection \<open>Deletion\<close>

lemma flat_tree_shorter:
  assumes "flat_tree d r ls" "i < length ls" "node_wf n" "block_number n = of_nat r" "\<not> is_leaf n"
    "parent n = 0" "num_keys n = of_nat (length (without i ls))"
    "children n = map of_nat (without i ls) @ replicate (MAX_KEYS + 1 - length (without i ls)) 0"
    "keys n = map (leaf_key d) (without i ls) @ replicate (MAX_KEYS - length (without i ls)) 0"
    and d': "\<And>j. node_at d' j = (if j = r then n else node_at d j)"
      "\<And>j. valid_block d' j = valid_block d j" "\<And>j. is_node_block d' j = is_node_block d j"
  shows "flat_tree d' r (without i ls)"
proof -
  note f = flat_treeD [OF assms(1)]
  have lk: "map (leaf_key d') (without i ls) = map (leaf_key d) (without i ls)"
    using set_without [of i ls] f(9) by (auto simp: leaf_key_def d' leaf_ok_def)
  have lo: "list_all (leaf_ok d' r) (without i ls)"
    using set_without [of i ls] f(9) by (auto simp: list_all_iff leaf_ok_def node_ok_def d')
  have "sorted (map (leaf_key d) (without i ls))"
    unfolding map_without using f(10) assms(2) by (intro sorted_without) simp_all
  then show ?thesis
    unfolding flat_tree_def lk
    using assms f(1,4) lo distinct_without [OF f(8) assms(2)] by (simp add: node_ok_def)
qed

text \<open>Giving back the block of a leaf.\<close>

lemma free_node_block:
  assumes "volume_ok d" "node_ok d l" "l \<noteq> 0"
  shows "\<exists>d'. btree_node_free d (of_nat l) = Some d' \<and> volume_ok d' \<and> n_blocks d' = n_blocks d
    \<and> used d' = (used d)(l := False) \<and> the_sb d' = (the_sb d)\<lparr>free_blocks := free_blocks (the_sb d) - 1\<rparr>
    \<and> (\<forall>j. valid_block d' j = valid_block d j)
    \<and> (\<forall>j. j \<noteq> 0 \<longrightarrow> j \<noteq> bitmap_block l \<longrightarrow> page_at d' j = page_at d j)"
proof -
  have ok: "alloc_ok d" using assms(1) by (simp add: volume_ok_def)
  have v: "valid_block d l" using assms(2) by (simp add: node_ok_def)
  then have l: "l < n_blocks d" by (simp add: valid_block_def n_blocks_def)
  have apart: "l \<noteq> bitmap_block c" if "c < n_blocks d" for c
    using assms(2) alloc_okD(2) [OF ok that] node_block_kind(2) by (auto simp: node_ok_def)
  let ?d' = "set_free_blocks (set_used d l False) (free_blocks (the_sb d) - 1)"
  have "btree_node_free d (of_nat l) = Some ?d'"
    using free_page_ok [OF ok l] int_of_u64_nat [OF v] by (simp add: btree_node_free_def)
  moreover have "volume_ok ?d'"
    using assms(1,3) apart by (auto simp: volume_ok_def)
  ultimately show ?thesis
    by (simp add: fun_eq_iff page_at_set_free_blocks_other page_at_set_used_other)
qed

lemma refresh_keys_same:
  assumes "flat_tree d r ls"
  shows "refresh_keys d (node_at d r) = Some (node_at d r)"
proof -
  note f = flat_treeD [OF assms]
  have "refresh_keys d (node_at d r)
      = Some ((node_at d r)\<lparr>keys := map (leaf_key d) ls @ drop (length ls) (keys (node_at d r))\<rparr>)"
    using f(4,5,6) leaf_okD(2,3) [OF f(9)] by (intro refresh_keys_leaves) auto
  moreover have "map (leaf_key d) ls @ drop (length ls) (keys (node_at d r)) = keys (node_at d r)"
    by (simp add: f(7))
  ultimately show ?thesis by simp
qed

lemma btree_remove_key_flat:
  assumes "volume_ok d" "flat_tree d r ls" "length ls < MAX_KEYS" "\<forall>l\<in>set ls. leaf_key d l \<noteq> 0"
    and i: "i < length ls" "leaf_key d (ls ! i) = k" "\<forall>j<i. leaf_key d (ls ! j) \<noteq> k"
  shows "\<exists>d'. btree_remove_key d (of_nat r) k = Some d' \<and> volume_ok d' \<and> flat_tree d' r (without i ls)
    \<and> n_blocks d' = n_blocks d \<and> (\<forall>c<n_blocks d. used d' c = used d c) \<and> the_sb d' = the_sb d
    \<and> (\<forall>j. valid_block d' j = valid_block d j) \<and> (\<forall>j. j \<noteq> r \<longrightarrow> page_at d' j = page_at d j)"
proof -
  note f = flat_treeD [OF assms(2)]
  let ?l = "ls ! i"
  note leaf = leaf_okD [OF f(11) [OF i(1)]]
  obtain n where n: "unlink_child (node_at d r) i = Some n" "node_wf n" "block_number n = of_nat r"
      "\<not> is_leaf n" "parent n = 0" "num_keys n = of_nat (length (without i ls))"
      "children n = map of_nat (without i ls) @ replicate (MAX_KEYS + 1 - length (without i ls)) 0"
      "keys n = map (leaf_key d) (without i ls) @ replicate (MAX_KEYS - length (without i ls)) 0"
    using unlink_child_flat [OF assms(2,3) i(1)] by blast
  let ?d2 = "set_node d r n"
  have ix: "key_index (node_at d r) k = i"
    by (rule key_index_flat [OF assms(2,4) i])
  have c: "child_at (node_at d r) i = Some (of_nat ?l)"
    using flat_child [OF assms(2), of i] i(1) by simp
  have bal: "rebalance d (node_at d r) k = Some (-1, d)"
    using f(3) by (simp add: rebalance_def)
  have rv: "valid_block d r" "is_node_block d r" "r \<noteq> 0" "(of_nat r :: u64) \<noteq> 0"
    using f(1) node_ok_of_nat_nz [OF f(1)] by (auto simp: node_ok_def)
  have w2: "btree_node_write d n = Some (0, ?d2)"
    using rv n(3) by (simp add: btree_node_write_ok)
  have flat2: "flat_tree ?d2 r (without i ls)"
    by (rule flat_tree_shorter [OF assms(2) i(1) n(2-8)]) (simp_all add: n(2))
  have at2: "node_at ?d2 r = n" by (simp add: n(2))
  have c0: "child_at n 0 = Some (if without i ls = [] then 0 else of_nat (without i ls ! 0))"
    using flat_child [OF flat2, of 0] by (simp add: at2)
  have short: "length (without i ls) < 2 ^ 16" using assms(3) i(1) by simp
  have promote: "num_keys n = 0 \<longleftrightarrow> without i ls = []"
  proof -
    have "unat (num_keys n) = length (without i ls)"
      by (simp only: n(6) unat_of_nat_u16 [OF short])
    then show ?thesis by (metis length_0_conv unsigned_eq_0_iff)
  qed
  have ok2: "node_ok ?d2 r" by (rule flat_treeD(1) [OF flat2])
  have upd: "btree_update_parent_keys ?d2 (node_at d ?l) = Some (set_node ?d2 r n)"
    using leaf(5) rv n(3) node_get_ok [OF ok2] refresh_keys_same [OF flat2]
    by (simp add: btree_update_parent_keys_def at2 btree_node_write_ok)
  have w3: "btree_node_write (set_node ?d2 r n) n = Some (0, set_node (set_node ?d2 r n) r n)"
    using rv n(3) by (simp add: btree_node_write_ok)
  let ?d' = "set_node (set_node ?d2 r n) r n"
  have skip: "(if num_keys n = 0 \<and> (if without i ls = [] then 0 else of_nat (without i ls ! 0)) \<noteq> (0 :: u64)
      then do { m \<leftarrow> btree_find_maximum ?d2 (of_nat r); r \<leftarrow> set_key n 0 m; Some (r\<lparr>num_keys := num_keys r + 1\<rparr>) }
      else Some n) = Some n"
    using promote by simp
  have rm: "btree_remove_key d (of_nat r) k = Some ?d'"
    unfolding btree_remove_key_def node_get_ok [OF f(1)] bind.simps ix c btree_node_read_ok [OF leaf(2)]
      prod.case bal n(1) w2 c0 skip
    by (simp add: upd w3)
  have flat': "flat_tree ?d' r (without i ls)"
    by (rule flat_tree_shorter [OF assms(2) i(1) n(2-8)]) (simp_all add: n(2))
  note v2 = set_node_volume [OF assms(1) f(1), where n = n]
  have ok3: "node_ok (set_node ?d2 r n) r" using ok2 n(2) at2 by (simp add: node_ok_set_node)
  note v3 = set_node_volume [OF v2(1) ok2, where n = n]
  note v4 = set_node_volume [OF v3(1) ok3, where n = n]
  show ?thesis
    using rm flat' v2 v3 v4 by (intro exI [of _ ?d']) (simp add: page_at_set_node_other)
qed

lemma find_leaf_index:
  assumes "flat_tree d r ls" "find_leaf d ls k \<noteq> 0"
  obtains i where "i < length ls" "leaf_key d (ls ! i) = k" "\<forall>j<i. leaf_key d (ls ! j) \<noteq> k"
    "find_leaf d ls k = of_nat (ls ! i)"
proof -
  obtain l where l: "List.find (\<lambda>l. leaf_key d l = k) ls = Some l" "find_leaf d ls k = of_nat l"
    using assms(2) by (auto simp: find_leaf_def split: option.splits)
  then show ?thesis using that by (auto simp: find_Some_iff)
qed

lemma btree_delete_flat_step:
  assumes "volume_ok d" "flat_tree d r ls" "length ls < MAX_KEYS" "\<forall>l\<in>set ls. leaf_key d l \<noteq> 0"
    and i: "i < length ls" "leaf_key d (ls ! i) = k" "\<forall>j<i. leaf_key d (ls ! j) \<noteq> k"
  shows "\<exists>d'. btree_delete d (of_nat r) k = Some (of_nat (ls ! i), d') \<and> volume_ok d'
    \<and> flat_tree d' r (without i ls) \<and> n_blocks d' = n_blocks d
    \<and> (\<forall>c<n_blocks d. used d' c = (c \<noteq> ls ! i \<and> used d c))
    \<and> the_sb d' = (the_sb d)\<lparr>free_blocks := free_blocks (the_sb d) - 1\<rparr>
    \<and> (\<forall>j. valid_block d' j = valid_block d j)
    \<and> (\<forall>j. j \<notin> {0, bitmap_block (ls ! i), r} \<longrightarrow> page_at d' j = page_at d j)"
proof -
  let ?l = "ls ! i"
  note f = flat_treeD [OF assms(2)]
  note leaf = leaf_okD [OF f(11) [OF i(1)]]
  have "List.find (\<lambda>l. leaf_key d l = k) ls = Some ?l"
    unfolding find_Some_iff using i by blast
  then have fl: "find_leaf d ls k = of_nat ?l" by (simp add: find_leaf_def)
  obtain d1 where d1: "btree_remove_key d (of_nat r) k = Some d1" "volume_ok d1"
      "flat_tree d1 r (without i ls)" "n_blocks d1 = n_blocks d" "\<forall>c<n_blocks d. used d1 c = used d c"
      "the_sb d1 = the_sb d" "\<forall>j. valid_block d1 j = valid_block d j" "\<forall>j. j \<noteq> r \<longrightarrow> page_at d1 j = page_at d j"
    using btree_remove_key_flat [OF assms] by blast
  have pl: "page_at d1 ?l = page_at d ?l" using d1(8) leaf(1) by simp
  have l1: "node_ok d1 ?l"
    using leaf(2) d1(7) pl by (simp add: node_ok_def is_node_block_def node_at_def)
  have nz: "?l \<noteq> 0" using leaf(2) by (simp add: node_ok_def)
  obtain d' where d': "btree_node_free d1 (of_nat ?l) = Some d'" "volume_ok d'" "n_blocks d' = n_blocks d1"
      "used d' = (used d1)(?l := False)" "the_sb d' = (the_sb d1)\<lparr>free_blocks := free_blocks (the_sb d1) - 1\<rparr>"
      "\<forall>j. valid_block d' j = valid_block d1 j"
      "\<forall>j. j \<noteq> 0 \<longrightarrow> j \<noteq> bitmap_block ?l \<longrightarrow> page_at d' j = page_at d1 j"
    using free_node_block [OF d1(2) l1 nz] by blast
  have lb: "?l < n_blocks d1" using l1 by (simp add: node_ok_def valid_block_def n_blocks_def)
  have bm: "is_bitmap (page_at d1 (bitmap_block ?l))"
    using alloc_okD(2) [OF _ lb] d1(2) by (simp add: volume_ok_def)
  have "page_at d' x = page_at d1 x" if "x = r \<or> x \<in> set (without i ls)" for x
  proof -
    have "node_ok d1 x" using that flat_treeD(1,9) [OF d1(3)] by (auto simp: leaf_ok_def)
    then have "x \<noteq> 0" "x \<noteq> bitmap_block ?l"
      using node_block_kind(2) [OF _ bm] by (auto simp: node_ok_def)
    then show ?thesis using d'(7) by simp
  qed
  then have "flat_tree d' r (without i ls)"
    using d1(3) d'(6) flat_tree_cong [of r "without i ls" d' d1] by (simp add: node_at_def is_node_block_def)
  moreover have "btree_delete d (of_nat r) k = Some (of_nat ?l, d')"
    using d1(1) d'(1) node_ok_of_nat_nz [OF leaf(2)] by (simp add: btree_delete_def btree_search_flat [OF assms(2)] fl)
  ultimately show ?thesis
    using d'(2-7) d1(4-8) by simp
qed

lemma btree_delete_absent:
  "flat_tree d r ls \<Longrightarrow> find_leaf d ls k = 0 \<Longrightarrow> btree_delete d (of_nat r) k = Some (0, d)"
  by (simp add: btree_delete_def btree_search_flat)

subsection \<open>The tree as a list of entries\<close>

text \<open>
  The contract of the three operations: an association list ordered by key, where an
  insertion goes in front of equal keys and a deletion removes the first one.
\<close>

type_synonym tree_entry = "u64 \<times> u64 \<times> u32"

definition leaf_entry :: "DiskInterface \<Rightarrow> nat \<Rightarrow> tree_entry" where
  "leaf_entry d l = (leaf_key d l, val (node_at d l), node_type (node_at d l))"

definition tree_entries :: "DiskInterface \<Rightarrow> nat list \<Rightarrow> tree_entry list" where
  "tree_entries d ls = map (leaf_entry d) ls"

fun entry_insert :: "tree_entry \<Rightarrow> tree_entry list \<Rightarrow> tree_entry list" where
  "entry_insert e [] = [e]"
| "entry_insert e (x # xs) = (if fst x < fst e then x # entry_insert e xs else e # x # xs)"

fun entry_delete :: "u64 \<Rightarrow> tree_entry list \<Rightarrow> tree_entry list" where
  "entry_delete k [] = []"
| "entry_delete k (x # xs) = (if fst x = k then xs else x # entry_delete k xs)"

lemma entry_insert_takeWhile:
  "entry_insert e xs = takeWhile (\<lambda>x. fst x < fst e) xs @ e # dropWhile (\<lambda>x. fst x < fst e) xs"
  by (induction xs) auto

lemma entry_delete_without:
  assumes "i < length xs" "fst (xs ! i) = k" "\<forall>j<i. fst (xs ! j) \<noteq> k"
  shows "entry_delete k xs = without i xs"
  using assms
proof (induction xs arbitrary: i)
  case Nil
  then show ?case by simp
next
  case (Cons x xs)
  show ?case
  proof (cases i)
    case 0
    then show ?thesis using Cons.prems by (simp add: without_def)
  next
    case (Suc j)
    then have "fst x \<noteq> k" using Cons.prems(3) by force
    moreover have "entry_delete k xs = without j xs"
      using Cons.prems Suc by (intro Cons.IH) auto
    ultimately show ?thesis using Suc by (simp add: without_def)
  qed
qed

lemma entry_delete_same: "\<forall>x\<in>set xs. fst x \<noteq> k \<Longrightarrow> entry_delete k xs = xs"
  by (induction xs) auto

lemma map_of_entry_insert: "map_of (entry_insert (k, e) xs) k = Some e"
  by (induction xs) auto

lemma map_of_entry_insert_other: "k' \<noteq> k \<Longrightarrow> map_of (entry_insert (k, e) xs) k' = map_of xs k'"
  by (induction xs) auto

lemma map_of_entry_delete_other: "k' \<noteq> k \<Longrightarrow> map_of (entry_delete k xs) k' = map_of xs k'"
  by (induction xs) auto

lemma entry_delete_distinct: "distinct (map fst xs) \<Longrightarrow> map_of (entry_delete k xs) k = None"
  by (induction xs) (auto simp: map_of_eq_None_iff)

lemma tree_entries_insert:
  assumes "flat_inserted d r ls b k v ty d'" "flat_tree d r ls" "volume_ok d" "next_free d b"
    "\<forall>l\<in>set (r # ls). used d l"
  shows "tree_entries d' (ins_leaf d ls k b) = entry_insert (k, v, ty) (tree_entries d ls)"
proof -
  have same: "leaf_entry d' l = leaf_entry d l" if "l \<in> set ls" for l
  proof -
    have lo: "leaf_ok d r l" by (rule flat_treeD(9) [OF assms(2) that])
    then have "l \<notin> {0, bitmap_block b, b, r}"
      using tree_block_apart [OF assms(3,4), of l] that assms(5) next_freeD(5) [OF assms(3,4)]
      by (auto simp: leaf_ok_def)
    then show ?thesis
      using assms(1) by (simp add: flat_inserted_def leaf_entry_def leaf_key_def node_at_def)
  qed
  have b: "leaf_entry d' b = (k, v, ty)" using assms(1) by (simp add: flat_inserted_def leaf_entry_def)
  have tw: "map (leaf_entry d') (takeWhile P ls) = map (leaf_entry d) (takeWhile P ls)"
    "map (leaf_entry d') (dropWhile P ls) = map (leaf_entry d) (dropWhile P ls)" for P
    using same by (auto dest: set_takeWhileD set_dropWhileD)
  have p: "(\<lambda>x. fst x < fst (k, v, ty)) \<circ> leaf_entry d = (\<lambda>l. leaf_key d l < k)"
    by (simp add: fun_eq_iff leaf_entry_def)
  show ?thesis
    unfolding tree_entries_def ins_leaf_takeWhile entry_insert_takeWhile takeWhile_map dropWhile_map p
    using tw b by simp
qed

end
