(* ===== verification/Dir_Index.thy ===== *)
theory Dir_Index
  imports Btree_Flat_Delete
begin

text \<open>
  The interface through which a directory uses its tree: an index that maps hashed names
  to values. The client lemmas are proved from the laws alone; the interpretation shows
  that the tree operations satisfy them.
\<close>

subsection \<open>The contract\<close>

locale ordered_index =
  fixes ok :: "'s \<Rightarrow> bool"
    and room :: "'s \<Rightarrow> bool"
    and abs :: "'s \<Rightarrow> tree_entry list"
    and ins :: "u64 \<Rightarrow> u64 \<Rightarrow> u32 \<Rightarrow> 's \<Rightarrow> 's option"
    and del :: "u64 \<Rightarrow> 's \<Rightarrow> 's option"
    and look :: "'s \<Rightarrow> u64 \<Rightarrow> (u64 \<times> u32) option option"
  assumes ins_abs: "ok s \<Longrightarrow> room s \<Longrightarrow> k \<noteq> 0 \<Longrightarrow>
      \<exists>s'. ins k v ty s = Some s' \<and> ok s' \<and> abs s' = entry_insert (k, v, ty) (abs s)"
    and del_abs: "ok s \<Longrightarrow> \<exists>s'. del k s = Some s' \<and> ok s' \<and> abs s' = entry_delete k (abs s)"
    and look_abs: "ok s \<Longrightarrow> look s k = Some (map_of (abs s) k)"
begin

lemma look_ins:
  assumes "ok s" "room s" "k \<noteq> 0"
  obtains s' where "ins k v ty s = Some s'" "ok s'" "look s' k = Some (Some (v, ty))"
    "\<And>k'. k' \<noteq> k \<Longrightarrow> look s' k' = look s k'"
proof -
  obtain s' where s': "ins k v ty s = Some s'" "ok s'" "abs s' = entry_insert (k, v, ty) (abs s)"
    using ins_abs [OF assms] by blast
  then have "look s' k = Some (Some (v, ty))" "\<And>k'. k' \<noteq> k \<Longrightarrow> look s' k' = look s k'"
    using assms(1) by (simp_all add: look_abs map_of_entry_insert map_of_entry_insert_other)
  with s'(1,2) show ?thesis by (rule that)
qed

lemma look_del:
  assumes "ok s" "distinct (map fst (abs s))"
  obtains s' where "del k s = Some s'" "ok s'" "look s' k = Some None"
    "\<And>k'. k' \<noteq> k \<Longrightarrow> look s' k' = look s k'"
proof -
  obtain s' where s': "del k s = Some s'" "ok s'" "abs s' = entry_delete k (abs s)"
    using del_abs [OF assms(1)] by blast
  then have "look s' k = Some None" "\<And>k'. k' \<noteq> k \<Longrightarrow> look s' k' = look s k'"
    using assms by (simp_all add: look_abs entry_delete_distinct map_of_entry_delete_other)
  with s'(1,2) show ?thesis by (rule that)
qed

text \<open>A deletion undoes an insertion, whatever was there before.\<close>

lemma entry_delete_insert: "entry_delete k (entry_insert (k, e) xs) = xs"
  if "sorted (map fst xs)" for xs :: "tree_entry list"
  using that by (induction xs) auto

lemma del_ins:
  assumes "ok s" "room s" "k \<noteq> 0" "sorted (map fst (abs s))"
  obtains s' s'' where "ins k v ty s = Some s'" "del k s' = Some s''" "ok s''" "abs s'' = abs s"
proof -
  obtain s' where s': "ins k v ty s = Some s'" "ok s'" "abs s' = entry_insert (k, v, ty) (abs s)"
    using ins_abs [OF assms(1-3)] by blast
  obtain s'' where "del k s' = Some s''" "ok s''" "abs s'' = entry_delete k (abs s')"
    using del_abs [OF s'(2)] by blast
  with s' that show ?thesis by (simp add: entry_delete_insert [OF assms(4)])
qed

end

subsection \<open>The tree as an index\<close>

text \<open>The leaves of a flat tree, as its root lists them.\<close>

definition leaves :: "DiskInterface \<Rightarrow> nat \<Rightarrow> nat list" where
  "leaves d r = map unat (take (unat (num_keys (node_at d r))) (children (node_at d r)))"

lemma leaves_flat: "flat_tree d r ls \<Longrightarrow> leaves d r = ls"
proof -
  assume a: "flat_tree d r ls"
  note f = flat_treeD [OF a]
  have "map (unat \<circ> (of_nat :: nat \<Rightarrow> u64)) ls = map id ls"
    using node_ok_unat [OF leaf_okD(2) [OF f(9)]] by (intro map_cong) (simp_all del: unsigned_of_nat)
  then show ?thesis by (simp add: leaves_def f(5,6))
qed

definition index_ok :: "DiskInterface \<times> nat \<Rightarrow> bool" where
  "index_ok s = (case s of (d, r) \<Rightarrow> volume_ok d \<and> flat_tree d r (leaves d r) \<and>
     length (leaves d r) < MAX_KEYS \<and>
     list_all (used d) (r # leaves d r) \<and> list_all (\<lambda>l. leaf_key d l \<noteq> 0) (leaves d r))"

definition index_room :: "DiskInterface \<times> nat \<Rightarrow> bool" where
  "index_room s = (case s of (d, r) \<Rightarrow>
     Suc (length (leaves d r)) < MAX_KEYS \<and> (\<exists>b<n_blocks d. \<not> used d b))"

definition index_entries :: "DiskInterface \<times> nat \<Rightarrow> tree_entry list" where
  "index_entries s = (case s of (d, r) \<Rightarrow> tree_entries d (leaves d r))"

definition index_insert ::
    "u64 \<Rightarrow> u64 \<Rightarrow> u32 \<Rightarrow> DiskInterface \<times> nat \<Rightarrow> (DiskInterface \<times> nat) option" where
  "index_insert k v ty s = (case s of (d, r) \<Rightarrow> do {
     (_, d') \<leftarrow> btree_insert d (of_nat r) k v ty;
     Some (d', r)
   })"

definition index_delete :: "u64 \<Rightarrow> DiskInterface \<times> nat \<Rightarrow> (DiskInterface \<times> nat) option" where
  "index_delete k s = (case s of (d, r) \<Rightarrow> do {
     (_, d') \<leftarrow> btree_delete d (of_nat r) k;
     Some (d', r)
   })"

text \<open>A search and a read of the node it found, as \<open>item_search\<close> does for each name of a path.\<close>

definition index_lookup :: "DiskInterface \<times> nat \<Rightarrow> u64 \<Rightarrow> (u64 \<times> u32) option option" where
  "index_lookup s k = (case s of (d, r) \<Rightarrow> do {
     b \<leftarrow> btree_search d (of_nat r) k;
     if b = 0 then Some None
     else do { n \<leftarrow> node_get d b; Some (Some (val n, node_type n)) }
   })"

lemma next_free_ex: "\<exists>b<n_blocks d. \<not> used d b \<Longrightarrow> \<exists>b. next_free d b"
  using exists_least_iff [of "\<lambda>b. b < n_blocks d \<and> \<not> used d b"]
  unfolding next_free_def by (metis less_trans)

lemma sorted_tree_entries: "flat_tree d r ls \<Longrightarrow> sorted (map fst (tree_entries d ls))"
  using flat_treeD(10) by (simp add: tree_entries_def leaf_entry_def comp_def)

lemma index_insert_step:
  assumes "index_ok (d, r)" "index_room (d, r)" "k \<noteq> 0"
  shows "\<exists>b d'. next_free d b \<and> btree_insert d (of_nat r) k v ty = Some (0, d')
    \<and> flat_inserted d r (leaves d r) b k v ty d' \<and> index_ok (d', r)
    \<and> index_entries (d', r) = entry_insert (k, v, ty) (index_entries (d, r))"
proof -
  let ?ls = "leaves d r"
  have a: "volume_ok d" "flat_tree d r ?ls" "length ?ls < MAX_KEYS" "\<forall>l\<in>set (r # ?ls). used d l"
      "\<forall>l\<in>set ?ls. leaf_key d l \<noteq> 0" and room: "Suc (length ?ls) < MAX_KEYS"
    using assms(1,2) by (auto simp: index_ok_def index_room_def list_all_iff)
  obtain b where b: "next_free d b"
    using assms(2) next_free_ex by (auto simp: index_room_def)
  obtain d' where d': "btree_insert d (of_nat r) k v ty = Some (0, d')" "flat_inserted d r ?ls b k v ty d'"
    using btree_insert_flat_step [OF a(1-4) b] by blast
  note e = d'(2) [unfolded flat_inserted_def]
  have ls: "leaves d' r = ins_leaf d ?ls k b" using e leaves_flat by blast
  have t: "tree_entries d' (leaves d' r) = entry_insert (k, v, ty) (tree_entries d ?ls)"
    unfolding ls by (rule tree_entries_insert [OF d'(2) a(2,1) b a(4)])
  have nz: "\<forall>l\<in>set (leaves d' r). leaf_key d' l \<noteq> 0"
  proof -
    have "map fst (tree_entries d' (leaves d' r)) = map (leaf_key d') (leaves d' r)"
      by (simp add: tree_entries_def leaf_entry_def comp_def)
    moreover have "0 \<notin> fst ` set (entry_insert (k, v, ty) (tree_entries d ?ls))"
      using a(5) assms(3) unfolding entry_insert_takeWhile
      by (auto simp: tree_entries_def leaf_entry_def dest!: set_takeWhileD set_dropWhileD)
    ultimately show ?thesis unfolding t by (metis image_eqI list.set_map)
  qed
  have us: "\<forall>l\<in>set (r # leaves d' r). used d' l"
  proof -
    have "l < n_blocks d" if "l \<in> set (r # ?ls)" for l
      using that flat_treeD(1,9) [OF a(2)]
      by (auto simp: leaf_ok_def node_ok_def valid_block_def n_blocks_def)
    then show ?thesis using e a(4) next_freeD(5) [OF a(1) b] by (auto simp: ls)
  qed
  have "index_ok (d', r)"
    using e nz us room by (simp add: index_ok_def list_all_iff ls)
  then show ?thesis
    using b d' t by (auto simp: index_entries_def)
qed

lemma index_insert_abs:
  assumes "index_ok s" "index_room s" "k \<noteq> 0"
  shows "\<exists>s'. index_insert k v ty s = Some s' \<and> index_ok s'
    \<and> index_entries s' = entry_insert (k, v, ty) (index_entries s)"
proof -
  obtain d r where s: "s = (d, r)" by (cases s)
  from index_insert_step [OF assms [unfolded s], of v ty] show ?thesis
    by (auto simp: s index_insert_def)
qed

lemma index_delete_abs:
  assumes "index_ok s"
  shows "\<exists>s'. index_delete k s = Some s' \<and> index_ok s' \<and> index_entries s' = entry_delete k (index_entries s)"
proof -
  obtain d r where s: "s = (d, r)" by (cases s)
  let ?ls = "leaves d r"
  have a: "volume_ok d" "flat_tree d r ?ls" "length ?ls < MAX_KEYS" "\<forall>l\<in>set (r # ?ls). used d l"
      "\<forall>l\<in>set ?ls. leaf_key d l \<noteq> 0"
    using assms by (auto simp: s index_ok_def list_all_iff)
  have fst_nth: "fst (tree_entries d ?ls ! j) = leaf_key d (?ls ! j)" if "j < length ?ls" for j
    using that by (simp add: tree_entries_def leaf_entry_def)
  show ?thesis
  proof (cases "find_leaf d ?ls k = 0")
    case True
    have "List.find (\<lambda>l. leaf_key d l = k) ?ls = None"
    proof (cases "List.find (\<lambda>l. leaf_key d l = k) ?ls")
      case (Some x)
      then have "x \<in> set ?ls" by (auto simp: find_Some_iff)
      then have "(of_nat x :: u64) \<noteq> 0"
        using node_ok_of_nat_nz leaf_okD(2) [OF flat_treeD(9) [OF a(2)]] by blast
      then show ?thesis using True Some by (simp add: find_leaf_def)
    qed
    then have "leaf_key d l \<noteq> k" if "l \<in> set ?ls" for l
      using that by (auto simp: find_None_iff)
    then have "\<forall>x\<in>set (tree_entries d ?ls). fst x \<noteq> k"
      by (simp add: tree_entries_def leaf_entry_def)
    then have "entry_delete k (tree_entries d ?ls) = tree_entries d ?ls"
      by (rule entry_delete_same)
    then show ?thesis
      using assms btree_delete_absent [OF a(2) True] by (simp add: s index_delete_def index_entries_def)
  next
    case False
    then obtain i where i: "i < length ?ls" "leaf_key d (?ls ! i) = k" "\<forall>j<i. leaf_key d (?ls ! j) \<noteq> k"
      using find_leaf_index [OF a(2)] by metis
    obtain d' where d': "btree_delete d (of_nat r) k = Some (of_nat (?ls ! i), d')" "volume_ok d'"
        "flat_tree d' r (without i ?ls)" "n_blocks d' = n_blocks d"
        "\<forall>c<n_blocks d. used d' c = (c \<noteq> ?ls ! i \<and> used d c)"
        "\<forall>j. j \<notin> {0, bitmap_block (?ls ! i), r} \<longrightarrow> page_at d' j = page_at d j"
      using btree_delete_flat_step [OF a(1-3,5) i] by blast
    have ls: "leaves d' r = without i ?ls" by (rule leaves_flat [OF d'(3)])
    have blocks: "l \<notin> {0, bitmap_block (?ls ! i), r}" "l < n_blocks d" "l \<noteq> ?ls ! i"
      if "l \<in> set (without i ?ls)" for l
    proof -
      have lo: "leaf_ok d r l" using that set_without [of i ?ls] flat_treeD(9) [OF a(2)] by blast
      have li: "leaf_ok d r (?ls ! i)" by (rule flat_treeD(11) [OF a(2) i(1)])
      have "?ls ! i < n_blocks d"
        using li by (auto simp: leaf_ok_def node_ok_def valid_block_def n_blocks_def)
      then have "is_bitmap (page_at d (bitmap_block (?ls ! i)))"
        using alloc_okD(2) a(1) by (simp add: volume_ok_def)
      then show "l \<notin> {0, bitmap_block (?ls ! i), r}" "l < n_blocks d"
        using lo node_block_kind(2) by (auto simp: leaf_ok_def node_ok_def valid_block_def n_blocks_def)
      show "l \<noteq> ?ls ! i"
        using that flat_treeD(8) [OF a(2)] i(1) without_remove1 by (metis set_remove1_eq DiffE singletonI)
    qed
    have same: "leaf_entry d' l = leaf_entry d l" if "l \<in> set (without i ?ls)" for l
      using blocks(1) [OF that] d'(6) by (simp add: leaf_entry_def leaf_key_def node_at_def)
    have lk: "leaf_key d' l = leaf_key d l" if "l \<in> set (without i ?ls)" for l
      using same [OF that] by (simp add: leaf_entry_def)
    have "tree_entries d' (leaves d' r) = without i (tree_entries d ?ls)"
      unfolding ls tree_entries_def map_without [symmetric] using same by simp
    also have "\<dots> = entry_delete k (tree_entries d ?ls)"
      using i fst_nth by (intro entry_delete_without [symmetric]) (auto simp: tree_entries_def leaf_entry_def)
    finally have t: "tree_entries d' (leaves d' r) = entry_delete k (tree_entries d ?ls)" .
    have r: "r < n_blocks d" "r \<noteq> ?ls ! i"
      using flat_treeD(1) [OF a(2)] leaf_okD(1) [OF flat_treeD(11) [OF a(2) i(1)]]
      by (auto simp: node_ok_def valid_block_def n_blocks_def)
    have "index_ok (d', r)"
      using d'(2,3,5) a(3,4,5) i(1) r blocks(2,3) set_without [of i ?ls] lk
      by (auto simp: index_ok_def list_all_iff ls)
    then show ?thesis
      using d'(1) t by (simp add: s index_delete_def index_entries_def)
  qed
qed

lemma index_lookup_abs:
  assumes "index_ok s"
  shows "index_lookup s k = Some (map_of (index_entries s) k)"
proof -
  obtain d r where s: "s = (d, r)" by (cases s)
  have f: "flat_tree d r (leaves d r)" using assms by (simp add: s index_ok_def)
  have "(if find_leaf d ls k = 0 then Some None
      else do { n \<leftarrow> node_get d (find_leaf d ls k); Some (Some (val n, node_type n)) })
      = Some (map_of (tree_entries d ls) k)" if "\<forall>l\<in>set ls. node_ok d l" for ls
    using that
  proof (induction ls)
    case Nil
    then show ?case by (simp add: find_leaf_def tree_entries_def)
  next
    case (Cons l ls)
    then have l: "node_get d (of_nat l) = Some (node_at d l)" "(of_nat l :: u64) \<noteq> 0"
      using node_get_ok [of d l] node_ok_of_nat_nz [of d l] by simp_all
    have step: "find_leaf d (l # ls) k = (if leaf_key d l = k then of_nat l else find_leaf d ls k)"
      by (simp add: find_leaf_def)
    show ?case
      unfolding step using Cons l
      by (cases "leaf_key d l = k"; cases "find_leaf d ls k = 0")
        (simp_all add: tree_entries_def leaf_entry_def)
  qed
  then show ?thesis
    using leaf_okD(2) [OF flat_treeD(9) [OF f]]
    by (simp add: s index_lookup_def index_entries_def btree_search_flat [OF f])
qed

text \<open>A change of other blocks keeps the index.\<close>

lemma index_cong:
  assumes "index_ok (d, r)" "volume_ok d'" "\<And>k. valid_block d' k = valid_block d k"
    and "\<forall>k. k = r \<or> k \<in> set (leaves d r) \<longrightarrow> page_at d' k = page_at d k \<and> used d' k"
  shows "index_ok (d', r)" "index_entries (d', r) = index_entries (d, r)" "leaves d' r = leaves d r"
proof -
  have ok: "flat_tree d r (leaves d r)" using assms(1) by (simp add: index_ok_def)
  have pg: "page_at d' k = page_at d k" "used d' k" if "k = r \<or> k \<in> set (leaves d r)" for k
    using assms(4) that by blast+
  then have n: "node_at d' k = node_at d k" if "k = r \<or> k \<in> set (leaves d r)" for k
    using that by (simp add: node_at_def)
  have ft: "flat_tree d' r (leaves d r)"
    using ok flat_tree_cong [of r "leaves d r" d' d] n assms(3) pg by (simp add: is_node_block_def)
  show l: "leaves d' r = leaves d r" by (rule leaves_flat [OF ft])
  show "index_entries (d', r) = index_entries (d, r)"
    using n by (simp add: index_entries_def l tree_entries_def leaf_entry_def leaf_key_def)
  show "index_ok (d', r)"
    using assms(1,2) ft n pg by (simp add: index_ok_def l list_all_iff leaf_key_def)
qed

interpretation dir_index:
  ordered_index index_ok index_room index_entries index_insert index_delete index_lookup
  by unfold_locales (blast intro: index_insert_abs index_delete_abs index_lookup_abs)+

end
