(* ===== verification/Sample.thy ===== *)
theory Sample
  imports Format Dir_Index
begin

text \<open>
  A concrete volume for the witnesses: 512 blank blocks, formatted. Its superblock is in
  block 0, the block bitmap in block 1, the inode bitmap in block 2, the inode table in
  blocks 3 to 7, the root of the directory tree in block 8, and block 9 is the first free
  one.
\<close>

definition sample_volume :: DiskInterface where
  "sample_volume = (case disk_format (blank_disk 512) [0x76] 0 1000 1000 of
     Some (_, d) \<Rightarrow> d | None \<Rightarrow> blank_disk 512)"

lemma sample_new: "new_volume 512 [0x76] 0 1000 1000 sample_volume"
  using disk_format_blank [of 512 "[0x76]" 0 1000 1000]
  by (auto simp: sample_volume_def fits_def)

lemma sample_layout: "lay_ib 512 = 2" "lay_table 512 = 3" "lay_root 512 = 8"
  by (simp_all add: lay_ib_def lay_table_def lay_root_def)

lemma sample_facts:
  "n_blocks sample_volume = 512" "volume_ok sample_volume" "inode_ok sample_volume"
  "flat_tree sample_volume 8 []" "alloc_ok sample_volume" "super_ok sample_volume"
  "inode_capacity sample_volume = 110"
  "b < 512 \<Longrightarrow> used sample_volume b = (b \<le> 8)"
  "i < 110 \<Longrightarrow> inode_used sample_volume i = (i = 0)"
  "btree_root (the_sb sample_volume) = 8" "inode_bitmap (the_sb sample_volume) = 2"
  "val (node_at sample_volume 8) = 0"
  using sample_new
  by (auto simp: new_volume_def sample_layout volume_ok_def alloc_ok_def new_superblock_def)

lemma sample_next_free: "next_free sample_volume 9"
  using sample_facts(8) by (simp add: next_free_def sample_facts(1))

lemma sample_index: "index_ok (sample_volume, 8)" "index_room (sample_volume, 8)"
  "index_entries (sample_volume, 8) = []"
proof -
  have l: "leaves sample_volume 8 = []" by (rule leaves_flat [OF sample_facts(4)])
  have "\<not> used sample_volume 9" using sample_facts(8) [of 9] by simp
  then show "index_room (sample_volume, 8)"
    using sample_facts(1) by (auto simp: index_room_def l intro: exI [of _ 9])
  show "index_ok (sample_volume, 8)" "index_entries (sample_volume, 8) = []"
    using sample_facts(2,4) sample_facts(8) [of 8]
    by (simp_all add: index_ok_def index_entries_def tree_entries_def l)
qed

end
