(* ===== verification/Volume_Theorems.thy ===== *)
theory Volume_Theorems
  imports Sample
begin

text \<open>
  What the block store, the allocators and the formatter guarantee.
\<close>

text \<open>
  C5: Formatting a blank image of 88 to 2^19 blocks with a label of at most 31 bytes returns 0
  and leaves a sound volume: superblock, bitmaps and inode table in place, exactly the blocks
  up to the tree root in use, an empty directory tree at the block the superblock names, and
  inode 0 allocated as a directory with mode 0755 and one reference.
\<close>

theorem disk_format_lays_out:
  assumes "fits n" "length name \<le> 31"
  shows "\<exists>d. disk_format (blank_disk n) name now uid gid = Some (0, d) \<and> new_volume n name now uid gid d"
  using assms by (rule disk_format_blank)

theorem disk_format_lays_out_witness:
  "\<exists>d. disk_format (blank_disk 512) [0x76] 7 1000 1000 = Some (0, d) \<and> new_volume 512 [0x76] 7 1000 1000 d"
  by (rule disk_format_lays_out) (simp_all add: fits_def)

text \<open>
  C30: The program mkfs, called with the name of an image file of zero bytes, exits with code 0
  and leaves a new volume with the label UNTITLED in it.
\<close>

theorem mkfs_main_formats:
  assumes "fits n" "files img = Some (replicate (n * 4096) 0)"
  shows "\<exists>d. mkfs_main [prog, img] files now uid gid = Some (0, Some d) \<and> new_volume n untitled now uid gid d"
proof -
  have len: "length untitled = 8" by (simp add: untitled_def)
  then obtain d where "disk_format (blank_disk n) untitled now uid gid = Some (0, d)"
      "new_volume n untitled now uid gid d"
    using disk_format_blank [OF assms(1), of untitled now uid gid] by auto
  then show ?thesis
    using assms(2) disk_open_zeros [OF assms(1)] len by (simp add: mkfs_main_def)
qed

theorem mkfs_main_formats_witness:
  "\<exists>d. mkfs_main [[0x6D], [0x69]] (\<lambda>_. Some (replicate (100 * 4096) 0)) 7 0 0 = Some (0, Some d)
     \<and> new_volume 100 untitled 7 0 0 d"
  by (rule mkfs_main_formats) (simp_all add: fits_def)

subsection \<open>Blocks\<close>

text \<open>
  C11: alloc_page returns the lowest free block, marks it and no other, takes one off the
  superblock's count of free blocks, and changes nothing outside block 0 and the bitmap block
  of the result.
\<close>

theorem alloc_page_first_fit:
  assumes "alloc_ok d" "b < n_blocks d" "\<not> used d b" "\<forall>c<b. used d c"
  shows "\<exists>d'. alloc_page d = Some (of_nat b, d') \<and> alloc_ok d' \<and> used d' = (used d)(b := True)
    \<and> the_sb d' = (the_sb d)\<lparr>free_blocks := free_blocks (the_sb d) - 1\<rparr>
    \<and> (\<forall>k. k \<noteq> 0 \<longrightarrow> k \<noteq> bitmap_block b \<longrightarrow> page_at d' k = page_at d k)"
  using alloc_page_found [OF assms] assms(1) by (auto simp: alloc_result_frame)

theorem alloc_page_first_fit_witness:
  "\<exists>d'. alloc_page sample_volume = Some (9, d') \<and> used d' = (used sample_volume)(9 := True)"
  using alloc_page_first_fit [of sample_volume 9] sample_facts(5) sample_next_free
  by (auto simp: next_free_def)

text \<open>
  When every block is in use, alloc_page returns 0 (not -1, as disk.h says) and leaves the
  volume as it is.
\<close>

lemma alloc_page_exhausted:
  assumes "alloc_ok d" "\<forall>b<n_blocks d. used d b"
  shows "alloc_page d = Some (0, d)"
  using assms by (rule page_alloc.alloc_full)

text \<open>
  C29: A block given back is the next one handed out when no lower block is free, and the
  volume's bitmaps are then as before. The count of free blocks is not: free_page subtracts
  one as alloc_page does, so the pair loses two.
\<close>

theorem free_page_then_alloc:
  assumes "alloc_ok d" "b < n_blocks d" "\<forall>c\<le>b. used d c"
  shows "\<exists>d1 d2. free_page d (int b) = Some d1 \<and> used d1 = (used d)(b := False)
    \<and> alloc_page d1 = Some (of_nat b, d2) \<and> used d2 = used d
    \<and> free_blocks (the_sb d2) = free_blocks (the_sb d) - 2"
proof -
  let ?d1 = "set_free_blocks (set_used d b False) (free_blocks (the_sb d) - 1)"
  have "alloc_page ?d1 = Some (of_nat b, alloc_result ?d1 b)"
    using assms by (intro alloc_page_found) auto
  then show ?thesis
    using free_page_ok [OF assms(1,2)] assms(3) by (auto simp: alloc_result_frame fun_eq_iff)
qed

theorem free_page_then_alloc_witness:
  "\<exists>d1 d2. free_page sample_volume 8 = Some d1 \<and> alloc_page d1 = Some (8, d2)
     \<and> free_blocks (the_sb d2) = free_blocks (the_sb sample_volume) - 2"
  using free_page_then_alloc [of sample_volume 8] sample_facts(1,5,8) by auto

subsection \<open>Inodes\<close>

text \<open>
  C17: An inode written is read back as it was, and every other inode of the table reads as
  before.
\<close>

theorem inode_write_then_read:
  assumes "inode_ok d" "i < inode_capacity d" "inode_wf n" "i_number n = of_nat i"
  shows "\<exists>d'. inode_write d n = Some (0, d') \<and> inode_ok d' \<and> inode_read d' (of_nat i) = Some (0, Some n)
    \<and> (\<forall>j<inode_capacity d. j \<noteq> i \<longrightarrow> inode_read d' (of_nat j) = inode_read d (of_nat j))"
proof -
  let ?d' = "set_inode d i n"
  have w: "inode_write d n = Some (0, ?d')" by (rule inode_write_ok [OF assms(1,2,4)])
  have ok: "inode_ok ?d'" by (rule inode_ok_set_inode [OF assms(1,2)])
  have cap: "inode_capacity ?d' = inode_capacity d"
    by (rule layout_cong(1) [OF set_inode_frame(1) [OF assms(1,2)]])
  have "inode_read ?d' (of_nat j) = Some (0, Some (if j = i then n else inode_at d j))"
    if "j < inode_capacity d" for j
    using inode_read_ok [OF ok, of j] that cap inode_at_set_inode [OF assms(1,2,3)] by simp
  then show ?thesis using w ok assms(2) inode_read_ok [OF assms(1)] by auto
qed

theorem inode_write_then_read_witness:
  "\<exists>d'. inode_write sample_volume ((inode_at sample_volume 3)\<lparr>i_number := 3, i_size := 77\<rparr>) = Some (0, d')
     \<and> inode_read d' 3 = Some (0, Some ((inode_at sample_volume 3)\<lparr>i_number := 3, i_size := 77\<rparr>))"
proof -
  have "inode_wf ((inode_at sample_volume 3)\<lparr>i_number := 3, i_size := 77\<rparr>)"
    using inode_wf_at [of sample_volume 3] by (simp add: inode_wf_def del: inode_wf_at)
  then show ?thesis
    using inode_write_then_read [of sample_volume 3 "(inode_at sample_volume 3)\<lparr>i_number := 3, i_size := 77\<rparr>"]
      sample_facts(3,7) by auto
qed

text \<open>
  C16: The first data block behind the twelve direct ones gets an indirect block and is found
  again, but it stays the only one: on the inode that comes back every further store behind the
  direct blocks returns -1 and changes neither inode nor disk, so that the caller, who does not
  look at the code, loses the block. The indirect block is not cleared: the entries that were
  never set read as what the free block held before.
\<close>

theorem indirect_block_holds_one:
  assumes "volume_ok d" "next_free d b" "indirect_block n = 0" "12 \<le> unat idx" "unat idx \<le> 511"
  shows "\<exists>n' d'. inode_set_block d n idx phys = Some (0, n', d') \<and> indirect_block n' = of_nat b \<and>
    inode_get_block d' n' idx cur = Some (0, phys) \<and>
    (\<forall>idx' phys'. 12 \<le> unat idx' \<and> unat idx' \<le> 511 \<longrightarrow> inode_set_block d' n' idx' phys' = Some (-1, n', d')) \<and>
    (\<forall>idx'. 12 \<le> unat idx' \<and> unat idx' \<le> 511 \<and> idx' \<noteq> idx \<longrightarrow>
       inode_get_block d' n' idx' cur = Some (0, rd64 (page_at d b) (4 + 8 * (unat idx' - 12))))"
proof -
  note nf = next_freeD [OF assms(1,2)]
  let ?d1 = "alloc_result d b"
  let ?n = "n\<lparr>indirect_block := of_nat b\<rparr>"
  let ?pg = "wr64 (set_page_type (page_at d b) BLOCK_TYPE_DATA) (4 + 8 * (unat idx - 12)) phys"
  have vb: "valid_block ?d1 b" using nf(2) alloc_result_frame(3) by simp
  have pb: "page_at ?d1 b = page_at d b" using nf(1,3,5) alloc_result_frame(7) by blast
  have bz: "(of_nat b :: u64) \<noteq> 0" using valid_block_unat [OF nf(2)] nf(1) by force
  have set: "inode_set_block d n idx phys = Some (0, ?n, set_page ?d1 b ?pg)"
    using assms(3-5) vb pb bz
    by (simp add: inode_set_block_def PTRS_PER_BLOCK_def alloc_page_next [OF assms(1,2)] Let_def del: of_nat_eq_0_iff)
  have get: "inode_get_block (set_page ?d1 b ?pg) ?n i cur = Some (0, rd64 ?pg (4 + 8 * (unat i - 12)))"
    if "12 \<le> unat i" "unat i \<le> 511" for i
    using that vb bz
    by (simp add: inode_get_block_def PTRS_PER_BLOCK_def page_simps del: of_nat_eq_0_iff block_type_code.simps)
  have other: "rd64 ?pg (4 + 8 * (unat i - 12)) = rd64 (page_at d b) (4 + 8 * (unat i - 12))"
    if "12 \<le> unat i" "i \<noteq> idx" for i
  proof -
    have "unat i - 12 \<noteq> unat idx - 12" using that assms(4) by (auto simp: word_unat_eq_iff)
    then have "4 + 8 * (unat i - 12) + 8 \<le> 4 + 8 * (unat idx - 12) \<or> 4 + 8 * (unat idx - 12) + 8 \<le> 4 + 8 * (unat i - 12)"
      by arith
    then show ?thesis by (simp add: page_simps)
  qed
  have again: "inode_set_block (set_page ?d1 b ?pg) ?n i p = Some (-1, ?n, set_page ?d1 b ?pg)" if "12 \<le> unat i" for i p
    using that bz by (simp add: inode_set_block_def del: of_nat_eq_0_iff)
  show ?thesis
    by (intro exI [of _ ?n] exI [of _ "set_page ?d1 b ?pg"])
      (use set get [of idx] get other again assms(4,5) in \<open>simp add: page_simps del: of_nat_eq_0_iff\<close>)
qed

theorem indirect_block_holds_one_witness:
  "\<exists>n' d'. inode_set_block sample_volume (inode_at sample_volume 1) 12 77 = Some (0, n', d') \<and>
     inode_get_block d' n' 12 0 = Some (0, 77) \<and> inode_set_block d' n' 13 78 = Some (-1, n', d')"
proof -
  have i: "indirect_block (inode_at sample_volume 1) = 0"
    using sample_new by (simp add: new_volume_def sample_layout)
  have "12 \<le> unat (12 :: u64)" "unat (12 :: u64) \<le> 511" by simp_all
  from indirect_block_holds_one [OF sample_facts(2) sample_next_free i this, of 77 0] obtain n' d' where
    w: "inode_set_block sample_volume (inode_at sample_volume 1) 12 77 = Some (0, n', d')"
      "inode_get_block d' n' 12 0 = Some (0, 77)"
      "\<forall>idx' phys'. 12 \<le> unat idx' \<and> unat idx' \<le> 511 \<longrightarrow> inode_set_block d' n' idx' phys' = Some (-1, n', d')"
    by blast
  have "inode_set_block d' n' 13 78 = Some (-1, n', d')" by (rule w(3) [rule_format]) simp
  with w(1,2) show ?thesis by blast
qed

text \<open>
  C25: inode_allocate returns the lowest free inode, marks it, gives it the requested mode, the
  caller's owner and group and one reference, and leaves all other inodes as they were.
\<close>

theorem inode_allocate_first_fit:
  assumes "inode_ok d" "i < inode_capacity d" "\<not> inode_used d i" "\<forall>j<i. inode_used d j"
  shows "\<exists>d'. inode_allocate d mode uid gid = Some (int i, d') \<and> inode_ok d'
    \<and> inode_at d' i = (inode_at d i)\<lparr>i_number := of_nat i, i_mode := mode, owner_id := uid,
        group_id := gid, reference_count := 1\<rparr>
    \<and> (\<forall>j<inode_capacity d. inode_used d' j = (j = i \<or> inode_used d j))
    \<and> (\<forall>j<inode_capacity d. j \<noteq> i \<longrightarrow> inode_at d' j = inode_at d j)"
  using inode_allocate_found [OF assms, of mode uid gid]
    inode_alloc_result_facts [OF assms(1,2), where mode = mode and uid = uid and gid = gid] assms(2)
  by (auto simp: fresh_inode_def)

theorem inode_allocate_first_fit_witness:
  "\<exists>d'. inode_allocate sample_volume 0x81A4 1000 1000 = Some (1, d') \<and> i_mode (inode_at d' 1) = 0x81A4
     \<and> inode_at d' 0 = inode_at sample_volume 0"
proof -
  have "\<not> inode_used sample_volume 1" "\<forall>j<1. inode_used sample_volume j"
    using sample_facts(9) by simp_all
  then show ?thesis
    using inode_allocate_first_fit [of sample_volume 1 "0x81A4" 1000 1000] sample_facts(3,7) by auto
qed

text \<open>
  C28: On a volume whose inode bitmap starts behind a block bitmap, as on every formatted one,
  inode_free passes bitmap_put a negative bit index for every inode: the call has no defined
  behaviour.
\<close>

theorem inode_free_undefined:
  assumes "inode_ok d" "i < inode_capacity d" "2 \<le> unat (inode_bitmap (the_sb d))"
  shows "inode_free d (of_nat i) = None"
  using assms by (rule inode_free_negative)

theorem inode_free_undefined_witness: "inode_free sample_volume (of_nat 1) = None"
  by (rule inode_free_undefined) (simp_all add: sample_facts)

end
