(* ===== verification/Tree_Theorems.thy ===== *)
theory Tree_Theorems
  imports Sample
begin

text \<open>
  What the directory tree guarantees while it is flat and not full, and where the code for
  larger trees goes wrong.
\<close>

subsection \<open>The tree of a directory\<close>

lemma btree_insert_code: "btree_insert d r k v ty = Some (rc, d') \<Longrightarrow> rc = 0"
  by (auto simp: btree_insert_def Let_def bind_Some_iff split: prod.splits)

lemma index_insert_Some:
  "index_insert k v ty (d, r) = Some s' \<longleftrightarrow> (\<exists>d'. btree_insert d (of_nat r) k v ty = Some (0, d') \<and> s' = (d', r))"
  by (auto simp: index_insert_def bind_Some_iff dest: btree_insert_code)

lemma index_delete_Some:
  "index_delete k (d, r) = Some s' \<longleftrightarrow> (\<exists>b d'. btree_delete d (of_nat r) k = Some (b, d') \<and> s' = (d', r))"
  by (auto simp: index_delete_def bind_Some_iff)

text \<open>
  C9: Inserting into a flat tree with room returns 0 and acts on its entries as insertion into
  a list ordered by key, in front of entries with the same key; the tree stays sound.
\<close>

theorem btree_insert_refines:
  assumes "index_ok (d, r)" "index_room (d, r)" "k \<noteq> 0"
  shows "\<exists>d'. btree_insert d (of_nat r) k v ty = Some (0, d') \<and> index_ok (d', r)
    \<and> index_entries (d', r) = entry_insert (k, v, ty) (index_entries (d, r))"
  using dir_index.ins_abs [OF assms, of v ty] by (auto simp: index_insert_Some)

theorem btree_insert_refines_witness:
  "\<exists>d'. btree_insert sample_volume 8 5 77 0 = Some (0, d') \<and> index_entries (d', 8) = [(5, 77, 0)]"
  using btree_insert_refines [of sample_volume 8 5 77 0] sample_index by auto

text \<open>
  C12: After an insertion a lookup of the key gives the new value and type, and a lookup of any
  other key gives what it gave before.
\<close>

theorem btree_lookup_after_insert:
  assumes "index_ok (d, r)" "index_room (d, r)" "k \<noteq> 0"
  shows "\<exists>d'. btree_insert d (of_nat r) k v ty = Some (0, d')
    \<and> index_lookup (d', r) k = Some (Some (v, ty))
    \<and> (\<forall>k'. k' \<noteq> k \<longrightarrow> index_lookup (d', r) k' = index_lookup (d, r) k')"
  by (rule dir_index.look_ins [OF assms, of v ty]) (auto simp: index_insert_Some)

theorem btree_lookup_after_insert_witness:
  "\<exists>d'. btree_insert sample_volume 8 5 77 0 = Some (0, d') \<and> index_lookup (d', 8) 5 = Some (Some (77, 0))
     \<and> index_lookup (d', 8) 6 = index_lookup (sample_volume, 8) 6"
  using btree_lookup_after_insert [of sample_volume 8 5 77 0] sample_index by auto

text \<open>
  C10: Deleting a key from a flat tree removes the first entry with it, and nothing when there
  is none; the tree stays sound.
\<close>

theorem btree_delete_refines:
  assumes "index_ok (d, r)"
  shows "\<exists>b d'. btree_delete d (of_nat r) k = Some (b, d') \<and> index_ok (d', r)
    \<and> index_entries (d', r) = entry_delete k (index_entries (d, r))"
  using dir_index.del_abs [OF assms, of k] by (auto simp: index_delete_Some)

theorem btree_delete_refines_witness:
  "\<exists>b d'. btree_delete sample_volume 8 5 = Some (b, d') \<and> index_entries (d', 8) = []"
  using btree_delete_refines [of sample_volume 8 5] sample_index by auto

text \<open>
  Deleting a key right after inserting it gives the entries from before the insertion.
\<close>

lemma btree_delete_undoes_insert:
  assumes "index_ok (d, r)" "index_room (d, r)" "k \<noteq> 0"
  shows "\<exists>d1 b d2. btree_insert d (of_nat r) k v ty = Some (0, d1)
    \<and> btree_delete d1 (of_nat r) k = Some (b, d2)
    \<and> index_ok (d2, r) \<and> index_entries (d2, r) = index_entries (d, r)"
proof -
  have "sorted (map fst (index_entries (d, r)))"
    using assms(1) sorted_tree_entries [of d r "leaves d r"] by (simp add: index_ok_def index_entries_def)
  then show ?thesis
    by (rule dir_index.del_ins [OF assms, of v ty]) (auto simp: index_insert_Some index_delete_Some)
qed

subsection \<open>A full tree\<close>

text \<open>Insertions fill the sample volume's tree with as many leaves as the root can hold.\<close>

lemma filled_tree:
  "m \<le> 250 \<Longrightarrow> \<exists>d ls. volume_ok d \<and> n_blocks d = 512 \<and> flat_tree d 8 ls \<and> length ls = m
     \<and> (\<forall>b<512. used d b = (b \<le> 8 + m)) \<and> (\<forall>l\<in>set ls. l \<le> 8 + m \<and> unat (leaf_key d l) \<le> m \<and> leaf_key d l \<noteq> 0)"
proof (induction m)
  case 0
  then show ?case using sample_facts(1,2,4,8) by (intro exI [of _ sample_volume] exI [of _ "[]"]) simp
next
  case (Suc m)
  then obtain d ls where d: "volume_ok d" "n_blocks d = 512" "flat_tree d 8 ls" "length ls = m"
      "\<forall>b<512. used d b = (b \<le> 8 + m)" "\<forall>l\<in>set ls. l \<le> 8 + m \<and> unat (leaf_key d l) \<le> m \<and> leaf_key d l \<noteq> 0"
    by auto
  have room: "length ls < MAX_KEYS" using Suc.prems d(4) by simp
  have us: "\<forall>l\<in>set (8 # ls). used d l"
    using d(5,6) Suc.prems by fastforce
  have nf: "next_free d (9 + m)"
    using d(2,5) Suc.prems by (simp add: next_free_def)
  obtain d' where d': "flat_inserted d 8 ls (9 + m) (of_nat (Suc m)) 0 0 d'"
    using btree_insert_flat_step [OF d(1,3) room us nf] by blast
  note e = d' [unfolded flat_inserted_def]
  have "map fst (tree_entries d' (ins_leaf d ls (of_nat (Suc m)) (9 + m)))
      = map fst (entry_insert (of_nat (Suc m), 0, 0) (tree_entries d ls))"
    by (simp only: tree_entries_insert [OF d' d(3,1) nf us])
  then have "leaf_key d' ` set (ins_leaf d ls (of_nat (Suc m)) (9 + m))
      = fst ` set (entry_insert (of_nat (Suc m), 0, 0) (tree_entries d ls))"
    by (metis (no_types, lifting) leaf_entry_def fst_conv list.set_map list.map_comp map_eq_conv comp_apply tree_entries_def)
  also have "\<dots> \<subseteq> insert (of_nat (Suc m)) (leaf_key d ` set ls)"
    unfolding entry_insert_takeWhile
    by (auto simp: tree_entries_def leaf_entry_def dest!: set_takeWhileD set_dropWhileD)
  finally have ks: "leaf_key d' ` set (ins_leaf d ls (of_nat (Suc m)) (9 + m))
      \<subseteq> insert (of_nat (Suc m)) (leaf_key d ` set ls)" .
  have um: "unat (of_nat (Suc m) :: u64) = Suc m"
    by (rule unat_of_nat_u64) (use Suc.prems in simp)
  have nz: "(of_nat (Suc m) :: u64) \<noteq> 0" using um by force
  have "l \<le> 8 + Suc m \<and> unat (leaf_key d' l) \<le> Suc m \<and> leaf_key d' l \<noteq> 0"
    if l: "l \<in> set (ins_leaf d ls (of_nat (Suc m)) (9 + m))" for l
  proof (intro conjI)
    show "l \<le> 8 + Suc m" using l d(6) by fastforce
    have lk: "leaf_key d' l \<in> insert (of_nat (Suc m)) (leaf_key d ` set ls)" using l ks by blast
    then show "unat (leaf_key d' l) \<le> Suc m" using d(6) um by (metis imageE insertE le_SucI order_refl)
    show "leaf_key d' l \<noteq> 0" using lk d(6) nz by (metis imageE insertE)
  qed
  then show ?case
    using e d(2,4,5)
    by (intro exI [of _ d'] exI [of _ "ins_leaf d ls (of_nat (Suc m)) (9 + m)"]) auto
qed

lemma full_tree:
  obtains d ls where "volume_ok d" "flat_tree d 8 ls" "length ls = 250" "\<forall>l\<in>set (8 # ls). used d l"
    "next_free d 259" "\<forall>l\<in>set ls. leaf_key d l < 1000 \<and> leaf_key d l \<noteq> 0"
proof -
  obtain d ls where d: "volume_ok d" "n_blocks d = 512" "flat_tree d 8 ls" "length ls = 250"
      "\<forall>b<512. used d b = (b \<le> 8 + 250)"
      "\<forall>l\<in>set ls. l \<le> 8 + 250 \<and> unat (leaf_key d l) \<le> 250 \<and> leaf_key d l \<noteq> 0"
    using filled_tree [of 250] by auto
  have "\<forall>l\<in>set (8 # ls). used d l" using d(5,6) by fastforce
  moreover have "next_free d 259" using d(2,5) by (simp add: next_free_def)
  moreover have "\<forall>l\<in>set ls. leaf_key d l < 1000 \<and> leaf_key d l \<noteq> 0" using d(6) by (auto simp: word_less_nat_alt)
  ultimately show ?thesis using d(1,3,4) that by blast
qed

text \<open>
  C26: Inserting a key above all others into a root with MAX_KEYS leaves returns 0 and loses
  the entry: the root, changed only in a local copy, keeps its old leaves, a search for the new
  key finds nothing, and a block stays allocated.
\<close>

theorem btree_insert_full_loses_entry:
  assumes "volume_ok d" "flat_tree d r ls" "length ls = MAX_KEYS" "\<forall>l\<in>set (r # ls). used d l"
    and "next_free d b" "\<forall>l\<in>set ls. leaf_key d l < k"
  shows "\<exists>d'. btree_insert d (of_nat r) k v ty = Some (0, d') \<and> flat_tree d' r ls
    \<and> btree_search d' (of_nat r) k = Some 0 \<and> used d' b"
proof -
  let ?d1 = "leaf_made d b k v ty"
  let ?nb = "(new_leaf (node_at d b) b k v ty)\<lparr>parent := of_nat r\<rparr>"
  let ?d2 = "set_node ?d1 b ?nb"
  let ?d3 = "set_node ?d2 r (node_at ?d2 r)"
  note lm = leaf_made_frame [OF assms(1,5), where k = k and v = v and ty = ty]
  note lv = leaf_made_volume [OF assms(1,5), where k = k and v = v and ty = ty]
  note fl = flat_tree_leaf_made(1) [OF assms(1,5,2,4), where k = k and v = v and ty = ty]
    flat_tree_leaf_made(2,3) [OF assms(1,5,2,4)]
    flat_tree_leaf_made(4) [OF assms(1,5,2,4), where k = k and v = v and ty = ty]
  note f = flat_treeD [OF fl(1)]
  have len: "length ls = 250" using assms(3) by simp
  have search: "btree_insertion_search ?d1 (of_nat r) k = Some (int r)"
    by (rule insertion_search_flat [OF fl(1)])
  have get: "node_get ?d1 (of_nat r) = Some (node_at ?d1 r)"
    by (rule node_get_ok [OF f(1)])
  have r: "valid_block ?d1 r" "is_node_block ?d1 r" "block_number (node_at ?d1 r) = of_nat r"
      "(of_nat r :: u64) \<noteq> 0"
    using f(1) node_ok_of_nat_nz [OF f(1)] by (auto simp: node_ok_def)
  have last: "key_at (node_at ?d1 r) (MAX_KEYS - 1) = Some (leaf_key ?d1 (ls ! 249))"
    using f(7) len by (simp add: key_at_def)
  have below: "leaf_key ?d1 (ls ! 249) < k"
    using fl(4) [OF nth_mem, of 249] assms(6) len by (simp add: leaf_key_def)
  have full: "insert_into_full ?d1 (of_nat r) k (node_at ?d1 r) b = Some ?d2"
    unfolding insert_into_full_def last
    using flat_child [OF fl(1), of 250] len below r(3) lm(1)
    by (simp add: set_child_def)
  have flat2: "flat_tree ?d2 r ls"
  proof -
    have "node_at ?d2 x = node_at ?d1 x" if "x = r \<or> x \<in> set ls" for x
      using that fl(2,3) by auto
    then show ?thesis using fl(1) flat_tree_cong [of r ls ?d2 ?d1] by simp
  qed
  note f2 = flat_treeD [OF flat2]
  have upd: "btree_update_parent_keys ?d2 (node_at ?d2 b) = Some ?d3"
    using r(4) node_get_ok [OF f2(1)] refresh_keys_same [OF flat2] f2(1)
      btree_node_write_ok [of ?d2 r "node_at ?d2 r"]
    by (simp add: btree_update_parent_keys_def node_ok_def)
  have flat3: "flat_tree ?d3 r ls"
    using flat2 flat_tree_cong [of r ls ?d3 ?d2] by simp
  have ins: "btree_insert d (of_nat r) k v ty = Some (0, ?d3)"
    unfolding btree_insert_leaf_made [OF assms(1,5)] search bind.simps u64_of_int_of_nat get full
    using f(5) len upd full by simp
  have "leaf_key ?d3 l = leaf_key d l" if "l \<in> set ls" for l
    using that fl(2) leaf_okD(1) [OF f(9) [OF that]] fl(4) [OF that] by (auto simp: leaf_key_def)
  then have "List.find (\<lambda>l. leaf_key ?d3 l = k) ls = None"
    using assms(6) by (auto simp: find_None_iff)
  then have "find_leaf ?d3 ls k = 0" by (simp add: find_leaf_def)
  then have "btree_search ?d3 (of_nat r) k = Some 0"
    by (simp only: btree_search_flat [OF flat3])
  moreover have "used ?d3 b"
    using set_node_volume(2) [OF lv(1) lm(2), of b ?nb] lv next_freeD(5) [OF assms(1,5)]
      set_node_volume(2) [OF set_node_volume(1) [OF lv(1) lm(2)] f2(1), of b "node_at ?d2 r"]
    by simp
  ultimately show ?thesis using ins flat3 by blast
qed

theorem btree_insert_full_loses_entry_witness:
  "\<exists>d ls d'. flat_tree d 8 ls \<and> length ls = 250 \<and> btree_insert d 8 1000 7 0 = Some (0, d')
     \<and> btree_search d' 8 1000 = Some 0"
proof -
  obtain d ls where d: "volume_ok d" "flat_tree d 8 ls" "length ls = 250" "\<forall>l\<in>set (8 # ls). used d l"
    "next_free d 259" "\<forall>l\<in>set ls. leaf_key d l < 1000 \<and> leaf_key d l \<noteq> 0"
    by (rule full_tree)
  then show ?thesis using btree_insert_full_loses_entry [of d 8 ls 259 1000 7 0] by auto
qed

text \<open>
  C27: Deleting a key that is present from a root with MAX_KEYS leaves reads the array of keys at
  index MAX_KEYS, behind its end: the call has no defined behaviour.
\<close>

theorem btree_delete_full_undefined:
  assumes "flat_tree d r ls" "length ls = MAX_KEYS" "l \<in> set ls" "leaf_key d l = k" "k \<noteq> 0"
    and "\<forall>l\<in>set ls. leaf_key d l \<noteq> 0"
  shows "btree_delete d (of_nat r) k = None"
proof -
  note f = flat_treeD [OF assms(1)]
  have "List.find (\<lambda>l. leaf_key d l = k) ls \<noteq> None"
    using assms(3,4) by (auto simp: find_None_iff)
  then obtain x where x: "List.find (\<lambda>l. leaf_key d l = k) ls = Some x" by blast
  then obtain i where i: "i < length ls" "leaf_key d (ls ! i) = k" "\<forall>j<i. leaf_key d (ls ! j) \<noteq> k" "x = ls ! i"
    by (auto simp: find_Some_iff)
  note leaf = leaf_okD [OF f(11) [OF i(1)]]
  have fl: "find_leaf d ls k = of_nat (ls ! i)" using x i(4) by (simp add: find_leaf_def)
  have ix: "key_index (node_at d r) k = i"
    by (rule key_index_flat [OF assms(1,6) i(1-3)])
  have c: "child_at (node_at d r) i = Some (of_nat (ls ! i))"
    using flat_child [OF assms(1), of i] i(1) by simp
  have bal: "rebalance d (node_at d r) k = Some (-1, d)"
    using f(3) by (simp add: rebalance_def)
  have "for_each [i..<length ls] (\<lambda>j r. do { k \<leftarrow> key_at r (j + 1); set_key r j k }) (node_at d r) = None"
    using i(1) assms(2) by (intro for_each_None [of 249]) (auto simp: key_at_def)
  then have un: "unlink_child (node_at d r) i = None"
    unfolding unlink_child_def Let_def f(5) by simp
  have "btree_remove_key d (of_nat r) k = None"
    unfolding btree_remove_key_def node_get_ok [OF f(1)] bind.simps ix c btree_node_read_ok [OF leaf(2)]
      prod.case bal un ..
  then show ?thesis
    using node_ok_of_nat_nz [OF leaf(2)]
    by (simp add: btree_delete_def btree_search_flat [OF assms(1)] fl)
qed

theorem btree_delete_full_undefined_witness:
  "\<exists>d ls. flat_tree d 8 ls \<and> length ls = 250 \<and> btree_delete d 8 (leaf_key d (hd ls)) = None"
proof -
  obtain d ls where d: "flat_tree d 8 ls" "length ls = 250"
    "\<forall>l\<in>set ls. leaf_key d l < 1000 \<and> leaf_key d l \<noteq> 0"
    by (rule full_tree)
  then have "hd ls \<in> set ls" by (intro hd_in_set) auto
  then show ?thesis
    using btree_delete_full_undefined [of d 8 ls "hd ls" "leaf_key d (hd ls)"] d by auto
qed

subsection \<open>Borrowing and merging\<close>

text \<open>
  Once btree_borrow_right has found a right sibling with keys to spare, its copying loop
  reads the array of keys at index MAX_KEYS: the call has no defined behaviour.
\<close>

lemma btree_borrow_right_undefined:
  assumes "right_sibling n \<noteq> 0" "node_get d (right_sibling n) = Some s" "unat (num_keys s) \<noteq> MIN_KEYS"
  shows "btree_borrow_right d n = None"
proof -
  have "for_each [0..<MAX_KEYS] (\<lambda>i r. do { k \<leftarrow> key_at r (i + 1); set_key r i k }) s = None"
    by (rule for_each_None [of 249]) (simp_all add: key_at_def)
  then show ?thesis
    using assms by (simp add: btree_borrow_right_def child_at_def)
qed

lemma btree_borrow_right_undefined_witness:
  "btree_borrow_right sample_volume ((node_at sample_volume 8)\<lparr>right_sibling := 8\<rparr>) = None"
proof (rule btree_borrow_right_undefined)
  show "node_get sample_volume (right_sibling ((node_at sample_volume 8)\<lparr>right_sibling := 8\<rparr>))
      = Some (node_at sample_volume 8)"
    using node_get_ok [OF flat_treeD(1) [OF sample_facts(4)]] by simp
  show "unat (num_keys (node_at sample_volume 8)) \<noteq> MIN_KEYS"
    using flat_treeD(5) [OF sample_facts(4)] by simp
qed simp

text \<open>
  Once btree_merge_children has read its two children, its second copying loop stores into
  the array of keys at index MAX_KEYS: merging two nodes has no defined behaviour.
\<close>

lemma btree_merge_children_undefined:
  assumes "index < MAX_KEYS" "children p ! index \<noteq> 0" "children p ! Suc index \<noteq> 0"
    and "node_get d (children p ! index) = Some a" "node_get d (children p ! Suc index) = Some b"
  shows "btree_merge_children d p index = None"
proof -
  have last: "for_each [MIN_KEYS + 1..<MAX_KEYS + 1]
      (\<lambda>i r. do { c \<leftarrow> child_at b (i - MIN_KEYS - 1); set_key r i c }) a' = None" for a'
    by (rule for_each_None [of MAX_KEYS]) (auto simp: set_key_def bind_None_iff)
  have "merge_copy a' b = None" for a'
    unfolding merge_copy_def by (rule bind_all_None) (rule last)
  then show ?thesis
    using assms by (simp add: btree_merge_children_def child_at_def)
qed

lemma btree_merge_children_undefined_witness:
  "btree_merge_children sample_volume ((node_at sample_volume 8)\<lparr>children := replicate 251 8\<rparr>) 3 = None"
  by (rule btree_merge_children_undefined)
    (use node_get_ok [OF flat_treeD(1) [OF sample_facts(4)]] in simp_all)

end
