(* ===== verification/Path_Strings.thy ===== *)
theory Path_Strings
  imports Prelude
begin

text \<open>
  The path helpers of \<open>string.c\<close>. A C string is the list of its bytes without the
  terminating zero; a pointer into a string is the suffix it points to or an index. The
  lemmas describe the helpers on absolute paths made of non-empty names.
\<close>

subsection \<open>The functions\<close>

definition slash :: u8 where "slash = 0x2F"

definition PATH_MAX :: nat where [simp]: "PATH_MAX = 4096"

definition count_l :: "u8 list \<Rightarrow> nat" where
  "count_l path = (if length path = 1 then 0 else length (filter (\<lambda>c. c = slash) path))"

text \<open>The loop that moves \<open>end\<close> back to the last slash, or to the start of the path.\<close>

fun back_to_slash :: "u8 list \<Rightarrow> nat \<Rightarrow> nat" where
  "back_to_slash path 0 = 0"
| "back_to_slash path (Suc e) = (if path ! Suc e = slash then Suc e else back_to_slash path e)"

text \<open>
  The result is a fresh buffer of \<open>PATH_MAX\<close> bytes. For an empty path with more than one
  level, \<open>end\<close> starts before the path and the length of the copy is negative.
\<close>

definition parent_path :: "u8 list \<Rightarrow> nat \<Rightarrow> u8 list option" where
  "parent_path path l =
     (if l \<le> 1 then Some [slash]
      else if path = [] then None
      else
        let e = back_to_slash path (length path - 1)
        in if e = 0 then Some [slash]
           else if PATH_MAX \<le> e then None
           else Some (take e path))"

definition get_name :: "u8 list \<Rightarrow> u8 list" where
  "get_name path =
     (if slash \<in> set path then rev (takeWhile (\<lambda>c. c \<noteq> slash) (rev path)) else path)"

text \<open>The segment number \<open>n\<close>, or \<open>None\<close> for the null pointer; \<open>segment\<close> have been passed.\<close>

function split_loop :: "u8 list \<Rightarrow> nat \<Rightarrow> nat \<Rightarrow> u8 list option" where
  "split_loop start segment n =
     (if start = [] \<or> n \<le> segment then None
      else
        let s = dropWhile (\<lambda>c. c = slash) start
        in if s = [] then None
           else if Suc segment = n then Some (takeWhile (\<lambda>c. c \<noteq> slash) s)
           else split_loop (dropWhile (\<lambda>c. c \<noteq> slash) s) (Suc segment) n)"
  by auto
termination
proof (relation "measure (\<lambda>(s, _). length s)")
  fix start s :: "u8 list" and segment n :: nat
  assume a: "\<not> (start = [] \<or> n \<le> segment)" "s = dropWhile (\<lambda>c. c = slash) start" "s \<noteq> []"
  then have "hd s \<noteq> slash" using hd_dropWhile [of "\<lambda>c. c = slash" start] by simp
  then have "length (dropWhile (\<lambda>c. c \<noteq> slash) s) < length s"
    using a(3) by (cases s) (simp_all add: le_imp_less_Suc length_dropWhile_le)
  also have "length s \<le> length start" using a(2) by (simp add: length_dropWhile_le)
  finally show "((dropWhile (\<lambda>c. c \<noteq> slash) s, Suc segment, n), start, segment, n)
      \<in> measure (\<lambda>(s, _). length s)" by simp
qed simp

declare split_loop.simps [simp del]

definition split :: "u8 list \<Rightarrow> nat \<Rightarrow> u8 list option" where
  "split path n = (if n = 0 then None else split_loop path 0 n)"

subsection \<open>Absolute paths\<close>

text \<open>The path with the given names, and the names that make a path unambiguous.\<close>

definition path_of :: "u8 list list \<Rightarrow> u8 list" where
  "path_of names = (if names = [] then [slash] else concat (map ((#) slash) names))"

definition name_ok :: "u8 list \<Rightarrow> bool" where
  "name_ok s \<longleftrightarrow> s \<noteq> [] \<and> slash \<notin> set s \<and> 0 \<notin> set s"

lemma path_of_snoc:
  "path_of (names @ [s]) = (if names = [] then [] else path_of names) @ slash # s"
  by (simp add: path_of_def)

lemma path_of_Cons: "path_of (s # names) = slash # s @ (if names = [] then [] else path_of names)"
  by (simp add: path_of_def)

lemma filter_slash_name: "slash \<notin> set s \<Longrightarrow> filter (\<lambda>c. c = slash) s = []"
  by (auto simp: filter_empty_conv)

lemma count_l_path_of:
  assumes "\<forall>s\<in>set names. name_ok s"
  shows "count_l (path_of names) = length names"
proof (cases names)
  case Nil
  then show ?thesis by (simp add: count_l_def path_of_def)
next
  case (Cons s ns)
  have "length (filter (\<lambda>c. c = slash) (concat (map ((#) slash) ns))) = length ns"
    if "\<forall>s\<in>set ns. name_ok s" for ns
    using that by (induction ns) (auto simp: name_ok_def filter_slash_name)
  moreover have "length (path_of names) \<noteq> 1"
    using assms Cons by (auto simp: path_of_def name_ok_def)
  ultimately show ?thesis
    using assms Cons by (simp add: count_l_def path_of_def name_ok_def filter_slash_name)
qed

lemma get_name_path_of:
  assumes "name_ok s"
  shows "get_name (path_of (names @ [s])) = s"
proof -
  have "slash \<notin> set (rev s)" using assms by (simp add: name_ok_def)
  then have "\<forall>x\<in>set (rev s). x \<noteq> slash" by auto
  then have "takeWhile (\<lambda>c. c \<noteq> slash) (rev s @ slash # xs) = rev s" for xs
    by (simp add: takeWhile_append)
  then show ?thesis by (simp add: path_of_snoc get_name_def)
qed

lemma back_to_slash_name:
  assumes "slash \<notin> set s" "j \<le> length s"
  shows "back_to_slash (xs @ slash # s) (length xs + j) = length xs"
  using assms(2)
proof (induction j)
  case 0
  then show ?case by (cases "length xs") (simp_all add: nth_append)
next
  case (Suc j)
  then have "(xs @ slash # s) ! Suc (length xs + j) = s ! j"
    by (simp add: nth_append)
  moreover have "s ! j \<noteq> slash" using assms(1) Suc.prems by (metis Suc_le_lessD nth_mem)
  ultimately show ?case using Suc by simp
qed

lemma parent_path_path_of:
  assumes "name_ok s" "\<forall>s\<in>set names. name_ok s" "length (path_of names) < PATH_MAX"
  shows "parent_path (path_of (names @ [s])) (count_l (path_of (names @ [s]))) = Some (path_of names)"
proof (cases "names = []")
  case True
  have "count_l (path_of (names @ [s])) = 1"
    using assms(1,2) True count_l_path_of [of "names @ [s]"] by simp
  then show ?thesis using True by (simp add: parent_path_def path_of_def)
next
  case False
  have c: "count_l (path_of (names @ [s])) = Suc (length names)"
    using assms(1,2) count_l_path_of [of "names @ [s]"] by simp
  have p: "path_of (names @ [s]) = path_of names @ slash # s" using False by (simp add: path_of_snoc)
  have "back_to_slash (path_of names @ slash # s) (length (path_of names) + length s) = length (path_of names)"
    using assms(1) by (intro back_to_slash_name) (simp_all add: name_ok_def)
  moreover have "path_of names \<noteq> []" using False by (cases names) (simp_all add: path_of_def)
  ultimately show ?thesis
    using False assms(3) by (simp add: parent_path_def c) (simp add: p)
qed

lemma split_loop_path_of:
  assumes "\<forall>s\<in>set names. name_ok s" "i < length names"
  shows "split_loop (path_of names) seg (seg + Suc i) = Some (names ! i)"
  using assms
proof (induction names arbitrary: seg i)
  case Nil
  then show ?case by simp
next
  case (Cons s ns)
  let ?rest = "if ns = [] then [] else path_of ns"
  have s: "s \<noteq> []" "slash \<notin> set s" using Cons.prems(1) by (simp_all add: name_ok_def)
  have d: "dropWhile (\<lambda>c. c = slash) (slash # s @ ?rest) = s @ ?rest"
    using s by (cases s) auto
  have r: "?rest = [] \<or> hd ?rest = slash" by (cases ns) (simp_all add: path_of_def)
  have t: "takeWhile (\<lambda>c. c \<noteq> slash) (s @ ?rest) = s" "dropWhile (\<lambda>c. c \<noteq> slash) (s @ ?rest) = ?rest"
    using s(2) r by (cases ?rest; auto simp: takeWhile_append dropWhile_append)+
  show ?case
  proof (cases i)
    case 0
    show ?thesis
      unfolding path_of_Cons by (subst split_loop.simps) (use d t s 0 in \<open>simp add: Let_def\<close>)
  next
    case (Suc j)
    then have "ns \<noteq> []" "j < length ns" using Cons.prems(2) by auto
    then have "split_loop (path_of ns) (Suc seg) (Suc seg + Suc j) = Some (ns ! j)"
      using Cons.prems(1) by (intro Cons.IH) simp_all
    then show ?thesis
      unfolding path_of_Cons by (subst split_loop.simps) (use d t s Suc \<open>ns \<noteq> []\<close> in \<open>simp add: Let_def\<close>)
  qed
qed

lemma split_path_of:
  assumes "\<forall>s\<in>set names. name_ok s" "i < length names"
  shows "split (path_of names) (Suc i) = Some (names ! i)"
  using split_loop_path_of [OF assms, of 0] by (simp add: split_def)

end
