(* ===== verification/Hash.thy ===== *)
theory Hash
  imports Path_Strings Dir_Index
begin

text \<open>
  \<open>hash.c\<close>: the FNV-1a hash of a name and the search that turns a path into the inode
  number and, for a directory, the root block of its tree. The lemmas relate the search
  to a walk that looks one name after the other up in the directories' indices.
\<close>

unbundle bit_operations_syntax

subsection \<open>path\_hash\<close>

definition hash_step :: "u64 \<Rightarrow> u8 \<Rightarrow> u64" where
  "hash_step h c = (h XOR ucast c) * 0x100000001b3"

definition path_hash :: "u8 list \<Rightarrow> u64" where
  "path_hash path = foldl hash_step 0xcbf29ce484222325 path"

text \<open>The multiplier is odd, so it has an inverse and a step loses nothing.\<close>

lemma fnv_prime_inverse: "(0x100000001b3 :: u64) * 0xce965057aff6957b = 1"
  by simp

lemma fnv_mult_inject: "(a :: u64) * 0x100000001b3 = b * 0x100000001b3 \<longleftrightarrow> a = b"
proof
  assume "a * 0x100000001b3 = b * 0x100000001b3"
  then have "a * 0x100000001b3 * 0xce965057aff6957b = b * 0x100000001b3 * 0xce965057aff6957b" by simp
  then show "a = b" unfolding mult.assoc fnv_prime_inverse by simp
qed simp

lemma xor_cancel: "(a :: u64) XOR c = b XOR c \<longleftrightarrow> a = b"
proof
  assume "a XOR c = b XOR c"
  then have "(a XOR c) XOR c = (b XOR c) XOR c" by simp
  then show "a = b" by (simp add: xor.assoc)
qed simp

lemma ucast_u8_inject: "(ucast (c :: u8) :: u64) = ucast c' \<longleftrightarrow> c = c'"
proof
  assume eq: "(ucast c :: u64) = ucast c'"
  show "c = c'"
  proof (rule bit_word_eqI)
    fix n
    assume "n < LENGTH(8)"
    moreover have "bit (ucast c :: u64) n = bit (ucast c' :: u64) n" by (simp only: eq)
    ultimately show "bit c n = bit c' n" by (simp add: bit_ucast_iff)
  qed
qed simp

lemma hash_step_inject: "hash_step h c = hash_step h' c \<longleftrightarrow> h = h'"
  by (simp add: hash_step_def fnv_mult_inject xor_cancel)

lemma hash_step_inject_char: "hash_step h c = hash_step h c' \<longleftrightarrow> c = c'"
  unfolding hash_step_def fnv_mult_inject xor.commute [of h] xor_cancel by (rule ucast_u8_inject)

lemma foldl_hash_step_inject: "foldl hash_step h xs = foldl hash_step h' xs \<longleftrightarrow> h = h'"
  by (induction xs arbitrary: h h') (simp_all add: hash_step_inject)

lemma path_hash_one_char:
  "path_hash (xs @ c # ys) = path_hash (xs @ c' # ys) \<longleftrightarrow> c = c'"
  by (simp add: path_hash_def foldl_hash_step_inject hash_step_inject_char)

subsection \<open>item\_search\<close>

text \<open>The file types are the mode bits; a node's \<open>type\<close> field holds one.\<close>

definition FILE_TYPE_REGULAR :: u32 where "FILE_TYPE_REGULAR = 0x8000"

definition FILE_TYPE_DIRECTORY :: u32 where "FILE_TYPE_DIRECTORY = 0x4000"

definition FILE_TYPE_SYMLINK :: u32 where "FILE_TYPE_SYMLINK = 0xA000"

record InodeBtreePair =
  pair_inode :: u64
  pair_btree :: u64

definition no_pair :: InodeBtreePair where
  "no_pair = \<lparr>pair_inode = 0, pair_btree = 0\<rparr>"

text \<open>
  \<open>snprintf(curr_path, sizeof(curr_path), "%s/%s", curr_path, token)\<close> writes into the string it
  reads. With an empty \<open>curr_path\<close> no byte of it is read after it was written, and the result
  is the name behind a slash, cut to the size of the buffer. From the second name on that is
  found, source and destination overlap: C leaves that undefined (glibc drops what was there).
\<close>

definition append_name :: "u8 list \<Rightarrow> u8 list \<Rightarrow> u8 list option" where
  "append_name cp token = (if cp = [] then Some (take (PATH_MAX - 1) (slash # token)) else None)"

text \<open>
  One name of the path. The result is the pair when the search ends, or the node and the path
  for the next name.
\<close>

definition search_step ::
    "DiskInterface \<Rightarrow> u8 list \<Rightarrow> BTreeNode \<Rightarrow> u8 list \<Rightarrow> u8 list \<Rightarrow>
     (InodeBtreePair + BTreeNode \<times> u8 list) option" where
  "search_step d path node cp token = do {
     node_block \<leftarrow> btree_search d (block_number node) (path_hash token);
     if node_block = 0 then Some (Inl no_pair)
     else do {
       cp' \<leftarrow> append_name cp token;
       node1 \<leftarrow> node_reread d node_block node;
       (rv, node2) \<leftarrow> (if node_type node1 = FILE_TYPE_DIRECTORY
         then do {
           (rv, no) \<leftarrow> btree_node_read d (val node1);
           Some (rv, case no of None \<Rightarrow> node1 | Some n \<Rightarrow> n)
         }
         else Some (0, node1));
       if rv \<noteq> 0 then Some (Inl no_pair)
       else if path = cp' then
         Some (Inl \<lparr>pair_inode = val node2,
           pair_btree = (if node_type node2 = FILE_TYPE_DIRECTORY then block_number node2 else 0)\<rparr>)
       else Some (Inr (node2, cp'))
     }
   }"

text \<open>The loop over the names from number \<open>i\<close> on; \<open>split\<close> gives a null pointer when there are fewer.\<close>

fun search_loop ::
    "DiskInterface \<Rightarrow> u8 list \<Rightarrow> nat list \<Rightarrow> BTreeNode \<Rightarrow> u8 list \<Rightarrow> InodeBtreePair option" where
  "search_loop d path [] node cp = Some no_pair"
| "search_loop d path (i # is) node cp = do {
     token \<leftarrow> split path i;
     r \<leftarrow> search_step d path node cp token;
     case r of Inl pair \<Rightarrow> Some pair | Inr (node', cp') \<Rightarrow> search_loop d path is node' cp'
   }"

definition item_search :: "DiskInterface \<Rightarrow> u8 list \<Rightarrow> InodeBtreePair option" where
  "item_search d path = do {
     (_, sbo) \<leftarrow> superblock_read d;
     sb \<leftarrow> sbo;
     node \<leftarrow> node_get d (btree_root sb);
     if path = [slash] then Some \<lparr>pair_inode = val node, pair_btree = block_number node\<rparr>
     else search_loop d path [1..<Suc (count_l path)] node []
   }"

subsection \<open>The walk\<close>

text \<open>
  What a path means: \<open>walk d r names\<close> goes from the directory with the tree root \<open>r\<close>; a
  directory's leaf holds the block of its own tree root, whose \<open>value\<close> is the inode.
\<close>

fun walk :: "DiskInterface \<Rightarrow> nat \<Rightarrow> u8 list list \<Rightarrow> InodeBtreePair option" where
  "walk d r [] = Some \<lparr>pair_inode = val (node_at d r), pair_btree = of_nat r\<rparr>"
| "walk d r (s # ss) = do {
     e \<leftarrow> index_lookup (d, r) (path_hash s);
     case e of
       None \<Rightarrow> Some no_pair
     | Some (v, ty) \<Rightarrow>
         if ty = FILE_TYPE_DIRECTORY then walk d (unat v) ss
         else if ss = [] then Some \<lparr>pair_inode = v, pair_btree = 0\<rparr>
         else None
   }"

text \<open>
  The directories that a search can pass are sound: their trees are flat, and a directory's leaf
  points to a tree root that is marked as a directory; the first of several names is not that
  of a file. The search gets through as long as it does not find two names: then it extends
  \<open>curr_path\<close> with itself.
\<close>

definition dir_root_ok :: "DiskInterface \<Rightarrow> nat \<Rightarrow> bool" where
  "dir_root_ok d r \<longleftrightarrow> index_ok (d, r) \<and> node_type (node_at d r) = FILE_TYPE_DIRECTORY"

fun walk_sound :: "DiskInterface \<Rightarrow> nat \<Rightarrow> u8 list list \<Rightarrow> bool" where
  "walk_sound d r [] = True"
| "walk_sound d r (s # ss) =
     (index_ok (d, r) \<and>
      (case map_of (index_entries (d, r)) (path_hash s) of
         None \<Rightarrow> True
       | Some (v, ty) \<Rightarrow> if ty = FILE_TYPE_DIRECTORY then dir_root_ok d (unat v) else ss = []))"

fun second_found :: "DiskInterface \<Rightarrow> nat \<Rightarrow> u8 list list \<Rightarrow> bool" where
  "second_found d r (s # t # ss) =
     (case map_of (index_entries (d, r)) (path_hash s) of
        None \<Rightarrow> False
      | Some (v, ty) \<Rightarrow> map_of (index_entries (d, unat v)) (path_hash t) \<noteq> None)"
| "second_found d r ss = False"

definition walk_ok :: "DiskInterface \<Rightarrow> nat \<Rightarrow> u8 list list \<Rightarrow> bool" where
  "walk_ok d r names \<longleftrightarrow> walk_sound d r names \<and> \<not> second_found d r names"

lemma walk_ok_Nil [simp]: "walk_ok d r []"
  by (simp add: walk_ok_def)

lemma walk_ok_single [simp]: "walk_ok d r [s] \<longleftrightarrow> walk_sound d r [s]"
  by (simp add: walk_ok_def)

lemma index_lookup_search:
  assumes "index_ok (d, r)"
  shows "btree_search d (of_nat r) k = Some b \<Longrightarrow> b = 0 \<Longrightarrow> index_lookup (d, r) k = Some None"
    "\<exists>b. btree_search d (of_nat r) k = Some b \<and> (b \<noteq> 0 \<longrightarrow>
       (\<exists>l. b = of_nat l \<and> node_ok d l \<and> is_leaf (node_at d l)
         \<and> index_lookup (d, r) k = Some (Some (val (node_at d l), node_type (node_at d l)))))"
proof -
  have f: "flat_tree d r (leaves d r)" using assms by (simp add: index_ok_def)
  show "btree_search d (of_nat r) k = Some b \<Longrightarrow> b = 0 \<Longrightarrow> index_lookup (d, r) k = Some None"
    by (simp add: index_lookup_def)
  show "\<exists>b. btree_search d (of_nat r) k = Some b \<and> (b \<noteq> 0 \<longrightarrow>
       (\<exists>l. b = of_nat l \<and> node_ok d l \<and> is_leaf (node_at d l)
         \<and> index_lookup (d, r) k = Some (Some (val (node_at d l), node_type (node_at d l)))))"
  proof (cases "find_leaf d (leaves d r) k = 0")
    case True
    then show ?thesis by (simp add: btree_search_flat [OF f])
  next
    case False
    then obtain i where i: "i < length (leaves d r)" "find_leaf d (leaves d r) k = of_nat (leaves d r ! i)"
      using find_leaf_index [OF f] by metis
    have ok: "node_ok d (leaves d r ! i)" "is_leaf (node_at d (leaves d r ! i))"
      using leaf_okD(2,3) [OF flat_treeD(11) [OF f i(1)]] .
    then show ?thesis
      using i(2) node_ok_of_nat_nz [OF ok(1)]
      by (intro exI [of _ "of_nat (leaves d r ! i)"])
        (auto simp: btree_search_flat [OF f] index_lookup_def node_get_ok simp del: of_nat_eq_0_iff)
  qed
qed

text \<open>The step for the first name, and the end of the search at the second.\<close>

lemma search_first:
  assumes ok: "walk_sound d r (s # ss)" and node: "block_number node = of_nat r"
    and names: "\<forall>x\<in>set (s # ss). name_ok x" "length (path_of (s # ss)) < PATH_MAX"
  shows "search_step d (path_of (s # ss)) node [] s = Some
    (case map_of (index_entries (d, r)) (path_hash s) of
       None \<Rightarrow> Inl no_pair
     | Some (v, ty) \<Rightarrow>
         if ty = FILE_TYPE_DIRECTORY then
           if ss = [] then Inl \<lparr>pair_inode = val (node_at d (unat v)), pair_btree = v\<rparr>
           else Inr (node_at d (unat v), slash # s)
         else Inl \<lparr>pair_inode = v, pair_btree = 0\<rparr>)"
proof -
  let ?k = "path_hash s"
  have ix: "index_ok (d, r)" using ok by simp
  have mo: "index_lookup (d, r) ?k = Some (map_of (index_entries (d, r)) ?k)"
    by (rule index_lookup_abs [OF ix])
  obtain b where b: "btree_search d (of_nat r) ?k = Some b" "b \<noteq> 0 \<longrightarrow>
       (\<exists>l. b = of_nat l \<and> node_ok d l \<and> is_leaf (node_at d l)
         \<and> index_lookup (d, r) ?k = Some (Some (val (node_at d l), node_type (node_at d l))))"
    using index_lookup_search(2) [OF ix] by blast
  have "length (slash # s) < PATH_MAX"
    using names(2) by (cases "ss = []") (simp_all add: path_of_def)
  then have cp: "append_name [] s = Some (slash # s)" by (simp add: append_name_def)
  have path: "path_of (s # ss) = slash # s \<longleftrightarrow> ss = []"
    by (cases ss) (simp_all add: path_of_def)
  show ?thesis
  proof (cases "b = 0")
    case True
    then have "map_of (index_entries (d, r)) ?k = None"
      using index_lookup_search(1) [OF ix b(1)] mo by simp
    then show ?thesis using b(1) True by (simp add: search_step_def node)
  next
    case False
    then obtain l where l: "b = of_nat l" "node_ok d l"
        "index_lookup (d, r) ?k = Some (Some (val (node_at d l), node_type (node_at d l)))"
      using b(2) by blast
    have e: "map_of (index_entries (d, r)) ?k = Some (val (node_at d l), node_type (node_at d l))"
      using mo l(3) by simp
    have rd: "node_reread d b node = Some (node_at d l)"
      using btree_node_read_ok [OF l(2)] by (simp add: node_reread_def l(1))
    show ?thesis
    proof (cases "node_type (node_at d l) = FILE_TYPE_DIRECTORY")
      case plain: False
      then have "ss = []" using ok e by simp
      then show ?thesis
        using b(1) False rd plain e cp path by (simp add: search_step_def node)
    next
      case dir: True
      let ?v = "unat (val (node_at d l))"
      have v: "dir_root_ok d ?v" using ok e dir by simp
      then have vt: "flat_tree d ?v (leaves d ?v)" by (simp add: dir_root_ok_def index_ok_def)
      have vr: "btree_node_read d (val (node_at d l)) = Some (0, Some (node_at d ?v))"
        using btree_node_read_ok [OF flat_treeD(1) [OF vt]] by simp
      have vb: "block_number (node_at d ?v) = val (node_at d l)" "node_type (node_at d ?v) = FILE_TYPE_DIRECTORY"
        using flat_treeD(1) [OF vt] v(1) by (simp_all add: node_ok_def dir_root_ok_def)
      show ?thesis
        using b(1) False rd dir e cp path vr vb by (cases "ss = []") (simp_all add: search_step_def node)
    qed
  qed
qed

lemma search_second:
  assumes "index_ok (d, r)" "block_number node = of_nat r" "cp \<noteq> []"
  shows "search_step d path node cp s =
    (if map_of (index_entries (d, r)) (path_hash s) = None then Some (Inl no_pair) else None)"
proof -
  have mo: "index_lookup (d, r) (path_hash s) = Some (map_of (index_entries (d, r)) (path_hash s))"
    by (rule index_lookup_abs [OF assms(1)])
  obtain b where "btree_search d (of_nat r) (path_hash s) = Some b" "b = 0 \<longleftrightarrow> map_of (index_entries (d, r)) (path_hash s) = None"
    using index_lookup_search [OF assms(1), of "path_hash s"] mo by fastforce
  then show ?thesis
    using assms(2,3) by (simp add: search_step_def append_name_def)
qed

lemma path_of_not_root: "names \<noteq> [] \<Longrightarrow> \<forall>s\<in>set names. name_ok s \<Longrightarrow> path_of names \<noteq> [slash]"
  by (cases names) (auto simp: path_of_def name_ok_def)

definition root_block :: "DiskInterface \<Rightarrow> nat" where
  "root_block d = unat (btree_root (the_sb d))"

lemma item_search_start:
  assumes "super_ok d" "node_ok d (root_block d)"
  shows "item_search d path =
     (if path = [slash] then walk d (root_block d) []
      else search_loop d path [1..<Suc (count_l path)] (node_at d (root_block d)) [])"
proof -
  have "node_get d (btree_root (the_sb d)) = Some (node_at d (root_block d))"
    using node_get_ok [OF assms(2)] by (simp add: root_block_def)
  then show ?thesis
    using assms by (simp add: item_search_def superblock_read_ok node_ok_def)
qed

text \<open>
  What the search finds: along sound directories it is the walk, unless it finds two names, and
  then it is undefined.
\<close>

lemma item_search_sound:
  assumes "super_ok d" "node_ok d (root_block d)" "walk_sound d (root_block d) names"
    and "\<forall>s\<in>set names. name_ok s" "length (path_of names) < PATH_MAX"
  shows "item_search d (path_of names) =
    (if second_found d (root_block d) names then None else walk d (root_block d) names)"
proof (cases names)
  case Nil
  then show ?thesis using item_search_start [OF assms(1,2)] by (simp add: path_of_def)
next
  case (Cons s ss)
  let ?r = "root_block d"
  let ?p = "path_of (s # ss)"
  note a = assms(3-5) [unfolded Cons]
  have node: "block_number (node_at d ?r) = of_nat ?r" using assms(2) by (simp add: node_ok_def)
  note st = search_first [OF a(1) node a(2,3)]
  have up: "[1..<Suc (count_l ?p)] = 1 # [2..<Suc (Suc (length ss))]"
    using count_l_path_of [OF a(2)] by (simp add: upt_conv_Cons numeral_2_eq_2 del: upt_Suc)
  have tok: "split ?p 1 = Some s" using split_path_of [OF a(2), of 0] by simp
  have look: "index_lookup (d, ?r) (path_hash s) = Some (map_of (index_entries (d, ?r)) (path_hash s))"
    by (rule index_lookup_abs) (use a(1) in simp)
  have start: "item_search d ?p = search_loop d ?p (1 # [2..<Suc (Suc (length ss))]) (node_at d ?r) []"
    using item_search_start [OF assms(1,2)] path_of_not_root [of "s # ss"] a(2) up by simp
  show ?thesis
  proof (cases "map_of (index_entries (d, ?r)) (path_hash s)")
    case None
    then have "\<not> second_found d ?r (s # ss)" by (cases ss) simp_all
    then show ?thesis using start tok st None look Cons by simp
  next
    case (Some e)
    obtain v ty where e: "e = (v, ty)" by (cases e)
    show ?thesis
    proof (cases "ty = FILE_TYPE_DIRECTORY \<and> ss \<noteq> []")
      case False
      then have "\<not> second_found d ?r (s # ss) \<or> ss \<noteq> []" "ty \<noteq> FILE_TYPE_DIRECTORY \<longrightarrow> ss = []"
        using a(1) Some e by auto
      then show ?thesis using False start tok st Some e look Cons by (auto simp del: unsigned_of_nat)
    next
      case True
      then obtain t us where ss: "ss = t # us" by (cases ss) auto
      have v: "dir_root_ok d (unat v)" using a(1) Some e True by simp
      then have ix: "index_ok (d, unat v)" and vn: "block_number (node_at d (unat v)) = of_nat (unat v)"
        using flat_treeD(1) by (auto simp: dir_root_ok_def index_ok_def node_ok_def)
      have up2: "[2..<Suc (Suc (length ss))] = 2 # [3..<Suc (Suc (length ss))]"
        by (simp add: ss upt_conv_Cons eval_nat_numeral del: upt_Suc)
      have tok2: "split ?p 2 = Some t"
        using split_path_of [OF a(2), of 1] by (simp add: ss numeral_2_eq_2)
      have look2: "index_lookup (d, unat v) (path_hash t) = Some (map_of (index_entries (d, unat v)) (path_hash t))"
        by (rule index_lookup_abs [OF ix])
      show ?thesis
        unfolding Cons start up2
        using tok tok2 st Some e True look look2 search_second [OF ix vn, of "slash # s" ?p t]
        by (cases "map_of (index_entries (d, unat v)) (path_hash t)") (simp_all add: ss del: upt_Suc)
    qed
  qed
qed

lemma item_search_walk:
  assumes "super_ok d" "node_ok d (root_block d)" "walk_ok d (root_block d) names"
    and "\<forall>s\<in>set names. name_ok s" "length (path_of names) < PATH_MAX"
  shows "item_search d (path_of names) = walk d (root_block d) names"
  using item_search_sound [OF assms(1,2) _ assms(4,5)] assms(3) by (simp add: walk_ok_def)

end
