(* ===== verification/Directory.thy ===== *)
theory Directory
  imports Hash Inode_Facts
begin

text \<open>
  \<open>directory.c\<close>: a directory keeps its entries in the data blocks of its inode, 272 bytes
  each, behind a 16-bit count in the first block, and one leaf per name in its tree. The
  three operations search the path, scan the entries and change entry, tree and count.
\<close>

subsection \<open>Entries\<close>

record DirEntry =
  entry_inode :: u64
  entry_btree :: u64
  entry_name :: "u8 list"
  entry_active :: bool

definition NAME_MAX :: nat where [simp]: "NAME_MAX = 255"

definition sizeof_DirEntry :: nat where [simp]: "sizeof_DirEntry = 272"

definition sizeof_DirectoryBlock :: nat where [simp]: "sizeof_DirectoryBlock = 2"

definition entry_of_page :: "page \<Rightarrow> nat \<Rightarrow> DirEntry" where
  "entry_of_page pg a = \<lparr>
     entry_inode = rd64 pg a,
     entry_btree = rd64 pg (a + 8),
     entry_name = rd_bytes pg (a + 16) NAME_MAX,
     entry_active = rd_bool pg (a + 271)\<rparr>"

definition entry_to_page :: "DirEntry \<Rightarrow> page \<Rightarrow> nat \<Rightarrow> page" where
  "entry_to_page e pg a =
     wr_bool (wr_bytes (wr64 (wr64 pg a (entry_inode e)) (a + 8) (entry_btree e))
       (a + 16) (entry_name e)) (a + 271) (entry_active e)"

text \<open>The name field as a C string, and \<open>strcmp\<close> of it with a name.\<close>

definition c_string :: "u8 list \<Rightarrow> u8 list" where
  "c_string buf = takeWhile (\<lambda>c. c \<noteq> 0) buf"

definition strcmp_eq :: "u8 list \<Rightarrow> u8 list \<Rightarrow> bool option" where
  "strcmp_eq buf s =
     (if 0 \<in> set buf \<or> take (length buf) s \<noteq> buf then Some (c_string buf = s) else None)"

text \<open>Where the entries of a block start: behind the count in the first block.\<close>

definition first_entry :: "bool \<Rightarrow> nat" where
  "first_entry with_count = (if with_count then 4 + sizeof_DirectoryBlock else 4)"

definition entry_at :: "bool \<Rightarrow> nat \<Rightarrow> nat" where
  "entry_at with_count j = first_entry with_count + sizeof_DirEntry * j"

definition entry_count :: "page \<Rightarrow> u16" where
  "entry_count pg = rd16 pg 4"

definition set_entry_count :: "DiskInterface \<Rightarrow> nat \<Rightarrow> u16 \<Rightarrow> DiskInterface" where
  "set_entry_count d k c = set_page d k (wr16 (page_at d k) 4 c)"

text \<open>The bound of the loops over the blocks, and the entries of one block.\<close>

definition dir_blocks :: nat where
  "dir_blocks = 65535 * sizeof_DirEntry div USABLE_BLOCK_SIZE"

definition zero_inode :: Inode where
  "zero_inode = inode_of_page zero_page 0"

subsection \<open>directory\_add\_entry\<close>

text \<open>
  The scan of one block: an entry that is not active, or the entry where as many active
  ones have been counted as the directory is said to have.
\<close>

fun add_slot :: "page \<Rightarrow> bool \<Rightarrow> u16 \<Rightarrow> u16 \<Rightarrow> nat list \<Rightarrow> nat option \<times> u16" where
  "add_slot pg fst_blk n_entries count [] = (None, count)"
| "add_slot pg fst_blk n_entries count (j # js) =
     (let active = rd_bool pg (entry_at fst_blk j + 271)
      in if \<not> active \<or> count = n_entries then (Some j, count)
         else add_slot pg fst_blk n_entries (count + 1) js)"

text \<open>
  The new entry's structure lives on the stack and is copied whole: \<open>junk\<close> is what it held
  before. A directory gets a tree root of its own first.
\<close>

definition add_to_tree ::
    "DiskInterface \<Rightarrow> InodeBtreePair \<Rightarrow> u8 list \<Rightarrow> u64 \<Rightarrow> u32 \<Rightarrow> DirEntry \<Rightarrow> (DirEntry \<times> DiskInterface) option" where
  "add_to_tree d pair name target type new_file =
     (if type = FILE_TYPE_DIRECTORY then do {
        (rootp, page, d1) \<leftarrow> btree_node_create d False;
        k \<leftarrow> rootp;
        let d2 = set_node d1 k ((node_at d1 k)\<lparr>val := target, node_type := FILE_TYPE_DIRECTORY\<rparr>);
        (_, d3) \<leftarrow> btree_node_write d2 (node_at d2 k);
        (_, d4) \<leftarrow> btree_insert d3 (pair_btree pair) (path_hash name) page type;
        Some (new_file\<lparr>entry_btree := page\<rparr>, d4)
      }
      else do {
        (_, d1) \<leftarrow> btree_insert d (pair_btree pair) (path_hash name) target type;
        Some (new_file, d1)
      })"

definition add_commit ::
    "DiskInterface \<Rightarrow> InodeBtreePair \<Rightarrow> Inode \<Rightarrow> u8 list \<Rightarrow> u64 \<Rightarrow> u32 \<Rightarrow> DirEntry \<Rightarrow> u64 \<Rightarrow> nat \<Rightarrow> nat \<Rightarrow> u16 \<Rightarrow>
     (int \<times> DiskInterface) option" where
  "add_commit d pair node name target type new_file block k a number_of_entries = do {
     (e, d1) \<leftarrow> add_to_tree d pair name target type new_file;
     let d2 = write_block_direct (set_page d1 k (entry_to_page e (page_at d1 k) a)) k 0 block;
     (_, block0) \<leftarrow> inode_get_block d2 node 0 block;
     k0 \<leftarrow> get_block_direct d2 (pair_inode pair) block0;
     let d3 = set_entry_count d2 k0 (number_of_entries + 1);
     Some (0, write_block_direct d3 k0 0 block0)
   }"

text \<open>
  A block the directory does not have yet is allocated; its content is not cleared.
  \<open>None\<close> inside stands for the failed allocation.
\<close>

definition add_block ::
    "DiskInterface \<Rightarrow> InodeBtreePair \<Rightarrow> Inode \<Rightarrow> nat
     \<Rightarrow> ((Inode \<times> u64 \<times> nat) option \<times> DiskInterface) option" where
  "add_block d pair node i = do {
     (block, d1) \<leftarrow> alloc_page d;
     if block = 0 then Some (None, d1)
     else do {
       (_, node1, d2) \<leftarrow> inode_set_block d1 node (of_nat i) block;
       k \<leftarrow> get_block_direct d2 (pair_inode pair) block;
       let d3 = set_page d2 k (set_page_type (page_at d2 k) BLOCK_TYPE_DATA);
       (_, d4) \<leftarrow> inode_write d3 node1;
       Some (Some (node1, block, k), d4)
     }
   }"

fun add_loop ::
    "InodeBtreePair \<Rightarrow> u8 list \<Rightarrow> u64 \<Rightarrow> u32 \<Rightarrow> DirEntry \<Rightarrow> nat list \<Rightarrow> DiskInterface \<Rightarrow> Inode \<Rightarrow>
     u64 \<Rightarrow> nat \<Rightarrow> u16 \<Rightarrow> u16 \<Rightarrow> (int \<times> DiskInterface) option" where
  "add_loop pair name target type new_file [] d node block db number_of_entries count = Some (-1, d)"
| "add_loop pair name target type new_file (i # is) d node block db number_of_entries count = do {
     (_, block1) \<leftarrow> inode_get_block d node (of_nat i) block;
     (r, d1) \<leftarrow> (if block1 = 0 then add_block d pair node i else Some (Some (node, block1, db), d));
     (case r of
        None \<Rightarrow> Some (-1, d1)
      | Some (node1, block2, db1) \<Rightarrow> do {
          k \<leftarrow> get_block_direct d1 (pair_inode pair) block2;
          if page_type (page_at d1 k) \<noteq> block_type_code BLOCK_TYPE_DATA then Some (-1, d1)
          else
            let db2 = (if i = 0 then k else db1);
                number = (if i = 0 then entry_count (page_at d1 k) else number_of_entries)
            in case add_slot (page_at d1 k) (i = 0) (entry_count (page_at d1 db2)) count
                 [0..<(USABLE_BLOCK_SIZE - sizeof_DirectoryBlock) div sizeof_DirEntry] of
                 (Some j, _) \<Rightarrow>
                   add_commit d1 pair node1 name target type new_file block2 k (entry_at (i = 0) j) number
               | (None, count1) \<Rightarrow>
                   add_loop pair name target type new_file is d1 node1 block2 db2 number count1
        })
   }"

definition directory_add_entry ::
    "DiskInterface \<Rightarrow> u8 list \<Rightarrow> u8 list \<Rightarrow> u64 \<Rightarrow> u32 \<Rightarrow> DirEntry \<Rightarrow> (int \<times> DiskInterface) option" where
  "directory_add_entry d path name target_inode type junk = do {
     pair \<leftarrow> item_search d path;
     if NAME_MAX \<le> length name then None
     else do {
       let new_file = junk\<lparr>entry_inode := target_inode,
         entry_name := name @ 0 # drop (Suc (length name)) (entry_name junk), entry_active := True\<rparr>;
       if pair_inode pair \<noteq> 0 \<or> path = [slash] then do {
         (_, no) \<leftarrow> inode_read d (pair_inode pair);
         let node = (case no of None \<Rightarrow> zero_inode | Some n \<Rightarrow> n);
         add_loop pair name target_inode type new_file [0..<dir_blocks] d node 0 0 0 0
       }
       else Some (-1, d)
     }
   }"

subsection \<open>directory\_remove\_entry\<close>

text \<open>The scan of one block for the name, active or not; every entry passed is counted.\<close>

fun remove_slot :: "page \<Rightarrow> bool \<Rightarrow> u8 list \<Rightarrow> u16 \<Rightarrow> nat list \<Rightarrow> (nat option \<times> u16) option" where
  "remove_slot pg fst_blk name count [] = Some (None, count)"
| "remove_slot pg fst_blk name count (j # js) = do {
     eq \<leftarrow> strcmp_eq (rd_bytes pg (entry_at fst_blk j + 16) NAME_MAX) name;
     if eq then Some (Some j, count) else remove_slot pg fst_blk name (count + 1) js
   }"

text \<open>
  The entry is marked inactive, the count is lowered and set back to its old value. An
  inode with one reference is freed and its name taken out of the tree. The result is the
  code that ends the function, or the file's inode as it was read, the block and the page
  of the count for the blocks that follow.
\<close>

definition remove_commit ::
    "DiskInterface \<Rightarrow> InodeBtreePair \<Rightarrow> Inode \<Rightarrow> Inode \<Rightarrow> u8 list \<Rightarrow> u64 \<Rightarrow> nat \<Rightarrow> nat \<Rightarrow> nat \<Rightarrow> u16 \<Rightarrow> int \<Rightarrow>
     ((int + Inode \<times> u64 \<times> nat) \<times> DiskInterface) option" where
  "remove_commit d pair dir_node file_node name block k a db number_of_entries rv = do {
     let d1 = set_page d k (wr_bool (page_at d k) (a + 271) False);
     let d2 = set_entry_count d1 db (entry_count (page_at d1 db) - 1);
     let inum = rd64 (page_at d2 k) a;
     (_, fo) \<leftarrow> inode_read d2 inum;
     let file = (case fo of None \<Rightarrow> file_node | Some n \<Rightarrow> n);
     (failed, d3) \<leftarrow> (if reference_count file = 1 then do {
         (frv, d') \<leftarrow> inode_free d2 inum;
         if frv \<noteq> 0 then Some (True, d')
         else do {
           (_, d'') \<leftarrow> btree_delete d' (pair_btree pair) (path_hash name);
           Some (False, d'')
         }
       } else Some (False, d2));
     if failed then Some (Inl rv, d3)
     else do {
       (_, block0) \<leftarrow> inode_get_block d3 dir_node 0 block;
       k0 \<leftarrow> get_block_direct d3 (pair_inode pair) block0;
       let d4 = set_entry_count d3 k0 number_of_entries;
       Some (Inr (file, block0, k0), write_block_direct d4 k0 0 block0)
     }
   }"

fun remove_loop ::
    "InodeBtreePair \<Rightarrow> u8 list \<Rightarrow> nat list \<Rightarrow> DiskInterface \<Rightarrow> Inode \<Rightarrow> Inode \<Rightarrow>
     u64 \<Rightarrow> nat \<Rightarrow> u16 \<Rightarrow> u16 \<Rightarrow> int \<Rightarrow> (int \<times> DiskInterface) option" where
  "remove_loop pair name [] d dir_node file_node block db number_of_entries count rv = Some (rv, d)"
| "remove_loop pair name (i # is) d dir_node file_node block db number_of_entries count rv = do {
     (_, block1) \<leftarrow> inode_get_block d dir_node (of_nat i) block;
     if block1 = 0 then Some (rv, d)
     else do {
       k \<leftarrow> get_block_direct d (pair_inode pair) block1;
       if page_type (page_at d k) \<noteq> block_type_code BLOCK_TYPE_DATA then Some (rv, d)
       else do {
         let fst_blk = (count = 0);
         let db1 = (if fst_blk then k else db);
         let number = (if fst_blk then entry_count (page_at d k) else number_of_entries);
         if entry_count (page_at d db1) = count then Some (rv, d)
         else do {
           (slot, count1) \<leftarrow> remove_slot (page_at d k) fst_blk name count [0..<USABLE_BLOCK_SIZE div sizeof_DirEntry];
           case slot of
             None \<Rightarrow> remove_loop pair name is d dir_node file_node block1 db1 number count1 rv
           | Some j \<Rightarrow> do {
               (r, d1) \<leftarrow> remove_commit d pair dir_node file_node name block1 k (entry_at fst_blk j) db1 number rv;
               (case r of
                  Inl code \<Rightarrow> Some (code, d1)
                | Inr (file, block2, db2) \<Rightarrow> remove_loop pair name is d1 dir_node file block2 db2 number count1 0)
             }
         }
       }
     }
   }"

definition directory_remove_entry ::
    "DiskInterface \<Rightarrow> u8 list \<Rightarrow> u8 list \<Rightarrow> (int \<times> DiskInterface) option" where
  "directory_remove_entry d path name = do {
     pair \<leftarrow> item_search d path;
     if pair_inode pair \<noteq> 0 \<or> path = [slash] then do {
       (_, no) \<leftarrow> inode_read d (pair_inode pair);
       let dir_node = (case no of None \<Rightarrow> zero_inode | Some n \<Rightarrow> n);
       remove_loop pair name [0..<dir_blocks] d dir_node zero_inode 0 0 0 0 (-1)
     }
     else Some (-1, d)
   }"

subsection \<open>directory\_list\<close>

fun list_slots :: "page \<Rightarrow> bool \<Rightarrow> nat \<Rightarrow> nat list \<Rightarrow> DirEntry list \<Rightarrow> DirEntry list" where
  "list_slots pg fst_blk n_entries [] found = found"
| "list_slots pg fst_blk n_entries (j # js) found =
     (if n_entries \<le> length found then found
      else
        let e = entry_of_page pg (entry_at fst_blk j)
        in list_slots pg fst_blk n_entries js (if entry_active e then found @ [e] else found))"

fun list_loop ::
    "InodeBtreePair \<Rightarrow> DiskInterface \<Rightarrow> Inode \<Rightarrow> nat list \<Rightarrow> u64 \<Rightarrow> nat \<Rightarrow> DirEntry list \<Rightarrow> DirEntry list option" where
  "list_loop pair d node [] block db found = Some found"
| "list_loop pair d node (i # is) block db found = do {
     (_, block1) \<leftarrow> inode_get_block d node (of_nat i) block;
     if block1 = 0 then Some found
     else do {
       k \<leftarrow> get_block_direct d (pair_inode pair) block1;
       if page_type (page_at d k) \<noteq> block_type_code BLOCK_TYPE_DATA then Some found
       else
         let fst_blk = (found = []);
             db1 = (if fst_blk then k else db);
             n_entries = unat (entry_count (page_at d db1))
         in if n_entries = length found then Some found
            else list_loop pair d node is block1 db1
              (list_slots (page_at d k) fst_blk n_entries [0..<USABLE_BLOCK_SIZE div sizeof_DirEntry] found)
     }
   }"

text \<open>The array of entries that the caller receives; the function returns its length.\<close>

definition directory_list :: "DiskInterface \<Rightarrow> u8 list \<Rightarrow> DirEntry list option" where
  "directory_list d path = do {
     pair \<leftarrow> item_search d path;
     if pair_inode pair \<noteq> 0 \<or> path = [slash] then do {
       (_, no) \<leftarrow> inode_read d (pair_inode pair);
       let node = (case no of None \<Rightarrow> zero_inode | Some n \<Rightarrow> n);
       list_loop pair d node [0..<dir_blocks] 0 0 []
     }
     else Some []
   }"

end
