(* ===== verification/Fuse.thy ===== *)
theory Fuse
  imports Directory Format
begin

text \<open>
  The handlers of \<open>fuse.c\<close>, over the volume in the global variable \<open>disk\<close>. A handler
  returns its code and the new volume; output to \<open>stdout\<close> is left out. FUSE passes
  absolute paths and offsets that are not negative. The error codes are those of Linux.
\<close>

definition ENOENT :: int where [simp]: "ENOENT = 2"

definition EISDIR :: int where [simp]: "EISDIR = 21"

text \<open>
  What the system calls and the uninitialised stack hand to a handler: the time, the
  caller's ids, and the old content of the entry that \<open>directory_add_entry\<close> fills in.
\<close>

record Env =
  env_time :: u64
  env_uid :: u32
  env_gid :: u32
  env_junk :: DirEntry

subsection \<open>Attributes\<close>

definition nbtrfs_access :: "DiskInterface \<Rightarrow> u8 list \<Rightarrow> int option" where
  "nbtrfs_access d path = do {
     pair \<leftarrow> item_search d path;
     Some (if pair_inode pair \<noteq> 0 \<or> pair_btree pair \<noteq> 0 then 0 else - ENOENT)
   }"

record Stat =
  st_mode :: u32
  st_size :: u64
  st_uid :: u32
  st_gid :: u32
  st_nlink :: u64
  st_ctime :: u64
  st_mtime :: u64
  st_atime :: u64
  st_ino :: u64

definition stat_of :: "Inode \<Rightarrow> u64 \<Rightarrow> Stat" where
  "stat_of node ino = \<lparr>
     st_mode = i_mode node,
     st_size = i_size node,
     st_uid = owner_id node,
     st_gid = group_id node,
     st_nlink = reference_count node,
     st_ctime = i_creation_time node,
     st_mtime = i_modification_time node,
     st_atime = i_access_time node,
     st_ino = ino\<rparr>"

text \<open>The code and the attributes, which are set when the code is 0.\<close>

definition nbtrfs_getattr :: "DiskInterface \<Rightarrow> u8 list \<Rightarrow> (int \<times> Stat option) option" where
  "nbtrfs_getattr d path = do {
     pair \<leftarrow> item_search d path;
     if pair_inode pair \<noteq> 0 \<or> pair_btree pair \<noteq> 0 then do {
       (_, no) \<leftarrow> inode_read d (pair_inode pair);
       node \<leftarrow> no;
       Some (0, Some (stat_of node (pair_inode pair)))
     }
     else Some (- ENOENT, None)
   }"

text \<open>An assertion that fails aborts the program.\<close>

definition getattr_asserted :: "DiskInterface \<Rightarrow> u8 list \<Rightarrow> Stat option" where
  "getattr_asserted d path = do { (rv, st) \<leftarrow> nbtrfs_getattr d path; if rv = 0 then st else None }"

text \<open>A name field without a terminating zero would be read beyond its end.\<close>

fun readdir_loop :: "DiskInterface \<Rightarrow> u8 list \<Rightarrow> DirEntry list \<Rightarrow> (u8 list \<times> Stat) list option" where
  "readdir_loop d path [] = Some []"
| "readdir_loop d path (e # es) =
     (if 0 \<notin> set (entry_name e) then None
      else do {
        let name = c_string (entry_name e);
        let absolute = take (PATH_MAX - 1) (if 0 < count_l path then path @ slash # name else path @ name);
        st \<leftarrow> getattr_asserted d absolute;
        rest \<leftarrow> readdir_loop d path es;
        Some ((name, st) # rest)
      })"

text \<open>The names and attributes passed to \<open>filler\<close>, in order; the code is always 0.\<close>

definition nbtrfs_readdir :: "DiskInterface \<Rightarrow> u8 list \<Rightarrow> (int \<times> (u8 list \<times> Stat) list) option" where
  "nbtrfs_readdir d path = do {
     let l = count_l path;
     st \<leftarrow> getattr_asserted d path;
     up \<leftarrow> (if 0 < l then do {
         parent \<leftarrow> parent_path path l;
         st' \<leftarrow> getattr_asserted d parent;
         Some [([0x2E, 0x2E], st')]
       } else Some []);
     entries \<leftarrow> directory_list d path;
     rest \<leftarrow> readdir_loop d path entries;
     Some (0, ([0x2E], st) # up @ rest)
   }"

definition nbtrfs_chmod :: "DiskInterface \<Rightarrow> u8 list \<Rightarrow> u32 \<Rightarrow> (int \<times> DiskInterface) option" where
  "nbtrfs_chmod d path mode = do {
     pair \<leftarrow> item_search d path;
     (rv, no) \<leftarrow> inode_read d (pair_inode pair);
     if rv \<noteq> 0 then Some (rv, d)
     else do {
       node \<leftarrow> no;
       inode_write d (node\<lparr>i_mode := mode\<rparr>)
     }
   }"

text \<open>A time stamp: seconds and nanoseconds, as 64-bit words.\<close>

definition nbtrfs_utimens ::
    "DiskInterface \<Rightarrow> u8 list \<Rightarrow> u64 \<times> u64 \<Rightarrow> u64 \<times> u64 \<Rightarrow> (int \<times> DiskInterface) option" where
  "nbtrfs_utimens d path ts0 ts1 = do {
     pair \<leftarrow> item_search d path;
     (rv, no) \<leftarrow> inode_read d (pair_inode pair);
     if rv \<noteq> 0 then Some (rv, d)
     else do {
       node \<leftarrow> no;
       inode_write d (node\<lparr>i_access_time := fst ts0 * 1000000000 + snd ts0,
         i_modification_time := fst ts1 * 1000000000 + snd ts1\<rparr>)
     }
   }"

subsection \<open>Names\<close>

definition nbtrfs_mknod :: "Env \<Rightarrow> DiskInterface \<Rightarrow> u8 list \<Rightarrow> u32 \<Rightarrow> (int \<times> DiskInterface) option" where
  "nbtrfs_mknod E d path mode = do {
     parent \<leftarrow> parent_path path (count_l path);
     let name = get_name path;
     (inum, d1) \<leftarrow> inode_allocate d mode (env_uid E) (env_gid E);
     if inum = -1 then Some (-1, d1)
     else do {
       (rv, no) \<leftarrow> inode_read d1 (u64_of_int inum);
       if rv \<noteq> 0 then Some (rv, d1)
       else do {
         node0 \<leftarrow> no;
         let node = node0\<lparr>i_creation_time := env_time E\<rparr>;
         (rv', d2) \<leftarrow> inode_write d1 node;
         if rv' \<noteq> 0 then Some (rv', d2)
         else directory_add_entry d2 parent name (i_number node) (mode AND S_IFMT) (env_junk E)
       }
     }
   }"

definition nbtrfs_create :: "Env \<Rightarrow> DiskInterface \<Rightarrow> u8 list \<Rightarrow> u32 \<Rightarrow> (int \<times> DiskInterface) option" where
  "nbtrfs_create E d path mode = nbtrfs_mknod E d path (mode OR S_IFREG)"

definition nbtrfs_mkdir :: "Env \<Rightarrow> DiskInterface \<Rightarrow> u8 list \<Rightarrow> u32 \<Rightarrow> (int \<times> DiskInterface) option" where
  "nbtrfs_mkdir E d path mode = nbtrfs_mknod E d path (mode OR S_IFDIR)"

definition nbtrfs_unlink :: "DiskInterface \<Rightarrow> u8 list \<Rightarrow> (int \<times> DiskInterface) option" where
  "nbtrfs_unlink d path = do {
     parent \<leftarrow> parent_path path (count_l path);
     directory_remove_entry d parent (get_name path)
   }"

definition nbtrfs_link :: "Env \<Rightarrow> DiskInterface \<Rightarrow> u8 list \<Rightarrow> u8 list \<Rightarrow> (int \<times> DiskInterface) option" where
  "nbtrfs_link E d from_path to_path = do {
     from_pair \<leftarrow> item_search d from_path;
     (_, no) \<leftarrow> inode_read d (pair_inode from_pair);
     to_parent \<leftarrow> parent_path to_path (count_l to_path);
     let to_name = get_name to_path;
     from_inode \<leftarrow> no;
     (rv, d1) \<leftarrow> directory_add_entry d to_parent to_name (pair_inode from_pair)
       (i_mode from_inode AND S_IFMT) (env_junk E);
     if rv = 0 then do {
       (_, d2) \<leftarrow> inode_write d1 (from_inode\<lparr>reference_count := reference_count from_inode + 1\<rparr>);
       Some (rv, d2)
     }
     else Some (rv, d1)
   }"

definition nbtrfs_rmdir :: "DiskInterface \<Rightarrow> u8 list \<Rightarrow> (int \<times> DiskInterface) option" where
  "nbtrfs_rmdir d path = nbtrfs_unlink d path"

definition nbtrfs_rename :: "Env \<Rightarrow> DiskInterface \<Rightarrow> u8 list \<Rightarrow> u8 list \<Rightarrow> (int \<times> DiskInterface) option" where
  "nbtrfs_rename E d from_path to_path = do {
     (rv, d1) \<leftarrow> nbtrfs_link E d from_path to_path;
     if rv \<noteq> 0 then Some (rv, d1) else nbtrfs_unlink d1 from_path
   }"

subsection \<open>Data\<close>

definition nbtrfs_truncate :: "DiskInterface \<Rightarrow> u8 list \<Rightarrow> nat \<Rightarrow> (int \<times> DiskInterface) option" where
  "nbtrfs_truncate d path len = Some (0, d)"

definition nbtrfs_open :: "DiskInterface \<Rightarrow> u8 list \<Rightarrow> (int \<times> DiskInterface) option" where
  "nbtrfs_open d path = Some (0, d)"

definition nbtrfs_ioctl :: "DiskInterface \<Rightarrow> u8 list \<Rightarrow> int \<Rightarrow> (int \<times> DiskInterface) option" where
  "nbtrfs_ioctl d path cmd = Some (-1, d)"

text \<open>The block of a file that an offset falls into, as the \<open>int\<close> the handlers compute.\<close>

definition page_index :: "nat \<Rightarrow> u64" where
  "page_index off = u64_of_int (int_of_u64 (of_nat (off div USABLE_BLOCK_SIZE)))"

text \<open>How many bytes one round moves.\<close>

definition chunk :: "nat \<Rightarrow> int \<Rightarrow> nat" where
  "chunk off remaining = min (USABLE_BLOCK_SIZE - off mod USABLE_BLOCK_SIZE) (nat remaining)"

lemma chunk_pos: "0 < remaining \<Longrightarrow> 0 < chunk off remaining"
  by (simp add: chunk_def)

text \<open>
  The loop of \<open>nbtrfs_read\<close>: the bytes copied so far come back with the code, which is their
  number or, after an error of \<open>inode_get_block\<close>, that error.
\<close>

function read_loop :: "DiskInterface \<Rightarrow> Inode \<Rightarrow> int \<Rightarrow> nat \<Rightarrow> u8 list \<Rightarrow> (int \<times> u8 list) option" where
  "read_loop d node remaining off buf =
     (if remaining \<le> 0 then Some (int (length buf), buf)
      else do {
        (rv, pnum) \<leftarrow> inode_get_block d node (page_index off) 0;
        if rv \<noteq> 0 then Some (rv, buf)
        else if pnum = 0 then Some (int (length buf), buf)
        else do {
          k \<leftarrow> get_block_direct d (i_number node) pnum;
          let n = chunk off remaining;
          let bytes = rd_bytes (page_at d k) (4 + off mod USABLE_BLOCK_SIZE) n;
          read_loop d node (remaining - int n) (off + n) (buf @ bytes)
        }
      })"
  by auto
termination
  by (relation "measure (\<lambda>(_, _, remaining, _, _). nat remaining)") (use chunk_pos in auto)

declare read_loop.simps [simp del]

definition nbtrfs_read :: "DiskInterface \<Rightarrow> u8 list \<Rightarrow> u64 \<Rightarrow> nat \<Rightarrow> (int \<times> u8 list) option" where
  "nbtrfs_read d path len offset = do {
     pair \<leftarrow> item_search d path;
     if pair_inode pair = 0 \<and> pair_btree pair = 0 then Some (- ENOENT, [])
     else if pair_btree pair \<noteq> 0 then Some (- EISDIR, [])
     else do {
       (rv, no) \<leftarrow> inode_read d (pair_inode pair);
       if rv \<noteq> 0 then Some (rv, [])
       else do {
         node \<leftarrow> no;
         let off = (of_nat offset :: u64);
         if i_size node \<le> off then Some (0, [])
         else
           let len' = (if i_size node < off + len then i_size node - off else len)
           in if len' = 0 then Some (0, [])
              else read_loop d node (int_of_u64 len') offset []
       }
     }
   }"

text \<open>
  The loop of \<open>nbtrfs_write\<close>: \<open>buf\<close> holds the bytes still to be written. A missing block is
  allocated, cleared and entered into the inode, whose code is not looked at. The result
  tells whether the loop ran to its end, the bytes written, the inode and the volume.
\<close>

definition fresh_data_page :: page where
  "fresh_data_page = set_page_type zero_page BLOCK_TYPE_DATA"

definition write_block_for ::
    "DiskInterface \<Rightarrow> Inode \<Rightarrow> nat \<Rightarrow> (u64 \<times> Inode \<times> DiskInterface) option" where
  "write_block_for d node off = do {
     (_, pnum) \<leftarrow> inode_get_block d node (page_index off) 0;
     if pnum \<noteq> 0 then Some (pnum, node, d)
     else do {
       (p, d1) \<leftarrow> alloc_page d;
       if p = 0 then Some (0, node, d1)
       else do {
         k \<leftarrow> get_block_direct d1 (i_number node) p;
         let d2 = set_page d1 k fresh_data_page;
         (_, node1, d3) \<leftarrow> inode_set_block d2 node (page_index off) p;
         (_, d4) \<leftarrow> inode_write d3 node1;
         Some (p, node1, d4)
       }
     }
   }"

function write_loop ::
    "DiskInterface \<Rightarrow> Inode \<Rightarrow> int \<Rightarrow> nat \<Rightarrow> u8 list \<Rightarrow> int \<Rightarrow> (bool \<times> int \<times> Inode \<times> DiskInterface) option" where
  "write_loop d node remaining off buf written =
     (if remaining \<le> 0 then Some (True, written, node, d)
      else do {
        (pnum, node1, d1) \<leftarrow> write_block_for d node off;
        if pnum = 0 then Some (False, written, node1, d1)
        else do {
          k \<leftarrow> get_block_direct d1 (i_number node1) pnum;
          let n = chunk off remaining;
          let d2 = set_page d1 k (wr_bytes (page_at d1 k) (4 + off mod USABLE_BLOCK_SIZE) (take n buf));
          write_loop (write_block_direct d2 k (i_number node1) pnum) node1
            (remaining - int n) (off + n) (drop n buf) (written + int n)
        }
      })"
  by auto
termination
  by (relation "measure (\<lambda>(_, _, remaining, _, _, _). nat remaining)") (use chunk_pos in auto)

declare write_loop.simps [simp del]

text \<open>
  After a failed read of the inode the number of bytes is returned before it is initialised.
  The buffer has as many bytes as the parameter \<open>size\<close> says.
\<close>

definition nbtrfs_write :: "Env \<Rightarrow> DiskInterface \<Rightarrow> u8 list \<Rightarrow> u8 list \<Rightarrow> nat \<Rightarrow> (int \<times> DiskInterface) option" where
  "nbtrfs_write E d path buf offset = do {
     pair0 \<leftarrow> item_search d path;
     if pair_btree pair0 \<noteq> 0
     then Some (- EISDIR, d)
     else do {
       (pair, d1) \<leftarrow> (if pair_inode pair0 = 0 then do {
           (_, d') \<leftarrow> nbtrfs_mknod E d path (S_IFREG OR 0x1A4);
           pair' \<leftarrow> item_search d' path;
           Some (pair', d')
         } else Some (pair0, d));
       (rv, no) \<leftarrow> inode_read d1 (pair_inode pair);
       if rv \<noteq> 0 then None
       else do {
         node \<leftarrow> no;
         (finished, written, node1, d2) \<leftarrow>
           write_loop d1 node (int_of_u64 (of_nat (length buf))) offset buf 0;
         if \<not> finished then Some (written, d2)
         else if i_size node1 < of_nat offset + u64_of_int written then do {
           (_, d3) \<leftarrow> inode_write d2 (node1\<lparr>i_size := of_nat offset + u64_of_int written\<rparr>);
           Some (written, d3)
         }
         else Some (written, d2)
       }
     }
   }"

end
