(* ===== verification/Fs.thy ===== *)
theory Fs
  imports Fuse
begin

text \<open>
  The invariant of a mounted volume, and what each step of a handler keeps of it. Blocks of
  different kinds are told apart by their type tags; the invariant adds what the tags do
  not say.
\<close>

subsection \<open>The invariant\<close>

definition fs_ok :: "DiskInterface \<Rightarrow> bool" where
  "fs_ok d \<longleftrightarrow> volume_ok d \<and> inode_ok d \<and> index_ok (d, root_block d) \<and>
     val (node_at d (root_block d)) = 0 \<and> 0 < inode_capacity d \<and>
     (\<forall>i<inode_capacity d. used d (inode_bitmap_block d i) \<and> used d (inode_table_block d i) \<and>
        (\<forall>c<n_blocks d. inode_bitmap_block d i \<noteq> bitmap_block c))"

lemma fs_okD:
  assumes "fs_ok d"
  shows "volume_ok d" "inode_ok d" "index_ok (d, root_block d)" "0 < inode_capacity d" "super_ok d"
    "alloc_ok d" "node_ok d (root_block d)" "val (node_at d (root_block d)) = 0" "used d (root_block d)"
  using assms flat_treeD(1)
  by (auto simp: fs_ok_def volume_ok_def alloc_ok_def index_ok_def)

lemma fs_ok_inode_blocks:
  assumes "fs_ok d" "i < inode_capacity d"
  shows "used d (inode_bitmap_block d i)" "used d (inode_table_block d i)"
    "c < n_blocks d \<Longrightarrow> inode_bitmap_block d i \<noteq> bitmap_block c"
    "is_bitmap (page_at d (inode_bitmap_block d i))" "is_inode_block (page_at d (inode_table_block d i))"
    "valid_block d (inode_bitmap_block d i)" "valid_block d (inode_table_block d i)"
  using assms by (auto simp: fs_ok_def inode_ok_def)

lemma fs_ok_new_volume:
  assumes "fits n" "new_volume n name now uid gid d"
  shows "fs_ok d" "root_block d = lay_root n"
proof -
  note v = assms(2) [unfolded new_volume_def]
  have n: "88 \<le> n" "n \<le> 2 ^ 19" using assms(1) by (simp_all add: fits_def)
  note b = lay_bounds [OF n(1)]
  obtain sb where sb: "new_superblock n name now sb" "the_sb d = sb\<lparr>btree_root := of_nat (lay_root n)\<rparr>"
    using v by blast
  show r: "root_block d = lay_root n"
    using b n by (simp add: root_block_def sb(2) unat_of_nat_u64)
  have lv: "leaves d (lay_root n) = []" using v leaves_flat by blast
  have ix: "index_ok (d, lay_root n)"
    using v b by (simp add: index_ok_def lv)
  have lay: "unat (inode_bitmap (the_sb d)) = lay_ib n" "unat (inode_table_start (the_sb d)) = lay_table n"
  proof -
    note l = new_superblock_layout [OF assms(1) sb(1)]
    show "unat (inode_bitmap (the_sb d)) = lay_ib n" using l(1) by (simp add: sb(2))
    have "inode_table_start (the_sb d) = inode_table_start sb"
      by (simp add: sb(2) inode_table_start_def calculate_inode_bitmap_size_def)
    then show "unat (inode_table_start (the_sb d)) = lay_table n"
      using l(2) b n by (simp add: unat_of_nat_u64)
  qed
  have "used d (inode_bitmap_block d i) \<and> used d (inode_table_block d i) \<and>
        (\<forall>c<n_blocks d. inode_bitmap_block d i \<noteq> bitmap_block c)" if "i < inode_capacity d" for i
  proof -
    have i: "i < n div 88 * 22" using that v by simp
    have bl: "inode_bitmap_block d i = lay_ib n + i div 4092" "inode_table_block d i = lay_table n + i div 22"
      by (simp_all add: inode_bitmap_block_def inode_table_block_def lay)
    have u: "used d k" if "k < lay_root n" for k
      using that b v by simp
    have "used d (inode_bitmap_block d i)" "used d (inode_table_block d i)"
      using lay_inode_bitmap [OF i] lay_inode_table [OF i] b by (simp_all add: bl u)
    moreover have "inode_bitmap_block d i \<noteq> bitmap_block c" if "c < n_blocks d" for c
      using that lay_bitmap_block [of c n] v by (simp add: bl)
    ultimately show ?thesis by blast
  qed
  then show "fs_ok d"
    using v ix n by (simp add: fs_ok_def r div_greater_zero_iff)
qed

text \<open>
  A step from \<open>d\<close> to \<open>d'\<close> that keeps the invariant, all inodes outside \<open>I\<close>, all data blocks and
  tree nodes outside \<open>K\<close>, the blocks that are free afterwards, and the layout; blocks in use stay
  in use.
\<close>

definition is_data :: "DiskInterface \<Rightarrow> nat \<Rightarrow> bool" where
  "is_data d k \<longleftrightarrow> valid_block d k \<and> used d k \<and> page_type (page_at d k) = block_type_code BLOCK_TYPE_DATA"

definition is_tree :: "DiskInterface \<Rightarrow> nat \<Rightarrow> bool" where
  "is_tree d k \<longleftrightarrow> valid_block d k \<and> used d k \<and> is_node_block d k"

definition fs_step :: "nat set \<Rightarrow> nat set \<Rightarrow> DiskInterface \<Rightarrow> DiskInterface \<Rightarrow> bool" where
  "fs_step I K d d' \<longleftrightarrow> fs_ok d' \<and> n_blocks d' = n_blocks d \<and> layout_of d' = layout_of d \<and>
     root_block d' = root_block d \<and>
     (\<forall>i<inode_capacity d. i \<notin> I \<longrightarrow> inode_at d' i = inode_at d i \<and> inode_used d' i = inode_used d i) \<and>
     (\<forall>k<n_blocks d. used d k \<longrightarrow> used d' k) \<and>
     (\<forall>k. is_data d k \<or> is_tree d k \<longrightarrow> k \<notin> K \<longrightarrow> page_at d' k = page_at d k) \<and>
     (\<forall>k<n_blocks d. \<not> used d' k \<longrightarrow> page_at d' k = page_at d k)"

lemma valid_block_n_blocks: "n_blocks d' = n_blocks d \<Longrightarrow> valid_block d' k = valid_block d k"
  by (simp add: valid_block_def n_blocks_def)

lemma valid_block_less: "valid_block d k \<Longrightarrow> k < n_blocks d"
  by (simp add: valid_block_def n_blocks_def)

lemma fs_stepD:
  assumes "fs_step I K d d'"
  shows "fs_ok d'" "n_blocks d' = n_blocks d" "layout_of d' = layout_of d" "root_block d' = root_block d"
    "i < inode_capacity d \<Longrightarrow> i \<notin> I \<Longrightarrow> inode_at d' i = inode_at d i"
    "i < inode_capacity d \<Longrightarrow> i \<notin> I \<Longrightarrow> inode_used d' i = inode_used d i"
    "k < n_blocks d \<Longrightarrow> used d k \<Longrightarrow> used d' k"
    "is_data d k \<Longrightarrow> k \<notin> K \<Longrightarrow> page_at d' k = page_at d k"
    "inode_capacity d' = inode_capacity d" "valid_block d' k = valid_block d k"
    "is_data d k \<Longrightarrow> k \<notin> K \<Longrightarrow> is_data d' k"
    "is_tree d k \<Longrightarrow> k \<notin> K \<Longrightarrow> page_at d' k = page_at d k \<and> is_tree d' k"
    "k < n_blocks d \<Longrightarrow> \<not> used d' k \<Longrightarrow> page_at d' k = page_at d k"
proof -
  show a: "fs_ok d'" "n_blocks d' = n_blocks d" "layout_of d' = layout_of d" "root_block d' = root_block d"
    "i < inode_capacity d \<Longrightarrow> i \<notin> I \<Longrightarrow> inode_at d' i = inode_at d i"
    "i < inode_capacity d \<Longrightarrow> i \<notin> I \<Longrightarrow> inode_used d' i = inode_used d i"
    "k < n_blocks d \<Longrightarrow> used d k \<Longrightarrow> used d' k"
    "is_data d k \<Longrightarrow> k \<notin> K \<Longrightarrow> page_at d' k = page_at d k"
    "k < n_blocks d \<Longrightarrow> \<not> used d' k \<Longrightarrow> page_at d' k = page_at d k" for i k
    using assms by (simp_all add: fs_step_def)
  have t: "is_tree d k \<Longrightarrow> k \<notin> K \<Longrightarrow> page_at d' k = page_at d k" for k
    using assms by (simp add: fs_step_def)
  show "inode_capacity d' = inode_capacity d" by (rule layout_cong'(1) [OF a(3)])
  show v: "valid_block d' k = valid_block d k" by (rule valid_block_n_blocks [OF a(2)])
  show "is_data d k \<Longrightarrow> k \<notin> K \<Longrightarrow> is_data d' k"
    using a(7,8) v valid_block_less by (auto simp: is_data_def)
  show "is_tree d k \<Longrightarrow> k \<notin> K \<Longrightarrow> page_at d' k = page_at d k \<and> is_tree d' k"
    using a(7) t v valid_block_less by (auto simp: is_tree_def is_node_block_def)
qed

lemma fs_step_trans:
  assumes "fs_step I K d d'" "fs_step J L d' d''"
  shows "fs_step (I \<union> J) (K \<union> L) d d''"
proof -
  note s = fs_stepD [OF assms(1)] and t = fs_stepD [OF assms(2)]
  have "page_at d'' k = page_at d k" if "k < n_blocks d" "\<not> used d'' k" for k
    using s(2,13) t(7,13) that by metis
  moreover have "page_at d'' k = page_at d k" if "is_data d k \<or> is_tree d k" "k \<notin> K \<union> L" for k
    using that s(8,11,12) t(8,12) by auto
  ultimately show ?thesis
    using s(2-7,9) t(1-7) unfolding fs_step_def by auto
qed

lemma fs_step_refl: "fs_ok d \<Longrightarrow> fs_step {} {} d d"
  by (simp add: fs_step_def)

lemma fs_step_data: "fs_step I K d d' \<Longrightarrow> (\<And>k. k \<in> K \<Longrightarrow> is_data d k \<or> is_tree d k \<Longrightarrow> k \<in> L) \<Longrightarrow> fs_step I L d d'"
  unfolding fs_step_def by blast

lemma fs_step_mono: "fs_step I K d d' \<Longrightarrow> I \<subseteq> J \<Longrightarrow> K \<subseteq> L \<Longrightarrow> fs_step J L d d'"
  unfolding fs_step_def by blast

subsection \<open>Blocks of different kinds\<close>

lemma fs_tree_block:
  assumes "fs_ok d" "x = root_block d \<or> x \<in> set (leaves d (root_block d))"
  shows "is_node_block d x" "used d x" "valid_block d x" "x \<noteq> 0"
proof -
  have f: "flat_tree d (root_block d) (leaves d (root_block d))" and
    u: "list_all (used d) (root_block d # leaves d (root_block d))"
    using fs_okD(3) [OF assms(1)] by (simp_all add: index_ok_def)
  have "node_ok d x" using assms(2) flat_treeD(1) [OF f] leaf_okD(2) [OF flat_treeD(9) [OF f]] by blast
  then show "is_node_block d x" "valid_block d x" "x \<noteq> 0" by (simp_all add: node_ok_def)
  show "used d x" using assms(2) u by (auto simp: list_all_iff)
qed

lemma fs_bitmap_block:
  assumes "fs_ok d" "c < n_blocks d"
  shows "is_bitmap (page_at d (bitmap_block c))" "bitmap_block c < n_blocks d"
  using alloc_okD(1,2) [OF fs_okD(6) [OF assms(1)] assms(2)] by (simp_all add: valid_block_less)

text \<open>A data block is none of the blocks that the invariant speaks of.\<close>

lemma fs_data_apart:
  assumes "fs_ok d" "is_data d k"
  shows "k \<noteq> 0" "c < n_blocks d \<Longrightarrow> k \<noteq> bitmap_block c"
    "i < inode_capacity d \<Longrightarrow> k \<noteq> inode_bitmap_block d i" "i < inode_capacity d \<Longrightarrow> k \<noteq> inode_table_block d i"
    "k \<noteq> root_block d" "k \<notin> set (leaves d (root_block d))"
proof -
  have t: "page_type (page_at d k) = 0" using assms(2) by (simp add: is_data_def)
  show "k \<noteq> 0" using t fs_okD(5) [OF assms(1)] by (intro notI) (simp add: super_ok_def)
  show "c < n_blocks d \<Longrightarrow> k \<noteq> bitmap_block c"
    using t fs_bitmap_block(1) [OF assms(1)] by (auto simp: is_bitmap_def)
  show "i < inode_capacity d \<Longrightarrow> k \<noteq> inode_bitmap_block d i" "i < inode_capacity d \<Longrightarrow> k \<noteq> inode_table_block d i"
    using t fs_ok_inode_blocks(4,5) [OF assms(1)] by (auto simp: is_bitmap_def is_inode_block_def)
  show "k \<noteq> root_block d" "k \<notin> set (leaves d (root_block d))"
    using t fs_tree_block(1) [OF assms(1)] by (auto simp: is_node_block_def)
qed

lemma fs_tree_apart:
  assumes "fs_ok d" "x = root_block d \<or> x \<in> set (leaves d (root_block d))"
  shows "c < n_blocks d \<Longrightarrow> x \<noteq> bitmap_block c" "i < inode_capacity d \<Longrightarrow> x \<noteq> inode_bitmap_block d i"
    "i < inode_capacity d \<Longrightarrow> x \<noteq> inode_table_block d i"
  using fs_tree_block(1) [OF assms] fs_bitmap_block(1) [OF assms(1)] fs_ok_inode_blocks(4,5) [OF assms(1)]
  by (auto simp: is_node_block_def is_bitmap_def is_inode_block_def)

lemma fs_inode_apart:
  assumes "fs_ok d" "i < inode_capacity d"
  shows "inode_bitmap_block d i \<noteq> 0" "inode_table_block d i \<noteq> 0"
    "c < n_blocks d \<Longrightarrow> inode_table_block d i \<noteq> bitmap_block c"
    "j < inode_capacity d \<Longrightarrow> inode_table_block d i \<noteq> inode_bitmap_block d j"
  using fs_ok_inode_blocks(4,5) [OF assms] fs_ok_inode_blocks(4) [OF assms(1)] fs_bitmap_block(1) [OF assms(1)]
    fs_okD(5) [OF assms(1)]
  by (auto simp: is_bitmap_def is_inode_block_def super_ok_def intro!: gr0I)

lemma fs_free_apart:
  assumes "fs_ok d" "next_free d b"
  shows "\<not> is_data d b" "i < inode_capacity d \<Longrightarrow> b \<noteq> inode_bitmap_block d i"
    "i < inode_capacity d \<Longrightarrow> b \<noteq> inode_table_block d i"
    "b \<noteq> root_block d" "b \<notin> set (leaves d (root_block d))"
  using assms(2) fs_ok_inode_blocks(1,2) [OF assms(1)] fs_tree_block(2) [OF assms(1)]
  by (auto simp: next_free_def is_data_def)

text \<open>The same for the nodes of any tree.\<close>

lemma fs_tree_node: "fs_ok d \<Longrightarrow> x = root_block d \<or> x \<in> set (leaves d (root_block d)) \<Longrightarrow> is_tree d x"
  using fs_tree_block(1-3) by (simp add: is_tree_def)

lemma is_tree_not_data: "is_tree d k \<Longrightarrow> \<not> is_data d k"
  by (simp add: is_tree_def is_data_def is_node_block_def)

lemma fs_node_apart:
  assumes "fs_ok d" "is_tree d x"
  shows "x \<noteq> 0" "c < n_blocks d \<Longrightarrow> x \<noteq> bitmap_block c" "i < inode_capacity d \<Longrightarrow> x \<noteq> inode_bitmap_block d i"
    "i < inode_capacity d \<Longrightarrow> x \<noteq> inode_table_block d i" "next_free d b \<Longrightarrow> x \<noteq> b" "is_data d k \<Longrightarrow> x \<noteq> k"
  using assms(2) fs_bitmap_block(1) [OF assms(1)] fs_ok_inode_blocks(4,5) [OF assms(1)] fs_okD(5) [OF assms(1)] is_tree_not_data
  by (auto simp: is_tree_def is_node_block_def is_bitmap_def is_inode_block_def super_ok_def next_free_def intro!: gr0I)

text \<open>
  The trees of a volume: a leaf names its root as its parent, so trees with different roots share
  no node, and a step that changes no node of a tree keeps the tree.
\<close>

lemma index_nodes:
  assumes "index_ok (d, r)" "x = r \<or> x \<in> set (leaves d r)"
  shows "is_tree d x" "node_ok d x"
proof -
  have f: "flat_tree d r (leaves d r)" and u: "list_all (used d) (r # leaves d r)"
    using assms(1) by (simp_all add: index_ok_def)
  show n: "node_ok d x" using assms(2) flat_treeD(1) [OF f] leaf_okD(2) [OF flat_treeD(9) [OF f]] by blast
  have "used d x" using assms(2) u by (auto simp: list_all_iff)
  then show "is_tree d x" using n by (simp add: is_tree_def node_ok_def)
qed

lemma index_apart:
  assumes "index_ok (d, r)" "index_ok (d, r')" "r \<noteq> r'"
  shows "r \<notin> set (leaves d r')" "l \<in> set (leaves d r) \<Longrightarrow> l \<notin> set (leaves d r')"
proof -
  have f: "flat_tree d r (leaves d r)" "flat_tree d r' (leaves d r')"
    using assms(1,2) by (simp_all add: index_ok_def)
  note n = flat_treeD(1) [OF f(1)] flat_treeD(1) [OF f(2)]
  have u: "unat (of_nat r :: u64) = r" "unat (of_nat r' :: u64) = r'"
    using node_ok_unat n by blast+
  show "r \<notin> set (leaves d r')"
  proof
    assume "r \<in> set (leaves d r')"
    then have "parent (node_at d r) = of_nat r'" by (rule leaf_okD(5) [OF flat_treeD(9) [OF f(2)]])
    then show False using flat_treeD(3) [OF f(1)] node_ok_of_nat_nz [OF n(2)] by simp
  qed
  show "l \<notin> set (leaves d r')" if "l \<in> set (leaves d r)"
  proof
    assume "l \<in> set (leaves d r')"
    then have "(of_nat r :: u64) = of_nat r'"
      using leaf_okD(5) [OF flat_treeD(9) [OF f(2)]] leaf_okD(5) [OF flat_treeD(9) [OF f(1) that]] by simp
    then show False using u assms(3) by metis
  qed
qed

lemma tree_frame:
  assumes "fs_step I K d d'" "index_ok (d, r)" "\<forall>x\<in>K. is_tree d x \<longrightarrow> x \<noteq> r \<and> index_ok (d, x)"
  shows "index_ok (d', r)" "index_entries (d', r) = index_entries (d, r)" "leaves d' r = leaves d r"
    "node_at d' r = node_at d r"
proof -
  note t = fs_stepD [OF assms(1)]
  have k: "page_at d' x = page_at d x \<and> used d' x" if "x = r \<or> x \<in> set (leaves d r)" for x
  proof -
    have tr: "is_tree d x" by (rule index_nodes(1) [OF assms(2) that])
    have "x \<notin> K"
    proof
      assume "x \<in> K"
      then have "x \<noteq> r" "index_ok (d, x)" using assms(3) tr by blast+
      then show False using that index_apart(1) [OF _ assms(2)] by blast
    qed
    then show ?thesis using t(12) [OF tr] by (simp add: is_tree_def)
  qed
  have vol: "volume_ok d'" by (rule fs_okD(1) [OF t(1)])
  note ix = index_cong [OF assms(2) vol t(10)]
  show "index_ok (d', r)" "index_entries (d', r) = index_entries (d, r)" "leaves d' r = leaves d r"
    using ix k by blast+
  show "node_at d' r = node_at d r" using k by (simp add: node_at_def)
qed

subsection \<open>Steps that leave the inode table and the tree alone\<close>

lemma fs_frame:
  assumes "fs_ok d" "volume_ok d'" "n_blocks d' = n_blocks d" "layout_of d' = layout_of d"
    and "root_block d' = root_block d" "\<forall>k<n_blocks d. used d k \<longrightarrow> used d' k"
    and pages: "\<forall>i<inode_capacity d. page_at d' (inode_bitmap_block d i) = page_at d (inode_bitmap_block d i)
      \<and> page_at d' (inode_table_block d i) = page_at d (inode_table_block d i)"
    and tree: "\<forall>k. k = root_block d \<or> k \<in> set (leaves d (root_block d)) \<longrightarrow> page_at d' k = page_at d k"
    and data: "\<forall>k. is_data d k \<or> is_tree d k \<longrightarrow> k \<notin> K \<longrightarrow> page_at d' k = page_at d k"
    and free: "\<forall>k<n_blocks d. \<not> used d' k \<longrightarrow> page_at d' k = page_at d k"
  shows "fs_step {} K d d'" "index_entries (d', root_block d') = index_entries (d, root_block d)"
    "leaves d' (root_block d') = leaves d (root_block d)"
proof -
  have v: "valid_block d' k = valid_block d k" for k by (rule valid_block_n_blocks [OF assms(3)])
  have super: "super_ok d'" using assms(2) by (auto simp: volume_ok_def alloc_ok_def)
  note ino = inode_cong [OF fs_okD(2) [OF assms(1)] assms(4) super v pages]
  have tr: "\<forall>k. k = root_block d \<or> k \<in> set (leaves d (root_block d)) \<longrightarrow> page_at d' k = page_at d k \<and> used d' k"
    using tree fs_tree_block(2,3) [OF assms(1)] assms(6) valid_block_less by blast
  note ix = index_cong [OF fs_okD(3) [OF assms(1)] assms(2) v tr]
  show "index_entries (d', root_block d') = index_entries (d, root_block d)"
    "leaves d' (root_block d') = leaves d (root_block d)"
    using ix assms(5) by simp_all
  have "node_at d' (root_block d) = node_at d (root_block d)" using tree by (simp add: node_at_def)
  then have "fs_ok d'"
    using assms(1,2,3,5,6) ino ix fs_ok_inode_blocks [OF assms(1)] layout_cong' [OF assms(4)]
    by (simp add: fs_ok_def valid_block_less)
  then show "fs_step {} K d d'"
    using assms ino by (simp add: fs_step_def)
qed

text \<open>Storing into a data block.\<close>

lemma fs_set_data:
  assumes "fs_ok d" "is_data d k" "page_type pg = block_type_code BLOCK_TYPE_DATA"
  shows "fs_step {} {k} d (set_page d k pg)"
    "index_entries (set_page d k pg, root_block d) = index_entries (d, root_block d)"
    "leaves (set_page d k pg) (root_block d) = leaves d (root_block d)"
    "c < n_blocks d \<Longrightarrow> used (set_page d k pg) c = used d c"
    "is_data (set_page d k pg) k"
proof -
  note a = fs_data_apart [OF assms(1,2)]
  have vol: "volume_ok (set_page d k pg)" by (rule volume_ok_set_page [OF fs_okD(1) [OF assms(1)] a(1,2)])
  have us: "used (set_page d k pg) c = used d c" if "c < n_blocks d" for c
    using set_page_plain(1) [OF a(1,2) that] .
  have lay: "layout_of (set_page d k pg) = layout_of d" "root_block (set_page d k pg) = root_block d"
    using a(1) by (simp_all add: layout_of_def root_block_def)
  have tree: "\<forall>x. x = root_block d \<or> x \<in> set (leaves d (root_block d)) \<longrightarrow> page_at (set_page d k pg) x = page_at d x"
    using a(5,6) by (metis page_at_set_page)
  have inos: "\<forall>i<inode_capacity d.
      page_at (set_page d k pg) (inode_bitmap_block d i) = page_at d (inode_bitmap_block d i)
      \<and> page_at (set_page d k pg) (inode_table_block d i) = page_at d (inode_table_block d i)"
    using a(3,4) by (metis page_at_set_page)
  have data: "\<forall>x. is_data d x \<or> is_tree d x \<longrightarrow> x \<notin> {k} \<longrightarrow> page_at (set_page d k pg) x = page_at d x" by simp
  have free: "\<forall>x<n_blocks d. \<not> used (set_page d k pg) x \<longrightarrow> page_at (set_page d k pg) x = page_at d x"
    using us assms(2) by (auto simp: is_data_def)
  have mono: "\<forall>c<n_blocks d. used d c \<longrightarrow> used (set_page d k pg) c" using us by simp
  note fr = fs_frame [OF assms(1) vol n_blocks_set_page lay mono inos tree data free]
  show "fs_step {} {k} d (set_page d k pg)" by (rule fr(1))
  show "index_entries (set_page d k pg, root_block d) = index_entries (d, root_block d)"
    "leaves (set_page d k pg) (root_block d) = leaves d (root_block d)"
    using fr(2,3) lay(2) by simp_all
  show "c < n_blocks d \<Longrightarrow> used (set_page d k pg) c = used d c" by (rule us)
  show "is_data (set_page d k pg) k"
    using assms(2,3) us valid_block_less by (auto simp: is_data_def)
qed

text \<open>Allocating a block and filling it.\<close>

lemma fs_take_block:
  assumes "fs_ok d" "next_free d b" and vol: "volume_ok d'"
    and lay: "n_blocks d' = n_blocks d" "layout_of d' = layout_of d" "root_block d' = root_block d"
    and us: "\<And>c. c < n_blocks d \<Longrightarrow> used d' c = (c = b \<or> used d c)"
    and pg: "\<And>k. k \<noteq> 0 \<Longrightarrow> k \<noteq> bitmap_block b \<Longrightarrow> k \<noteq> b \<Longrightarrow> page_at d' k = page_at d k"
  shows "fs_step {} {} d d'" "index_entries (d', root_block d) = index_entries (d, root_block d)"
    "leaves d' (root_block d) = leaves d (root_block d)"
proof -
  note nf = next_freeD [OF fs_okD(1) [OF assms(1)] assms(2)]
  note fa = fs_free_apart [OF assms(1,2)]
  have tree: "\<forall>k. k = root_block d \<or> k \<in> set (leaves d (root_block d)) \<longrightarrow> page_at d' k = page_at d k"
  proof (intro allI impI)
    fix k
    assume k: "k = root_block d \<or> k \<in> set (leaves d (root_block d))"
    then show "page_at d' k = page_at d k"
      using fs_tree_block(4) [OF assms(1) k] fs_tree_apart(1) [OF assms(1) k nf(5)] fa(4,5) by (intro pg) auto
  qed
  have inos: "\<forall>i<inode_capacity d. page_at d' (inode_bitmap_block d i) = page_at d (inode_bitmap_block d i)
      \<and> page_at d' (inode_table_block d i) = page_at d (inode_table_block d i)"
  proof (intro allI impI)
    fix i
    assume i: "i < inode_capacity d"
    have "inode_bitmap_block d i \<noteq> b" "inode_table_block d i \<noteq> b" using fa(2,3) [OF i] by simp_all
    then show "page_at d' (inode_bitmap_block d i) = page_at d (inode_bitmap_block d i)
      \<and> page_at d' (inode_table_block d i) = page_at d (inode_table_block d i)"
      using pg fs_inode_apart(1,2) [OF assms(1) i] fs_inode_apart(3) [OF assms(1) i nf(5)]
        fs_ok_inode_blocks(3) [OF assms(1) i nf(5)] by blast
  qed
  have data: "\<forall>k. is_data d k \<or> is_tree d k \<longrightarrow> k \<notin> {} \<longrightarrow> page_at d' k = page_at d k"
    using fs_data_apart(1,2) [OF assms(1)] fs_node_apart(1,2,5) [OF assms(1)] assms(2) fa(1) nf(5) pg by metis
  have mono: "\<forall>k<n_blocks d. used d k \<longrightarrow> used d' k" using us by simp
  have free: "\<forall>k<n_blocks d. \<not> used d' k \<longrightarrow> page_at d' k = page_at d k"
    using us pg nf(5) fs_okD(1) [OF assms(1)] by (metis volume_ok_def)
  note fr = fs_frame [OF assms(1) vol lay mono inos tree data free]
  show "fs_step {} {} d d'" by (rule fr(1))
  show "index_entries (d', root_block d) = index_entries (d, root_block d)"
    "leaves d' (root_block d) = leaves d (root_block d)" using fr(2,3) lay(3) by simp_all
qed

lemma fs_alloc_data:
  assumes "fs_ok d" "next_free d b" "page_type pg = block_type_code BLOCK_TYPE_DATA"
  defines "d' \<equiv> set_page (alloc_result d b) b pg"
  shows "fs_step {} {} d d'" "index_entries (d', root_block d) = index_entries (d, root_block d)"
    "leaves d' (root_block d) = leaves d (root_block d)"
    "c < n_blocks d \<Longrightarrow> used d' c = (c = b \<or> used d c)" "is_data d' b" "page_at d' b = pg"
proof -
  note nf = next_freeD [OF fs_okD(1) [OF assms(1)] assms(2)]
  note ar = alloc_result_frame [where d = d and b = b]
  have plain: "c < n_blocks (alloc_result d b) \<Longrightarrow> b \<noteq> bitmap_block c" for c
    using nf(3) ar(2) by simp
  have vol: "volume_ok d'"
    unfolding d'_def
    by (rule volume_ok_set_page [OF volume_ok_alloc_result [OF fs_okD(1) [OF assms(1)]] nf(1) plain])
  have us: "used d' c = (c = b \<or> used d c)" if "c < n_blocks d" for c
    using set_page_plain(1) [where d = "alloc_result d b" and pg = pg and c = c, OF nf(1) plain] that ar(1,2)
    by (simp add: d'_def)
  have pg: "page_at d' k = page_at d k" if "k \<noteq> 0" "k \<noteq> bitmap_block b" "k \<noteq> b" for k
    using that ar(7) by (simp add: d'_def)
  have lay: "n_blocks d' = n_blocks d" "layout_of d' = layout_of d" "root_block d' = root_block d"
    using nf(1) ar(2,4) by (simp_all add: d'_def layout_of_def root_block_def)
  show "fs_step {} {} d d'" "index_entries (d', root_block d) = index_entries (d, root_block d)"
    "leaves d' (root_block d) = leaves d (root_block d)"
    using fs_take_block [OF assms(1,2) vol lay us pg] by blast+
  show "c < n_blocks d \<Longrightarrow> used d' c = (c = b \<or> used d c)" by (rule us)
  show "page_at d' b = pg" by (simp add: d'_def)
  then show "is_data d' b"
    using nf(2,5) us assms(3) valid_block_n_blocks [OF lay(1)] by (simp add: is_data_def)
qed

end
