(* ===== verification/Fs_Steps.thy ===== *)
theory Fs_Steps
  imports Fs
begin

text \<open>
  Steps that change the inode table or the directory tree: what \<open>inode_write\<close>,
  \<open>inode_allocate\<close> and \<open>btree_insert\<close> keep of the invariant of a mounted volume.
\<close>

lemma fs_stepI:
  assumes "fs_ok d" "volume_ok d'" "inode_ok d'" "index_ok (d', root_block d)"
    and "val (node_at d' (root_block d)) = 0" "n_blocks d' = n_blocks d" "layout_of d' = layout_of d"
    and "root_block d' = root_block d" "\<forall>k<n_blocks d. used d k \<longrightarrow> used d' k"
    and "\<forall>i<inode_capacity d. i \<notin> I \<longrightarrow> inode_at d' i = inode_at d i \<and> inode_used d' i = inode_used d i"
    and "\<forall>k. is_data d k \<or> is_tree d k \<longrightarrow> k \<notin> K \<longrightarrow> page_at d' k = page_at d k"
    and "\<forall>k<n_blocks d. \<not> used d' k \<longrightarrow> page_at d' k = page_at d k"
  shows "fs_step I K d d'"
proof -
  have "fs_ok d'"
    using assms fs_ok_inode_blocks [OF assms(1)] layout_cong' [OF assms(7)]
    by (simp add: fs_ok_def valid_block_less)
  then show ?thesis using assms by (simp add: fs_step_def)
qed

subsection \<open>The inode table\<close>

text \<open>A change of pages that belong to the inode table only.\<close>

lemma fs_frame_inodes:
  assumes "fs_ok d" "inode_ok d'" "n_blocks d' = n_blocks d" "the_sb d' = the_sb d"
    and inos: "\<forall>i<inode_capacity d. i \<notin> I \<longrightarrow> inode_at d' i = inode_at d i \<and> inode_used d' i = inode_used d i"
    and b: "b < inode_capacity d"
    and pages: "\<And>k. k \<noteq> inode_bitmap_block d b \<Longrightarrow> k \<noteq> inode_table_block d b \<Longrightarrow> page_at d' k = page_at d k"
  shows "fs_step I {} d d'" "index_entries (d', root_block d') = index_entries (d, root_block d)"
    "leaves d' (root_block d') = leaves d (root_block d)" "c < n_blocks d \<Longrightarrow> used d' c = used d c"
proof -
  have v: "valid_block d' k = valid_block d k" for k by (rule valid_block_n_blocks [OF assms(3)])
  have lay: "layout_of d' = layout_of d" "root_block d' = root_block d"
    using assms(4) by (simp_all add: layout_of_def root_block_def)
  have super: "super_ok d'" using inode_okD(1) [OF assms(2)] b layout_cong'(1) [OF lay(1)] by simp
  have bits: "\<forall>c<n_blocks d. page_at d' (bitmap_block c) = page_at d (bitmap_block c)"
    using pages fs_ok_inode_blocks(3) [OF assms(1) b] fs_inode_apart(3) [OF assms(1) b] by metis
  note vol = volume_ok_cong [OF fs_okD(1) [OF assms(1)] assms(3) super bits]
  have tree: "\<forall>k. k = root_block d \<or> k \<in> set (leaves d (root_block d)) \<longrightarrow>
      page_at d' k = page_at d k \<and> used d' k"
    using pages fs_tree_apart(2,3) [OF assms(1) _ b] fs_tree_block(2,3) [OF assms(1)] vol(2) valid_block_less
    by metis
  note ix = index_cong [OF fs_okD(3) [OF assms(1)] vol(1) v tree]
  show "index_entries (d', root_block d') = index_entries (d, root_block d)"
    "leaves d' (root_block d') = leaves d (root_block d)" using ix by (simp_all add: lay)
  show "c < n_blocks d \<Longrightarrow> used d' c = used d c" by (rule vol(2))
  have "node_at d' (root_block d) = node_at d (root_block d)" using tree by (simp add: node_at_def)
  then have val: "val (node_at d' (root_block d)) = 0" using fs_okD(8) [OF assms(1)] by simp
  have data: "\<forall>k. is_data d k \<or> is_tree d k \<longrightarrow> k \<notin> {} \<longrightarrow> page_at d' k = page_at d k"
    using pages fs_data_apart(3,4) [OF assms(1) _ b] fs_node_apart(3,4) [OF assms(1) _ b] by blast
  have mono: "\<forall>k<n_blocks d. used d k \<longrightarrow> used d' k" using vol(2) by blast
  have free: "\<forall>k<n_blocks d. \<not> used d' k \<longrightarrow> page_at d' k = page_at d k"
    using pages vol(2) fs_ok_inode_blocks(1,2) [OF assms(1) b] by metis
  show "fs_step I {} d d'"
    by (rule fs_stepI [OF assms(1) vol(1) assms(2) ix(1) val assms(3) lay mono inos data free])
qed

lemma fs_set_inode:
  assumes "fs_ok d" "i < inode_capacity d" "inode_wf n"
  shows "fs_step {i} {} d (set_inode d i n)"
    "index_entries (set_inode d i n, root_block d) = index_entries (d, root_block d)"
    "leaves (set_inode d i n) (root_block d) = leaves d (root_block d)"
    "c < n_blocks d \<Longrightarrow> used (set_inode d i n) c = used d c"
    "inode_at (set_inode d i n) i = n" "j < inode_capacity d \<Longrightarrow> inode_used (set_inode d i n) j = inode_used d j"
    "root_block (set_inode d i n) = root_block d"
proof -
  note ok = fs_okD(2) [OF assms(1)]
  note fr = set_inode_frame [OF ok assms(2), where n = n]
  have nb: "n_blocks (set_inode d i n) = n_blocks d" by (simp add: set_inode_def)
  have inos: "\<forall>j<inode_capacity d. j \<notin> {i} \<longrightarrow> inode_at (set_inode d i n) j = inode_at d j
      \<and> inode_used (set_inode d i n) j = inode_used d j"
    using inode_at_set_inode [OF ok assms(2,3)] inode_used_set_inode [OF ok assms(2)] by simp
  note st = fs_frame_inodes [OF assms(1) inode_ok_set_inode [OF ok assms(2)] nb fr(1) inos assms(2) fr(5)]
  show "root_block (set_inode d i n) = root_block d" using fr(1) by (simp add: root_block_def)
  then show "fs_step {i} {} d (set_inode d i n)"
    "index_entries (set_inode d i n, root_block d) = index_entries (d, root_block d)"
    "leaves (set_inode d i n) (root_block d) = leaves d (root_block d)"
    "c < n_blocks d \<Longrightarrow> used (set_inode d i n) c = used d c"
    using st by simp_all
  show "inode_at (set_inode d i n) i = n" using inode_at_set_inode [OF ok assms(2,3)] by simp
  show "j < inode_capacity d \<Longrightarrow> inode_used (set_inode d i n) j = inode_used d j"
    by (rule inode_used_set_inode [OF ok assms(2)])
qed

lemma fs_inode_alloc:
  fixes mode uid gid :: u32
  assumes "fs_ok d" "i < inode_capacity d"
  defines "d' \<equiv> inode_alloc_result d i mode uid gid"
  shows "fs_step {i} {} d d'" "index_entries (d', root_block d) = index_entries (d, root_block d)"
    "leaves d' (root_block d) = leaves d (root_block d)"
    "c < n_blocks d \<Longrightarrow> used d' c = used d c"
    "inode_at d' i = fresh_inode (inode_at d i) i mode uid gid"
    "j < inode_capacity d \<Longrightarrow> inode_used d' j = (j = i \<or> inode_used d j)"
    "root_block d' = root_block d"
proof -
  note ok = fs_okD(2) [OF assms(1)]
  note fr = inode_alloc_result_facts [OF ok assms(2), where mode = mode and uid = uid and gid = gid,
      folded d'_def]
  have inos: "\<forall>j<inode_capacity d. j \<notin> {i} \<longrightarrow> inode_at d' j = inode_at d j \<and> inode_used d' j = inode_used d j"
    using fr(3,4) by simp
  note st = fs_frame_inodes [OF assms(1) fr(1,6,5) inos assms(2) fr(7)]
  show "root_block d' = root_block d" using fr(5) by (simp add: root_block_def)
  then show "fs_step {i} {} d d'" "index_entries (d', root_block d) = index_entries (d, root_block d)"
    "leaves d' (root_block d) = leaves d (root_block d)" "c < n_blocks d \<Longrightarrow> used d' c = used d c"
    using st by simp_all
  show "inode_at d' i = fresh_inode (inode_at d i) i mode uid gid" using fr(4) assms(2) by simp
  show "j < inode_capacity d \<Longrightarrow> inode_used d' j = (j = i \<or> inode_used d j)" using fr(3) by simp
qed

subsection \<open>The trees of directories\<close>

text \<open>An insertion into any tree of the volume changes the root of this tree only.\<close>

lemma fs_tree_insert:
  assumes "fs_ok d" "index_ok (d, r)" "index_room (d, r)" "k \<noteq> 0"
  obtains b d' where "next_free d b" "btree_insert d (of_nat r) k v ty = Some (0, d')"
    "fs_step {} {r} d d'" "index_ok (d', r)" "index_entries (d', r) = entry_insert (k, v, ty) (index_entries (d, r))"
    "\<And>c. c < n_blocks d \<Longrightarrow> used d' c = (c = b \<or> used d c)"
    "leaves d' r = ins_leaf d (leaves d r) k b"
    "val (node_at d' r) = val (node_at d r)" "node_type (node_at d' r) = node_type (node_at d r)"
proof -
  let ?r = "root_block d"
  obtain b d' where b: "next_free d b" "btree_insert d (of_nat r) k v ty = Some (0, d')"
      "flat_inserted d r (leaves d r) b k v ty d'" "index_ok (d', r)"
      "index_entries (d', r) = entry_insert (k, v, ty) (index_entries (d, r))"
    using index_insert_step [OF assms(2,3,4)] by blast
  note e = b(3) [unfolded flat_inserted_def]
  note nf = next_freeD [OF fs_okD(1) [OF assms(1)] b(1)]
  note fa = fs_free_apart [OF assms(1) b(1)]
  have tr: "is_tree d r" by (rule index_nodes(1) [OF assms(2) disjI1 [OF refl]])
  have pg: "\<And>j. j \<noteq> 0 \<Longrightarrow> j \<noteq> bitmap_block b \<Longrightarrow> j \<noteq> b \<Longrightarrow> j \<noteq> r \<Longrightarrow> page_at d' j = page_at d j"
    using e by simp
  have us: "\<And>c. c < n_blocks d \<Longrightarrow> used d' c = (c = b \<or> used d c)" using e by simp
  have super: "super_ok d'" using e by (auto simp: volume_ok_def alloc_ok_def)
  have lay: "layout_of d' = layout_of d" "root_block d' = root_block d"
    using e by (simp_all add: layout_of_def root_block_def)
  have inos: "\<forall>i<inode_capacity d. page_at d' (inode_bitmap_block d i) = page_at d (inode_bitmap_block d i)
      \<and> page_at d' (inode_table_block d i) = page_at d (inode_table_block d i)"
  proof (intro allI impI)
    fix i
    assume i: "i < inode_capacity d"
    have "inode_bitmap_block d i \<noteq> b" "inode_table_block d i \<noteq> b" using fa(2,3) [OF i] by simp_all
    moreover have "inode_bitmap_block d i \<noteq> r" "inode_table_block d i \<noteq> r"
      using fs_node_apart(3,4) [OF assms(1) tr i] by simp_all
    ultimately show "page_at d' (inode_bitmap_block d i) = page_at d (inode_bitmap_block d i)
      \<and> page_at d' (inode_table_block d i) = page_at d (inode_table_block d i)"
      using pg fs_inode_apart(1,2) [OF assms(1) i] fs_inode_apart(3) [OF assms(1) i nf(5)]
        fs_ok_inode_blocks(3) [OF assms(1) i nf(5)] by blast
  qed
  have v: "\<And>k. valid_block d' k = valid_block d k" using e by simp
  note ino = inode_cong [OF fs_okD(2) [OF assms(1)] lay(1) super v inos]
  have inos': "\<forall>i<inode_capacity d. i \<notin> {} \<longrightarrow> inode_at d' i = inode_at d i \<and> inode_used d' i = inode_used d i"
    using ino(2,3) by blast
  have data: "\<forall>x. is_data d x \<or> is_tree d x \<longrightarrow> x \<notin> {r} \<longrightarrow> page_at d' x = page_at d x"
  proof (intro allI impI)
    fix x
    assume x: "is_data d x \<or> is_tree d x" "x \<notin> {r}"
    then have "x \<noteq> 0" "x \<noteq> bitmap_block b" "x \<noteq> b"
      using fs_data_apart(1,2) [OF assms(1)] fs_node_apart(1,2,5) [OF assms(1)] b(1) fa(1) nf(5) by blast+
    then show "page_at d' x = page_at d x" using pg x(2) by simp
  qed
  have mono: "\<forall>k<n_blocks d. used d k \<longrightarrow> used d' k" using us by blast
  have leaves': "leaves d' r = ins_leaf d (leaves d r) k b" using e leaves_flat by blast
  have free: "\<forall>x<n_blocks d. \<not> used d' x \<longrightarrow> page_at d' x = page_at d x"
  proof (intro allI impI)
    fix x
    assume x: "x < n_blocks d" "\<not> used d' x"
    then have "\<not> used d x" "x \<noteq> b" using us by simp_all
    moreover from this have "x \<noteq> 0" "x \<noteq> bitmap_block b" "x \<noteq> r"
      using tr nf(5) fs_okD(1) [OF assms(1)] by (auto simp: is_tree_def volume_ok_def intro!: gr0I)
    ultimately show "page_at d' x = page_at d x" using pg by blast
  qed
  have root: "index_ok (d', ?r) \<and> val (node_at d' ?r) = 0"
  proof (cases "r = ?r")
    case True
    then show ?thesis using b(4) e fs_okD(8) [OF assms(1)] by simp
  next
    case False
    have pgs: "\<forall>x. x = ?r \<or> x \<in> set (leaves d ?r) \<longrightarrow> page_at d' x = page_at d x \<and> used d' x"
    proof (intro allI impI)
      fix x
      assume x: "x = ?r \<or> x \<in> set (leaves d ?r)"
      have "is_tree d x" by (rule fs_tree_node [OF assms(1) x])
      moreover have "x \<noteq> r" using x False index_apart(1) [OF assms(2) fs_okD(3) [OF assms(1)]] by blast
      ultimately show "page_at d' x = page_at d x \<and> used d' x"
        using data us valid_block_less by (auto simp: is_tree_def)
    qed
    have vol: "volume_ok d'" using e by blast
    have "node_at d' ?r = node_at d ?r" using pgs by (simp add: node_at_def)
    then show ?thesis
      using index_cong(1) [OF fs_okD(3) [OF assms(1)] vol v pgs] fs_okD(8) [OF assms(1)] by simp
  qed
  have "fs_step {} {r} d d'"
    using e root by (intro fs_stepI [OF assms(1) _ ino(1) _ _ _ lay mono inos' data free]) simp_all
  with b(1,2,4,5) us leaves' e show ?thesis by (intro that [of b d']) simp_all
qed

text \<open>
  A tree root as \<open>directory_add_entry\<close> makes it for a new directory: an empty tree that carries
  the directory's inode and the mark of a directory. The node is written twice.
\<close>

definition dir_node :: "BTreeNode \<Rightarrow> nat \<Rightarrow> u64 \<Rightarrow> BTreeNode" where
  "dir_node n b target = (blank_node n False b)\<lparr>val := target, node_type := FILE_TYPE_DIRECTORY\<rparr>"

lemma node_wf_dir_node [simp]: "node_wf (dir_node n b target)"
  by (simp add: dir_node_def blank_node_def node_wf_def)

definition tree_result :: "DiskInterface \<Rightarrow> nat \<Rightarrow> u64 \<Rightarrow> DiskInterface" where
  "tree_result d b target =
     set_node (set_node (create_result d False b) b (dir_node (node_at d b) b target)) b (dir_node (node_at d b) b target)"

lemma tree_result_frame:
  assumes "volume_ok d" "next_free d b"
  shows "node_at (tree_result d b target) b = dir_node (node_at d b) b target"
    "n_blocks (tree_result d b target) = n_blocks d" "the_sb (tree_result d b target) = the_sb (create_result d False b)"
    "k \<noteq> b \<Longrightarrow> page_at (tree_result d b target) k = page_at (create_result d False b) k"
    "is_node_block (tree_result d b target) b" "volume_ok (tree_result d b target)"
    "c < n_blocks d \<Longrightarrow> used (tree_result d b target) c = (c = b \<or> used d c)"
proof -
  note nf = next_freeD [OF assms]
  let ?d1 = "create_result d False b"
  note c = create_result_frame [OF assms, where leaf = False]
  let ?n = "dir_node (node_at d b) b target"
  let ?d2 = "set_node ?d1 b ?n"
  have plain: "\<And>c. c < n_blocks ?d1 \<Longrightarrow> b \<noteq> bitmap_block c" "\<And>c. c < n_blocks ?d2 \<Longrightarrow> b \<noteq> bitmap_block c"
    using nf(3) c(3) by (simp_all add: set_node_def)
  show "node_at (tree_result d b target) b = ?n" by (simp add: tree_result_def)
  show "n_blocks (tree_result d b target) = n_blocks d" using c(3) by (simp add: tree_result_def set_node_def)
  show "the_sb (tree_result d b target) = the_sb ?d1" using nf(1) by (simp add: tree_result_def set_node_def)
  show "k \<noteq> b \<Longrightarrow> page_at (tree_result d b target) k = page_at ?d1 k" by (simp add: tree_result_def set_node_def)
  show "is_node_block (tree_result d b target) b"
    using c(2) by (simp add: tree_result_def set_node_def is_node_block_def)
  have "volume_ok ?d2" unfolding set_node_def by (rule volume_ok_set_page [OF c(8) nf(1) plain(1)])
  then show "volume_ok (tree_result d b target)"
    unfolding tree_result_def set_node_def by (rule volume_ok_set_page [OF _ nf(1)]) (use plain in \<open>simp add: set_node_def\<close>)
  show "used (tree_result d b target) c = (c = b \<or> used d c)" if "c < n_blocks d"
    using set_page_plain(1) [where d = ?d1 and c = c, OF nf(1) plain(1)] that c(3,7)
      set_page_plain(1) [where d = ?d2 and c = c, OF nf(1) plain(2)]
    by (simp add: tree_result_def set_node_def)
qed

lemma fs_tree_create:
  fixes target :: u64
  assumes "fs_ok d" "next_free d b"
  defines "d' \<equiv> tree_result d b target"
  shows "fs_step {} {} d d'" "index_ok (d', b)" "leaves d' b = []" "val (node_at d' b) = target"
    "node_type (node_at d' b) = FILE_TYPE_DIRECTORY" "c < n_blocks d \<Longrightarrow> used d' c = (c = b \<or> used d c)"
    "node_ok d' b"
proof -
  note nf = next_freeD [OF fs_okD(1) [OF assms(1)] assms(2)]
  note c = create_result_frame [OF fs_okD(1) [OF assms(1)] assms(2), where leaf = False]
  note t = tree_result_frame [OF fs_okD(1) [OF assms(1)] assms(2), where target = target, folded d'_def]
  have lay: "n_blocks d' = n_blocks d" "layout_of d' = layout_of d" "root_block d' = root_block d"
    using c(9) t(2,3) by (simp_all add: layout_of_def root_block_def)
  have pg: "page_at d' k = page_at d k" if "k \<noteq> 0" "k \<noteq> bitmap_block b" "k \<noteq> b" for k
    using that c(6) t(4) by simp
  show "fs_step {} {} d d'" by (rule fs_take_block(1) [OF assms(1,2) t(6) lay t(7) pg])
  show lv: "leaves d' b = []" by (simp add: leaves_def t(1) dir_node_def blank_node_def)
  show ok: "node_ok d' b"
    using nf(1,2) t(1,5) by (simp add: node_ok_def valid_block_n_blocks [OF lay(1)] dir_node_def blank_node_def)
  have "used d' b" using t(7) nf(5) by simp
  then show "index_ok (d', b)"
    using t(1,6) ok by (simp add: index_ok_def lv flat_tree_def dir_node_def blank_node_def)
  show "val (node_at d' b) = target" "node_type (node_at d' b) = FILE_TYPE_DIRECTORY"
    by (simp_all add: t(1) dir_node_def)
  show "c < n_blocks d \<Longrightarrow> used d' c = (c = b \<or> used d c)" by (rule t(7))
qed

end
