(* ===== verification/Sample_Fs.thy ===== *)
theory Sample_Fs
  imports Sample Fs_Steps
begin

text \<open>The sample volume as a mounted volume, and the volume with one file in its tree.\<close>

lemma sample_fs: "fs_ok sample_volume" "root_block sample_volume = 8"
  using fs_ok_new_volume [OF _ sample_new] by (simp_all add: fits_def sample_layout)

lemma sample_blank: "8 < k \<Longrightarrow> k < 512 \<Longrightarrow> page_at sample_volume k = zero_page"
  using sample_new by (simp add: new_volume_def sample_layout)

lemma sample_inodes:
  "i < 110 \<Longrightarrow> i_size (inode_at sample_volume i) = 0"
  "i < 110 \<Longrightarrow> direct_blocks (inode_at sample_volume i) = replicate 12 0"
  "i < 110 \<Longrightarrow> indirect_block (inode_at sample_volume i) = 0"
  "i_number (inode_at sample_volume 0) = 0" "i_mode (inode_at sample_volume 0) = 0x41ED"
  "owner_id (inode_at sample_volume 0) = 1000" "group_id (inode_at sample_volume 0) = 1000"
  "reference_count (inode_at sample_volume 0) = 1"
  using sample_new by (auto simp: new_volume_def sample_layout S_IFDIR_def)

lemma sample_super: "super_ok sample_volume" "node_ok sample_volume 8" "index_ok (sample_volume, root_block sample_volume)"
  "index_room (sample_volume, root_block sample_volume)"
  using sample_facts(6) flat_treeD(1) [OF sample_facts(4)] sample_index(1,2) sample_fs(2) by simp_all

text \<open>The name \<open>a\<close>.\<close>

definition name_a :: "u8 list" where "name_a = [0x61]"

lemma name_a_facts: "name_ok name_a" "path_hash name_a = 0xaf63dc4c8601ec8c" "length name_a = 1"
  by (simp_all add: name_a_def name_ok_def path_hash_def hash_step_def slash_def)

lemma sample_with_leaf:
  obtains d where "fs_ok d" "root_block d = 8" "index_entries (d, 8) = [(path_hash name_a, v, ty)]"
proof -
  have nz: "path_hash name_a \<noteq> 0" by (simp add: name_a_facts)
  from fs_tree_insert [OF sample_fs(1) fs_okD(3) [OF sample_fs(1)] sample_super(4) nz, of v ty]
  obtain b d' where "fs_step {} {root_block sample_volume} sample_volume d'"
      "index_entries (d', root_block sample_volume)
       = entry_insert (path_hash name_a, v, ty) (index_entries (sample_volume, root_block sample_volume))"
    by blast
  then show ?thesis
    using fs_stepD(1,4) sample_index(3) sample_fs(2) by (intro that [of d']) simp_all
qed

end
