(* ===== verification/Path_Theorems.thy ===== *)
theory Path_Theorems
  imports Sample_Fs
begin

text \<open>The properties of paths, of the hash of a name and of the search for a path.\<close>

text \<open>
  C40: On a path made of names that are not empty and contain no slash, the helpers take the
  path apart as it was put together: count_l counts the names, get_name returns the last one,
  parent_path the path without it, and split the names in order.
\<close>

theorem path_helpers_invert:
  assumes "\<forall>s\<in>set names. name_ok s" "name_ok s" "length (path_of names) < PATH_MAX"
  shows "count_l (path_of (names @ [s])) = Suc (length names)
    \<and> get_name (path_of (names @ [s])) = s
    \<and> parent_path (path_of (names @ [s])) (count_l (path_of (names @ [s]))) = Some (path_of names)
    \<and> (\<forall>i\<le>length names. split (path_of (names @ [s])) (Suc i) = Some ((names @ [s]) ! i))"
proof -
  have ok: "\<forall>s\<in>set (names @ [s]). name_ok s" using assms(1,2) by simp
  show ?thesis
    using count_l_path_of [OF ok] get_name_path_of [OF assms(2)] parent_path_path_of [OF assms(2,1,3)]
      split_path_of [OF ok] by simp
qed

theorem path_helpers_invert_witness:
  "parent_path (path_of [name_a, name_a]) 2 = Some (path_of [name_a])
     \<and> get_name (path_of [name_a, name_a]) = name_a"
  using path_helpers_invert [of "[name_a]" name_a] name_a_facts(1,3) by (auto simp: path_of_def numeral_2_eq_2)

text \<open>
  Two names that differ in one byte have different hashes.
\<close>

lemma path_hash_one_byte: "path_hash (xs @ c # ys) = path_hash (xs @ c' # ys) \<longleftrightarrow> c = c'"
  by (rule path_hash_one_char)

text \<open>
  C39: The search for a path along sound directories. As long as at most one name is found, it
  gives the result of walking from the root and looking one name after the other up in the
  directories' indices: the inode and the tree root of a directory, the inode and no tree root of
  a file, and zeros for a missing name. When a second name is found the search is undefined: it
  prints curr_path into itself.
\<close>

theorem item_search_is_walk:
  assumes "fs_ok d" "walk_sound d (root_block d) names"
    and "\<forall>s\<in>set names. name_ok s" "length (path_of names) < PATH_MAX"
  shows "item_search d (path_of names) =
    (if second_found d (root_block d) names then None else walk d (root_block d) names)"
  using item_search_sound [OF fs_okD(5,7) [OF assms(1)] assms(2-4)] .

theorem item_search_is_walk_witness:
  "\<exists>d. item_search d (path_of [name_a]) = Some \<lparr>pair_inode = 5, pair_btree = 0\<rparr>"
proof -
  obtain d where d: "fs_ok d" "root_block d = 8" "index_entries (d, 8) = [(path_hash name_a, 5, FILE_TYPE_REGULAR)]"
    by (rule sample_with_leaf)
  then have ok: "index_ok (d, 8)" using fs_okD(3) by metis
  have ty: "FILE_TYPE_REGULAR \<noteq> FILE_TYPE_DIRECTORY" by (simp add: FILE_TYPE_REGULAR_def FILE_TYPE_DIRECTORY_def)
  have "item_search d (path_of [name_a]) = walk d (root_block d) [name_a]"
    using item_search_is_walk [OF d(1), of "[name_a]"] d ok ty name_a_facts(1,3) by (simp add: path_of_def)
  also have "\<dots> = Some \<lparr>pair_inode = 5, pair_btree = 0\<rparr>"
    using d ok ty by (simp add: index_lookup_abs)
  finally show ?thesis by blast
qed

end
