(* ===== verification/Dir_Facts.thy ===== *)
theory Dir_Facts
  imports Fs_Steps
begin

text \<open>
  The root directory as a list of entries: while it has one block and its entries lie side
  by side, \<open>directory_list\<close> returns the list and \<open>directory_add_entry\<close> appends to it.
\<close>

subsection \<open>The entries of a block\<close>

lemma length_entry_name [simp]: "length (entry_name (entry_of_page pg a)) = NAME_MAX"
  by (simp add: entry_of_page_def)

lemma entry_of_to_page:
  "length (entry_name e) = NAME_MAX \<Longrightarrow> entry_of_page (entry_to_page e pg a) a = e"
  by (simp add: entry_of_page_def entry_to_page_def page_simps)

lemma entry_of_to_page_other:
  "length (entry_name e) = NAME_MAX \<Longrightarrow> b + 272 \<le> a \<or> a + 272 \<le> b \<Longrightarrow>
   entry_of_page (entry_to_page e pg a) b = entry_of_page pg b"
  by (auto simp: entry_of_page_def entry_to_page_def page_simps)

lemma entry_of_wr16: "a + 2 \<le> b \<Longrightarrow> entry_of_page (wr16 pg a v) b = entry_of_page pg b"
  by (simp add: entry_of_page_def page_simps)

lemma page_type_entry_to_page [simp]: "4 \<le> a \<Longrightarrow> page_type (entry_to_page e pg a) = page_type pg"
  by (simp add: entry_to_page_def page_simps)

lemma entry_count_to_page [simp]: "6 \<le> a \<Longrightarrow> entry_count (entry_to_page e pg a) = entry_count pg"
  by (simp add: entry_count_def entry_to_page_def page_simps)

text \<open>The entries in the slots of a directory's first block.\<close>

definition slot_entry :: "page \<Rightarrow> nat \<Rightarrow> DirEntry" where
  "slot_entry pg j = entry_of_page pg (entry_at True j)"

definition packed :: "page \<Rightarrow> nat \<Rightarrow> bool" where
  "packed pg n \<longleftrightarrow> entry_count pg = of_nat n \<and> n \<le> 15 \<and> (\<forall>j<n. entry_active (slot_entry pg j))"

lemma slot_active: "rd_bool pg (entry_at True j + 271) = entry_active (slot_entry pg j)"
  by (simp add: slot_entry_def entry_of_page_def)

lemma packed_count: "packed pg n \<Longrightarrow> unat (entry_count pg) = n"
  by (simp add: packed_def unat_of_nat_u16)

lemma add_slot_packed:
  assumes "packed pg n" "n < 15" "i \<le> n"
  shows "add_slot pg True (of_nat n) (of_nat i) [i..<15] = (Some n, of_nat n)"
  using assms(3)
proof (induction "n - i" arbitrary: i)
  case 0
  then show ?case using assms(2) by (simp add: upt_conv_Cons del: upt_Suc)
next
  case (Suc m)
  then have i: "i < n" by simp
  have "(of_nat i :: u16) \<noteq> of_nat n"
    using i assms(2) unat_of_nat_u16 [of i] unat_of_nat_u16 [of n] by force
  then have "add_slot pg True (of_nat n) (of_nat i) [i..<15] = add_slot pg True (of_nat n) (of_nat (Suc i)) [Suc i..<15]"
    using i assms by (simp add: upt_conv_Cons slot_active packed_def add.commute del: upt_Suc)
  also have "\<dots> = (Some n, of_nat n)" using Suc.hyps(2) i by (intro Suc.hyps(1)) simp_all
  finally show ?case .
qed

lemma list_slots_packed:
  assumes "packed pg n" "i \<le> n"
  shows "list_slots pg True n [i..<15] (map (slot_entry pg) [0..<i]) = map (slot_entry pg) [0..<n]"
  using assms(2)
proof (induction "n - i" arbitrary: i)
  case 0
  then show ?case by (cases "[i..<15]") simp_all
next
  case (Suc m)
  then have i: "i < n" by simp
  then have "list_slots pg True n [i..<15] (map (slot_entry pg) [0..<i])
      = list_slots pg True n [Suc i..<15] (map (slot_entry pg) [0..<Suc i])"
    using assms(1) by (simp add: upt_conv_Cons packed_def slot_entry_def [symmetric] Let_def)
  also have "\<dots> = map (slot_entry pg) [0..<n]" using Suc.hyps(2) i by (intro Suc.hyps(1)) simp_all
  finally show ?case .
qed

text \<open>The block after an entry is added behind the others.\<close>

definition with_entry :: "page \<Rightarrow> nat \<Rightarrow> DirEntry \<Rightarrow> page" where
  "with_entry pg n e = wr16 (entry_to_page e pg (entry_at True n)) 4 (of_nat n + 1)"

lemma with_entry_facts:
  assumes "length (entry_name e) = NAME_MAX"
  shows "page_type (with_entry pg n e) = page_type pg"
    "entry_count (with_entry pg n e) = of_nat n + 1"
    "slot_entry (with_entry pg n e) n = e"
    "j \<noteq> n \<Longrightarrow> slot_entry (with_entry pg n e) j = slot_entry pg j"
proof -
  have slots: "slot_entry (with_entry pg n e) j = entry_of_page (entry_to_page e pg (entry_at True n)) (entry_at True j)" for j
    by (simp add: slot_entry_def with_entry_def entry_of_wr16 entry_at_def first_entry_def)
  show "page_type (with_entry pg n e) = page_type pg" "entry_count (with_entry pg n e) = of_nat n + 1"
    by (simp_all add: with_entry_def entry_at_def first_entry_def page_simps entry_count_def)
  show "slot_entry (with_entry pg n e) n = e" by (simp add: slots entry_of_to_page [OF assms])
  show "slot_entry (with_entry pg n e) j = slot_entry pg j" if "j \<noteq> n"
  proof -
    have "entry_at True j + 272 \<le> entry_at True n \<or> entry_at True n + 272 \<le> entry_at True j"
      using that by (auto simp: entry_at_def)
    then show ?thesis by (simp add: slots entry_of_to_page_other [OF assms]) (simp add: slot_entry_def)
  qed
qed

lemma packed_with_entry:
  assumes "packed pg n" "n < 15" "length (entry_name e) = NAME_MAX" "entry_active e"
  shows "packed (with_entry pg n e) (Suc n)"
    "map (slot_entry (with_entry pg n e)) [0..<Suc n] = map (slot_entry pg) [0..<n] @ [e]"
  using assms with_entry_facts [OF assms(3), where pg = pg and n = n] by (auto simp: packed_def less_Suc_eq)

end
