(* ===== verification/Dir_Ops.thy ===== *)
theory Dir_Ops
  imports Dir_Facts
begin

text \<open>
  The operations of \<open>directory.c\<close> on a directory of a mounted volume. The directory has an inode
  \<open>i\<close> and a tree with the root \<open>r\<close>, and at most one block, whose entries lie side by side, or no
  block yet.
\<close>

subsection \<open>A directory's block\<close>

definition dir_first :: "DiskInterface \<Rightarrow> nat \<Rightarrow> u64" where
  "dir_first d i = direct_blocks (inode_at d i) ! 0"

definition dir_page :: "DiskInterface \<Rightarrow> nat \<Rightarrow> page" where
  "dir_page d i = page_at d (unat (dir_first d i))"

definition dir_ok :: "DiskInterface \<Rightarrow> nat \<Rightarrow> nat \<Rightarrow> bool" where
  "dir_ok d i n \<longleftrightarrow> i < inode_capacity d \<and> i_number (inode_at d i) = of_nat i \<and> direct_blocks (inode_at d i) ! 1 = 0 \<and>
     (if dir_first d i = 0 then n = 0 else is_data d (unat (dir_first d i)) \<and> packed (dir_page d i) n)"

definition dir_entries :: "DiskInterface \<Rightarrow> nat \<Rightarrow> DirEntry list" where
  "dir_entries d i = (if dir_first d i = 0 then []
     else map (slot_entry (dir_page d i)) [0..<unat (entry_count (dir_page d i))])"

text \<open>The root directory has the inode 0.\<close>

abbreviation "root_first d \<equiv> dir_first d 0"

abbreviation "root_page d \<equiv> dir_page d 0"

abbreviation "root_dir d \<equiv> dir_ok d 0"

abbreviation "root_entries d \<equiv> dir_entries d 0"

lemma dir_okD:
  assumes "dir_ok d i n" "dir_first d i \<noteq> 0"
  shows "is_data d (unat (dir_first d i))" "packed (dir_page d i) n"
    "dir_entries d i = map (slot_entry (dir_page d i)) [0..<n]" "length (dir_entries d i) = n"
  using assms packed_count [of "dir_page d i" n] by (auto simp: dir_ok_def dir_entries_def)

lemma length_dir_entries: "dir_ok d i n \<Longrightarrow> length (dir_entries d i) = n"
  using dir_okD(4) by (cases "dir_first d i = 0") (simp_all add: dir_ok_def dir_entries_def)

lemma dir_step:
  assumes "dir_ok d i n" "fs_step I K d d'" "dir_first d i \<noteq> 0 \<longrightarrow> unat (dir_first d i) \<notin> K"
    and "i_number (inode_at d' i) = i_number (inode_at d i)" "direct_blocks (inode_at d' i) = direct_blocks (inode_at d i)"
  shows "dir_ok d' i n" "dir_entries d' i = dir_entries d i" "dir_first d' i = dir_first d i"
proof -
  note st = fs_stepD [OF assms(2)]
  show f: "dir_first d' i = dir_first d i" using assms(5) by (simp add: dir_first_def)
  have "dir_first d i \<noteq> 0 \<Longrightarrow> dir_page d' i = dir_page d i \<and> is_data d' (unat (dir_first d i))"
    using assms(1,3) st(8,11) f by (simp add: dir_ok_def dir_page_def)
  then show "dir_ok d' i n" "dir_entries d' i = dir_entries d i"
    using assms(1,4,5) f st(9) by (auto simp: dir_ok_def dir_entries_def)
qed

lemma dir_step_other:
  assumes "dir_ok d i n" "fs_step I K d d'" "i \<notin> I" "dir_first d i \<noteq> 0 \<longrightarrow> unat (dir_first d i) \<notin> K"
  shows "dir_ok d' i n" "dir_entries d' i = dir_entries d i" "dir_first d' i = dir_first d i" "inode_at d' i = inode_at d i"
proof -
  show i: "inode_at d' i = inode_at d i"
    using fs_stepD(5) [OF assms(2) _ assms(3)] assms(1) by (simp add: dir_ok_def)
  note s = dir_step [OF assms(1,2,4)]
  show "dir_ok d' i n" "dir_entries d' i = dir_entries d i" "dir_first d' i = dir_first d i"
    using s i by simp_all
qed

lemma get_data_block:
  "is_data d (unat p) \<Longrightarrow> get_block_direct d ino p = Some (unat p)"
  by (simp add: is_data_def)

lemma dir_blocks_upt: "[0..<dir_blocks] = 0 # 1 # [2..<dir_blocks]"
proof -
  have "2 \<le> dir_blocks" by (simp add: dir_blocks_def)
  then show ?thesis by (simp add: upt_conv_Cons numeral_2_eq_2 del: upt_Suc)
qed

lemma dir_blocks_upt1: "[0..<dir_blocks] = 0 # [1..<dir_blocks]"
proof -
  have "0 < dir_blocks" by (simp add: dir_blocks_def)
  then show ?thesis by (simp add: upt_conv_Cons del: upt_Suc)
qed

lemma inode_get_block_direct:
  "unat idx < NDIRECT \<Longrightarrow>
   inode_get_block d n idx cur = Some (if direct_blocks n ! unat idx \<noteq> 0 then 0 else -1, direct_blocks n ! unat idx)"
  by (simp add: inode_get_block_def)

subsection \<open>Paths of directories\<close>

lemma of_nat_inode_nz:
  assumes "0 < i" "i < inode_capacity d"
  shows "(of_nat i :: u64) \<noteq> 0"
proof
  assume "(of_nat i :: u64) = 0"
  moreover have "unat (of_nat i :: u64) = i" by (rule unat_of_nat_u64 [OF inode_number_small(1) [OF assms(2)]])
  ultimately show False using assms(1) by simp
qed

lemma item_search_root:
  assumes "fs_ok d"
  shows "item_search d [slash] = Some \<lparr>pair_inode = 0, pair_btree = of_nat (root_block d)\<rparr>"
  using item_search_start [OF fs_okD(5,7) [OF assms], of "[slash]"] fs_okD(8) [OF assms] by simp

lemma inode_read_root: "fs_ok d \<Longrightarrow> inode_read d 0 = Some (0, Some (inode_at d 0))"
  using inode_read_ok [OF fs_okD(2,4)] by simp

definition dir_pair :: "nat \<Rightarrow> nat \<Rightarrow> InodeBtreePair" where
  "dir_pair i r = \<lparr>pair_inode = of_nat i, pair_btree = of_nat r\<rparr>"

text \<open>The search for the path ends at the directory; only the root's path leads to the inode 0.\<close>

definition finds_dir :: "DiskInterface \<Rightarrow> u8 list \<Rightarrow> nat \<Rightarrow> nat \<Rightarrow> bool" where
  "finds_dir d path i r \<longleftrightarrow> item_search d path = Some (dir_pair i r) \<and> (i = 0 \<longrightarrow> path = [slash])"

lemma finds_root: "fs_ok d \<Longrightarrow> finds_dir d [slash] 0 (root_block d)"
  by (simp add: finds_dir_def dir_pair_def item_search_root)

lemma finds_dirD:
  assumes "fs_ok d" "finds_dir d path i r" "dir_ok d i n"
  shows "item_search d path = Some (dir_pair i r)" "pair_inode (dir_pair i r) \<noteq> 0 \<or> path = [slash]"
    "inode_read d (pair_inode (dir_pair i r)) = Some (0, Some (inode_at d i))"
proof -
  have i: "i < inode_capacity d" using assms(3) by (simp add: dir_ok_def)
  show "item_search d path = Some (dir_pair i r)" using assms(2) by (simp add: finds_dir_def)
  show "pair_inode (dir_pair i r) \<noteq> 0 \<or> path = [slash]"
    using assms(2) of_nat_inode_nz [OF _ i] by (auto simp: finds_dir_def dir_pair_def)
  show "inode_read d (pair_inode (dir_pair i r)) = Some (0, Some (inode_at d i))"
    using inode_read_ok [OF fs_okD(2) [OF assms(1)] i] by (simp add: dir_pair_def)
qed

subsection \<open>directory\_list\<close>

lemma directory_list_dir:
  assumes "fs_ok d" "finds_dir d path i r" "dir_ok d i n"
  shows "directory_list d path = Some (dir_entries d i)"
proof -
  note look = finds_dirD [OF assms]
  have nx: "direct_blocks (inode_at d i) ! 1 = 0" "direct_blocks (inode_at d i) ! 0 = dir_first d i"
    using assms(3) by (simp_all add: dir_ok_def dir_first_def)
  show ?thesis
  proof (cases "dir_first d i = 0")
    case True
    then show ?thesis
      using look nx by (simp add: directory_list_def dir_blocks_upt inode_get_block_direct dir_entries_def)
  next
    case False
    note r = dir_okD [OF assms(3) False]
    have c: "unat (entry_count (page_at d (unat (dir_first d i)))) = n" and
      sl: "(USABLE_BLOCK_SIZE div sizeof_DirEntry) = 15"
      using packed_count [OF r(2)] by (simp_all add: dir_page_def)
    have ls: "list_slots (page_at d (unat (dir_first d i))) True n [0..<15] [] = dir_entries d i"
      using list_slots_packed [OF r(2), of 0] r(3) by (simp add: dir_page_def)
    have ty: "page_type (page_at d (unat (dir_first d i))) = block_type_code BLOCK_TYPE_DATA"
      using r(1) by (simp add: is_data_def)
    have "n = 0 \<Longrightarrow> dir_entries d i = []" using r(3) by simp
    then show ?thesis
      using False look nx get_data_block [OF r(1)] ty r(4)
      by (simp add: directory_list_def dir_blocks_upt
          inode_get_block_direct c sl ls Let_def del: block_type_code.simps USABLE_BLOCK_SIZE_def sizeof_DirEntry_def)
  qed
qed

end
