(* ===== verification/Dir_Add.thy ===== *)
theory Dir_Add
  imports Dir_Ops
begin

text \<open>
  \<open>directory_add_entry\<close> on a directory of a mounted volume: one leaf, one entry, for a new
  directory the root of its tree, and nothing else.
\<close>

subsection \<open>The free blocks\<close>

definition free_set :: "DiskInterface \<Rightarrow> nat set" where
  "free_set d = {c. c < n_blocks d \<and> \<not> used d c}"

lemma finite_free_set [simp]: "finite (free_set d)"
  by (simp add: free_set_def)

lemma next_free_card: "0 < card (free_set d) \<Longrightarrow> \<exists>b. next_free d b"
  by (rule next_free_ex) (auto simp: free_set_def card_gt_0_iff)

lemma free_set_taken:
  assumes "n_blocks d' = n_blocks d" "\<forall>c<n_blocks d. used d' c = (c = b \<or> used d c)"
  shows "free_set d' = free_set d - {b}" "card (free_set d) \<le> Suc (card (free_set d'))"
proof -
  show f: "free_set d' = free_set d - {b}" using assms by (auto simp: free_set_def)
  show "card (free_set d) \<le> Suc (card (free_set d'))"
    using f card_Suc_Diff1 [OF finite_free_set, of b d] by (cases "b \<in> free_set d") simp_all
qed

subsection \<open>The tree\<close>

text \<open>What an insertion does to the tree, and what a new directory finds as its own tree.\<close>

definition tree_added :: "DiskInterface \<Rightarrow> nat \<Rightarrow> u64 \<Rightarrow> u64 \<Rightarrow> u32 \<Rightarrow> DiskInterface \<Rightarrow> bool" where
  "tree_added d r k v ty d' \<longleftrightarrow> index_ok (d', r) \<and>
     index_entries (d', r) = entry_insert (k, v, ty) (index_entries (d, r)) \<and>
     length (leaves d' r) = Suc (length (leaves d r)) \<and>
     val (node_at d' r) = val (node_at d r) \<and> node_type (node_at d' r) = node_type (node_at d r)"

definition new_tree :: "DiskInterface \<Rightarrow> nat \<Rightarrow> u64 \<Rightarrow> DiskInterface \<Rightarrow> bool" where
  "new_tree d b target d' \<longleftrightarrow> b < n_blocks d \<and> \<not> used d b \<and> node_ok d' b \<and> index_ok (d', b) \<and>
     leaves d' b = [] \<and> val (node_at d' b) = target \<and> node_type (node_at d' b) = FILE_TYPE_DIRECTORY"

text \<open>The value of the new leaf, the entry and the blocks taken, by the type of the new file.\<close>

definition child_value :: "u32 \<Rightarrow> u64 \<Rightarrow> nat \<Rightarrow> u64" where
  "child_value ty target b = (if ty = FILE_TYPE_DIRECTORY then of_nat b else target)"

definition child_entry :: "u32 \<Rightarrow> DirEntry \<Rightarrow> nat \<Rightarrow> DirEntry" where
  "child_entry ty e b = (if ty = FILE_TYPE_DIRECTORY then e\<lparr>entry_btree := of_nat b\<rparr> else e)"

definition child_blocks :: "u32 \<Rightarrow> nat" where
  "child_blocks ty = (if ty = FILE_TYPE_DIRECTORY then 2 else 1)"

definition child_made :: "DiskInterface \<Rightarrow> u32 \<Rightarrow> nat \<Rightarrow> u64 \<Rightarrow> DiskInterface \<Rightarrow> bool" where
  "child_made d ty b target d' \<longleftrightarrow> (ty = FILE_TYPE_DIRECTORY \<longrightarrow> new_tree d b target d')"

lemma child_file [simp]:
  assumes "ty \<noteq> FILE_TYPE_DIRECTORY"
  shows "child_value ty target b = target" "child_entry ty e b = e" "child_blocks ty = 1" "child_made d ty b target d'"
  using assms by (simp_all add: child_value_def child_entry_def child_blocks_def child_made_def)

lemma child_dir [simp]:
  "child_value FILE_TYPE_DIRECTORY target b = of_nat b"
  "child_entry FILE_TYPE_DIRECTORY e b = e\<lparr>entry_btree := of_nat b\<rparr>"
  "child_blocks FILE_TYPE_DIRECTORY = 2" "child_made d FILE_TYPE_DIRECTORY b target d' = new_tree d b target d'"
  by (simp_all add: child_value_def child_entry_def child_blocks_def child_made_def)

lemma child_entry_fields [simp]:
  "entry_name (child_entry ty e b) = entry_name e" "entry_active (child_entry ty e b) = entry_active e"
  "entry_inode (child_entry ty e b) = entry_inode e"
  by (simp_all add: child_entry_def)

lemma child_blocks_pos: "0 < child_blocks ty"
  by (simp add: child_blocks_def)

text \<open>A new tree is kept by a step that keeps its root.\<close>

lemma new_tree_step:
  assumes "new_tree d b target d1" "fs_step I K d1 d2" "\<forall>x\<in>K. is_tree d1 x \<longrightarrow> x \<noteq> b \<and> index_ok (d1, x)"
  shows "new_tree d b target d2"
proof -
  have ix: "index_ok (d1, b)" using assms(1) by (simp add: new_tree_def)
  note f = tree_frame [OF assms(2) ix assms(3)]
  then show ?thesis
    using assms(1) index_nodes(2) [OF f(1) disjI1 [OF refl]] by (simp add: new_tree_def)
qed

lemma add_to_tree_step:
  assumes "fs_ok d" "index_ok (d, r)" "Suc (length (leaves d r)) < MAX_KEYS"
    and "child_blocks ty \<le> card (free_set d)" "path_hash name \<noteq> 0"
  obtains b d' where "add_to_tree d (dir_pair i r) name target ty e = Some (child_entry ty e b, d')"
    "fs_step {} {r} d d'" "tree_added d r (path_hash name) (child_value ty target b) ty d'"
    "child_made d ty b target d'" "card (free_set d) \<le> card (free_set d') + child_blocks ty"
proof -
  have room: "index_room (d1, r)"
    if "fs_step I K d d1" "leaves d1 r = leaves d r" "0 < card (free_set d1)" for d1 I K
    using assms(3) that by (auto simp: index_room_def free_set_def card_gt_0_iff)
  show ?thesis
  proof (cases "ty = FILE_TYPE_DIRECTORY")
    case False
    have rm: "index_room (d, r)" using assms(4) False by (intro room [OF fs_step_refl [OF assms(1)] refl]) simp
    obtain b d' where d': "next_free d b" "btree_insert d (of_nat r) (path_hash name) target ty = Some (0, d')"
      "fs_step {} {r} d d'" "index_ok (d', r)"
      "index_entries (d', r) = entry_insert (path_hash name, target, ty) (index_entries (d, r))"
      "\<And>c. c < n_blocks d \<Longrightarrow> used d' c = (c = b \<or> used d c)"
      "leaves d' r = ins_leaf d (leaves d r) (path_hash name) b"
      "val (node_at d' r) = val (node_at d r)" "node_type (node_at d' r) = node_type (node_at d r)"
      using fs_tree_insert [OF assms(1,2) rm assms(5)] by metis
    have "card (free_set d) \<le> Suc (card (free_set d'))"
      using free_set_taken(2) [OF fs_stepD(2) [OF d'(3)]] d'(6) by blast
    then show ?thesis
      using d' False by (intro that [of b d']) (simp_all add: add_to_tree_def dir_pair_def tree_added_def)
  next
    case True
    have "0 < card (free_set d)" using assms(4) True by simp
    then obtain b where b: "next_free d b" using next_free_card by blast
    let ?d1 = "tree_result d b target"
    note nf = next_freeD [OF fs_okD(1) [OF assms(1)] b]
    note c = fs_tree_create [OF assms(1) b, where target = target]
    note t = fs_stepD [OF c(1)]
    have us: "\<forall>c<n_blocks d. used ?d1 c = (c = b \<or> used d c)" using c(6) by blast
    note fr = free_set_taken [OF t(2) us]
    have "b \<in> free_set d" using b by (simp add: next_free_def free_set_def)
    then have cd: "card (free_set d) = Suc (card (free_set ?d1))"
      using card_Suc_Diff1 [OF finite_free_set, of b d] by (simp add: fr(1))
    note fm = tree_frame [OF c(1) assms(2), simplified]
    have rm: "index_room (?d1, r)"
      using assms(4) True cd by (intro room [OF c(1) fm(3)]) simp
    obtain b' d' where d': "next_free ?d1 b'" "btree_insert ?d1 (of_nat r) (path_hash name) (of_nat b) ty = Some (0, d')"
      "fs_step {} {r} ?d1 d'" "index_ok (d', r)"
      "index_entries (d', r) = entry_insert (path_hash name, of_nat b, ty) (index_entries (?d1, r))"
      "\<And>c. c < n_blocks ?d1 \<Longrightarrow> used d' c = (c = b' \<or> used ?d1 c)"
      "leaves d' r = ins_leaf ?d1 (leaves ?d1 r) (path_hash name) b'"
      "val (node_at d' r) = val (node_at ?d1 r)" "node_type (node_at d' r) = node_type (node_at ?d1 r)"
      using fs_tree_insert [OF t(1) fm(1) rm assms(5)] by metis
    have nb: "r \<noteq> b" using index_nodes(1) [OF assms(2), of r] b by (auto simp: is_tree_def next_free_def)
    have "new_tree d b target ?d1"
      using c b by (simp add: new_tree_def next_free_def)
    then have nt: "new_tree d b target d'"
      by (rule new_tree_step [OF _ d'(3)]) (use nb fm(1) in simp)
    have mk: "btree_node_create d False = Some (Some b, of_nat b, create_result d False b)"
      by (rule create_ok [OF fs_okD(1) [OF assms(1)] b])
    let ?n = "dir_node (node_at d b) b target"
    let ?d0 = "set_node (create_result d False b) b ?n"
    note cr = create_result_frame [OF fs_okD(1) [OF assms(1)] b, where leaf = False]
    have "valid_block ?d0 b" "is_node_block ?d0 b" "block_number ?n = of_nat b"
      using cr(2,4) nf(2) by (simp_all add: set_node_def is_node_block_def dir_node_def blank_node_def)
    then have wr: "btree_node_write ?d0 ?n = Some (0, ?d1)"
      unfolding tree_result_def by (rule btree_node_write_ok)
    have "add_to_tree d (dir_pair i r) name target ty e = Some (e\<lparr>entry_btree := of_nat b\<rparr>, d')"
      using True mk wr d'(2)
      by (simp add: add_to_tree_def dir_pair_def cr(1) dir_node_def [symmetric] Let_def)
    moreover have "fs_step {} {r} d d'" using fs_step_trans [OF c(1) d'(3)] by simp
    moreover have "card (free_set d) \<le> card (free_set d') + 2"
      using cd free_set_taken(2) [OF fs_stepD(2) [OF d'(3)]] d'(6) by fastforce
    ultimately show ?thesis
      using d' nt fm True by (intro that [of b d']) (simp_all add: tree_added_def)
  qed
qed

subsection \<open>The entry\<close>

text \<open>The inode with the directory's first block.\<close>

definition with_first :: "Inode \<Rightarrow> u64 \<Rightarrow> Inode" where
  "with_first n b = n\<lparr>direct_blocks := (direct_blocks n)[0 := b]\<rparr>"

lemma with_first_facts:
  assumes "inode_wf n"
  shows "inode_wf (with_first n b)" "direct_blocks (with_first n b) ! 0 = b"
    "direct_blocks (with_first n b) ! 1 = direct_blocks n ! 1" "i_number (with_first n b) = i_number n"
    "with_first (with_first n b) c = with_first n c"
  using assms by (simp_all add: with_first_def inode_wf_def)

lemma with_first_same: "with_first (inode_at d i) (dir_first d i) = inode_at d i"
  by (simp add: with_first_def dir_first_def)

text \<open>
  What an added entry does to the volume: one entry behind the others, one leaf, for the first
  entry a block, and nothing else.
\<close>

definition entry_added :: "DiskInterface \<Rightarrow> nat \<Rightarrow> nat \<Rightarrow> DirEntry \<Rightarrow> DiskInterface \<Rightarrow> bool" where
  "entry_added d i n e d' \<longleftrightarrow>
     dir_ok d' i (Suc n) \<and> dir_entries d' i = dir_entries d i @ [e] \<and>
     inode_at d' i = with_first (inode_at d i) (dir_first d' i) \<and> dir_first d' i \<noteq> 0 \<and>
     (if dir_first d i = 0 then \<not> is_data d (unat (dir_first d' i)) else dir_first d' i = dir_first d i)"

lemma entry_addedD:
  assumes "entry_added d i n e d'"
  shows "dir_ok d' i (Suc n)" "dir_entries d' i = dir_entries d i @ [e]"
    "inode_at d' i = with_first (inode_at d i) (dir_first d' i)" "dir_first d' i \<noteq> 0"
    "dir_first d i \<noteq> 0 \<Longrightarrow> dir_first d' i = dir_first d i"
    "dir_first d i = 0 \<Longrightarrow> \<not> is_data d (unat (dir_first d' i))"
  using assms by (simp_all add: entry_added_def)

lemma entry_added_step:
  assumes "entry_added d i n e d1" "fs_step I K d1 d2" "i \<notin> I" "unat (dir_first d1 i) \<notin> K"
  shows "entry_added d i n e d2"
  using assms(1) dir_step_other [OF entry_addedD(1) [OF assms(1)] assms(2,3)] assms(4)
  by (simp add: entry_added_def)

text \<open>The directory and its tree: \<open>e\<close> is the entry before a new tree is entered.\<close>

definition name_added ::
    "DiskInterface \<Rightarrow> nat \<Rightarrow> nat \<Rightarrow> nat \<Rightarrow> DirEntry \<Rightarrow> u64 \<Rightarrow> u64 \<Rightarrow> u32 \<Rightarrow> nat \<Rightarrow> DiskInterface \<Rightarrow> bool" where
  "name_added d i r n e k target ty b d' \<longleftrightarrow>
     entry_added d i n (child_entry ty e b) d' \<and> tree_added d r k (child_value ty target b) ty d' \<and>
     child_made d ty b target d'"

text \<open>The same from an earlier volume, after a step that left directory, tree and free blocks alone.\<close>

lemma name_added_after:
  assumes "name_added d1 i r n e k target ty b d'" "fs_step I K d d1" "free_set d1 = free_set d"
    and "dir_entries d1 i = dir_entries d i" "dir_first d1 i = dir_first d i" "inode_at d1 i = inode_at d i"
    and "index_entries (d1, r) = index_entries (d, r)" "leaves d1 r = leaves d r" "node_at d1 r = node_at d r"
    and "dir_first d i = 0 \<Longrightarrow> is_data d (unat (dir_first d' i)) \<Longrightarrow> unat (dir_first d' i) \<notin> K"
  shows "name_added d i r n e k target ty b d'"
proof -
  note t = fs_stepD [OF assms(2)]
  have "new_tree d b' x d'" if "new_tree d1 b' x d'" for b' x
    using that t(2) assms(3) by (auto simp: new_tree_def free_set_def set_eq_iff)
  moreover have "\<not> is_data d (unat (dir_first d' i))" if "dir_first d i = 0" "\<not> is_data d1 (unat (dir_first d' i))"
    using that t(11) assms(10) by blast
  ultimately show ?thesis
    using assms(1,4-9) by (simp add: name_added_def entry_added_def tree_added_def child_made_def)
qed

text \<open>A later step that changes other inodes only.\<close>

lemma name_added_step:
  assumes "name_added d i r n e k target ty b d1" "fs_step I {} d1 d2" "i \<notin> I"
  shows "name_added d i r n e k target ty b d2"
proof -
  have "index_ok (d1, r)" using assms(1) by (simp add: name_added_def tree_added_def)
  from tree_frame [OF assms(2) this] have "tree_added d r k (child_value ty target b) ty d2"
    using assms(1) by (simp add: name_added_def tree_added_def)
  moreover have "child_made d ty b target d2"
    using assms(1) new_tree_step [OF _ assms(2)] by (simp add: name_added_def child_made_def)
  ultimately show ?thesis
    using assms(1) entry_added_step [OF _ assms(2,3)] by (simp add: name_added_def)
qed

lemma add_commit_dir:
  assumes "fs_ok d" "dir_ok d i n" "n < 15" "dir_first d i \<noteq> 0" "index_ok (d, r)"
    and "Suc (length (leaves d r)) < MAX_KEYS" "child_blocks ty \<le> card (free_set d)" "path_hash name \<noteq> 0"
    and e: "length (entry_name e) = NAME_MAX" "entry_active e"
  obtains b d' where "add_commit d (dir_pair i r) (inode_at d i) name target ty e (dir_first d i) (unat (dir_first d i))
      (entry_at True n) (of_nat n) = Some (0, d')"
    "fs_step {} {unat (dir_first d i), r} d d'" "name_added d i r n e (path_hash name) target ty b d'"
    "card (free_set d) \<le> card (free_set d') + child_blocks ty"
proof -
  let ?k = "unat (dir_first d i)"
  obtain b d1 where d1: "add_to_tree d (dir_pair i r) name target ty e = Some (child_entry ty e b, d1)"
      "fs_step {} {r} d d1" "tree_added d r (path_hash name) (child_value ty target b) ty d1"
      "child_made d ty b target d1" "card (free_set d) \<le> card (free_set d1) + child_blocks ty"
    by (rule add_to_tree_step [OF assms(1,5-8)])
  let ?e = "child_entry ty e b"
  note s1 = fs_stepD [OF d1(2)]
  have tr: "is_tree d r" by (rule index_nodes(1) [OF assms(5) disjI1 [OF refl]])
  have kr: "dir_first d i \<noteq> 0 \<longrightarrow> ?k \<notin> {r}"
    using dir_okD(1) [OF assms(2,4)] is_tree_not_data [OF tr] by auto
  have none: "i \<notin> {}" by simp
  note rd1 = dir_step_other [OF assms(2) d1(2) none kr]
  note k = dir_okD [OF rd1(1), unfolded rd1(3), OF assms(4)]
  have pk: "packed (page_at d1 ?k) n" using k(2) rd1(3) by (simp add: dir_page_def)
  let ?pg2 = "with_entry (page_at d1 ?k) n ?e"
  have e': "length (entry_name ?e) = NAME_MAX" "entry_active ?e" using e by simp_all
  note we = with_entry_facts [OF e'(1), where pg = "page_at d1 ?k" and n = n]
  note pe = packed_with_entry [OF pk assms(3) e']
  let ?d' = "set_page d1 ?k ?pg2"
  have ty2: "page_type ?pg2 = block_type_code BLOCK_TYPE_DATA"
    using we(1) k(1) by (simp add: is_data_def)
  note s2 = fs_set_data [OF s1(1) k(1) ty2]
  have first: "direct_blocks (inode_at d i) ! 0 = dir_first d i" by (simp add: dir_first_def)
  have "add_commit d (dir_pair i r) (inode_at d i) name target ty e (dir_first d i) ?k (entry_at True n) (of_nat n) = Some (0, ?d')"
    using assms(4) d1(1) first get_data_block [OF k(1)]
    by (simp add: add_commit_def inode_get_block_direct set_entry_count_def with_entry_def)
  moreover have "fs_step {} {?k, r} d ?d'" using fs_step_trans [OF d1(2) s2(1)] by (simp add: insert_commute)
  moreover have "name_added d i r n e (path_hash name) target ty b ?d'"
  proof -
    note st = fs_stepD [OF s2(1)]
    have i: "i < inode_capacity d1" using rd1(1) by (simp add: dir_ok_def)
    have i': "inode_at ?d' i = inode_at d i" using st(5) [OF i] rd1(4) by simp
    then have f': "dir_first ?d' i = dir_first d i" by (simp add: dir_first_def)
    have pg': "dir_page ?d' i = ?pg2" by (simp add: dir_page_def f')
    have rd': "dir_ok ?d' i (Suc n)"
      using assms(2,4) i i' f' pg' s2(5) pe(1) st(9) by (simp add: dir_ok_def)
    moreover have "dir_entries ?d' i = dir_entries d i @ [?e]"
      using dir_okD(3) [OF rd'] f' assms(4) pe(2) pg' k(3) rd1(2,3) by (simp add: dir_page_def)
    ultimately have "entry_added d i n ?e ?d'"
      using assms(4) f' i' with_first_same [of d i] by (simp add: entry_added_def)
    moreover have kd: "\<forall>x\<in>{?k}. is_tree d1 x \<longrightarrow> P x" for P using k(1) is_tree_not_data by blast
    have "tree_added d r (path_hash name) (child_value ty target b) ty ?d'"
    proof -
      have "index_ok (d1, r)" using d1(3) by (simp add: tree_added_def)
      from tree_frame [OF s2(1) this kd] d1(3) show ?thesis by (simp add: tree_added_def)
    qed
    moreover have "child_made d ty b target ?d'"
      using d1(4) new_tree_step [OF _ s2(1) kd] unfolding child_made_def by blast
    ultimately show ?thesis by (simp add: name_added_def)
  qed
  moreover have "free_set ?d' = free_set d1"
    using s2(4) fs_stepD(2) [OF s2(1)] by (auto simp: free_set_def)
  ultimately show ?thesis using d1(5) by (intro that [of ?d' b]) simp_all
qed

subsection \<open>directory\_add\_entry\<close>

text \<open>
  The blocks that a new name takes, and when there is room for it: the directory's first block
  is not cleared, so the free block it is made of must hold no count of entries.
\<close>

definition name_blocks :: "DiskInterface \<Rightarrow> nat \<Rightarrow> u32 \<Rightarrow> nat" where
  "name_blocks d i ty = (if dir_first d i = 0 then 1 else 0) + child_blocks ty"

definition dir_room :: "DiskInterface \<Rightarrow> nat \<Rightarrow> nat \<Rightarrow> u32 \<Rightarrow> bool" where
  "dir_room d i r ty \<longleftrightarrow> Suc (length (leaves d r)) < MAX_KEYS \<and> name_blocks d i ty \<le> card (free_set d) \<and>
     (dir_first d i = 0 \<longrightarrow> (\<forall>b. next_free d b \<longrightarrow> entry_count (page_at d b) = 0))"

abbreviation "root_room d \<equiv> dir_room d 0 (root_block d) FILE_TYPE_REGULAR"

lemma dir_room_file: "ty \<noteq> FILE_TYPE_DIRECTORY \<Longrightarrow> dir_room d i r FILE_TYPE_REGULAR \<Longrightarrow> dir_room d i r ty"
  by (simp add: dir_room_def name_blocks_def FILE_TYPE_REGULAR_def FILE_TYPE_DIRECTORY_def)

lemma add_block_dir:
  assumes "fs_ok d" "dir_ok d i 0" "dir_first d i = 0" "next_free d b" "entry_count (page_at d b) = 0"
  obtains d' where "add_block d (dir_pair i r) (inode_at d i) 0 = Some (Some (inode_at d' i, of_nat b, b), d')"
    "fs_step {i} {} d d'" "dir_ok d' i 0" "dir_first d' i = of_nat b" "unat (dir_first d' i) = b" "dir_first d' i \<noteq> 0"
    "inode_at d' i = with_first (inode_at d i) (of_nat b)"
    "\<forall>c<n_blocks d. used d' c = (c = b \<or> used d c)"
    "\<forall>j<inode_capacity d. inode_used d' j = inode_used d j"
proof -
  note nf = next_freeD [OF fs_okD(1) [OF assms(1)] assms(4)]
  note alloc = alloc_page_next [OF fs_okD(1) [OF assms(1)] assms(4)]
  let ?d1 = "alloc_result d b"
  have pb: "page_at ?d1 b = page_at d b" using nf(1,3,5) alloc_result_frame(7) by blast
  have vb: "valid_block ?d1 b" using nf(2) alloc_result_frame(3) by simp
  have ub: "unat (of_nat b :: u64) = b" by (rule valid_block_unat [OF nf(2)])
  then have bz: "(of_nat b :: u64) \<noteq> 0" using nf(1) by force
  let ?pg = "set_page_type (page_at ?d1 b) BLOCK_TYPE_DATA"
  let ?d2 = "set_page ?d1 b ?pg"
  have "page_type ?pg = block_type_code BLOCK_TYPE_DATA" by (simp del: block_type_code.simps)
  note s1 = fs_alloc_data [OF assms(1,4) this]
  note t1 = fs_stepD [OF s1(1)]
  have i: "i < inode_capacity d" using assms(2) by (simp add: dir_ok_def)
  have z: "i < inode_capacity ?d2" using t1(9) i by simp
  have i0: "inode_at ?d2 i = inode_at d i" using t1(5) i by simp
  let ?n = "with_first (inode_at d i) (of_nat b)"
  note wf = with_first_facts [OF inode_wf_at [of d i], where b = "of_nat b"]
  note s2 = fs_set_inode [OF t1(1) z wf(1)]
  let ?d' = "set_inode ?d2 i ?n"
  have num: "i_number ?n = of_nat i" using assms(2) wf(4) by (simp add: dir_ok_def)
  have set: "inode_set_block ?d1 (inode_at d i) 0 (of_nat b) = Some (0, ?n, ?d1)"
    by (simp add: inode_set_block_def with_first_def)
  have "add_block d (dir_pair i r) (inode_at d i) 0 = Some (Some (?n, of_nat b, b), ?d')"
    using inode_write_ok [OF fs_okD(2) [OF t1(1)] z num] vb bz
    by (simp add: add_block_def alloc set)
  moreover have st: "fs_step {i} {} d ?d'" using fs_step_trans [OF s1(1) s2(1)] by simp
  moreover have f: "dir_first ?d' i = of_nat b" using s2(5) wf(2) by (simp add: dir_first_def)
  moreover have "dir_ok ?d' i 0"
  proof -
    note t2 = fs_stepD [OF s2(1)]
    have pg': "page_at ?d' b = ?pg" "is_data ?d' b" using t2(8,11) s1(5,6) by simp_all
    have "entry_count ?pg = 0" using assms(5) pb by (simp add: entry_count_def page_simps)
    then show ?thesis
      using assms(2) s2(5) wf(3,4) f ub bz pg' t2(9) z by (simp add: dir_ok_def dir_page_def packed_def)
  qed
  moreover have "used ?d' c = (c = b \<or> used d c)" if "c < n_blocks d" for c
    using s2(4) s1(4) that t1(2) by simp
  moreover have "inode_used ?d' j = inode_used d j" if "j < inode_capacity d" for j
    using s2(6) t1(6,9) that by simp
  ultimately show ?thesis
    using s2(5) ub bz
    by (intro that [of ?d']) (simp_all del: unsigned_of_nat word_of_nat_eq_0_iff of_nat_eq_0_iff)
qed

definition new_entry :: "DirEntry \<Rightarrow> u8 list \<Rightarrow> u64 \<Rightarrow> DirEntry" where
  "new_entry junk name target = junk\<lparr>entry_inode := target,
     entry_name := name @ 0 # drop (Suc (length name)) (entry_name junk), entry_active := True\<rparr>"

lemma new_entry_facts:
  assumes "length name < NAME_MAX" "length (entry_name junk) = NAME_MAX"
  shows "length (entry_name (new_entry junk name target)) = NAME_MAX"
    "entry_active (new_entry junk name target)" "entry_inode (new_entry junk name target) = target"
    "0 \<notin> set name \<Longrightarrow> c_string (entry_name (new_entry junk name target)) = name"
    "0 \<in> set (entry_name (new_entry junk name target))"
proof -
  have "takeWhile (\<lambda>c. c \<noteq> 0) (name @ 0 # xs) = name" if "0 \<notin> set name" for xs :: "u8 list"
    using that by (induction name) auto
  then show "0 \<notin> set name \<Longrightarrow> c_string (entry_name (new_entry junk name target)) = name"
    by (simp add: new_entry_def c_string_def)
qed (use assms in \<open>simp_all add: new_entry_def\<close>)

text \<open>The first round of the loop, on a directory that has its first block.\<close>

lemma add_loop_dir:
  assumes "dir_ok d i n" "n < 15" "dir_first d i \<noteq> 0"
  shows "get_block_direct d ino (dir_first d i) = Some (unat (dir_first d i))"
    "page_type (page_at d (unat (dir_first d i))) = block_type_code BLOCK_TYPE_DATA"
    "entry_count (page_at d (unat (dir_first d i))) = of_nat n"
    "add_slot (page_at d (unat (dir_first d i))) True (of_nat n) 0
       [0..<(USABLE_BLOCK_SIZE - sizeof_DirectoryBlock) div sizeof_DirEntry] = (Some n, of_nat n)"
proof -
  note r = dir_okD [OF assms(1,3)]
  have slots: "(USABLE_BLOCK_SIZE - sizeof_DirectoryBlock) div sizeof_DirEntry = 15" by simp
  show "entry_count (page_at d (unat (dir_first d i))) = of_nat n"
    using r(2) by (simp add: dir_page_def packed_def)
  show "add_slot (page_at d (unat (dir_first d i))) True (of_nat n) 0
       [0..<(USABLE_BLOCK_SIZE - sizeof_DirectoryBlock) div sizeof_DirEntry] = (Some n, of_nat n)"
    unfolding slots using add_slot_packed [OF r(2) assms(2), of 0] by (simp add: dir_page_def)
  show "page_type (page_at d (unat (dir_first d i))) = block_type_code BLOCK_TYPE_DATA"
    using r(1) by (simp add: is_data_def)
  show "get_block_direct d ino (dir_first d i) = Some (unat (dir_first d i))"
    by (rule get_data_block [OF r(1)])
qed

lemma directory_add_dir:
  assumes "fs_ok d" "finds_dir d path i r" "dir_ok d i n" "n < 15" "index_ok (d, r)" "dir_room d i r ty"
    and "length name < NAME_MAX" "path_hash name \<noteq> 0" "length (entry_name junk) = NAME_MAX"
  obtains b d' where "directory_add_entry d path name target ty junk = Some (0, d')"
    "fs_step {i} {unat (dir_first d i), r} d d'"
    "name_added d i r n (new_entry junk name target) (path_hash name) target ty b d'"
    "\<forall>j<inode_capacity d. inode_used d' j = inode_used d j"
    "card (free_set d) \<le> card (free_set d') + name_blocks d i ty"
proof -
  let ?pair = "dir_pair i r"
  let ?e = "new_entry junk name target"
  note e = new_entry_facts [OF assms(7,9), where target = target]
  note look = finds_dirD [OF assms(1-3)]
  have lv: "Suc (length (leaves d r)) < MAX_KEYS" and enough: "name_blocks d i ty \<le> card (free_set d)"
    using assms(6) by (simp_all add: dir_room_def)
  have start: "directory_add_entry d path name target ty junk
      = add_loop ?pair name target ty ?e [0..<dir_blocks] d (inode_at d i) 0 0 0 0"
    using assms(7) look by (simp add: directory_add_entry_def new_entry_def)
  have first: "direct_blocks (inode_at d i) ! 0 = dir_first d i" by (simp add: dir_first_def)
  show ?thesis
  proof (cases "dir_first d i = 0")
    case False
    have cb: "child_blocks ty \<le> card (free_set d)" using enough False by (simp add: name_blocks_def)
    obtain b d' where d': "add_commit d ?pair (inode_at d i) name target ty ?e (dir_first d i) (unat (dir_first d i))
          (entry_at True n) (of_nat n) = Some (0, d')"
        "fs_step {} {unat (dir_first d i), r} d d'" "name_added d i r n ?e (path_hash name) target ty b d'"
        "card (free_set d) \<le> card (free_set d') + child_blocks ty"
      by (rule add_commit_dir [OF assms(1,3,4) False assms(5) lv cb assms(8) e(1,2)])
    have "add_loop ?pair name target ty ?e [0..<dir_blocks] d (inode_at d i) 0 0 0 0 = Some (0, d')"
      using False first d'(1)
      by (simp add: dir_blocks_upt1 inode_get_block_direct add_loop_dir [OF assms(3,4) False]
          del: block_type_code.simps USABLE_BLOCK_SIZE_def sizeof_DirEntry_def sizeof_DirectoryBlock_def)
    moreover have "inode_used d' j = inode_used d j" if "j < inode_capacity d" for j
      using fs_stepD(6) [OF d'(2) that] by simp
    ultimately show ?thesis
      using that start d'(3,4) False fs_step_mono [OF d'(2), of "{i}"] by (simp add: name_blocks_def)
  next
    case True
    have "0 < card (free_set d)" using enough True child_blocks_pos [of ty] by (simp add: name_blocks_def)
    then obtain b where b: "next_free d b" "entry_count (page_at d b) = 0"
      using next_free_card assms(6) True by (auto simp: dir_room_def)
    have n: "n = 0" using assms(3) True by (simp add: dir_ok_def)
    note rd = assms(3) [unfolded n]
    obtain d1 where d1: "add_block d ?pair (inode_at d i) 0 = Some (Some (inode_at d1 i, of_nat b, b), d1)"
        "fs_step {i} {} d d1" "dir_ok d1 i 0" "dir_first d1 i = of_nat b" "unat (dir_first d1 i) = b" "dir_first d1 i \<noteq> 0"
        "inode_at d1 i = with_first (inode_at d i) (of_nat b)"
        "\<forall>c<n_blocks d. used d1 c = (c = b \<or> used d c)"
        "\<forall>j<inode_capacity d. inode_used d1 j = inode_used d j"
      by (rule add_block_dir [OF assms(1) rd True b(1,2)])
    note s1 = fs_stepD [OF d1(2)]
    note f1 = tree_frame [OF d1(2) assms(5), simplified]
    note fr = free_set_taken [OF s1(2) d1(8)]
    have lv1: "Suc (length (leaves d1 r)) < MAX_KEYS" using lv f1(3) by simp
    have cb: "child_blocks ty \<le> card (free_set d1)" using enough fr(2) True by (simp add: name_blocks_def)
    have z: "(0 :: nat) < 15" by simp
    obtain b' d' where d': "add_commit d1 ?pair (inode_at d1 i) name target
          ty ?e (dir_first d1 i) (unat (dir_first d1 i)) (entry_at True 0) (of_nat 0) = Some (0, d')"
        "fs_step {} {unat (dir_first d1 i), r} d1 d'" "name_added d1 i r 0 ?e (path_hash name) target ty b' d'"
        "card (free_set d1) \<le> card (free_set d') + child_blocks ty"
      by (rule add_commit_dir [OF s1(1) d1(3) z d1(6) f1(1) lv1 cb assms(8) e(1,2)])
    note ub = d1(5) [unfolded d1(4)]
    note loop = add_loop_dir [OF d1(3) z d1(6), unfolded d1(4) ub of_nat_0]
    note commit = d'(1) [unfolded d1(4) ub of_nat_0]
    have "add_loop ?pair name target ty ?e [0..<dir_blocks] d (inode_at d i) 0 0 0 0 = Some (0, d')"
      using d1(6) [unfolded d1(4)] loop(4) commit
      by (simp add: dir_blocks_upt1 inode_get_block_direct first True d1(1) loop(1-3)
          del: block_type_code.simps USABLE_BLOCK_SIZE_def sizeof_DirEntry_def sizeof_DirectoryBlock_def of_nat_eq_0_iff
            word_of_nat_eq_0_iff)
    moreover have "fs_step {i} {unat (dir_first d i), r} d d'"
    proof -
      have "\<not> is_data d b" "\<not> is_tree d b"
        using fs_free_apart(1) [OF assms(1) b(1)] b(1) by (simp_all add: is_tree_def next_free_def)
      moreover have "fs_step {i} {b, r} d d'" using fs_step_trans [OF d1(2) d'(2)] d1(5) by simp
      ultimately show ?thesis by (elim fs_step_data) auto
    qed
    moreover have "name_added d i r n ?e (path_hash name) target ty b' d'"
    proof -
      note a = d'(3) [unfolded name_added_def]
      note ea = entry_addedD [OF conjunct1 [OF a]]
      have "dir_entries d1 i = []" "dir_entries d i = []"
        using dir_okD(4) [OF d1(3,6)] True by (simp_all add: dir_entries_def)
      moreover have "with_first (inode_at d1 i) x = with_first (inode_at d i) x" for x
        unfolding d1(7) by (rule with_first_facts(5) [OF inode_wf_at])
      moreover have "dir_first d' i = of_nat b" using ea(5) d1(4,6) by simp
      then have "\<not> is_data d (unat (dir_first d' i))"
        using fs_free_apart(1) [OF assms(1) b(1)] d1(4,5) by simp
      ultimately have "entry_added d i n (child_entry ty ?e b') d'"
        using ea True by (simp add: entry_added_def n)
      moreover have "tree_added d r (path_hash name) (child_value ty target b') ty d'"
        using a f1 by (simp add: tree_added_def)
      moreover have "child_made d ty b' target d'"
        using a s1(2) d1(8) by (auto simp: child_made_def new_tree_def)
      ultimately show ?thesis by (simp add: name_added_def)
    qed
    moreover have "inode_used d' j = inode_used d j" if "j < inode_capacity d" for j
      using fs_stepD(6) [OF d'(2), of j] s1(9) d1(9) that by simp
    moreover have "card (free_set d) \<le> card (free_set d') + name_blocks d i ty"
      using fr(2) d'(4) True by (simp add: name_blocks_def)
    ultimately show ?thesis using that start by simp
  qed
qed

end
