(* ===== verification/Fuse_Facts.thy ===== *)
theory Fuse_Facts
  imports Dir_Add
begin

text \<open>
  The handlers on the files that a search finds: how paths are followed through the directories
  and what keeps them, what \<open>mknod\<close> does to a mounted volume, and what the handlers that look a path up
  find afterwards.
\<close>

subsection \<open>Paths\<close>

text \<open>A step that changes no tree keeps what a path leads to.\<close>

lemma walk_step:
  assumes "fs_step I K d d'" "\<forall>x\<in>K. \<not> is_tree d x" "index_ok (d, r)" "walk_ok d r names"
  shows "walk_ok d' r names \<and> walk d' r names = walk d r names"
proof (cases names)
  case Nil
  have k: "\<forall>x\<in>K. is_tree d x \<longrightarrow> x \<noteq> r \<and> index_ok (d, x)" using assms(2) by blast
  show ?thesis using Nil tree_frame(4) [OF assms(1,3) k] by simp
next
  case (Cons s ss)
  have k: "\<forall>x\<in>K. is_tree d x \<longrightarrow> x \<noteq> y \<and> index_ok (d, x)" for y using assms(2) by blast
  have lk: "index_ok (d', y) \<and> index_entries (d', y) = index_entries (d, y) \<and> node_at d' y = node_at d y \<and>
      index_lookup (d, y) h = Some (map_of (index_entries (d, y)) h) \<and>
      index_lookup (d', y) h = Some (map_of (index_entries (d, y)) h)" if "index_ok (d, y)" for y h
  proof -
    note f = tree_frame [OF assms(1) that k]
    show ?thesis using f index_lookup_abs [OF that] index_lookup_abs [OF f(1)] by simp
  qed
  have ok: "walk_sound d r (s # ss)" "\<not> second_found d r (s # ss)" using assms(4) Cons by (simp_all add: walk_ok_def)
  show ?thesis
  proof (cases "map_of (index_entries (d, r)) (path_hash s)")
    case None
    then show ?thesis using Cons lk [OF assms(3)] by (cases ss) (simp_all add: walk_ok_def)
  next
    case (Some e)
    obtain v ty where e: "e = (v, ty)" by (cases e)
    show ?thesis
    proof (cases "ty = FILE_TYPE_DIRECTORY")
      case False
      then have "ss = []" using ok(1) Some e by simp
      then show ?thesis using Cons Some e False lk [OF assms(3)] by simp
    next
      case True
      have v: "dir_root_ok d (unat v)" using ok(1) Some e True by simp
      then have ix: "index_ok (d, unat v)" by (simp add: dir_root_ok_def)
      have v': "dir_root_ok d' (unat v)" using v lk [OF ix] by (simp add: dir_root_ok_def)
      show ?thesis
        using Cons Some e True ok v v' lk [OF assms(3)] lk [OF ix]
        by (cases ss) (auto simp: walk_ok_def split: option.split)
    qed
  qed
qed

text \<open>The path with these names can be searched, and leads to a directory or to a file.\<close>

definition names_ok :: "u8 list list \<Rightarrow> bool" where
  "names_ok names \<longleftrightarrow> list_all name_ok names \<and> length (path_of names) < PATH_MAX"

definition leads_to :: "DiskInterface \<Rightarrow> u8 list list \<Rightarrow> InodeBtreePair \<Rightarrow> bool" where
  "leads_to d names pair \<longleftrightarrow> names_ok names \<and> walk_ok d (root_block d) names \<and> walk d (root_block d) names = Some pair"

definition dir_at :: "DiskInterface \<Rightarrow> u8 list list \<Rightarrow> nat \<Rightarrow> nat \<Rightarrow> bool" where
  "dir_at d names i r \<longleftrightarrow> leads_to d names (dir_pair i r) \<and> (i = 0 \<longrightarrow> names = [])"

definition file_at :: "DiskInterface \<Rightarrow> u8 list list \<Rightarrow> nat \<Rightarrow> bool" where
  "file_at d names i \<longleftrightarrow> leads_to d names \<lparr>pair_inode = of_nat i, pair_btree = 0\<rparr> \<and> 0 < i \<and> i < inode_capacity d"

definition nothing_at :: "DiskInterface \<Rightarrow> u8 list list \<Rightarrow> bool" where
  "nothing_at d names \<longleftrightarrow> leads_to d names no_pair"

lemma item_search_leads:
  "fs_ok d \<Longrightarrow> leads_to d names pair \<Longrightarrow> item_search d (path_of names) = Some pair"
  using item_search_walk [OF fs_okD(5,7)] by (simp add: leads_to_def names_ok_def list_all_iff)

lemma leads_to_step:
  assumes "fs_ok d" "fs_step I K d d'" "\<forall>x\<in>K. \<not> is_tree d x" "leads_to d names pair"
  shows "leads_to d' names pair"
  using assms(4) walk_step [OF assms(2,3) fs_okD(3) [OF assms(1)]] fs_stepD(4) [OF assms(2)]
  by (simp add: leads_to_def)

lemma dir_at_step:
  "fs_ok d \<Longrightarrow> fs_step I K d d' \<Longrightarrow> \<forall>x\<in>K. \<not> is_tree d x \<Longrightarrow> dir_at d names i r \<Longrightarrow> dir_at d' names i r"
  using leads_to_step by (auto simp: dir_at_def)

lemma file_at_step:
  "fs_ok d \<Longrightarrow> fs_step I K d d' \<Longrightarrow> \<forall>x\<in>K. \<not> is_tree d x \<Longrightarrow> file_at d names i \<Longrightarrow> file_at d' names i"
  using leads_to_step fs_stepD(9) by (auto simp: file_at_def)

lemma dir_at_finds: "fs_ok d \<Longrightarrow> dir_at d names i r \<Longrightarrow> finds_dir d (path_of names) i r"
  using item_search_leads by (auto simp: dir_at_def finds_dir_def path_of_def)

lemma dir_at_root: "fs_ok d \<Longrightarrow> dir_at d [] 0 (root_block d)"
  using fs_okD(8) by (simp add: dir_at_def leads_to_def names_ok_def path_of_def dir_pair_def)

lemma item_search_file:
  assumes "fs_ok d" "file_at d names i"
  shows "item_search d (path_of names) = Some \<lparr>pair_inode = of_nat i, pair_btree = 0\<rparr>"
    "(of_nat i :: u64) \<noteq> 0" "inode_read d (of_nat i) = Some (0, Some (inode_at d i))" "i < inode_capacity d"
proof -
  have i: "0 < i" "i < inode_capacity d" using assms(2) by (simp_all add: file_at_def)
  show "item_search d (path_of names) = Some \<lparr>pair_inode = of_nat i, pair_btree = 0\<rparr>"
    using assms item_search_leads by (simp add: file_at_def)
  show "(of_nat i :: u64) \<noteq> 0" using i by (rule of_nat_inode_nz)
  show "inode_read d (of_nat i) = Some (0, Some (inode_at d i))"
    by (rule inode_read_ok [OF fs_okD(2) [OF assms(1)] i(2)])
  show "i < inode_capacity d" by (rule i(2))
qed

text \<open>The parts of a path, as the handlers that make names take them.\<close>

lemma names_ok_append: "names_ok (names @ [s]) \<Longrightarrow> names_ok names \<and> name_ok s"
  by (cases "names = []") (auto simp: names_ok_def path_of_snoc path_of_def)

lemma parent_of_path:
  assumes "names_ok names" "name_ok s"
  shows "parent_path (path_of (names @ [s])) (count_l (path_of (names @ [s]))) = Some (path_of names)"
    "get_name (path_of (names @ [s])) = s"
  using parent_path_path_of [OF assms(2)] get_name_path_of [OF assms(2)] assms(1)
  by (simp_all add: names_ok_def list_all_iff)

lemma getattr_file:
  assumes "fs_ok d" "file_at d names i"
  shows "nbtrfs_getattr d (path_of names) = Some (0, Some (stat_of (inode_at d i) (of_nat i)))"
    "nbtrfs_access d (path_of names) = Some 0"
  using item_search_file [OF assms] by (simp_all add: nbtrfs_getattr_def nbtrfs_access_def)

lemma getattr_nothing:
  assumes "fs_ok d" "nothing_at d names"
  shows "nbtrfs_getattr d (path_of names) = Some (- ENOENT, None)"
    "nbtrfs_access d (path_of names) = Some (- ENOENT)"
  using item_search_leads [OF assms(1)] assms(2)
  by (simp_all add: nothing_at_def nbtrfs_getattr_def nbtrfs_access_def no_pair_def)

lemma getattr_dir:
  assumes "fs_ok d" "dir_at d names i r" "index_ok (d, r)" "i < inode_capacity d"
  shows "nbtrfs_getattr d (path_of names) = Some (0, Some (stat_of (inode_at d i) (of_nat i)))"
    "nbtrfs_access d (path_of names) = Some 0"
proof -
  have "(of_nat r :: u64) \<noteq> 0" by (rule node_ok_of_nat_nz [OF index_nodes(2) [OF assms(3) disjI1 [OF refl]]])
  then show "nbtrfs_getattr d (path_of names) = Some (0, Some (stat_of (inode_at d i) (of_nat i)))"
    "nbtrfs_access d (path_of names) = Some 0"
    using dir_at_finds [OF assms(1,2)] inode_read_ok [OF fs_okD(2) [OF assms(1)] assms(4)]
    by (simp_all add: nbtrfs_getattr_def nbtrfs_access_def finds_dir_def dir_pair_def)
qed

subsection \<open>mknod\<close>

text \<open>The first free inode, and the conditions under which a name can be added to a directory.\<close>

definition first_inode :: "DiskInterface \<Rightarrow> nat \<Rightarrow> bool" where
  "first_inode d i \<longleftrightarrow> i < inode_capacity d \<and> \<not> inode_used d i \<and> (\<forall>j<i. inode_used d j) \<and> 0 < i"

definition new_name_ok :: "u8 list \<Rightarrow> bool" where
  "new_name_ok name \<longleftrightarrow> name_ok name \<and> length name < NAME_MAX \<and> path_hash name \<noteq> 0"

definition new_file_inode :: "Env \<Rightarrow> DiskInterface \<Rightarrow> nat \<Rightarrow> u32 \<Rightarrow> Inode" where
  "new_file_inode E d i mode = (fresh_inode (inode_at d i) i mode (env_uid E) (env_gid E))\<lparr>i_creation_time := env_time E\<rparr>"

lemma create_type: "(mode OR S_IFREG) AND S_IFMT \<noteq> FILE_TYPE_DIRECTORY"
proof
  assume "(mode OR S_IFREG) AND S_IFMT = FILE_TYPE_DIRECTORY"
  then have "bit ((mode OR S_IFREG) AND S_IFMT) 15 = bit FILE_TYPE_DIRECTORY 15" by simp
  then show False
    by (simp add: bit_and_iff bit_or_iff S_IFREG_def S_IFMT_def FILE_TYPE_DIRECTORY_def)
qed

lemma path_of_single: "path_of [s] = slash # s"
  by (simp add: path_of_def)

lemma dir_room_step:
  assumes "dir_room d i r ty" "fs_step I K d d'" "free_set d' = free_set d" "leaves d' r = leaves d r"
    and "dir_first d' i = dir_first d i"
  shows "dir_room d' i r ty"
proof -
  note t = fs_stepD [OF assms(2)]
  have us: "used d' c = used d c" if "c < n_blocks d" for c
    using assms(3) t(2) that by (auto simp: free_set_def set_eq_iff)
  have "entry_count (page_at d' b) = 0" if "dir_first d i = 0" "next_free d' b" for b
  proof -
    have b: "next_free d b" using that(2) us t(2) by (auto simp: next_free_def)
    then have "page_at d' b = page_at d b" using us by (intro t(13)) (simp_all add: next_free_def)
    then show ?thesis using assms(1) that(1) b by (simp add: dir_room_def)
  qed
  then show ?thesis using assms(1,3,4,5) by (simp add: dir_room_def name_blocks_def)
qed

text \<open>
  What \<open>mknod\<close> does before it adds the name: the inode is set up, and the directory is as ready
  for the name as it was.
\<close>

lemma mknod_ready:
  assumes "fs_ok d" "dir_at d names p r" "dir_ok d p n" "index_ok (d, r)" "dir_room d p r (mode AND S_IFMT)"
    and "first_inode d i" "p \<noteq> i"
  obtains d1 d2 where "inode_allocate d mode (env_uid E) (env_gid E) = Some (int i, d1)"
    "inode_read d1 (of_nat i) = Some (0, Some (fresh_inode (inode_at d i) i mode (env_uid E) (env_gid E)))"
    "inode_write d1 (new_file_inode E d i mode) = Some (0, d2)" "i_number (new_file_inode E d i mode) = of_nat i"
    "fs_step {i} {} d d2" "free_set d2 = free_set d" "finds_dir d2 (path_of names) p r" "dir_ok d2 p n"
    "dir_entries d2 p = dir_entries d p" "dir_first d2 p = dir_first d p" "inode_at d2 p = inode_at d p"
    "index_ok (d2, r)" "index_entries (d2, r) = index_entries (d, r)" "leaves d2 r = leaves d r" "node_at d2 r = node_at d r"
    "dir_room d2 p r (mode AND S_IFMT)" "inode_at d2 i = new_file_inode E d i mode"
    "\<forall>j<inode_capacity d. inode_used d2 j = (j = i \<or> inode_used d j)"
proof -
  have i: "i < inode_capacity d" "\<not> inode_used d i" "\<forall>j<i. inode_used d j" "0 < i"
    using assms(6) by (simp_all add: first_inode_def)
  let ?d1 = "inode_alloc_result d i mode (env_uid E) (env_gid E)"
  let ?n = "new_file_inode E d i mode"
  let ?d2 = "set_inode ?d1 i ?n"
  note s1 = fs_inode_alloc [OF assms(1) i(1), where mode = mode and uid = "env_uid E" and gid = "env_gid E"]
  note t1 = fs_stepD [OF s1(1)]
  have i1: "i < inode_capacity ?d1" using t1(9) i(1) by simp
  have wf: "inode_wf ?n" by (simp add: new_file_inode_def inode_wf_def fresh_inode_def)
      (simp add: inode_at_def inode_of_page_def)
  note s2 = fs_set_inode [OF t1(1) i1 wf]
  note t2 = fs_stepD [OF s2(1)]
  have st: "fs_step {i} {} d ?d2" using fs_step_trans [OF s1(1) s2(1)] by simp
  have z: "p \<notin> {i}" using assms(7) by simp
  note rd2 = dir_step_other [OF assms(3) st z, simplified]
  note f2 = tree_frame [OF st assms(4), simplified]
  have fs2: "free_set ?d2 = free_set d" using s1(4) s2(4) t1(2) t2(2) by (auto simp: free_set_def)
  have at2: "dir_at ?d2 names p r" by (rule dir_at_step [OF assms(1) st _ assms(2)]) simp
  have num: "i_number ?n = of_nat i" by (simp add: new_file_inode_def fresh_inode_def)
  show ?thesis
  proof (rule that [of ?d1 ?d2])
    show "inode_read ?d1 (of_nat i) = Some (0, Some (fresh_inode (inode_at d i) i mode (env_uid E) (env_gid E)))"
      using inode_read_ok [OF fs_okD(2) [OF t1(1)] i1] s1(5) by simp
    show "inode_write ?d1 ?n = Some (0, ?d2)"
      by (rule inode_write_ok [OF fs_okD(2) [OF t1(1)] i1 num])
    show "dir_room ?d2 p r (mode AND S_IFMT)"
      by (rule dir_room_step [OF assms(5) st fs2 f2(3) rd2(3)])
    show "\<forall>j<inode_capacity d. inode_used ?d2 j = (j = i \<or> inode_used d j)"
      using s2(6) s1(6) t1(9) by simp
  qed (use inode_allocate_found [OF fs_okD(2) [OF assms(1)] i(1-3)] num st fs2 dir_at_finds [OF t2(1) at2] rd2 f2 s2(5)
      in simp_all)
qed

lemma mknod_dir:
  assumes "fs_ok d" "dir_at d names p r" "dir_ok d p n" "n < 15" "index_ok (d, r)" "dir_room d p r (mode AND S_IFMT)"
    and "new_name_ok name" "length (entry_name (env_junk E)) = NAME_MAX" "first_inode d i" "p \<noteq> i"
  obtains b d' where "nbtrfs_mknod E d (path_of (names @ [name])) mode = Some (0, d')"
    "fs_step {p, i} {unat (dir_first d p), r} d d'"
    "name_added d p r n (new_entry (env_junk E) name (of_nat i)) (path_hash name) (of_nat i) (mode AND S_IFMT) b d'"
    "inode_at d' i = new_file_inode E d i mode"
    "\<forall>j<inode_capacity d. inode_used d' j = (j = i \<or> inode_used d j)"
    "card (free_set d) \<le> card (free_set d') + name_blocks d p (mode AND S_IFMT)"
proof -
  have i: "i < inode_capacity d" using assms(9) by (simp add: first_inode_def)
  have name: "name_ok name" "length name < NAME_MAX" "path_hash name \<noteq> 0"
    using assms(7) by (simp_all add: new_name_ok_def)
  let ?n = "new_file_inode E d i mode"
  obtain d1 d2 where r: "inode_allocate d mode (env_uid E) (env_gid E) = Some (int i, d1)"
    "inode_read d1 (of_nat i) = Some (0, Some (fresh_inode (inode_at d i) i mode (env_uid E) (env_gid E)))"
    "inode_write d1 ?n = Some (0, d2)" "i_number ?n = of_nat i"
    "fs_step {i} {} d d2" "free_set d2 = free_set d" "finds_dir d2 (path_of names) p r" "dir_ok d2 p n"
    "dir_entries d2 p = dir_entries d p" "dir_first d2 p = dir_first d p" "inode_at d2 p = inode_at d p"
    "index_ok (d2, r)" "index_entries (d2, r) = index_entries (d, r)" "leaves d2 r = leaves d r" "node_at d2 r = node_at d r"
    "dir_room d2 p r (mode AND S_IFMT)" "inode_at d2 i = ?n"
    "\<forall>j<inode_capacity d. inode_used d2 j = (j = i \<or> inode_used d j)"
    by (rule mknod_ready [OF assms(1-3,5,6,9,10), of E])
  note t2 = fs_stepD [OF r(5)]
  obtain b d' where d': "directory_add_entry d2 (path_of names) name (of_nat i) (mode AND S_IFMT) (env_junk E) = Some (0, d')"
      "fs_step {p} {unat (dir_first d2 p), r} d2 d'"
      "name_added d2 p r n (new_entry (env_junk E) name (of_nat i)) (path_hash name) (of_nat i) (mode AND S_IFMT) b d'"
      "\<forall>j<inode_capacity d2. inode_used d' j = inode_used d2 j"
      "card (free_set d2) \<le> card (free_set d') + name_blocks d2 p (mode AND S_IFMT)"
    by (rule directory_add_dir [OF t2(1) r(7,8) assms(4) r(12,16) name(2,3) assms(8)])
  have no: "names_ok names" using assms(2) by (simp add: dir_at_def leads_to_def)
  note pa = parent_of_path [OF no name(1)]
  have nm1: "int i \<noteq> -1" by simp
  have "nbtrfs_mknod E d (path_of (names @ [name])) mode = Some (0, d')"
    unfolding nbtrfs_mknod_def pa bind.simps Let_def r(1) prod.case if_not_P [OF nm1] u64_of_int_of_nat r(2)
    using r(3,4) d'(1) by (simp add: new_file_inode_def [symmetric])
  moreover have "fs_step {p, i} {unat (dir_first d p), r} d d'"
    using fs_step_trans [OF r(5) d'(2)] r(10) by (simp add: insert_commute)
  moreover have "name_added d p r n (new_entry (env_junk E) name (of_nat i)) (path_hash name) (of_nat i)
      (mode AND S_IFMT) b d'"
    by (rule name_added_after [OF d'(3) r(5,6,9-11,13-15)]) simp
  moreover have "inode_at d' i = ?n"
    using fs_stepD(5) [OF d'(2), of i] r(17) assms(10) i t2(9) by simp
  moreover have "\<forall>j<inode_capacity d. inode_used d' j = (j = i \<or> inode_used d j)"
    using d'(4) r(18) t2(9) by simp
  moreover have "card (free_set d) \<le> card (free_set d') + name_blocks d p (mode AND S_IFMT)"
    using d'(5) r(6,10) by (simp add: name_blocks_def)
  ultimately show ?thesis by (rule that)
qed

subsection \<open>Files of the root directory\<close>

text \<open>
  The name leads to the inode of a file, or to nothing; an entry and a leaf for a file were
  added.
\<close>

definition root_file :: "DiskInterface \<Rightarrow> u8 list \<Rightarrow> nat \<Rightarrow> bool" where
  "root_file d name i \<longleftrightarrow> name_ok name \<and> length name < NAME_MAX \<and> 0 < i \<and> i < inode_capacity d \<and>
     (case map_of (index_entries (d, root_block d)) (path_hash name) of
        None \<Rightarrow> False | Some (v, ty) \<Rightarrow> v = of_nat i \<and> ty \<noteq> FILE_TYPE_DIRECTORY)"

definition no_file :: "DiskInterface \<Rightarrow> u8 list \<Rightarrow> bool" where
  "no_file d name \<longleftrightarrow> name_ok name \<and> length name < NAME_MAX \<and>
     map_of (index_entries (d, root_block d)) (path_hash name) = None"

definition root_added ::
    "DiskInterface \<Rightarrow> nat \<Rightarrow> DirEntry \<Rightarrow> u64 \<Rightarrow> u64 \<Rightarrow> u32 \<Rightarrow> DiskInterface \<Rightarrow> bool" where
  "root_added d n e k v ty d' \<longleftrightarrow> entry_added d 0 n e d' \<and> tree_added d (root_block d) k v ty d'"

lemma root_addedD:
  assumes "root_added d n e k v ty d'"
  shows "root_dir d' (Suc n)" "root_entries d' = root_entries d @ [e]" "root_first d' \<noteq> 0"
    "index_entries (d', root_block d) = entry_insert (k, v, ty) (index_entries (d, root_block d))"
    "length (leaves d' (root_block d)) = Suc (length (leaves d (root_block d)))"
  using assms by (simp_all add: root_added_def entry_added_def tree_added_def)

lemma names_ok_single: "name_ok name \<Longrightarrow> length name < NAME_MAX \<Longrightarrow> names_ok [name]"
  by (simp add: names_ok_def path_of_single)

lemma root_file_at:
  assumes "fs_ok d" "root_file d name i"
  shows "file_at d [name] i"
proof -
  obtain ty where f: "name_ok name" "length name < NAME_MAX" "0 < i" "i < inode_capacity d"
      "map_of (index_entries (d, root_block d)) (path_hash name) = Some (of_nat i, ty)" "ty \<noteq> FILE_TYPE_DIRECTORY"
    using assms(2) by (auto simp: root_file_def split: option.splits)
  then show ?thesis
    using names_ok_single index_lookup_abs [OF fs_okD(3) [OF assms(1)]] fs_okD(3) [OF assms(1)]
    by (simp add: file_at_def leads_to_def)
qed

lemma no_file_nothing:
  assumes "fs_ok d" "no_file d name"
  shows "nothing_at d [name]"
  using assms(2) names_ok_single index_lookup_abs [OF fs_okD(3) [OF assms(1)]] fs_okD(3) [OF assms(1)]
  by (simp add: nothing_at_def no_file_def leads_to_def)

lemma getattr_root:
  assumes "fs_ok d"
  shows "nbtrfs_getattr d [slash] = Some (0, Some (stat_of (inode_at d 0) 0))"
  using getattr_dir(1) [OF assms dir_at_root [OF assms] fs_okD(3,4) [OF assms]] by (simp add: path_of_def)

lemma root_file_step:
  assumes "root_file d name i" "fs_step I K d d'"
    and "index_entries (d', root_block d) = index_entries (d, root_block d)"
  shows "root_file d' name i"
  using assms(1,3) fs_stepD(4,9) [OF assms(2)] by (simp add: root_file_def)

lemma root_added_file:
  assumes "root_added d n e (path_hash name) (of_nat i) ty d'" "fs_step I K d d'"
    and "new_name_ok name" "0 < i" "i < inode_capacity d" "ty \<noteq> FILE_TYPE_DIRECTORY"
  shows "root_file d' name i"
  using root_addedD(4) [OF assms(1)] assms(3-6) fs_stepD(4,9) [OF assms(2)]
  by (simp add: root_file_def new_name_ok_def map_of_entry_insert)

lemma mknod_root:
  assumes "fs_ok d" "root_dir d n" "n < 15" "root_room d" "new_name_ok name"
    and "mode AND S_IFMT \<noteq> FILE_TYPE_DIRECTORY" "length (entry_name (env_junk E)) = NAME_MAX" "first_inode d i"
  obtains d' where "nbtrfs_mknod E d (path_of [name]) mode = Some (0, d')"
    "fs_step {0, i} {unat (root_first d), root_block d} d d'"
    "root_added d n (new_entry (env_junk E) name (of_nat i)) (path_hash name) (of_nat i) (mode AND S_IFMT) d'"
    "inode_at d' i = new_file_inode E d i mode"
    "\<forall>j<inode_capacity d. inode_used d' j = (j = i \<or> inode_used d j)"
    "card (free_set d) \<le> card (free_set d') + (if root_first d = 0 then 2 else 1)"
proof -
  have i: "0 \<noteq> i" using assms(8) by (simp add: first_inode_def)
  obtain b d' where d': "nbtrfs_mknod E d (path_of ([] @ [name])) mode = Some (0, d')"
    "fs_step {0, i} {unat (root_first d), root_block d} d d'"
    "name_added d 0 (root_block d) n (new_entry (env_junk E) name (of_nat i)) (path_hash name) (of_nat i)
       (mode AND S_IFMT) b d'"
    "inode_at d' i = new_file_inode E d i mode"
    "\<forall>j<inode_capacity d. inode_used d' j = (j = i \<or> inode_used d j)"
    "card (free_set d) \<le> card (free_set d') + name_blocks d 0 (mode AND S_IFMT)"
    by (rule mknod_dir [OF assms(1) dir_at_root [OF assms(1)] assms(2,3) fs_okD(3) [OF assms(1)]
          dir_room_file [OF assms(6,4)] assms(5,7,8) i])
  have "root_added d n (new_entry (env_junk E) name (of_nat i)) (path_hash name) (of_nat i) (mode AND S_IFMT) d'"
    using d'(3) assms(6) by (simp add: name_added_def root_added_def)
  then show ?thesis
    using d' assms(6) by (intro that [of d']) (simp_all add: name_blocks_def split: if_splits)
qed

subsection \<open>Changing an inode\<close>

text \<open>Volumes with the same names and the same inodes in use.\<close>

definition same_names :: "DiskInterface \<Rightarrow> DiskInterface \<Rightarrow> bool" where
  "same_names d d' \<longleftrightarrow> index_entries (d', root_block d) = index_entries (d, root_block d) \<and>
     leaves d' (root_block d) = leaves d (root_block d) \<and>
     (\<forall>j<inode_capacity d. inode_used d' j = inode_used d j)"

lemma same_names_refl [simp]: "same_names d d"
  by (simp add: same_names_def)

lemma same_names_trans:
  assumes "same_names d d'" "same_names d' d''" "fs_step I K d d'"
  shows "same_names d d''"
  using assms(1,2) fs_stepD(4,9) [OF assms(3)] by (simp add: same_names_def)

lemma fs_update_inode:
  assumes "fs_ok d" "i < inode_capacity d" "inode_wf n" "i_number n = of_nat i"
  obtains d' where "inode_write d n = Some (0, d')" "d' = set_inode d i n" "fs_step {i} {} d d'" "inode_at d' i = n"
    "index_entries (d', root_block d) = index_entries (d, root_block d)" "root_block d' = root_block d"
    "same_names d d'" "free_set d' = free_set d"
proof -
  note s = fs_set_inode [OF assms(1-3)]
  have "free_set (set_inode d i n) = free_set d"
    using s(4) fs_stepD(2) [OF s(1)] by (auto simp: free_set_def)
  then show ?thesis
    using s inode_write_ok [OF fs_okD(2) [OF assms(1)] assms(2,4)]
    by (intro that [of "set_inode d i n"]) (simp_all add: same_names_def)
qed

end
