(* ===== verification/File_Data.thy ===== *)
theory File_Data
  imports Fuse_Facts
begin

text \<open>
  The bytes of a file: reading and writing as operations on a function from offsets to
  bytes, for the offsets that the twelve direct blocks hold.
\<close>

subsection \<open>The content of a file\<close>

definition file_block :: "Inode \<Rightarrow> nat \<Rightarrow> u64" where
  "file_block n j = direct_blocks n ! j"

definition file_byte :: "DiskInterface \<Rightarrow> Inode \<Rightarrow> nat \<Rightarrow> u8" where
  "file_byte d n x =
     (let p = file_block n (x div USABLE_BLOCK_SIZE)
      in if p = 0 then 0 else page_at d (unat p) (4 + x mod USABLE_BLOCK_SIZE))"

text \<open>The blocks of a file are data blocks, each used once.\<close>

definition file_blocks :: "Inode \<Rightarrow> nat set" where
  "file_blocks n = {unat (file_block n j) | j. j < NDIRECT \<and> file_block n j \<noteq> 0}"

definition file_ok :: "DiskInterface \<Rightarrow> nat \<Rightarrow> bool" where
  "file_ok d i \<longleftrightarrow> fs_ok d \<and> 0 < i \<and> i < inode_capacity d \<and> i_number (inode_at d i) = of_nat i \<and>
     (\<forall>j<NDIRECT. file_block (inode_at d i) j \<noteq> 0 \<longrightarrow> is_data d (unat (file_block (inode_at d i) j))) \<and>
     (\<forall>j<NDIRECT. \<forall>k<NDIRECT. file_block (inode_at d i) j \<noteq> 0 \<longrightarrow> j \<noteq> k \<longrightarrow>
        file_block (inode_at d i) j \<noteq> file_block (inode_at d i) k)"

definition max_direct :: nat where
  "max_direct = NDIRECT * USABLE_BLOCK_SIZE"

lemma page_index_small:
  assumes "off < max_direct"
  shows "page_index off = of_nat (off div USABLE_BLOCK_SIZE)" "unat (page_index off) = off div USABLE_BLOCK_SIZE"
    "off div USABLE_BLOCK_SIZE < NDIRECT"
proof -
  show s: "off div USABLE_BLOCK_SIZE < NDIRECT"
    using assms by (simp add: max_direct_def less_mult_imp_div_less)
  then have b: "off div USABLE_BLOCK_SIZE < 2 ^ 31" unfolding NDIRECT_def by (rule less_trans) simp
  have u: "unat (of_nat (off div USABLE_BLOCK_SIZE) :: u64) = off div USABLE_BLOCK_SIZE"
    using b by (intro unat_of_nat_u64) simp
  then have "int_of_u64 (of_nat (off div USABLE_BLOCK_SIZE)) = int (off div USABLE_BLOCK_SIZE)"
    using int_of_u64_small [of "of_nat (off div USABLE_BLOCK_SIZE)"] b by (simp only: u)
  then show "page_index off = of_nat (off div USABLE_BLOCK_SIZE)" by (simp add: page_index_def)
  then show "unat (page_index off) = off div USABLE_BLOCK_SIZE" using u by simp
qed

lemma inode_get_block_page:
  assumes "off < max_direct"
  shows "inode_get_block d n (page_index off) cur =
     (let p = file_block n (off div USABLE_BLOCK_SIZE) in Some (if p \<noteq> 0 then 0 else -1, p))"
  using page_index_small(2,3) [OF assms] by (simp add: inode_get_block_def file_block_def Let_def del: USABLE_BLOCK_SIZE_def)

lemma file_okD:
  assumes "file_ok d i" "j < NDIRECT" "file_block (inode_at d i) j \<noteq> 0"
  shows "is_data d (unat (file_block (inode_at d i) j))"
    "k < NDIRECT \<Longrightarrow> j \<noteq> k \<Longrightarrow> unat (file_block (inode_at d i) k) \<noteq> unat (file_block (inode_at d i) j)"
proof -
  show "is_data d (unat (file_block (inode_at d i) j))" using assms by (simp add: file_ok_def)
  assume "k < NDIRECT" "j \<noteq> k"
  then have "file_block (inode_at d i) j \<noteq> file_block (inode_at d i) k" using assms by (simp add: file_ok_def)
  then show "unat (file_block (inode_at d i) k) \<noteq> unat (file_block (inode_at d i) j)"
    by (metis word_unat_eq_iff)
qed

subsection \<open>Reading\<close>

text \<open>Every page of the range has a block.\<close>

definition no_holes :: "Inode \<Rightarrow> nat \<Rightarrow> nat \<Rightarrow> bool" where
  "no_holes n off len \<longleftrightarrow> (\<forall>x. off \<le> x \<and> x < off + len \<longrightarrow> file_block n (x div USABLE_BLOCK_SIZE) \<noteq> 0)"

lemma chunk_page:
  assumes "x < chunk off remaining"
  shows "(off + x) div USABLE_BLOCK_SIZE = off div USABLE_BLOCK_SIZE"
    "(off + x) mod USABLE_BLOCK_SIZE = off mod USABLE_BLOCK_SIZE + x"
proof -
  let ?u = USABLE_BLOCK_SIZE
  have u: "0 < ?u" by simp
  have x: "off mod ?u + x < ?u" using assms unfolding chunk_def by (simp only: min_less_iff_conj less_diff_conv add.commute)
  have "off + x = off div ?u * ?u + (off mod ?u + x)" by (metis add.assoc div_mult_mod_eq)
  then show "(off + x) div ?u = off div ?u" "(off + x) mod ?u = off mod ?u + x"
    using x u by (metis div_mult_self3 div_less add.commute add_0 nat_less_le, metis mod_less mod_mult_self3)
qed

lemma rd_bytes_file:
  assumes "file_block n (off div USABLE_BLOCK_SIZE) \<noteq> 0" "c \<le> chunk off remaining"
  shows "rd_bytes (page_at d (unat (file_block n (off div USABLE_BLOCK_SIZE)))) (4 + off mod USABLE_BLOCK_SIZE) c
       = map (file_byte d n) [off..<off + c]"
proof (rule nth_equalityI)
  fix x
  assume "x < length (rd_bytes (page_at d (unat (file_block n (off div USABLE_BLOCK_SIZE)))) (4 + off mod USABLE_BLOCK_SIZE) c)"
  then have x: "x < c" "x < chunk off remaining" using assms(2) by simp_all
  then show "rd_bytes (page_at d (unat (file_block n (off div USABLE_BLOCK_SIZE)))) (4 + off mod USABLE_BLOCK_SIZE) c ! x
       = map (file_byte d n) [off..<off + c] ! x"
    using assms(1) chunk_page [OF x(2)]
    by (simp add: rd_bytes_def file_byte_def add.assoc del: USABLE_BLOCK_SIZE_def)
qed simp

lemma read_loop_file:
  assumes "\<forall>j<NDIRECT. file_block n j \<noteq> 0 \<longrightarrow> is_data d (unat (file_block n j))"
    and "off + nat remaining \<le> max_direct" "no_holes n off (nat remaining)" "0 \<le> remaining"
  shows "read_loop d n remaining off buf
       = Some (int (length buf) + remaining, buf @ map (file_byte d n) [off..<off + nat remaining])"
  using assms(2-4)
proof (induction "nat remaining" arbitrary: remaining off buf rule: less_induct)
  case less
  show ?case
  proof (cases "remaining \<le> 0")
    case True
    then show ?thesis using less.prems(3) by (subst read_loop.simps) simp
  next
    case False
    let ?c = "chunk off remaining"
    let ?p = "file_block n (off div USABLE_BLOCK_SIZE)"
    have off: "off < max_direct" using False less.prems(1) by simp
    have p: "?p \<noteq> 0" using less.prems(2) False by (simp add: no_holes_def del: USABLE_BLOCK_SIZE_def)
    have c: "0 < ?c" "?c \<le> nat remaining" using chunk_pos False by (simp_all add: chunk_def)
    have get: "get_block_direct d (i_number n) ?p = Some (unat ?p)"
      using assms(1) page_index_small(3) [OF off] p by (simp add: get_data_block del: USABLE_BLOCK_SIZE_def NDIRECT_def)
    have n: "nat (remaining - int ?c) = nat remaining - ?c" using c by simp
    have "read_loop d n remaining off buf = read_loop d n (remaining - int ?c) (off + ?c)
        (buf @ map (file_byte d n) [off..<off + ?c])"
      using False p get rd_bytes_file [OF p order_refl, of d remaining]
      by (subst read_loop.simps) (simp add: inode_get_block_page [OF off] Let_def del: USABLE_BLOCK_SIZE_def)
    also have "\<dots> = Some (int (length (buf @ map (file_byte d n) [off..<off + ?c])) + (remaining - int ?c),
        (buf @ map (file_byte d n) [off..<off + ?c]) @ map (file_byte d n) [off + ?c..<off + ?c + nat (remaining - int ?c)])"
      using c less.prems by (intro less.hyps) (auto simp: no_holes_def n)
    also have "off + ?c + nat (remaining - int ?c) = off + nat remaining" using c n by simp
    finally show ?thesis
      using c upt_add_eq_append [of off "off + ?c" "nat remaining - ?c"]
      by (simp add: add.assoc flip: map_append)
  qed
qed

subsection \<open>The blocks for writing\<close>

text \<open>The file with one more block.\<close>

definition with_block :: "Inode \<Rightarrow> nat \<Rightarrow> u64 \<Rightarrow> Inode" where
  "with_block n j p = n\<lparr>direct_blocks := (direct_blocks n)[j := p]\<rparr>"

lemma with_block_facts:
  assumes "inode_wf n" "j < NDIRECT"
  shows "inode_wf (with_block n j p)" "i_number (with_block n j p) = i_number n" "i_size (with_block n j p) = i_size n"
    "k < NDIRECT \<Longrightarrow> file_block (with_block n j p) k = (if k = j then p else file_block n k)"
  using assms by (simp_all add: with_block_def inode_wf_def file_block_def)

text \<open>
  The blocks of the file that are new in \<open>d'\<close> lie on pages in \<open>J\<close> that had none, and were free
  before. What a file takes is taken from the free blocks.
\<close>

definition block_count :: "Inode \<Rightarrow> nat" where
  "block_count n = card {j. j < NDIRECT \<and> file_block n j \<noteq> 0}"

definition blocks_added :: "nat \<Rightarrow> nat set \<Rightarrow> DiskInterface \<Rightarrow> DiskInterface \<Rightarrow> bool" where
  "blocks_added i J d d' \<longleftrightarrow>
     (\<forall>j<NDIRECT. file_block (inode_at d' i) j = file_block (inode_at d i) j \<or>
        j \<in> J \<and> file_block (inode_at d i) j = 0 \<and> unat (file_block (inode_at d' i) j) \<in> free_set d) \<and>
     card (free_set d) + block_count (inode_at d i) \<le> card (free_set d') + block_count (inode_at d' i)"

lemma blocks_added_refl:
  "inode_at d' i = inode_at d i \<Longrightarrow> card (free_set d') = card (free_set d) \<Longrightarrow> blocks_added i J d d'"
  by (simp add: blocks_added_def)

lemma blocks_added_kept:
  assumes "blocks_added i J d d'" "j < NDIRECT" "file_block (inode_at d i) j \<noteq> 0"
  shows "file_block (inode_at d' i) j = file_block (inode_at d i) j"
  using assms unfolding blocks_added_def by blast

lemma blocks_added_other:
  assumes "blocks_added i J d d'" "j < NDIRECT" "j \<notin> J"
  shows "file_block (inode_at d' i) j = file_block (inode_at d i) j"
  using assms unfolding blocks_added_def by blast

lemma free_set_step: "fs_step I K d d' \<Longrightarrow> free_set d' \<subseteq> free_set d"
  using fs_stepD(2,7) by (auto simp: free_set_def)

lemma free_set_apart: "k \<in> free_set d \<Longrightarrow> \<not> is_data d k \<and> \<not> is_tree d k"
  by (simp add: free_set_def is_data_def is_tree_def)

lemma blocks_added_trans:
  assumes "blocks_added i J d d'" "blocks_added i L d' d''" "free_set d' \<subseteq> free_set d"
  shows "blocks_added i (J \<union> L) d d''"
proof -
  note a = assms(1) [unfolded blocks_added_def] and b = assms(2) [unfolded blocks_added_def]
  have "file_block (inode_at d'' i) j = file_block (inode_at d i) j \<or>
      j \<in> J \<union> L \<and> file_block (inode_at d i) j = 0 \<and> unat (file_block (inode_at d'' i) j) \<in> free_set d"
    if j: "j < NDIRECT" for j
    using conjunct1 [OF a, rule_format, OF j] conjunct1 [OF b, rule_format, OF j] assms(3) by auto
  moreover have "card (free_set d) + block_count (inode_at d i) \<le> card (free_set d'') + block_count (inode_at d'' i)"
    using conjunct2 [OF a] conjunct2 [OF b] by linarith
  ultimately show ?thesis unfolding blocks_added_def by blast
qed

text \<open>Inodes that differ in their blocks only.\<close>

definition same_attributes :: "Inode \<Rightarrow> Inode \<Rightarrow> bool" where
  "same_attributes n n' \<longleftrightarrow> n' = n\<lparr>direct_blocks := direct_blocks n'\<rparr>"

lemma same_attributesD:
  assumes "same_attributes n n'"
  shows "i_number n' = i_number n" "i_mode n' = i_mode n" "i_size n' = i_size n"
    "i_creation_time n' = i_creation_time n" "i_modification_time n' = i_modification_time n"
    "i_access_time n' = i_access_time n" "reference_count n' = reference_count n"
    "owner_id n' = owner_id n" "group_id n' = group_id n" "indirect_block n' = indirect_block n"
  using assms [unfolded same_attributes_def] by (metis Inode.select_convs Inode.surjective Inode.update_convs(5))+

lemma same_attributes_refl [simp]: "same_attributes n n"
  by (simp add: same_attributes_def)

lemma same_attributes_trans: "same_attributes n n' \<Longrightarrow> same_attributes n' n'' \<Longrightarrow> same_attributes n n''"
  by (metis (no_types, lifting) Inode.update_convs(5) Inode.select_convs(5) Inode.surjective same_attributes_def)

text \<open>What making a block available for page \<open>j\<close> keeps: the bytes of the file and all attributes.\<close>

definition same_file :: "nat \<Rightarrow> nat \<Rightarrow> DiskInterface \<Rightarrow> DiskInterface \<Rightarrow> bool" where
  "same_file i j d d' \<longleftrightarrow> file_ok d' i \<and>
     (\<forall>x<max_direct. file_byte d' (inode_at d' i) x = file_byte d (inode_at d i) x) \<and>
     same_attributes (inode_at d i) (inode_at d' i) \<and> same_names d d' \<and> blocks_added i {j} d d'"

lemma fresh_data_byte: "4 \<le> a \<Longrightarrow> fresh_data_page a = 0"
  by (simp add: fresh_data_page_def set_page_type_def wr32_def page_simps zero_page_def)

lemma page_type_fresh: "page_type fresh_data_page = block_type_code BLOCK_TYPE_DATA"
  by (simp add: fresh_data_page_def del: block_type_code.simps)

lemma file_div: "x < max_direct \<Longrightarrow> x div USABLE_BLOCK_SIZE < NDIRECT"
  by (rule page_index_small(3))

lemma write_block_for_new:
  assumes "file_ok d i" "j < NDIRECT" "file_block (inode_at d i) j = 0" "next_free d b"
  defines "d1 \<equiv> set_page (alloc_result d b) b fresh_data_page"
  defines "d' \<equiv> set_inode d1 i (with_block (inode_at d i) j (of_nat b))"
  shows "fs_step {i} {} d d'" "inode_at d' i = with_block (inode_at d i) j (of_nat b)" "same_file i j d d'"
    "(of_nat b :: u64) \<noteq> 0" "free_set d' = free_set d - {b}"
    "inode_write d1 (with_block (inode_at d i) j (of_nat b)) = Some (0, d')"
proof -
  have ok: "fs_ok d" and i: "0 < i" "i < inode_capacity d" "i_number (inode_at d i) = of_nat i"
    using assms(1) by (simp_all add: file_ok_def)
  note nf = next_freeD [OF fs_okD(1) [OF ok] assms(4)]
  have ub: "unat (of_nat b :: u64) = b" by (rule valid_block_unat [OF nf(2)])
  then show bz: "(of_nat b :: u64) \<noteq> 0" using nf(1) by force
  note s1 = fs_alloc_data [OF ok assms(4) page_type_fresh, folded d1_def]
  note t1 = fs_stepD [OF s1(1)]
  have i1: "i < inode_capacity d1" using t1(9) i(2) by simp
  note w = with_block_facts [OF inode_wf_at [of d i] assms(2), where p = "of_nat b"]
  note s2 = fs_set_inode [OF t1(1) i1 w(1), folded d'_def]
  note t2 = fs_stepD [OF s2(1)]
  show st: "fs_step {i} {} d d'" using fs_step_trans [OF s1(1) s2(1)] by simp
  show at: "inode_at d' i = with_block (inode_at d i) j (of_nat b)" by (rule s2(5))
  have num: "i_number (with_block (inode_at d i) j (of_nat b)) = of_nat i" using w(2) i(3) by simp
  show "inode_write d1 (with_block (inode_at d i) j (of_nat b)) = Some (0, d')"
    unfolding d'_def by (rule inode_write_ok [OF fs_okD(2) [OF t1(1)] i1 num])
  show "free_set d' = free_set d - {b}"
    using s1(4) s2(4) t1(2) t2(2) by (auto simp: free_set_def)
  note st' = fs_stepD [OF st]
  have nd: "\<not> is_data d b" "b \<in> free_set d"
    using fs_free_apart(1) [OF ok assms(4)] assms(4) by (simp_all add: next_free_def free_set_def)
  have fb: "file_block (inode_at d' i) k = (if k = j then of_nat b else file_block (inode_at d i) k)" if "k < NDIRECT" for k
    using w(4) that at by simp
  have old: "is_data d' (unat (file_block (inode_at d i) k)) \<and> file_block (inode_at d i) k \<noteq> of_nat b
      \<and> page_at d' (unat (file_block (inode_at d i) k)) = page_at d (unat (file_block (inode_at d i) k))"
    if "k < NDIRECT" "file_block (inode_at d i) k \<noteq> 0" for k
  proof -
    have "is_data d (unat (file_block (inode_at d i) k))" by (rule file_okD(1) [OF assms(1) that])
    then show ?thesis using st'(8,11) nd ub by auto
  qed
  have pb: "page_at d' b = fresh_data_page" "is_data d' b" using t2(8,11) s1(5,6) by simp_all
  have byte: "file_byte d' (inode_at d' i) x = file_byte d (inode_at d i) x" if "x < max_direct" for x
    using fb [OF file_div [OF that]] old [OF file_div [OF that]] pb(1) ub bz assms(3)
    by (auto simp: file_byte_def Let_def fresh_data_byte simp del: USABLE_BLOCK_SIZE_def unsigned_of_nat of_nat_eq_0_iff)
  have distinct: "file_block (inode_at d' i) m \<noteq> file_block (inode_at d' i) k"
    if "m < NDIRECT" "k < NDIRECT" "m \<noteq> k" "file_block (inode_at d' i) m \<noteq> 0" for m k
    using fb [OF that(1)] fb [OF that(2)] old [OF that(1)] old [OF that(2)] that
      file_okD(2) [OF assms(1) that(1), of k] bz by (metis (no_types, lifting))
  have data: "is_data d' (unat (file_block (inode_at d' i) k))" if "k < NDIRECT" "file_block (inode_at d' i) k \<noteq> 0" for k
    using fb [OF that(1)] old [OF that(1)] that(2) pb(2) ub by (metis (no_types, lifting))
  have "file_ok d' i"
    unfolding file_ok_def using i st'(1,9) at w(2) data distinct by auto
  moreover have "blocks_added i {j} d d'"
  proof -
    have "block_count (inode_at d' i) = Suc (block_count (inode_at d i))"
    proof -
      have "{k. k < NDIRECT \<and> file_block (inode_at d' i) k \<noteq> 0} = insert j {k. k < NDIRECT \<and> file_block (inode_at d i) k \<noteq> 0}"
        using fb bz assms(2) by (auto simp del: NDIRECT_def of_nat_eq_0_iff split: if_splits)
      then show ?thesis using assms(3) by (simp add: block_count_def)
    qed
    moreover have "card (free_set d) \<le> Suc (card (free_set d'))"
      unfolding \<open>free_set d' = free_set d - {b}\<close>
      using card_Suc_Diff1 [OF finite_free_set, of b d] by (cases "b \<in> free_set d") simp_all
    ultimately show ?thesis
      unfolding blocks_added_def using fb nd ub assms(3) by (simp del: of_nat_eq_0_iff unsigned_of_nat NDIRECT_def)
  qed
  moreover have "same_names d d'"
    using s1(2,3) s2(2,3,6) t1(4,6,9) by (simp add: same_names_def)
  moreover have "same_attributes (inode_at d i) (inode_at d' i)"
    unfolding at by (simp add: same_attributes_def with_block_def)
  ultimately show "same_file i j d d'"
    unfolding same_file_def using byte by blast
qed

lemma same_file_refl: "file_ok d i \<Longrightarrow> same_file i j d d"
  by (simp add: same_file_def blocks_added_refl)

lemma write_block_for_ok:
  assumes "file_ok d i" "off < max_direct"
    and "file_block (inode_at d i) (off div USABLE_BLOCK_SIZE) = 0 \<Longrightarrow> 0 < card (free_set d)"
  obtains d' where "write_block_for d (inode_at d i) off
      = Some (file_block (inode_at d' i) (off div USABLE_BLOCK_SIZE), inode_at d' i, d')"
    "file_block (inode_at d' i) (off div USABLE_BLOCK_SIZE) \<noteq> 0"
    "fs_step {i} {} d d'" "same_file i (off div USABLE_BLOCK_SIZE) d d'"
    "card (free_set d') = (if file_block (inode_at d i) (off div USABLE_BLOCK_SIZE) = 0
       then card (free_set d) - 1 else card (free_set d))"
proof (cases "file_block (inode_at d i) (off div USABLE_BLOCK_SIZE) = 0")
  case False
  have "fs_step {i} {} d d" using assms(1) fs_step_mono [OF fs_step_refl] by (auto simp: file_ok_def)
  then show ?thesis
    using False assms(1) by (intro that [of d])
      (simp_all add: write_block_for_def inode_get_block_page [OF assms(2)] Let_def same_file_refl del: USABLE_BLOCK_SIZE_def)
next
  case True
  have ok: "fs_ok d" using assms(1) by (simp add: file_ok_def)
  obtain b where b: "next_free d b" using next_free_card [OF assms(3) [OF True]] by blast
  note nf = next_freeD [OF fs_okD(1) [OF ok] b]
  let ?j = "off div USABLE_BLOCK_SIZE"
  have j: "?j < NDIRECT" by (rule file_div [OF assms(2)])
  note n = write_block_for_new [OF assms(1) j True b]
  let ?d1 = "set_page (alloc_result d b) b fresh_data_page"
  let ?n = "with_block (inode_at d i) ?j (of_nat b)"
  let ?d' = "set_inode ?d1 i ?n"
  have set: "inode_set_block ?d1 (inode_at d i) (page_index off) (of_nat b) = Some (0, ?n, ?d1)"
    using page_index_small(2) [OF assms(2)] j
    by (simp add: inode_set_block_def with_block_def del: USABLE_BLOCK_SIZE_def NDIRECT_def)
  have fb: "file_block ?n ?j = of_nat b" using with_block_facts(4) [OF inode_wf_at j j] by simp
  have vb: "valid_block (alloc_result d b) b" using nf(2) alloc_result_frame(3) by simp
  have "write_block_for d (inode_at d i) off = Some (of_nat b, ?n, ?d')"
    using True n(4,6) set vb
    by (simp add: write_block_for_def inode_get_block_page [OF assms(2)] alloc_page_next [OF fs_okD(1) [OF ok] b]
        Let_def del: USABLE_BLOCK_SIZE_def of_nat_eq_0_iff)
  moreover have "card (free_set ?d') = card (free_set d) - 1"
    unfolding n(5) using b by (intro card_Diff_singleton) (simp add: free_set_def next_free_def)
  ultimately show ?thesis
    using n(1-4) fb True by (intro that [of ?d']) (simp_all del: of_nat_eq_0_iff)
qed

subsection \<open>Writing\<close>

definition overwrite :: "(nat \<Rightarrow> u8) \<Rightarrow> nat \<Rightarrow> u8 list \<Rightarrow> nat \<Rightarrow> u8" where
  "overwrite f off buf x = (if off \<le> x \<and> x < off + length buf then buf ! (x - off) else f x)"

lemma overwrite_Nil [simp]: "overwrite f off [] = f"
  by (rule ext) (auto simp: overwrite_def)

lemma overwrite_append:
  "overwrite (overwrite f off xs) (off + length xs) ys = overwrite f off (xs @ ys)"
  by (auto simp: overwrite_def fun_eq_iff nth_append)

lemma same_page_arith:
  assumes "(x :: nat) = q + a" "y = q + b"
  shows "y \<le> x \<longleftrightarrow> b \<le> a" "x - y = a - b" "x < y + l \<longleftrightarrow> a < b + l"
  using assms by auto

text \<open>The pages of a range, and those of them without a block.\<close>

definition touched :: "nat \<Rightarrow> nat \<Rightarrow> nat set" where
  "touched off len = {x div USABLE_BLOCK_SIZE | x. off \<le> x \<and> x < off + len}"

definition missing :: "Inode \<Rightarrow> nat \<Rightarrow> nat \<Rightarrow> nat set" where
  "missing n off len = {j \<in> touched off len. file_block n j = 0}"

lemma touched_upt:
  "touched off len = (if len = 0 then {} else {off div USABLE_BLOCK_SIZE..(off + len - 1) div USABLE_BLOCK_SIZE})"
proof (cases "len = 0")
  case False
  have "j \<in> touched off len" if j: "off div USABLE_BLOCK_SIZE \<le> j" "j \<le> (off + len - 1) div USABLE_BLOCK_SIZE" for j
  proof -
    let ?x = "max off (j * USABLE_BLOCK_SIZE)"
    have x: "?x div USABLE_BLOCK_SIZE = j"
      using j(1) by (auto simp: max_def intro!: antisym div_le_mono dest: div_le_mono [where k = USABLE_BLOCK_SIZE])
    have "j * USABLE_BLOCK_SIZE \<le> off + len - 1"
      using j(2) by (metis div_times_less_eq_dividend le_trans mult_le_mono1)
    then have "?x < off + len" using False by (simp only: max_less_iff_conj) linarith
    then show ?thesis unfolding touched_def mem_Collect_eq using x by (metis max.cobounded1)
  qed
  moreover have "off div USABLE_BLOCK_SIZE \<le> x div USABLE_BLOCK_SIZE \<and> x div USABLE_BLOCK_SIZE \<le> (off + len - 1) div USABLE_BLOCK_SIZE"
    if "off \<le> x" "x < off + len" for x
    using that by (intro conjI div_le_mono) auto
  ultimately show ?thesis using False by (auto simp: touched_def simp del: USABLE_BLOCK_SIZE_def)
qed (simp add: touched_def)

lemma finite_touched [simp]: "finite (touched off len)" "finite (missing n off len)"
proof -
  show "finite (touched off len)" by (simp add: touched_upt)
  then show "finite (missing n off len)" by (simp add: missing_def)
qed

lemma touched_append: "touched off (k + l) = touched off k \<union> touched (off + k) l"
  by (auto simp: touched_def add.assoc) (metis add.assoc not_less)+

lemma touched_small: "off + len \<le> max_direct \<Longrightarrow> j \<in> touched off len \<Longrightarrow> j < NDIRECT"
  using file_div by (auto simp: touched_def simp del: USABLE_BLOCK_SIZE_def NDIRECT_def)

text \<open>A store into one page of the file.\<close>

definition file_written :: "nat \<Rightarrow> nat \<Rightarrow> u8 list \<Rightarrow> DiskInterface \<Rightarrow> DiskInterface \<Rightarrow> bool" where
  "file_written i off buf d d' \<longleftrightarrow> file_ok d' i \<and>
     (\<forall>x<max_direct. file_byte d' (inode_at d' i) x = overwrite (file_byte d (inode_at d i)) off buf x) \<and>
     same_attributes (inode_at d i) (inode_at d' i) \<and> same_names d d' \<and>
     blocks_added i (touched off (length buf)) d d' \<and> no_holes (inode_at d' i) off (length buf)"

lemma write_page:
  assumes "file_ok d i" "off < max_direct" "file_block (inode_at d i) (off div USABLE_BLOCK_SIZE) \<noteq> 0"
    and "length buf \<le> chunk off remaining"
  defines "k \<equiv> unat (file_block (inode_at d i) (off div USABLE_BLOCK_SIZE))"
  defines "d' \<equiv> set_page d k (wr_bytes (page_at d k) (4 + off mod USABLE_BLOCK_SIZE) buf)"
  shows "fs_step {} {k} d d'" "inode_at d' i = inode_at d i" "file_written i off buf d d'"
    "card (free_set d') = card (free_set d)"
proof -
  have ok: "fs_ok d" and i: "0 < i" "i < inode_capacity d" using assms(1) by (simp_all add: file_ok_def)
  note j = file_div [OF assms(2)]
  have dk: "is_data d k" unfolding k_def by (rule file_okD(1) [OF assms(1) j assms(3)])
  have ty: "page_type (wr_bytes (page_at d k) (4 + off mod USABLE_BLOCK_SIZE) buf) = block_type_code BLOCK_TYPE_DATA"
    using dk by (simp add: is_data_def page_simps)
  note s = fs_set_data [OF ok dk ty, folded d'_def]
  note t = fs_stepD [OF s(1)]
  show "fs_step {} {k} d d'" by (rule s(1))
  show at: "inode_at d' i = inode_at d i" using t(5) i by simp
  have "free_set d' = free_set d" using s(4) t(2) by (auto simp: free_set_def)
  then show "card (free_set d') = card (free_set d)" by simp
  have data: "is_data d' c" if "is_data d c" for c
    using that t(11) s(5) by (cases "c = k") auto
  have "file_ok d' i"
    using assms(1) t(1,9) at data by (simp add: file_ok_def)
  moreover have "file_byte d' (inode_at d' i) x = overwrite (file_byte d (inode_at d i)) off buf x" if x: "x < max_direct" for x
  proof (cases "x div USABLE_BLOCK_SIZE = off div USABLE_BLOCK_SIZE")
    case True
    have "off \<le> x \<longleftrightarrow> off mod USABLE_BLOCK_SIZE \<le> x mod USABLE_BLOCK_SIZE"
      "x - off = x mod USABLE_BLOCK_SIZE - off mod USABLE_BLOCK_SIZE"
      "x < off + length buf \<longleftrightarrow> x mod USABLE_BLOCK_SIZE < off mod USABLE_BLOCK_SIZE + length buf"
      using same_page_arith [OF div_mult_mod_eq [of x USABLE_BLOCK_SIZE, symmetric]]
        div_mult_mod_eq [of off USABLE_BLOCK_SIZE, symmetric] unfolding True by metis+
    then show ?thesis
      using True assms(3) at by (auto simp: file_byte_def Let_def overwrite_def d'_def k_def wr_bytes_def
          simp del: USABLE_BLOCK_SIZE_def)
  next
    case False
    have "\<not> (off \<le> x \<and> x < off + length buf)"
    proof
      assume a: "off \<le> x \<and> x < off + length buf"
      then have "x - off < chunk off remaining" using assms(4) by linarith
      from chunk_page(1) [OF this] a False show False by (simp del: USABLE_BLOCK_SIZE_def)
    qed
    moreover have "unat (file_block (inode_at d i) (x div USABLE_BLOCK_SIZE)) \<noteq> k"
      unfolding k_def using file_okD(2) [OF assms(1) j assms(3) file_div [OF x]] False by metis
    ultimately show ?thesis
      using at by (auto simp: file_byte_def Let_def overwrite_def d'_def simp del: USABLE_BLOCK_SIZE_def)
  qed
  moreover have "no_holes (inode_at d' i) off (length buf)"
    unfolding no_holes_def
  proof (intro allI impI)
    fix x
    assume a: "off \<le> x \<and> x < off + length buf"
    then have "x - off < chunk off remaining" using assms(4) by linarith
    from chunk_page(1) [OF this] a show "file_block (inode_at d' i) (x div USABLE_BLOCK_SIZE) \<noteq> 0"
      using assms(3) at by (simp del: USABLE_BLOCK_SIZE_def)
  qed
  moreover have "same_names d d'"
    using s(2,3) t(6) by (simp add: same_names_def)
  moreover have "blocks_added i (touched off (length buf)) d d'"
    using at \<open>free_set d' = free_set d\<close> by (simp add: blocks_added_refl)
  ultimately show "file_written i off buf d d'"
    using at by (simp add: file_written_def)
qed

lemma file_written_Nil: "file_ok d i \<Longrightarrow> file_written i off [] d d"
  by (auto simp: file_written_def no_holes_def blocks_added_refl)

lemma file_blocks_data: "file_ok d i \<Longrightarrow> k \<in> file_blocks (inode_at d i) \<Longrightarrow> is_data d k"
  using file_okD(1) by (auto simp: file_blocks_def)

lemma same_file_written:
  assumes "same_file i (off div USABLE_BLOCK_SIZE) d d1" "fs_step {i} {} d d1" "file_written i off xs d1 d2" "xs \<noteq> []"
  shows "file_written i off xs d d2"
proof -
  note a = assms(1) [unfolded same_file_def] and b = assms(3) [unfolded file_written_def]
  have "off div USABLE_BLOCK_SIZE \<in> touched off (length xs)"
    using assms(4) by (force simp: touched_def simp del: USABLE_BLOCK_SIZE_def)
  then have "{off div USABLE_BLOCK_SIZE} \<union> touched off (length xs) = touched off (length xs)" by blast
  then have "blocks_added i (touched off (length xs)) d d2"
    using blocks_added_trans [of i _ d d1] a b free_set_step [OF assms(2)] by metis
  moreover have "same_names d d2" using same_names_trans [OF _ _ assms(2)] a b by blast
  moreover have "same_attributes (inode_at d i) (inode_at d2 i)" using same_attributes_trans a b by blast
  ultimately show ?thesis using a b unfolding file_written_def by (auto simp: overwrite_def)
qed

lemma file_written_append:
  assumes "file_written i off xs d d1" "fs_step {i} K d d1"
    and "file_written i (off + length xs) ys d1 d2" "off + length xs + length ys \<le> max_direct"
  shows "file_written i off (xs @ ys) d d2"
proof -
  note a = assms(1) [unfolded file_written_def] and b = assms(3) [unfolded file_written_def]
  have added: "blocks_added i (touched off (length (xs @ ys))) d d2"
    using blocks_added_trans [of i _ d d1 _ d2] a b free_set_step [OF assms(2)]
    unfolding length_append touched_append by blast
  have names: "same_names d d2" using same_names_trans [OF _ _ assms(2)] a b by blast
  have attrs: "same_attributes (inode_at d i) (inode_at d2 i)" using same_attributes_trans a b by blast
  have "file_byte d2 (inode_at d2 i) x = overwrite (file_byte d (inode_at d i)) off (xs @ ys) x" if "x < max_direct" for x
  proof -
    have "file_byte d2 (inode_at d2 i) x = overwrite (file_byte d1 (inode_at d1 i)) (off + length xs) ys x"
      using b that by blast
    also have "\<dots> = overwrite (overwrite (file_byte d (inode_at d i)) off xs) (off + length xs) ys x"
      using a that by (simp add: overwrite_def)
    finally show ?thesis by (simp add: overwrite_append)
  qed
  moreover have "no_holes (inode_at d2 i) off (length (xs @ ys))"
    unfolding no_holes_def
  proof (intro allI impI)
    fix x
    assume x: "off \<le> x \<and> x < off + length (xs @ ys)"
    then have j: "x div USABLE_BLOCK_SIZE < NDIRECT" using assms(4) by (intro file_div) simp
    show "file_block (inode_at d2 i) (x div USABLE_BLOCK_SIZE) \<noteq> 0"
    proof (cases "x < off + length xs")
      case True
      then have "file_block (inode_at d1 i) (x div USABLE_BLOCK_SIZE) \<noteq> 0" using x a unfolding no_holes_def by blast
      then show ?thesis using blocks_added_kept [OF _ j] b by metis
    next
      case False
      then show ?thesis using x b unfolding no_holes_def by simp
    qed
  qed
  ultimately show ?thesis
    using a b added names attrs unfolding file_written_def by blast
qed

text \<open>How many rounds the loop makes, and so how many free blocks it needs at most.\<close>

definition pages_for :: "nat \<Rightarrow> nat \<Rightarrow> nat" where
  "pages_for off len = (if len = 0 then 0 else Suc ((off mod USABLE_BLOCK_SIZE + len - 1) div USABLE_BLOCK_SIZE))"

lemma missing_pages_for: "card (missing n off len) \<le> pages_for off len"
proof (cases "len = 0")
  case False
  let ?u = USABLE_BLOCK_SIZE
  have "off + len - 1 = off div ?u * ?u + (off mod ?u + len - 1)"
    using False div_mult_mod_eq [of off ?u] by linarith
  then have "(off + len - 1) div ?u = off div ?u + (off mod ?u + len - 1) div ?u"
    by (metis div_mult_self3 USABLE_BLOCK_SIZE_def zero_neq_numeral)
  then have "card (touched off len) = pages_for off len"
    using False by (simp add: touched_upt pages_for_def del: USABLE_BLOCK_SIZE_def)
  moreover have "card (missing n off len) \<le> card (touched off len)"
    by (rule card_mono) (auto simp: missing_def)
  ultimately show ?thesis by simp
qed (simp add: missing_def touched_upt)

lemma write_loop_file:
  assumes "file_ok d i" "off + length buf \<le> max_direct"
    and "card (missing (inode_at d i) off (length buf)) \<le> card (free_set d)"
  obtains d' where "write_loop d (inode_at d i) (int (length buf)) off buf w
      = Some (True, w + int (length buf), inode_at d' i, d')"
    "fs_step {i} (file_blocks (inode_at d' i)) d d'" "file_written i off buf d d'"
  using assms
proof (induction "length buf" arbitrary: d off buf w thesis rule: less_induct)
  case less
  show ?case
  proof (cases "buf = []")
    case True
    have "fs_ok d" using less.prems(2) by (simp add: file_ok_def)
    then have "fs_step {i} (file_blocks (inode_at d i)) d d" using fs_step_mono [OF fs_step_refl] by blast
    then show ?thesis
      using True less.prems(2) by (intro less.prems(1) [of d]) (simp_all add: file_written_Nil write_loop.simps)
  next
    case False
    let ?len = "length buf"
    let ?c = "chunk off (int ?len)"
    let ?j = "off div USABLE_BLOCK_SIZE"
    have len: "0 < ?len" using False by simp
    have off: "off < max_direct" using len less.prems(3) by linarith
    have c: "0 < ?c" "?c \<le> ?len" using chunk_pos [of "int ?len" off] len by (simp_all add: chunk_def)
    let ?miss = "missing (inode_at d i) off ?len"
    have tj: "?j \<in> touched off ?len"
      using len by (force simp: touched_def simp del: USABLE_BLOCK_SIZE_def)
    have free: "0 < card (free_set d)" if "file_block (inode_at d i) ?j = 0"
    proof -
      have "?miss \<noteq> {}" using tj that by (auto simp: missing_def)
      then have "0 < card ?miss" by (simp add: card_gt_0_iff)
      then show ?thesis using less.prems(4) by simp
    qed
    obtain d1 where d1: "write_block_for d (inode_at d i) off = Some (file_block (inode_at d1 i) ?j, inode_at d1 i, d1)"
        "file_block (inode_at d1 i) ?j \<noteq> 0" "fs_step {i} {} d d1" "same_file i ?j d d1"
        "card (free_set d1) = (if file_block (inode_at d i) ?j = 0 then card (free_set d) - 1 else card (free_set d))"
      by (rule write_block_for_ok [OF less.prems(2) off free])
    have f1: "file_ok d1 i" using d1(4) by (simp add: same_file_def)
    let ?k = "unat (file_block (inode_at d1 i) ?j)"
    let ?xs = "take ?c buf"
    let ?d2 = "set_page d1 ?k (wr_bytes (page_at d1 ?k) (4 + off mod USABLE_BLOCK_SIZE) ?xs)"
    have xs: "length ?xs = ?c" using c by simp
    have le: "length ?xs \<le> chunk off (int ?len)" using xs by simp
    note wp = write_page [OF f1 off d1(2) le]
    have f2: "file_ok ?d2 i" using wp(3) by (simp add: file_written_def)
    have dk: "is_data d1 ?k" by (rule file_okD(1) [OF f1 file_div [OF off] d1(2)])
    have prems: "length (drop ?c buf) < ?len" "off + ?c + length (drop ?c buf) \<le> max_direct"
        "card (missing (inode_at ?d2 i) (off + ?c) (length (drop ?c buf))) \<le> card (free_set ?d2)"
    proof -
      show "length (drop ?c buf) < ?len" "off + ?c + length (drop ?c buf) \<le> max_direct"
        using c len less.prems(3) by simp_all
      have le: "missing (inode_at d1 i) (off + ?c) (length (drop ?c buf)) \<subseteq> ?miss - {?j}"
      proof
        fix j
        assume "j \<in> missing (inode_at d1 i) (off + ?c) (length (drop ?c buf))"
        then have j: "j \<in> touched (off + ?c) (?len - ?c)" "file_block (inode_at d1 i) j = 0" by (auto simp: missing_def)
        have t: "j \<in> touched off ?len" using j(1) touched_append [of off ?c "?len - ?c"] c by auto
        have "file_block (inode_at d i) j = 0"
          using j(2) blocks_added_kept [OF _ touched_small [OF less.prems(3) t]] d1(4) unfolding same_file_def by metis
        then show "j \<in> ?miss - {?j}" using t j(2) d1(2) by (auto simp: missing_def)
      qed
      have "card (missing (inode_at d1 i) (off + ?c) (length (drop ?c buf))) \<le> card (?miss - {?j})"
        by (rule card_mono [OF _ le]) simp
      also have "\<dots> \<le> card (free_set d1)"
      proof (cases "file_block (inode_at d i) ?j = 0")
        case True
        then have "?j \<in> ?miss" using tj by (simp add: missing_def)
        then show ?thesis using d1(5) True less.prems(4) by (simp add: card_Diff_singleton)
      next
        case False
        then show ?thesis using d1(5) less.prems(4) card_Diff1_le [of ?miss ?j] by simp
      qed
      finally show "card (missing (inode_at ?d2 i) (off + ?c) (length (drop ?c buf))) \<le> card (free_set ?d2)"
        using wp(2,4) by simp
    qed
    obtain d' where d': "write_loop ?d2 (inode_at ?d2 i) (int (length (drop ?c buf))) (off + ?c) (drop ?c buf) (w + int ?c)
          = Some (True, w + int ?c + int (length (drop ?c buf)), inode_at d' i, d')"
        "fs_step {i} (file_blocks (inode_at d' i)) ?d2 d'" "file_written i (off + ?c) (drop ?c buf) ?d2 d'"
      by (rule less.hyps [OF prems(1) _ f2 prems(2,3)])
    have "write_loop d (inode_at d i) (int ?len) off buf w = Some (True, w + int ?len, inode_at d' i, d')"
      using d'(1) d1(1,2) len c wp(2) get_data_block [OF dk]
      by (subst write_loop.simps) (simp add: of_nat_diff Let_def del: USABLE_BLOCK_SIZE_def)
    moreover have s2: "fs_step {i} {?k} d ?d2" using fs_step_trans [OF d1(3) wp(1)] by simp
    have ne: "?xs \<noteq> []" using xs c(1) by (metis list.size(3) less_irrefl)
    have w2: "file_written i off ?xs d ?d2" by (rule same_file_written [OF d1(4,3) wp(3) ne])
    moreover have "file_written i off buf d d'"
      using file_written_append [OF w2 s2, of "drop ?c buf" d'] d'(3) xs prems(2) by simp
    moreover have "?k \<in> file_blocks (inode_at d' i)"
    proof -
      have "file_block (inode_at d' i) ?j = file_block (inode_at d1 i) ?j"
        using d'(3) d1(2) wp(2) blocks_added_kept [OF _ file_div [OF off]] unfolding file_written_def by metis
      then show ?thesis using d1(2) file_div [OF off] unfolding file_blocks_def by (metis (mono_tags, lifting) mem_Collect_eq)
    qed
    ultimately show ?thesis
      using fs_step_trans [OF s2 d'(2)] by (intro less.prems(1) [of d']) (simp_all add: insert_absorb)
  qed
qed

subsection \<open>The handlers\<close>

lemma max_direct_small: "x \<le> max_direct \<Longrightarrow> x < 2 ^ 31"
  by (simp add: max_direct_def)

lemma int_of_u64_file:
  assumes "x \<le> max_direct"
  shows "int_of_u64 (of_nat x) = int x" "unat (of_nat x :: u64) = x"
proof -
  have x: "x < 2 ^ 31" using assms by (rule max_direct_small)
  show u: "unat (of_nat x :: u64) = x" by (rule unat_of_nat_u64) (use x in simp)
  show "int_of_u64 (of_nat x) = int x" using int_of_u64_small [of "of_nat x"] x u by simp
qed

lemma nbtrfs_read_file:
  fixes d i
  assumes "file_ok d i" "file_at d names i" "unat (i_size (inode_at d i)) \<le> max_direct"
    and "offset < 2 ^ 63" "len < 2 ^ 63"
  defines "m \<equiv> min len (unat (i_size (inode_at d i)) - offset)"
  assumes "no_holes (inode_at d i) offset m"
  shows "nbtrfs_read d (path_of names) (of_nat len) offset
       = Some (int m, map (file_byte d (inode_at d i)) [offset..<offset + m])"
proof -
  have ok: "fs_ok d" using assms(1) by (simp add: file_ok_def)
  note look = item_search_file [OF ok assms(2)]
  let ?n = "inode_at d i"
  let ?s = "unat (i_size ?n)"
  have u: "unat (of_nat offset :: u64) = offset" "unat (of_nat len :: u64) = len"
    "unat (of_nat offset + of_nat len :: u64) = offset + len"
    using assms(4,5) unat_of_nat_u64 [of "offset + len"] by (simp_all add: unat_of_nat_u64)
  have cmp: "i_size ?n \<le> of_nat offset \<longleftrightarrow> ?s \<le> offset" "i_size ?n < of_nat offset + of_nat len \<longleftrightarrow> ?s < offset + len"
    unfolding word_le_nat_alt word_less_nat_alt u by simp_all
  show ?thesis
  proof (cases "?s \<le> offset")
    case True
    then show ?thesis using look ok cmp(1) by (simp add: nbtrfs_read_def m_def)
  next
    case False
    let ?len' = "if i_size ?n < of_nat offset + of_nat len then i_size ?n - of_nat offset else of_nat len :: u64"
    have "i_size ?n = of_nat ?s" by simp
    then have sub: "i_size ?n - of_nat offset = of_nat (?s - offset)" using False by (metis nat_le_linear of_nat_diff)
    have len': "?len' = of_nat m"
    proof (cases "?s < offset + len")
      case True
      then have "m = ?s - offset" by (simp only: m_def)
      then show ?thesis using True cmp(2) sub by presburger
    next
      case c: False
      then have "m = len" using False by (simp only: m_def)
      then show ?thesis using c cmp(2) by presburger
    qed
    have m: "m \<le> max_direct" "offset + m \<le> max_direct" using assms(3) False by (simp_all add: m_def)
    have z: "(of_nat m :: u64) = 0 \<longleftrightarrow> m = 0" using int_of_u64_file(2) [OF m(1)] unat_0_iff [of "of_nat m :: u64"] by (simp only:)
    have data: "\<forall>j<NDIRECT. file_block ?n j \<noteq> 0 \<longrightarrow> is_data d (unat (file_block ?n j))"
      using assms(1) by (simp add: file_ok_def)
    have "read_loop d ?n (int m) offset [] = Some (int m, map (file_byte d ?n) [offset..<offset + m])"
      using read_loop_file [OF data, of offset "int m" "[]"] m(2) assms(7) by simp
    moreover have "nbtrfs_read d (path_of names) (of_nat len) offset =
        (if ?len' = 0 then Some (0, []) else read_loop d ?n (int_of_u64 ?len') offset [])"
    proof -
      have nle: "\<not> i_size ?n \<le> of_nat offset" using False cmp(1) by blast
      show ?thesis
        unfolding nbtrfs_read_def look(1,3) bind.simps prod.case Let_def InodeBtreePair.simps if_not_P [OF nle]
        using look(2) by simp
    qed
    ultimately show ?thesis
      unfolding len' int_of_u64_file(1) [OF m(1)] z by (cases "m = 0") simp_all
  qed
qed

text \<open>A new size leaves the bytes alone.\<close>

lemma set_size:
  assumes "file_ok d i" "file_at d names i"
  obtains d' where "inode_write d ((inode_at d i)\<lparr>i_size := s\<rparr>) = Some (0, d')" "fs_step {i} {} d d'" "file_ok d' i"
    "inode_at d' i = (inode_at d i)\<lparr>i_size := s\<rparr>" "file_at d' names i"
    "\<forall>x<max_direct. file_byte d' (inode_at d' i) x = file_byte d (inode_at d i) x"
    "same_names d d'" "free_set d' = free_set d"
proof -
  let ?n = "(inode_at d i)\<lparr>i_size := s\<rparr>"
  have a: "fs_ok d" "i < inode_capacity d" "i_number ?n = of_nat i" using assms(1) by (simp_all add: file_ok_def)
  have wf: "inode_wf ?n" using inode_wf_at [of d i] by (simp add: inode_wf_def del: inode_wf_at)
  obtain d' where d': "inode_write d ?n = Some (0, d')" "fs_step {i} {} d d'" "inode_at d' i = ?n"
      "index_entries (d', root_block d) = index_entries (d, root_block d)" "same_names d d'" "free_set d' = free_set d"
    using fs_update_inode [OF a(1,2) wf a(3)] by metis
  note st = fs_stepD [OF d'(2)]
  have fb: "file_block ?n j = file_block (inode_at d i) j" for j by (simp add: file_block_def)
  have "file_ok d' i" using assms(1) st(1,9,11) d'(3) fb by (simp add: file_ok_def)
  moreover have "file_at d' names i" by (rule file_at_step [OF a(1) d'(2) _ assms(2)]) simp
  moreover have "file_byte d' (inode_at d' i) x = file_byte d (inode_at d i) x" if "x < max_direct" for x
    using file_okD(1) [OF assms(1) file_div [OF that]] st(8)
    by (auto simp: file_byte_def d'(3) fb Let_def simp del: USABLE_BLOCK_SIZE_def)
  ultimately show ?thesis using that d' by blast
qed

text \<open>The inode after a write: more blocks, and the size raised to the end of the range.\<close>

definition written_inode :: "Inode \<Rightarrow> Inode \<Rightarrow> u64 \<Rightarrow> bool" where
  "written_inode n n' e \<longleftrightarrow> same_attributes (n\<lparr>i_size := max (i_size n) e\<rparr>) n'"

lemma nbtrfs_write_exact:
  assumes "file_ok d i" "file_at d names i" "offset + length buf \<le> max_direct"
    and "card (missing (inode_at d i) offset (length buf)) \<le> card (free_set d)"
  obtains d' where "nbtrfs_write E d (path_of names) buf offset = Some (int (length buf), d')"
    "file_ok d' i" "file_at d' names i" "fs_step {i} (file_blocks (inode_at d i)) d d'"
    "\<forall>x<max_direct. file_byte d' (inode_at d' i) x = overwrite (file_byte d (inode_at d i)) offset buf x"
    "written_inode (inode_at d i) (inode_at d' i) (of_nat (offset + length buf))"
    "no_holes (inode_at d' i) offset (length buf)" "same_names d d'"
    "blocks_added i (touched offset (length buf)) d d'"
proof -
  have ok: "fs_ok d" using assms(1) by (simp add: file_ok_def)
  note look = item_search_file [OF ok assms(2)]
  have lb: "length buf \<le> max_direct" using assms(3) by linarith
  obtain d1 where d1: "write_loop d (inode_at d i) (int (length buf)) offset buf 0
        = Some (True, 0 + int (length buf), inode_at d1 i, d1)"
      "fs_step {i} (file_blocks (inode_at d1 i)) d d1" "file_written i offset buf d d1"
    by (rule write_loop_file [OF assms(1,3,4)])
  note w = d1(3) [unfolded file_written_def]
  have s1: "fs_step {i} (file_blocks (inode_at d i)) d d1"
  proof (rule fs_step_data [OF d1(2)])
    fix k
    assume k: "k \<in> file_blocks (inode_at d1 i)" "is_data d k \<or> is_tree d k"
    then have "k \<notin> free_set d" using free_set_apart by blast
    then show "k \<in> file_blocks (inode_at d i)"
      using k(1) w unfolding blocks_added_def file_blocks_def by (smt (verit) mem_Collect_eq)
  qed
  have nt: "\<forall>k\<in>file_blocks (inode_at d i). \<not> is_tree d k"
    using file_blocks_data [OF assms(1)] is_tree_not_data by blast
  have f1: "file_ok d1 i" and rf1: "file_at d1 names i"
    using w file_at_step [OF ok s1 nt assms(2)] by blast+
  let ?s = "of_nat (offset + length buf) :: u64"
  have at: "same_attributes (inode_at d i) (inode_at d1 i)" using w by blast
  then have sz: "i_size (inode_at d1 i) = i_size (inode_at d i)" by (rule same_attributesD)
  have start: "nbtrfs_write E d (path_of names) buf offset =
      (if i_size (inode_at d1 i) < ?s
       then do { (_, d3) \<leftarrow> inode_write d1 ((inode_at d1 i)\<lparr>i_size := ?s\<rparr>); Some (int (length buf), d3) }
       else Some (int (length buf), d1))"
    using look d1(1) by (simp add: nbtrfs_write_def int_of_u64_file(1) [OF lb] del: of_nat_eq_0_iff)
  show ?thesis
  proof (cases "i_size (inode_at d1 i) < ?s")
    case False
    then have "max (i_size (inode_at d i)) ?s = i_size (inode_at d i)" using sz by (simp add: max_def)
    then have "written_inode (inode_at d i) (inode_at d1 i) ?s"
      using at by (simp add: written_inode_def)
    then show ?thesis
      using False start w rf1 s1 by (intro that [of d1]) (simp_all)
  next
    case True
    obtain d' where d': "inode_write d1 ((inode_at d1 i)\<lparr>i_size := ?s\<rparr>) = Some (0, d')" "fs_step {i} {} d1 d'" "file_ok d' i"
        "inode_at d' i = (inode_at d1 i)\<lparr>i_size := ?s\<rparr>" "file_at d' names i"
        "\<forall>x<max_direct. file_byte d' (inode_at d' i) x = file_byte d1 (inode_at d1 i) x"
        "same_names d1 d'" "free_set d' = free_set d1"
      by (rule set_size [OF f1 rf1])
    have fb: "file_block (inode_at d' i) j = file_block (inode_at d1 i) j" for j
      by (simp add: d'(4) file_block_def)
    have "no_holes (inode_at d' i) offset (length buf) = no_holes (inode_at d1 i) offset (length buf)"
      "blocks_added i (touched offset (length buf)) d d'"
      using w d'(8) fb by (simp_all add: no_holes_def blocks_added_def block_count_def)
    moreover have "max (i_size (inode_at d i)) ?s = ?s" using True sz by (simp only: max_absorb2 less_imp_le)
    then have "written_inode (inode_at d i) (inode_at d' i) ?s"
      using at unfolding written_inode_def same_attributes_def d'(4)
      by (metis (no_types, lifting) Inode.select_convs(5) Inode.surjective Inode.update_convs(3,5))
    moreover have "same_names d d'" using same_names_trans [OF _ d'(7) d1(2)] w by blast
    ultimately show ?thesis
      using start True d' w fs_step_trans [OF s1 d'(2)] by (intro that [of d']) simp_all
  qed
qed

lemma nbtrfs_write_file:
  assumes "file_ok d i" "file_at d names i" "offset + length buf \<le> max_direct"
    and "pages_for offset (length buf) \<le> card (free_set d)"
  obtains d' where "nbtrfs_write E d (path_of names) buf offset = Some (int (length buf), d')"
    "file_ok d' i" "file_at d' names i" "fs_step {i} (file_blocks (inode_at d i)) d d'"
    "\<forall>x<max_direct. file_byte d' (inode_at d' i) x = overwrite (file_byte d (inode_at d i)) offset buf x"
    "i_size (inode_at d' i) = max (i_size (inode_at d i)) (of_nat (offset + length buf))"
    "no_holes (inode_at d' i) offset (length buf)"
proof -
  have "card (missing (inode_at d i) offset (length buf)) \<le> card (free_set d)"
    using missing_pages_for assms(4) by (rule le_trans)
  from nbtrfs_write_exact [OF assms(1-3) this] obtain d' where
    d': "nbtrfs_write E d (path_of names) buf offset = Some (int (length buf), d')"
      "file_ok d' i" "file_at d' names i" "fs_step {i} (file_blocks (inode_at d i)) d d'"
      "\<forall>x<max_direct. file_byte d' (inode_at d' i) x = overwrite (file_byte d (inode_at d i)) offset buf x"
      "written_inode (inode_at d i) (inode_at d' i) (of_nat (offset + length buf))"
      "no_holes (inode_at d' i) offset (length buf)" by metis
  have "i_size (inode_at d' i) = max (i_size (inode_at d i)) (of_nat (offset + length buf))"
    using same_attributesD(3) [OF d'(6) [unfolded written_inode_def]] by simp
  with d' show ?thesis by (intro that)
qed

end
