(* ===== verification/Fuse_Names.thy ===== *)
theory Fuse_Names
  imports Fuse_Facts
begin

text \<open>Removing and adding names of files in the root directory: \<open>unlink\<close>, \<open>link\<close>, \<open>rename\<close>.\<close>

subsection \<open>Finding the entry\<close>

text \<open>The name is in slot \<open>j\<close> and in no slot before it.\<close>

definition name_at :: "page \<Rightarrow> nat \<Rightarrow> u8 list \<Rightarrow> bool" where
  "name_at pg j name \<longleftrightarrow> 0 \<in> set (entry_name (slot_entry pg j)) \<and> c_string (entry_name (slot_entry pg j)) = name"

definition first_name :: "page \<Rightarrow> nat \<Rightarrow> u8 list \<Rightarrow> bool" where
  "first_name pg j name \<longleftrightarrow> name_at pg j name \<and>
     (\<forall>m<j. 0 \<in> set (entry_name (slot_entry pg m)) \<and> c_string (entry_name (slot_entry pg m)) \<noteq> name)"

lemma slot_name: "rd_bytes pg (entry_at True j + 16) NAME_MAX = entry_name (slot_entry pg j)"
  "rd64 pg (entry_at True j) = entry_inode (slot_entry pg j)"
  by (simp_all add: slot_entry_def entry_of_page_def)

lemma remove_slot_found:
  assumes "first_name pg j name" "j < 15" "i \<le> j"
  shows "remove_slot pg True name c [i..<15] = Some (Some j, c + of_nat (j - i))"
  using assms(3)
proof (induction "j - i" arbitrary: i c)
  case 0
  then show ?case
    using assms(1,2) by (simp add: upt_conv_Cons slot_name strcmp_eq_def first_name_def name_at_def del: upt_Suc NAME_MAX_def)
next
  case (Suc m)
  then have i: "i < j" by simp
  have "remove_slot pg True name c [i..<15] = remove_slot pg True name (c + 1) [Suc i..<15]"
    using assms(1,2) i by (simp add: upt_conv_Cons slot_name strcmp_eq_def first_name_def del: upt_Suc NAME_MAX_def)
  also have "\<dots> = Some (Some j, c + 1 + of_nat (j - Suc i))"
    using Suc.hyps(2) i by (intro Suc.hyps(1)) simp_all
  also have "c + 1 + of_nat (j - Suc i) = c + of_nat (j - i)"
    using i by (simp add: Suc_diff_Suc [symmetric])
  finally show ?case .
qed

subsection \<open>directory\_remove\_entry\<close>

definition slot_removed :: "page \<Rightarrow> nat \<Rightarrow> page" where
  "slot_removed pg j = wr_bool pg (entry_at True j + 271) False"

lemma remove_loop_root:
  assumes "fs_ok d" "root_dir d n" "root_first d \<noteq> 0" "0 < n" "j < 15" "first_name (root_page d) j name"
  defines "pair \<equiv> \<lparr>pair_inode = 0, pair_btree = of_nat (root_block d)\<rparr>"
  shows "directory_remove_entry d [slash] name = do {
      (r, d1) \<leftarrow> remove_commit d pair (inode_at d 0) zero_inode name (root_first d) (unat (root_first d))
        (entry_at True j) (unat (root_first d)) (of_nat n) (-1);
      case r of Inl code \<Rightarrow> Some (code, d1)
      | Inr (file, block2, db2) \<Rightarrow>
          remove_loop pair name [1..<dir_blocks] d1 (inode_at d 0) file block2 db2 (of_nat n) (of_nat j) 0
    }"
proof -
  note r = dir_okD [OF assms(2,3)]
  have n: "entry_count (page_at d (unat (root_first d))) = of_nat n" "(of_nat n :: u16) \<noteq> 0"
    using r(2) assms(4) unat_of_nat_u16 [of n] by (auto simp: dir_page_def packed_def)
  have sl: "USABLE_BLOCK_SIZE div sizeof_DirEntry = 15" by simp
  have fnd: "remove_slot (page_at d (unat (root_first d))) True name 0 [0..<15] = Some (Some j, of_nat j)"
    using remove_slot_found [OF assms(6,5), of 0] by (simp add: dir_page_def)
  have ty: "page_type (page_at d (unat (root_first d))) = block_type_code BLOCK_TYPE_DATA"
    using r(1) by (simp add: is_data_def)
  have first: "direct_blocks (inode_at d 0) ! 0 = root_first d" by (simp add: dir_first_def)
  show ?thesis
    using assms(3) n first fnd ty get_data_block [OF r(1)]
    by (simp add: directory_remove_entry_def item_search_root [OF assms(1)] inode_read_root [OF assms(1)]
        dir_blocks_upt1 inode_get_block_direct sl pair_def Let_def cong: sum.case_cong prod.case_cong
        del: block_type_code.simps USABLE_BLOCK_SIZE_def sizeof_DirEntry_def of_nat_eq_0_iff)
qed

text \<open>The file has another reference: the entry is marked, the name stays in the tree.\<close>

lemma remove_linked_root:
  assumes "fs_ok d" "root_dir d n" "root_first d \<noteq> 0" "0 < n" "j < 15" "first_name (root_page d) j name"
    and "entry_inode (slot_entry (root_page d) j) = of_nat i" "0 < i" "i < inode_capacity d"
    and "reference_count (inode_at d i) \<noteq> 1"
  obtains d' where "directory_remove_entry d [slash] name = Some (0, d')" "fs_step {} {unat (root_first d)} d d'"
    "index_entries (d', root_block d) = index_entries (d, root_block d)"
    "\<not> entry_active (slot_entry (root_page d') j)" "entry_count (root_page d') = of_nat n"
proof -
  let ?k = "unat (root_first d)"
  let ?a = "entry_at True j"
  note r = dir_okD [OF assms(2,3)]
  have c: "entry_count (page_at d ?k) = of_nat n" using r(2) by (simp add: dir_page_def packed_def)
  let ?p1 = "wr_bool (page_at d ?k) (?a + 271) False"
  let ?p2 = "wr16 ?p1 4 (of_nat n - 1)"
  let ?p3 = "wr16 ?p2 4 (of_nat n)"
  have cnt: "entry_count ?p1 = of_nat n" using c by (simp add: entry_count_def entry_at_def first_entry_def page_simps)
  have inum: "rd64 ?p2 ?a = of_nat i"
    using assms(7) slot_name(2) [of "page_at d ?k" j]
    by (simp add: entry_at_def first_entry_def page_simps dir_page_def)
  have ty: "page_type ?p2 = block_type_code BLOCK_TYPE_DATA" "page_type ?p3 = block_type_code BLOCK_TYPE_DATA"
    using r(1) by (simp_all add: is_data_def entry_at_def first_entry_def page_simps)
  let ?d2 = "set_page d ?k ?p2"
  let ?d' = "set_page d ?k ?p3"
  note s2 = fs_set_data [OF assms(1) r(1) ty(1)]
  note t2 = fs_stepD [OF s2(1)]
  note s3 = fs_set_data [OF assms(1) r(1) ty(2)]
  note t3 = fs_stepD [OF s3(1)]
  have i2: "i < inode_capacity ?d2" using assms(9) t2(9) by simp
  have rd: "inode_read ?d2 (of_nat i) = Some (0, Some (inode_at d i))"
    using inode_read_ok [OF fs_okD(2) [OF t2(1)] i2] t2(5) [OF assms(9)] by simp
  have first: "direct_blocks (inode_at d 0) ! 0 = root_first d" "direct_blocks (inode_at d 0) ! 1 = 0"
    using assms(2) by (simp_all add: dir_first_def dir_ok_def)
  have commit: "remove_commit d \<lparr>pair_inode = 0, pair_btree = of_nat (root_block d)\<rparr> (inode_at d 0) zero_inode name
      (root_first d) ?k ?a ?k (of_nat n) (-1) = Some (Inr (inode_at d i, root_first d, ?k), ?d')"
    using rd inum cnt assms(10) first(1) get_data_block [OF r(1)]
    by (simp add: remove_commit_def set_entry_count_def Let_def inode_get_block_direct)
  have up: "[1..<dir_blocks] = 1 # [2..<dir_blocks]" using dir_blocks_upt dir_blocks_upt1 by simp
  have "directory_remove_entry d [slash] name = Some (0, ?d')"
    unfolding remove_loop_root [OF assms(1-6)] commit up using first(2) by (simp add: inode_get_block_direct)
  moreover have "root_page ?d' = ?p3"
    using t3(5) fs_okD(4) [OF assms(1)] by (simp add: dir_page_def dir_first_def)
  then have "\<not> entry_active (slot_entry (root_page ?d') j)" "entry_count (root_page ?d') = of_nat n"
    by (simp_all add: slot_active [symmetric] entry_at_def first_entry_def entry_count_def page_simps)
  ultimately show ?thesis using s3(1,2) by (intro that [of ?d']) simp_all
qed

text \<open>The last reference: freeing the inode has no defined behaviour.\<close>

lemma remove_last_root:
  assumes "fs_ok d" "root_dir d n" "root_first d \<noteq> 0" "0 < n" "j < 15" "first_name (root_page d) j name"
    and "entry_inode (slot_entry (root_page d) j) = of_nat i" "i < inode_capacity d"
    and "reference_count (inode_at d i) = 1" "2 \<le> unat (inode_bitmap (the_sb d))"
  shows "directory_remove_entry d [slash] name = None"
proof -
  let ?k = "unat (root_first d)"
  let ?a = "entry_at True j"
  note r = dir_okD [OF assms(2,3)]
  let ?d2 = "set_entry_count (set_page d ?k (wr_bool (page_at d ?k) (?a + 271) False)) ?k
    (entry_count (wr_bool (page_at d ?k) (?a + 271) False) - 1)"
  obtain p2 where d2: "?d2 = set_page d ?k p2" and p2: "page_type p2 = block_type_code BLOCK_TYPE_DATA"
      "rd64 p2 ?a = of_nat i"
    using r(1) assms(7) slot_name(2) [of "page_at d ?k" j]
    by (simp add: set_entry_count_def is_data_def entry_at_def first_entry_def page_simps dir_page_def)
  note s2 = fs_set_data [OF assms(1) r(1) p2(1)]
  note t2 = fs_stepD [OF s2(1)]
  have i2: "i < inode_capacity (set_page d ?k p2)" using assms(8) t2(9) by simp
  have rd: "inode_read (set_page d ?k p2) (of_nat i) = Some (0, Some (inode_at d i))"
    using inode_read_ok [OF fs_okD(2) [OF t2(1)] i2] t2(5) [OF assms(8)] by simp
  have "?k \<noteq> 0" by (rule fs_data_apart(1) [OF assms(1) r(1)])
  then have "2 \<le> unat (inode_bitmap (the_sb (set_page d ?k p2)))" using assms(10) by simp
  then have free: "inode_free (set_page d ?k p2) (of_nat i) = None"
    by (rule inode_free_negative [OF fs_okD(2) [OF t2(1)] i2])
  have "remove_commit d \<lparr>pair_inode = 0, pair_btree = of_nat (root_block d)\<rparr> (inode_at d 0) zero_inode name
      (root_first d) ?k ?a ?k (of_nat n) (-1) = None"
    using rd free p2(2) assms(9) by (simp add: remove_commit_def d2 Let_def)
  then show ?thesis unfolding remove_loop_root [OF assms(1-6)] by simp
qed

subsection \<open>The handlers\<close>

text \<open>The directory's entry number \<open>j\<close> is the first with the name, and is for the inode \<open>i\<close>.\<close>

definition named_entry :: "DiskInterface \<Rightarrow> nat \<Rightarrow> u8 list \<Rightarrow> nat \<Rightarrow> bool" where
  "named_entry d j name i \<longleftrightarrow> j < length (root_entries d) \<and>
     0 \<in> set (entry_name (root_entries d ! j)) \<and> c_string (entry_name (root_entries d ! j)) = name \<and>
     entry_inode (root_entries d ! j) = of_nat i \<and>
     (\<forall>m<j. 0 \<in> set (entry_name (root_entries d ! m)) \<and> c_string (entry_name (root_entries d ! m)) \<noteq> name)"

lemma named_entryD:
  assumes "root_dir d n" "named_entry d j name i"
  shows "root_first d \<noteq> 0" "j < n" "0 < n" "j < 15" "first_name (root_page d) j name"
    "entry_inode (slot_entry (root_page d) j) = of_nat i"
proof -
  have j: "j < length (root_entries d)" using assms(2) by (simp add: named_entry_def)
  then show f: "root_first d \<noteq> 0" by (auto simp: dir_entries_def)
  note r = dir_okD [OF assms(1) f]
  show n: "j < n" "0 < n" using j r(4) by simp_all
  show "j < 15" using n r(2) by (simp add: packed_def)
  have "root_entries d ! m = slot_entry (root_page d) m" if "m \<le> j" for m using r(3) n that by simp
  then show "first_name (root_page d) j name" "entry_inode (slot_entry (root_page d) j) = of_nat i"
    using assms(2) by (simp_all add: named_entry_def first_name_def name_at_def)
qed

lemma named_entry_append:
  assumes "named_entry d j name i" "root_entries d' = root_entries d @ es"
  shows "named_entry d' j name i"
  using assms by (auto simp: named_entry_def nth_append)

lemma unlink_root:
  assumes "name_ok name"
  shows "nbtrfs_unlink d (path_of [name]) = directory_remove_entry d [slash] name"
  using parent_path_path_of [OF assms, of "[]"] get_name_path_of [OF assms, of "[]"]
  by (simp add: nbtrfs_unlink_def) (simp add: path_of_def)

lemma link_dir:
  assumes "fs_ok d" "dir_at d names p r" "dir_ok d p n" "n < 15" "index_ok (d, r)" "dir_room d p r FILE_TYPE_REGULAR"
    and "file_at d src i" "new_name_ok dst" "p \<noteq> i"
    and "i_mode (inode_at d i) AND S_IFMT \<noteq> FILE_TYPE_DIRECTORY" "i_number (inode_at d i) = of_nat i"
    and "length (entry_name (env_junk E)) = NAME_MAX"
  obtains b d' where "nbtrfs_link E d (path_of src) (path_of (names @ [dst])) = Some (0, d')"
    "fs_step {p, i} {unat (dir_first d p), r} d d'"
    "name_added d p r n (new_entry (env_junk E) dst (of_nat i)) (path_hash dst) (of_nat i) (i_mode (inode_at d i) AND S_IFMT) b d'"
    "inode_at d' i = (inode_at d i)\<lparr>reference_count := reference_count (inode_at d i) + 1\<rparr>"
    "\<forall>j<inode_capacity d. inode_used d' j = inode_used d j"
    "card (free_set d) \<le> card (free_set d') + name_blocks d p FILE_TYPE_REGULAR"
proof -
  have name: "name_ok dst" "length dst < NAME_MAX" "path_hash dst \<noteq> 0"
    using assms(8) by (simp_all add: new_name_ok_def)
  note look = item_search_file [OF assms(1,7)]
  let ?ty = "i_mode (inode_at d i) AND S_IFMT"
  have no: "names_ok names" using assms(2) by (simp add: dir_at_def leads_to_def)
  obtain b d1 where d1: "directory_add_entry d (path_of names) dst (of_nat i) ?ty (env_junk E) = Some (0, d1)"
      "fs_step {p} {unat (dir_first d p), r} d d1"
      "name_added d p r n (new_entry (env_junk E) dst (of_nat i)) (path_hash dst) (of_nat i) ?ty b d1"
      "\<forall>j<inode_capacity d. inode_used d1 j = inode_used d j"
      "card (free_set d) \<le> card (free_set d1) + name_blocks d p ?ty"
    by (rule directory_add_dir [OF assms(1) dir_at_finds [OF assms(1,2)] assms(3-5) dir_room_file [OF assms(10,6)]
          name(2,3) assms(12)])
  note t1 = fs_stepD [OF d1(2)]
  let ?n = "(inode_at d i)\<lparr>reference_count := reference_count (inode_at d i) + 1\<rparr>"
  have wf: "inode_wf ?n" "i_number ?n = of_nat i"
    using assms(11) inode_wf_at [of d i] by (simp_all add: inode_wf_def del: inode_wf_at)
  have i1: "i < inode_capacity d1" using look(4) t1(9) by simp
  obtain d' where d': "inode_write d1 ?n = Some (0, d')" "d' = set_inode d1 i ?n" "fs_step {i} {} d1 d'" "inode_at d' i = ?n"
      "index_entries (d', root_block d1) = index_entries (d1, root_block d1)" "root_block d' = root_block d1"
      "same_names d1 d'" "free_set d' = free_set d1"
    by (rule fs_update_inode [OF t1(1) i1 wf])
  have "nbtrfs_link E d (path_of src) (path_of (names @ [dst])) = Some (0, d')"
    using look parent_of_path [OF no name(1)] d1(1) d'(1) by (simp add: nbtrfs_link_def)
  moreover have "fs_step {p, i} {unat (dir_first d p), r} d d'"
    using fs_step_trans [OF d1(2) d'(3)] by (simp add: insert_commute)
  moreover have "name_added d p r n (new_entry (env_junk E) dst (of_nat i)) (path_hash dst) (of_nat i) ?ty b d'"
    using name_added_step [OF d1(3) d'(3)] assms(9) by simp
  moreover have "\<forall>j<inode_capacity d. inode_used d' j = inode_used d j"
    using d1(4) d'(7) t1(9) by (simp add: same_names_def)
  moreover have "name_blocks d p ?ty = name_blocks d p FILE_TYPE_REGULAR"
    using assms(10) by (simp add: name_blocks_def FILE_TYPE_REGULAR_def FILE_TYPE_DIRECTORY_def)
  ultimately show ?thesis using d'(4,8) d1(5) by (intro that [of d' b]) simp_all
qed

lemma rename_root:
  assumes "fs_ok d" "root_dir d n" "n < 15" "root_room d" "root_file d src i" "new_name_ok dst"
    and "i_mode (inode_at d i) AND S_IFMT \<noteq> FILE_TYPE_DIRECTORY" "i_number (inode_at d i) = of_nat i"
    and "length (entry_name (env_junk E)) = NAME_MAX" "named_entry d j src i" "reference_count (inode_at d i) \<noteq> 0"
  obtains d' where "nbtrfs_rename E d (path_of [src]) (path_of [dst]) = Some (0, d')" "fs_ok d'"
    "root_file d' src i" "root_file d' dst i" "reference_count (inode_at d' i) = reference_count (inode_at d i) + 1"
proof -
  have src: "name_ok src" "0 < i" "i < inode_capacity d" "0 \<noteq> i"
    using assms(5) by (simp_all add: root_file_def)
  obtain b d1 where d1: "nbtrfs_link E d (path_of [src]) (path_of ([] @ [dst])) = Some (0, d1)"
    "fs_step {0, i} {unat (root_first d), root_block d} d d1"
    "name_added d 0 (root_block d) n (new_entry (env_junk E) dst (of_nat i)) (path_hash dst) (of_nat i)
       (i_mode (inode_at d i) AND S_IFMT) b d1"
    "inode_at d1 i = (inode_at d i)\<lparr>reference_count := reference_count (inode_at d i) + 1\<rparr>"
    by (rule link_dir [OF assms(1) dir_at_root [OF assms(1)] assms(2,3) fs_okD(3) [OF assms(1)] assms(4)
          root_file_at [OF assms(1,5)] assms(6) src(4) assms(7-9)])
  have ra: "root_added d n (new_entry (env_junk E) dst (of_nat i)) (path_hash dst) (of_nat i) (i_mode (inode_at d i) AND S_IFMT) d1"
    using d1(3) assms(7) by (simp add: name_added_def root_added_def)
  note t1 = fs_stepD [OF d1(2)]
  have i1: "i < inode_capacity d1" using src(3) t1(9) by simp
  have rd1: "root_dir d1 (Suc n)" "named_entry d1 j src i"
    using root_addedD(1,2) [OF ra] named_entry_append [OF assms(10)] by simp_all
  note ne = named_entryD [OF rd1]
  have rc: "reference_count (inode_at d1 i) \<noteq> 1" using d1(4) assms(11) by simp
  obtain d' where d': "directory_remove_entry d1 [slash] src = Some (0, d')" "fs_step {} {unat (root_first d1)} d1 d'"
    "index_entries (d', root_block d1) = index_entries (d1, root_block d1)"
    by (rule remove_linked_root [OF t1(1) rd1(1) ne(1,3-6) src(2) i1 rc])
  note t2 = fs_stepD [OF d'(2)]
  have ren: "nbtrfs_rename E d (path_of [src]) (path_of [dst]) = Some (0, d')"
    using d1(1) d'(1) unlink_root [OF src(1)] by (simp add: nbtrfs_rename_def)
  have ix: "index_entries (d1, root_block d)
      = entry_insert (path_hash dst, of_nat i, i_mode (inode_at d i) AND S_IFMT) (index_entries (d, root_block d))"
    by (rule root_addedD(4) [OF ra])
  have f1: "root_file d1 dst i" by (rule root_added_file [OF ra d1(2) assms(6) src(2,3) assms(7)])
  have f2: "root_file d1 src i"
    using assms(5,7) ix t1(4,9) map_of_entry_insert map_of_entry_insert_other
    unfolding root_file_def by (cases "path_hash src = path_hash dst") auto
  show ?thesis
  proof (rule that [OF ren t2(1)])
    show "root_file d' src i" "root_file d' dst i"
      using root_file_step [OF f2 d'(2,3)] root_file_step [OF f1 d'(2,3)] by simp_all
    show "reference_count (inode_at d' i) = reference_count (inode_at d i) + 1"
      using t2(5) [OF i1] d1(4) by simp
  qed
qed

end
