(* ===== verification/Sample_Files.thy ===== *)
theory Sample_Files
  imports Sample_Fs File_Data Fuse_Names
begin

text \<open>The sample volume with one empty file in its root directory, made by \<open>create\<close>.\<close>

definition sample_env :: Env where
  "sample_env = \<lparr>env_time = 1000, env_uid = 7, env_gid = 8,
     env_junk = \<lparr>entry_inode = 0, entry_btree = 0, entry_name = replicate 255 0x55, entry_active = False\<rparr>\<rparr>"

lemma sample_env_name: "length (entry_name (env_junk sample_env)) = NAME_MAX"
  by (simp add: sample_env_def)

lemma sample_free: "card (free_set sample_volume) = 503"
proof -
  have "free_set sample_volume = {9..<512}"
    using sample_facts(1,8) by (auto simp: free_set_def)
  then show ?thesis by simp
qed

lemma sample_root:
  "root_dir sample_volume 0" "root_first sample_volume = 0" "root_entries sample_volume = []"
  "first_inode sample_volume 1" "root_room sample_volume"
proof -
  have z: "direct_blocks (inode_at sample_volume 0) = replicate 12 0" using sample_inodes(2) [of 0] by simp
  then show f: "root_first sample_volume = 0" by (simp add: dir_first_def)
  then show "root_dir sample_volume 0" "root_entries sample_volume = []"
    using z sample_inodes(4) sample_facts(7) by (simp_all add: dir_ok_def dir_entries_def)
  show "first_inode sample_volume 1"
    using sample_facts(7,9) by (simp add: first_inode_def)
  have "entry_count (page_at sample_volume 9) = 0"
    using sample_blank [of 9] by (simp add: entry_count_def rd16_def rd_bytes_def zero_page_def numeral_2_eq_2)
  moreover have "b = 9" if "next_free sample_volume b" for b
    using that sample_next_free by (metis linorder_neqE_nat next_free_def)
  moreover have "leaves sample_volume 8 = []" by (rule leaves_flat [OF sample_facts(4)])
  ultimately show "root_room sample_volume"
    using sample_free sample_fs(2) f
    by (auto simp: dir_room_def name_blocks_def FILE_TYPE_REGULAR_def FILE_TYPE_DIRECTORY_def)
qed

lemma name_a_new: "new_name_ok name_a"
  using name_a_facts by (simp add: new_name_ok_def)

definition name_b :: "u8 list" where "name_b = [0x62]"

lemma name_b_facts: "name_ok name_b" "path_hash name_b = 0xaf63df4c8601f1a5" "length name_b = 1"
  by (simp_all add: name_b_def name_ok_def path_hash_def hash_step_def slash_def)

lemma name_b_new: "new_name_ok name_b"
  using name_b_facts by (simp add: new_name_ok_def)

lemma sample_created:
  obtains d where "nbtrfs_create sample_env sample_volume (path_of [name_a]) 0x1A4 = Some (0, d)"
    "fs_ok d" "root_dir d 1" "root_file d name_a 1" "file_ok d 1" "named_entry d 0 name_a 1"
    "inode_at d 1 = new_file_inode sample_env sample_volume 1 0x81A4" "root_block d = 8"
    "501 \<le> card (free_set d)" "length (leaves d 8) = 1" "root_first d \<noteq> 0" "unat (inode_bitmap (the_sb d)) = 2"
proof -
  let ?e = "new_entry (env_junk sample_env) name_a (of_nat 1)"
  have ty: "(0x1A4 OR S_IFREG) AND S_IFMT \<noteq> FILE_TYPE_DIRECTORY" "0x1A4 OR S_IFREG = (0x81A4 :: u32)"
    by (simp_all add: S_IFREG_def S_IFMT_def FILE_TYPE_DIRECTORY_def)
  obtain d where d: "nbtrfs_mknod sample_env sample_volume (path_of [name_a]) (0x1A4 OR S_IFREG) = Some (0, d)"
      "fs_step {0, 1} {unat (root_first sample_volume), root_block sample_volume} sample_volume d"
      "root_added sample_volume 0 ?e (path_hash name_a) (of_nat 1) ((0x1A4 OR S_IFREG) AND S_IFMT) d"
      "inode_at d 1 = new_file_inode sample_env sample_volume 1 (0x1A4 OR S_IFREG)"
      "\<forall>j<inode_capacity sample_volume. inode_used d j = (j = 1 \<or> inode_used sample_volume j)"
      "card (free_set sample_volume) \<le> card (free_set d) + (if root_first sample_volume = 0 then 2 else 1)"
    by (rule mknod_root [OF sample_fs(1) sample_root(1) _ sample_root(5) name_a_new ty(1) sample_env_name sample_root(4)])
      simp_all
  note st = fs_stepD [OF d(2)]
  have lv: "leaves sample_volume 8 = []" by (rule leaves_flat [OF sample_facts(4)])
  have rd: "root_dir d 1" "root_entries d = [?e]" "length (leaves d 8) = 1"
    using root_addedD [OF d(3)] sample_root(3) lv sample_fs(2) by simp_all
  have rf: "root_file d name_a 1"
    by (rule root_added_file [OF d(3,2) name_a_new _ _ ty(1)]) (simp_all add: sample_facts)
  have blocks: "file_block (inode_at d 1) j = 0" if "j < NDIRECT" for j
    using that sample_inodes(2) [of 1] unfolding d(4) by (simp add: file_block_def new_file_inode_def fresh_inode_def)
  have fo: "file_ok d 1"
  proof -
    have "i_number (inode_at d 1) = of_nat 1" unfolding d(4) by (simp add: new_file_inode_def fresh_inode_def)
    then show ?thesis using st(1,9) sample_facts(7) blocks by (simp add: file_ok_def)
  qed
  have ne: "named_entry d 0 name_a 1"
    using new_entry_facts [of name_a "env_junk sample_env" 1] sample_env_name name_a_facts(1,3)
    by (simp add: named_entry_def rd(2) name_ok_def)
  have f0: "root_first d \<noteq> 0" using named_entryD(1) [OF rd(1) ne] .
  have "unat (inode_bitmap (the_sb d)) = 2" using st(3) sample_facts(11) by (simp add: layout_of_def)
  then show ?thesis
    using that d(1,4,6) st(1,4) rd rf fo ne sample_free sample_fs(2) ty(2) f0
    by (simp add: nbtrfs_create_def split: if_splits)
qed

end
