(* ===== verification/Fuse_Theorems.thy ===== *)
theory Fuse_Theorems
  imports Sample_Files
begin

text \<open>The properties of the handlers, over directory, inode table, tree and allocation together.\<close>

subsection \<open>Creating a file\<close>

text \<open>
  C7: On a mounted volume whose root directory has room, create of a new name returns 0; the
  file can then be accessed and its attributes are the requested mode, the caller's ids, one
  link, the time of the call and the number of the lowest free inode. The directory lists the
  old entries and the new one behind them, and the volume keeps its invariant.
\<close>

theorem create_makes_file:
  assumes "fs_ok d" "root_dir d n" "n < 15" "root_room d" "new_name_ok name"
    and "length (entry_name (env_junk E)) = NAME_MAX" "first_inode d i"
  shows "\<exists>d'. nbtrfs_create E d (path_of [name]) mode = Some (0, d') \<and> fs_ok d' \<and> root_dir d' (Suc n)
    \<and> nbtrfs_access d' (path_of [name]) = Some 0
    \<and> nbtrfs_getattr d' (path_of [name]) = Some (0, Some \<lparr>st_mode = mode OR S_IFREG,
        st_size = i_size (inode_at d i), st_uid = env_uid E, st_gid = env_gid E, st_nlink = 1,
        st_ctime = env_time E, st_mtime = i_modification_time (inode_at d i),
        st_atime = i_access_time (inode_at d i), st_ino = of_nat i\<rparr>)
    \<and> (\<exists>e. c_string (entry_name e) = name \<and> entry_inode e = of_nat i \<and> entry_active e
        \<and> directory_list d' [slash] = Some (root_entries d @ [e]))"
proof -
  let ?m = "mode OR S_IFREG"
  let ?e = "new_entry (env_junk E) name (of_nat i)"
  obtain d' where d': "nbtrfs_mknod E d (path_of [name]) ?m = Some (0, d')"
      "fs_step {0, i} {unat (root_first d), root_block d} d d'"
      "root_added d n ?e (path_hash name) (of_nat i) (?m AND S_IFMT) d'"
      "inode_at d' i = new_file_inode E d i ?m"
    by (rule mknod_root [OF assms(1-5) create_type assms(6,7)])
  note st = fs_stepD [OF d'(2)]
  have name: "length name < NAME_MAX" "0 \<notin> set name"
    using assms(5) by (simp_all add: new_name_ok_def name_ok_def)
  have rd: "root_dir d' (Suc n)" "root_entries d' = root_entries d @ [?e]"
    by (rule root_addedD [OF d'(3)])+
  have i: "0 < i" "i < inode_capacity d" using assms(7) by (simp_all add: first_inode_def)
  have rf: "root_file d' name i"
    by (rule root_added_file [OF d'(3,2) assms(5) i create_type])
  have "directory_list d' [slash] = Some (root_entries d @ [?e])"
    using directory_list_dir [OF st(1) finds_root [OF st(1)] rd(1)] rd(2) by simp
  then show ?thesis
    using d'(1) st(1) rd(1) getattr_file [OF st(1) root_file_at [OF st(1) rf]] new_entry_facts [OF name(1) assms(6)] name(2)
    by (intro exI [of _ d'] conjI exI [of _ ?e])
      (simp_all add: nbtrfs_create_def d'(4) stat_of_def new_file_inode_def fresh_inode_def)
qed

theorem create_makes_file_witness:
  "\<exists>d'. nbtrfs_create sample_env sample_volume (path_of [name_a]) 0x1A4 = Some (0, d')
     \<and> nbtrfs_access d' (path_of [name_a]) = Some 0"
  using create_makes_file [OF sample_fs(1) sample_root(1) _ sample_root(5) name_a_new sample_env_name sample_root(4)]
  by auto

subsection \<open>Data\<close>

text \<open>
  C6: What write stored is what read returns: for a file that the search finds (by one name in the
  root), a range within its direct blocks and enough free blocks, write returns the number of bytes, the bytes read back from the range are
  the ones written, all other bytes of the file are as before, and the size is raised to the end
  of the range when it was below.
\<close>

theorem write_then_read:
  assumes "file_ok d i" "file_at d names i" "offset + length buf \<le> max_direct"
    and "pages_for offset (length buf) \<le> card (free_set d)" "unat (i_size (inode_at d i)) \<le> max_direct"
  shows "\<exists>d'. nbtrfs_write E d (path_of names) buf offset = Some (int (length buf), d') \<and> fs_ok d'
    \<and> nbtrfs_read d' (path_of names) (of_nat (length buf)) offset = Some (int (length buf), buf)
    \<and> (\<forall>x<max_direct. x < offset \<or> offset + length buf \<le> x \<longrightarrow>
        file_byte d' (inode_at d' i) x = file_byte d (inode_at d i) x)
    \<and> i_size (inode_at d' i) = max (i_size (inode_at d i)) (of_nat (offset + length buf))"
proof -
  obtain d' where d': "nbtrfs_write E d (path_of names) buf offset = Some (int (length buf), d')"
      "file_ok d' i" "file_at d' names i" "fs_step {i} (file_blocks (inode_at d i)) d d'"
      "\<forall>x<max_direct. file_byte d' (inode_at d' i) x = overwrite (file_byte d (inode_at d i)) offset buf x"
      "i_size (inode_at d' i) = max (i_size (inode_at d i)) (of_nat (offset + length buf))"
      "no_holes (inode_at d' i) offset (length buf)"
    by (rule nbtrfs_write_file [OF assms(1-4)])
  let ?s = "unat (i_size (inode_at d' i))"
  have u: "unat (of_nat (offset + length buf) :: u64) = offset + length buf" by (rule int_of_u64_file(2) [OF assms(3)])
  have s: "?s = max (unat (i_size (inode_at d i))) (offset + length buf)"
    unfolding d'(6) max_def word_le_nat_alt u by (rule if_distrib [THEN trans]) (simp only: u)
  have "offset < 2 ^ 63" "length buf < 2 ^ 63"
    using max_direct_small [OF assms(3)] by simp_all
  moreover have m: "min (length buf) (?s - offset) = length buf" using s by simp
  moreover have "?s \<le> max_direct" using s assms(3,5) by simp
  ultimately have "nbtrfs_read d' (path_of names) (of_nat (length buf)) offset
      = Some (int (length buf), map (file_byte d' (inode_at d' i)) [offset..<offset + length buf])"
    using nbtrfs_read_file [OF d'(2,3), of offset "length buf"] d'(7) by simp
  moreover have "map (file_byte d' (inode_at d' i)) [offset..<offset + length buf] = buf"
    by (rule nth_equalityI) (use d'(5) assms(3) in \<open>simp_all add: overwrite_def\<close>)
  ultimately show ?thesis
    using d' by (intro exI [of _ d']) (auto simp: file_ok_def overwrite_def)
qed

theorem write_then_read_witness:
  "\<exists>d d'. nbtrfs_write sample_env d (path_of [name_a]) [1, 2, 3] 4091 = Some (3, d')
     \<and> nbtrfs_read d' (path_of [name_a]) 3 4091 = Some (3, [1, 2, 3])"
proof -
  obtain d where d: "file_at d [name_a] 1" "file_ok d 1" "inode_at d 1 = new_file_inode sample_env sample_volume 1 0x81A4"
    "501 \<le> card (free_set d)" using sample_created root_file_at by metis
  have sz: "i_size (inode_at d 1) = 0"
    using sample_inodes(1) [of 1] unfolding d(3) by (simp add: new_file_inode_def fresh_inode_def)
  have "4091 + length [1, 2, 3 :: u8] \<le> max_direct" "pages_for 4091 (length [1, 2, 3 :: u8]) \<le> card (free_set d)"
    using d(4) by (simp_all add: max_direct_def pages_for_def)
  from write_then_read [OF d(2,1) this, of sample_env] sz show ?thesis by auto
qed

text \<open>
  C24: For a file that the search finds, read returns the bytes of the range that lie below the
  size of the file, in order, and their number; nothing when the offset is at the size or behind
  it. The range must have no holes.
\<close>

theorem read_returns_content:
  assumes "file_ok d i" "file_at d names i" "unat (i_size (inode_at d i)) \<le> max_direct"
    and "offset < 2 ^ 63" "len < 2 ^ 63"
    and "no_holes (inode_at d i) offset (min len (unat (i_size (inode_at d i)) - offset))"
  shows "nbtrfs_read d (path_of names) (of_nat len) offset
    = Some (int (min len (unat (i_size (inode_at d i)) - offset)),
        map (file_byte d (inode_at d i)) [offset..<offset + min len (unat (i_size (inode_at d i)) - offset)])"
  by (rule nbtrfs_read_file [OF assms])

text \<open>Three bytes are written over the end of the first page; a read of ten finds three.\<close>

theorem read_returns_content_witness:
  "\<exists>d d'. nbtrfs_write sample_env d (path_of [name_a]) [1, 2, 3] 4091 = Some (3, d')
     \<and> nbtrfs_read d' (path_of [name_a]) 10 4091 = Some (3, [1, 2, 3])
     \<and> nbtrfs_read d' (path_of [name_a]) 1 4092 = Some (1, [2])"
proof -
  obtain d where d: "file_at d [name_a] 1" "file_ok d 1" "inode_at d 1 = new_file_inode sample_env sample_volume 1 0x81A4"
    "501 \<le> card (free_set d)" using sample_created root_file_at by metis
  have sz: "i_size (inode_at d 1) = 0"
    using sample_inodes(1) [of 1] unfolding d(3) by (simp add: new_file_inode_def fresh_inode_def)
  have room: "4091 + length [1, 2, 3 :: u8] \<le> max_direct" "pages_for 4091 (length [1, 2, 3 :: u8]) \<le> card (free_set d)"
    using d(4) by (simp_all add: max_direct_def pages_for_def)
  obtain d' where d': "nbtrfs_write sample_env d (path_of [name_a]) [1, 2, 3] 4091 = Some (3, d')"
      "file_ok d' 1" "file_at d' [name_a] 1"
      "\<forall>x<max_direct. file_byte d' (inode_at d' 1) x = overwrite (file_byte d (inode_at d 1)) 4091 [1, 2, 3] x"
      "i_size (inode_at d' 1) = 4094" "no_holes (inode_at d' 1) 4091 3"
    by (rule nbtrfs_write_file [OF d(2,1) room, of sample_env])
      (use sz in \<open>simp add: numeral_3_eq_3 max_def word_le_nat_alt\<close>)
  have hole: "no_holes (inode_at d' 1) 4092 1"
    using d'(6) by (auto simp: no_holes_def)
  have b: "file_byte d' (inode_at d' 1) 4091 = 1" "file_byte d' (inode_at d' 1) 4092 = 2" "file_byte d' (inode_at d' 1) 4093 = 3"
    using d'(4) by (simp_all add: max_direct_def overwrite_def)
  have "nbtrfs_read d' (path_of [name_a]) (of_nat 10) 4091 = Some (3, [1, 2, 3])"
    using read_returns_content [OF d'(2,3), of 4091 10] d'(5,6) b by (simp add: max_direct_def upt_rec)
  moreover have "nbtrfs_read d' (path_of [name_a]) (of_nat 1) 4092 = Some (1, [2])"
    using read_returns_content [OF d'(2,3), of 4092 1] d'(5) hole b by (simp add: max_direct_def upt_rec)
  ultimately show ?thesis using d'(1) by auto
qed

text \<open>
  C38: For a file that the search finds, a read that starts in a hole, a page below the size without a block, returns
  the error code -1 instead of zeros.
\<close>

theorem read_hole_fails:
  assumes "file_ok d i" "file_at d names i" "offset < max_direct" "offset < unat (i_size (inode_at d i))"
    and "file_block (inode_at d i) (offset div USABLE_BLOCK_SIZE) = 0" "0 < len" "len < 2 ^ 31"
    and "unat (i_size (inode_at d i)) < 2 ^ 31"
  shows "nbtrfs_read d (path_of names) (of_nat len) offset = Some (-1, [])"
proof -
  have ok: "fs_ok d" using assms(1) by (simp add: file_ok_def)
  note look = item_search_file [OF ok assms(2)]
  let ?n = "inode_at d i"
  let ?s = "unat (i_size ?n)"
  have off: "offset < 2 ^ 31" using max_direct_small [of offset] assms(3) by simp
  have u: "unat (of_nat offset :: u64) = offset" "unat (of_nat len :: u64) = len"
    "unat (of_nat offset + of_nat len :: u64) = offset + len"
    using off assms(7) unat_of_nat_u64 [of "offset + len"] by (simp_all add: unat_of_nat_u64)
  have nle: "\<not> i_size ?n \<le> of_nat offset" unfolding word_le_nat_alt u using assms(4) by simp
  let ?l = "if i_size ?n < of_nat offset + of_nat len then i_size ?n - of_nat offset else of_nat len :: u64"
  have sub: "unat (i_size ?n - of_nat offset) = ?s - offset"
    using nle u(1) by (simp add: unat_sub not_le less_imp_le)
  have l: "0 < unat ?l" "unat ?l < 2 ^ 31"
    using sub u(2) assms(4,6,7,8) by auto
  then have lz: "?l \<noteq> 0" by (intro notI) simp
  have rem: "\<not> int_of_u64 ?l \<le> 0" using int_of_u64_small [OF l(2)] l(1) by linarith
  have "nbtrfs_read d (path_of names) (of_nat len) offset = read_loop d ?n (int_of_u64 ?l) offset []"
    unfolding nbtrfs_read_def look(1,3) bind.simps prod.case Let_def InodeBtreePair.simps if_not_P [OF nle] if_not_P [OF lz]
    using look(2) by simp
  also have "\<dots> = Some (-1, [])"
    using rem assms(5) by (subst read_loop.simps) (simp add: inode_get_block_page [OF assms(3)] Let_def del: USABLE_BLOCK_SIZE_def)
  finally show ?thesis .
qed

theorem read_hole_fails_witness:
  "\<exists>d. nbtrfs_read d (path_of [name_a]) 1 0 = Some (-1, [])"
proof -
  obtain d where d: "file_at d [name_a] 1" "file_ok d 1" "inode_at d 1 = new_file_inode sample_env sample_volume 1 0x81A4"
    using sample_created root_file_at by metis
  obtain d' where d': "file_ok d' 1" "inode_at d' 1 = (inode_at d 1)\<lparr>i_size := 5\<rparr>" "file_at d' [name_a] 1"
    using set_size [OF d(2,1), of 5] by metis
  have "file_block (inode_at d' 1) 0 = 0" "i_size (inode_at d' 1) = 5"
    using sample_inodes(2) [of 1] unfolding d'(2) d(3) by (simp_all add: file_block_def new_file_inode_def fresh_inode_def)
  then have "nbtrfs_read d' (path_of [name_a]) (of_nat 1) 0 = Some (-1, [])"
    using read_hole_fails [OF d'(1,3), of 0 1] by (simp add: max_direct_def)
  then show ?thesis by auto
qed

end
