(* ===== verification/Name_Theorems.thy ===== *)
theory Name_Theorems
  imports Sample_Files
begin

text \<open>The properties of the handlers that change attributes and names.\<close>

subsection \<open>Attributes\<close>

lemma chmod_inode:
  assumes "fs_ok d" "i < inode_capacity d" "i_number (inode_at d i) = of_nat i"
    and "item_search d path = Some p" "pair_inode p = of_nat i"
  obtains d' where "nbtrfs_chmod d path mode = Some (0, d')" "fs_step {i} {} d d'"
    "inode_at d' i = (inode_at d i)\<lparr>i_mode := mode\<rparr>"
    "index_entries (d', root_block d) = index_entries (d, root_block d)"
proof -
  let ?n = "(inode_at d i)\<lparr>i_mode := mode\<rparr>"
  have wf: "inode_wf ?n" "i_number ?n = of_nat i"
    using assms(3) inode_wf_at [of d i] by (simp_all add: inode_wf_def del: inode_wf_at)
  obtain d' where d': "inode_write d ?n = Some (0, d')" "fs_step {i} {} d d'" "inode_at d' i = ?n"
      "index_entries (d', root_block d) = index_entries (d, root_block d)"
    using fs_update_inode [OF assms(1,2) wf] by metis
  have "nbtrfs_chmod d path mode = Some (0, d')"
    using assms(4,5) d'(1) inode_read_ok [OF fs_okD(2) [OF assms(1)] assms(2)] by (simp add: nbtrfs_chmod_def)
  then show ?thesis using d'(2-4) by (rule that)
qed

text \<open>
  After chmod of a file of the root directory, getattr reports the new mode and otherwise
  what it reported before; all other inodes and all names are as before.
\<close>

lemma chmod_then_getattr:
  assumes "fs_ok d" "root_file d name i" "i_number (inode_at d i) = of_nat i"
  shows "\<exists>d'. nbtrfs_chmod d (path_of [name]) mode = Some (0, d') \<and> fs_ok d'
    \<and> nbtrfs_getattr d' (path_of [name]) = Some (0, Some ((stat_of (inode_at d i) (of_nat i))\<lparr>st_mode := mode\<rparr>))
    \<and> (\<forall>j<inode_capacity d. j \<noteq> i \<longrightarrow> inode_at d' j = inode_at d j)
    \<and> index_entries (d', root_block d) = index_entries (d, root_block d)"
proof -
  have i: "i < inode_capacity d" using assms(2) by (simp add: root_file_def)
  have p: "pair_inode \<lparr>pair_inode = of_nat i, pair_btree = 0\<rparr> = of_nat i" by simp
  obtain d' where d': "nbtrfs_chmod d (path_of [name]) mode = Some (0, d')" "fs_step {i} {} d d'"
    "inode_at d' i = (inode_at d i)\<lparr>i_mode := mode\<rparr>"
    "index_entries (d', root_block d) = index_entries (d, root_block d)"
    by (rule chmod_inode [OF assms(1) i assms(3) item_search_file(1) [OF assms(1) root_file_at [OF assms(1,2)]] p])
  note st = fs_stepD [OF d'(2)]
  have "nbtrfs_getattr d' (path_of [name]) = Some (0, Some ((stat_of (inode_at d i) (of_nat i))\<lparr>st_mode := mode\<rparr>))"
    using getattr_file(1) [OF st(1) root_file_at [OF st(1) root_file_step [OF assms(2) d'(2,4)]]] by (simp add: d'(3) stat_of_def)
  then show ?thesis using d' st(1,5) by (intro exI [of _ d']) simp
qed

text \<open>
  C37: chmod of a name that does not exist returns 0 instead of ENOENT and changes the mode of
  the root directory.
\<close>

theorem chmod_missing_changes_root:
  assumes "fs_ok d" "root_dir d n" "no_file d name"
  shows "\<exists>d'. nbtrfs_chmod d (path_of [name]) mode = Some (0, d')
    \<and> nbtrfs_getattr d' [slash] = Some (0, Some ((stat_of (inode_at d 0) 0)\<lparr>st_mode := mode\<rparr>))"
proof -
  have num: "i_number (inode_at d 0) = of_nat 0" using assms(2) by (simp add: dir_ok_def)
  have p: "pair_inode no_pair = of_nat 0" by (simp add: no_pair_def)
  obtain d' where d': "nbtrfs_chmod d (path_of [name]) mode = Some (0, d')" "fs_step {0} {} d d'"
    "inode_at d' 0 = (inode_at d 0)\<lparr>i_mode := mode\<rparr>"
    by (rule chmod_inode [OF assms(1) fs_okD(4) [OF assms(1)] num item_search_leads [OF assms(1) no_file_nothing [OF assms(1,3), unfolded nothing_at_def]] p])
  then show ?thesis
    using getattr_root [OF fs_stepD(1) [OF d'(2)]] by (intro exI [of _ d']) (simp add: stat_of_def)
qed

theorem chmod_missing_changes_root_witness:
  "\<exists>d'. nbtrfs_chmod sample_volume (path_of [name_a]) 0 = Some (0, d')
     \<and> map_option (\<lambda>r. map_option st_mode (snd r)) (nbtrfs_getattr d' [slash]) = Some (Some 0)"
proof -
  have "no_file sample_volume name_a"
    using name_a_facts sample_index(3) sample_fs(2) by (simp add: no_file_def)
  from chmod_missing_changes_root [OF sample_fs(1) sample_root(1) this, of 0] show ?thesis by auto
qed

subsection \<open>Names\<close>

text \<open>
  C23: Unlinking a file of the root directory that has one link has no defined behaviour on a
  volume whose inode bitmap lies behind the block bitmap, as on every formatted one: freeing
  the inode writes in front of the bitmap.
\<close>

theorem unlink_last_link_undefined:
  assumes "fs_ok d" "root_dir d n" "root_file d name i" "named_entry d j name i"
    and "reference_count (inode_at d i) = 1" "2 \<le> unat (inode_bitmap (the_sb d))"
  shows "nbtrfs_unlink d (path_of [name]) = None"
proof -
  have f: "name_ok name" "i < inode_capacity d" using assms(3) by (simp_all add: root_file_def)
  note ne = named_entryD [OF assms(2,4)]
  show ?thesis
    using remove_last_root [OF assms(1,2) ne(1,3-6) f(2) assms(5,6)] by (simp add: unlink_root [OF f(1)])
qed

theorem unlink_last_link_undefined_witness:
  "\<exists>d. nbtrfs_create sample_env sample_volume (path_of [name_a]) 0x1A4 = Some (0, d)
     \<and> nbtrfs_unlink d (path_of [name_a]) = None"
proof -
  obtain d where d: "nbtrfs_create sample_env sample_volume (path_of [name_a]) 0x1A4 = Some (0, d)"
    "fs_ok d" "root_dir d 1" "root_file d name_a 1" "named_entry d 0 name_a 1"
    "inode_at d 1 = new_file_inode sample_env sample_volume 1 0x81A4" "unat (inode_bitmap (the_sb d)) = 2"
    using sample_created by blast
  have "reference_count (inode_at d 1) = 1" unfolding d(6) by (simp add: new_file_inode_def fresh_inode_def)
  from unlink_last_link_undefined [OF d(2-5) this] d(1,7) show ?thesis by auto
qed

text \<open>
  C22: rename of a file of the root directory returns 0 but leaves the old name in the tree:
  both paths lead to the file afterwards, and its link count has grown by one.
\<close>

theorem rename_keeps_old_name:
  assumes "fs_ok d" "root_dir d n" "n < 15" "root_room d" "root_file d src i" "new_name_ok dst"
    and "i_mode (inode_at d i) AND S_IFMT \<noteq> FILE_TYPE_DIRECTORY" "i_number (inode_at d i) = of_nat i"
    and "length (entry_name (env_junk E)) = NAME_MAX" "named_entry d j src i" "reference_count (inode_at d i) \<noteq> 0"
  shows "\<exists>d'. nbtrfs_rename E d (path_of [src]) (path_of [dst]) = Some (0, d') \<and> fs_ok d'
    \<and> item_search d' (path_of [src]) = Some \<lparr>pair_inode = of_nat i, pair_btree = 0\<rparr>
    \<and> item_search d' (path_of [dst]) = Some \<lparr>pair_inode = of_nat i, pair_btree = 0\<rparr>
    \<and> reference_count (inode_at d' i) = reference_count (inode_at d i) + 1"
proof -
  obtain d' where d': "nbtrfs_rename E d (path_of [src]) (path_of [dst]) = Some (0, d')" "fs_ok d'"
    "root_file d' src i" "root_file d' dst i" "reference_count (inode_at d' i) = reference_count (inode_at d i) + 1"
    by (rule rename_root [OF assms])
  then show ?thesis using item_search_file(1) root_file_at by blast
qed

theorem rename_keeps_old_name_witness:
  "\<exists>d d'. nbtrfs_rename sample_env d (path_of [name_a]) (path_of [name_b]) = Some (0, d')
     \<and> item_search d' (path_of [name_a]) = Some \<lparr>pair_inode = 1, pair_btree = 0\<rparr>"
proof -
  obtain d where d: "fs_ok d" "root_dir d 1" "root_file d name_a 1" "file_ok d 1" "named_entry d 0 name_a 1"
    "inode_at d 1 = new_file_inode sample_env sample_volume 1 0x81A4" "501 \<le> card (free_set d)" "root_block d = 8"
    "length (leaves d 8) = 1" "root_first d \<noteq> 0"
    using sample_created by blast
  have room: "root_room d"
    using d(7-10) by (simp add: dir_room_def name_blocks_def FILE_TYPE_REGULAR_def FILE_TYPE_DIRECTORY_def)
  have n: "i_mode (inode_at d 1) AND S_IFMT \<noteq> FILE_TYPE_DIRECTORY" "i_number (inode_at d 1) = of_nat 1"
    "reference_count (inode_at d 1) \<noteq> 0"
    unfolding d(6) by (simp_all add: new_file_inode_def fresh_inode_def S_IFMT_def FILE_TYPE_DIRECTORY_def)
  from rename_keeps_old_name [OF d(1,2) _ room d(3) name_b_new n(1,2) sample_env_name d(5) n(3)]
  show ?thesis by auto
qed

end
