(* ===== verification/Ring.thy ===== *)
theory Ring
  imports Prelude
begin

text \<open>
  The circular doubly-linked lists of \<open>lru.c\<close> and \<open>gdl.c\<close>, whose code is the same. Nodes
  live at addresses, 0 is the null pointer, and an address that is not in the map is freed
  or was never allocated. New nodes get addresses that were not in use before, so a
  dangling pointer is never taken for a valid one.
\<close>

subsection \<open>Nodes and rings\<close>

record ring_node =
  node_index :: int
  node_next :: nat
  node_prev :: nat

text \<open>The nodes, the size and the head, as fields of the cache hold them.\<close>

record ring =
  ring_nodes :: "nat \<Rightarrow> ring_node option"
  ring_size :: int
  ring_head :: nat

text \<open>
  \<open>push\<close>, with the address of the new node. The callers make the node the head afterwards.
\<close>

definition ring_push :: "nat \<Rightarrow> int \<Rightarrow> ring \<Rightarrow> ring option" where
  "ring_push a i r =
     (if 0 < ring_size r \<and> ring_head r \<noteq> 0 then do {
        h \<leftarrow> ring_nodes r (ring_head r);
        let ns1 = (ring_nodes r)(a \<mapsto> \<lparr>node_index = i, node_next = ring_head r, node_prev = node_prev h\<rparr>);
        let ns2 = ns1(ring_head r \<mapsto> h\<lparr>node_prev := a\<rparr>);
        p \<leftarrow> ns2 (node_prev h);
        Some (r\<lparr>ring_nodes := ns2(node_prev h \<mapsto> p\<lparr>node_next := a\<rparr>), ring_size := ring_size r + 1\<rparr>)
      }
      else Some (r\<lparr>ring_nodes := (ring_nodes r)(a \<mapsto> \<lparr>node_index = i, node_next = a, node_prev = a\<rparr>),
        ring_size := ring_size r + 1\<rparr>))"

text \<open>
  \<open>pop\<close> gets the address of a pointer variable and sets the variable to null: the head of
  the ring, the \<open>prev\<close> field of a node, or a variable outside the ring with its value.
\<close>

datatype ring_var = Head | Prev nat | Other nat

fun read_var :: "ring \<Rightarrow> ring_var \<Rightarrow> nat option" where
  "read_var r Head = Some (ring_head r)"
| "read_var r (Prev a) = map_option node_prev (ring_nodes r a)"
| "read_var r (Other x) = Some x"

fun clear_var :: "ring_var \<Rightarrow> ring \<Rightarrow> ring" where
  "clear_var Head r = r\<lparr>ring_head := 0\<rparr>"
| "clear_var (Prev a) r = r\<lparr>ring_nodes := (ring_nodes r)(a := map_option (\<lambda>n. n\<lparr>node_prev := 0\<rparr>) (ring_nodes r a))\<rparr>"
| "clear_var (Other x) r = r"

definition ring_unlink :: "nat \<Rightarrow> ring_node \<Rightarrow> ring \<Rightarrow> ring option" where
  "ring_unlink x n r = do {
     p \<leftarrow> ring_nodes r (node_prev n);
     let ns1 = (ring_nodes r)(node_prev n \<mapsto> p\<lparr>node_next := node_next n\<rparr>);
     q \<leftarrow> ns1 (node_next n);
     let ns2 = ns1(node_next n \<mapsto> q\<lparr>node_prev := node_prev n\<rparr>);
     Some (r\<lparr>ring_nodes := ns2, ring_head := (if x = ring_head r then node_next n else ring_head r)\<rparr>)
   }"

definition ring_pop :: "ring_var \<Rightarrow> ring \<Rightarrow> (int \<times> ring) option" where
  "ring_pop var r = do {
     x \<leftarrow> read_var r var;
     if x = 0 then Some (-1, r)
     else do {
       n \<leftarrow> ring_nodes r x;
       r1 \<leftarrow> (if ring_size r = 1 then Some (clear_var var (r\<lparr>ring_head := 0\<rparr>))
             else do { r' \<leftarrow> ring_unlink x n r; Some (clear_var var r') });
       Some (node_index n, r1\<lparr>ring_nodes := (ring_nodes r1)(x := None), ring_size := ring_size r1 - 1\<rparr>)
     }
   }"

subsection \<open>The four lists of the cache\<close>

text \<open>
  \<open>lru_push\<close>, \<open>lru_pop\<close>, \<open>gdl_push\<close> and \<open>gdl_pop\<close>. Both files have the same code on
  fields of the cache with other names. A pop of a null pointer returns \<open>-1\<close>.
\<close>

definition lru_push :: "nat \<Rightarrow> int \<Rightarrow> ring \<Rightarrow> ring option" where
  "lru_push a i r = ring_push a i r"

definition lru_pop :: "ring_var \<Rightarrow> ring \<Rightarrow> (int \<times> ring) option" where
  "lru_pop var r = ring_pop var r"

definition gdl_push :: "nat \<Rightarrow> int \<Rightarrow> ring \<Rightarrow> ring option" where
  "gdl_push a i r = ring_push a i r"

definition gdl_pop :: "ring_var \<Rightarrow> ring \<Rightarrow> (int \<times> ring) option" where
  "gdl_pop var r = ring_pop var r"

definition set_head :: "nat \<Rightarrow> ring \<Rightarrow> ring" where
  "set_head a r = r\<lparr>ring_head := a\<rparr>"

definition empty_ring :: ring where
  "empty_ring = \<lparr>ring_nodes = (\<lambda>_. None), ring_size = 0, ring_head = 0\<rparr>"

subsection \<open>The list in a ring\<close>

definition nxt :: "(nat \<Rightarrow> ring_node option) \<Rightarrow> nat \<Rightarrow> nat option" where
  "nxt ns x = map_option node_next (ns x)"

definition prv :: "(nat \<Rightarrow> ring_node option) \<Rightarrow> nat \<Rightarrow> nat option" where
  "prv ns x = map_option node_prev (ns x)"

definition idx :: "(nat \<Rightarrow> ring_node option) \<Rightarrow> nat \<Rightarrow> int option" where
  "idx ns x = map_option node_index (ns x)"

text \<open>The pairs of neighbours of a list, and of a list that is closed to a cycle.\<close>

fun pairs :: "nat list \<Rightarrow> (nat \<times> nat) list" where
  "pairs (x # y # zs) = (x, y) # pairs (y # zs)"
| "pairs _ = []"

definition cycle :: "nat list \<Rightarrow> (nat \<times> nat) set" where
  "cycle xs = (if xs = [] then {} else insert (last xs, hd xs) (set (pairs xs)))"

text \<open>A ring with the nodes \<open>xs\<close>, from the head on.\<close>

definition ring_ok :: "ring \<Rightarrow> nat list \<Rightarrow> bool" where
  "ring_ok r xs \<longleftrightarrow> ring_size r = int (length xs) \<and> distinct xs \<and> 0 \<notin> set xs \<and>
     dom (ring_nodes r) = set xs \<and> ring_head r = (if xs = [] then 0 else hd xs) \<and>
     (\<forall>(u, v) \<in> cycle xs. nxt (ring_nodes r) u = Some v \<and> prv (ring_nodes r) v = Some u)"

definition node_of :: "ring \<Rightarrow> nat \<Rightarrow> int" where
  "node_of r x = (case ring_nodes r x of None \<Rightarrow> -1 | Some n \<Rightarrow> node_index n)"

lemma pairs_append: "pairs (xs @ y # ys) = pairs (xs @ [y]) @ pairs (y # ys)"
proof (induction xs)
  case (Cons x xs)
  then show ?case by (cases xs) simp_all
qed simp

lemma pairs_mem: "(a, b) \<in> set (pairs xs) \<Longrightarrow> a \<in> set xs \<and> b \<in> set xs"
  by (induction xs rule: pairs.induct) auto

lemma pairs_hd_last: "distinct xs \<Longrightarrow> (a, b) \<in> set (pairs xs) \<Longrightarrow> b \<noteq> hd xs \<and> a \<noteq> last xs"
proof (induction xs rule: pairs.induct)
  case (1 x y zs)
  then show ?case using pairs_mem [of a b "y # zs"] by auto
qed simp_all

lemma cycle_mem: "(u, v) \<in> cycle xs \<Longrightarrow> u \<in> set xs \<and> v \<in> set xs"
  by (auto simp: cycle_def split: if_splits dest: pairs_mem)

lemma set_head_eq: "set_head a r = \<lparr>ring_nodes = ring_nodes r, ring_size = ring_size r, ring_head = a\<rparr>"
  by (rule ring.equality) (simp_all add: set_head_def)

lemma ring_upd: "r\<lparr>ring_nodes := n, ring_size := s\<rparr> = \<lparr>ring_nodes = n, ring_size = s, ring_head = ring_head r\<rparr>"
  by (rule ring.equality) simp_all

lemma ring_ok_empty: "ring_ok empty_ring []"
  by (simp add: ring_ok_def empty_ring_def cycle_def)

lemma ring_okD:
  assumes "ring_ok r xs"
  shows "ring_size r = int (length xs)" "distinct xs" "0 \<notin> set xs" "dom (ring_nodes r) = set xs"
    and "xs \<noteq> [] \<Longrightarrow> ring_head r = hd xs" "xs = [] \<Longrightarrow> ring_head r = 0"
    and "(u, v) \<in> cycle xs \<Longrightarrow> nxt (ring_nodes r) u = Some v"
    and "(u, v) \<in> cycle xs \<Longrightarrow> prv (ring_nodes r) v = Some u"
  using assms by (auto simp: ring_ok_def)

text \<open>Pushing a node and making it the head.\<close>

lemma ring_ok_pushed:
  assumes "ring_ok r xs" "a \<notin> set xs" "a \<noteq> 0" "xs \<noteq> []"
    and "nxt ns' = (nxt (ring_nodes r))(a \<mapsto> hd xs, last xs \<mapsto> a)"
    and "prv ns' = (prv (ring_nodes r))(a \<mapsto> last xs, hd xs \<mapsto> a)"
    and "dom ns' = insert a (set xs)"
    and "s = ring_size r + 1"
  shows "ring_ok \<lparr>ring_nodes = ns', ring_size = s, ring_head = a\<rparr> (a # xs)"
proof -
  note r = ring_okD [OF assms(1)]
  obtain h t where xs: "xs = h # t"
    using assms(4) by (cases xs) auto
  have "nxt ns' u = Some v \<and> prv ns' v = Some u" if "(u, v) \<in> cycle (a # xs)" for u v
  proof -
    from that consider "u = last xs" "v = a" | "u = a" "v = h" | "(u, v) \<in> set (pairs xs)"
      by (auto simp: cycle_def xs split: if_splits)
    then show ?thesis
    proof cases
      case 3
      then have "(u, v) \<in> cycle xs"
        by (simp add: cycle_def xs)
      then have "nxt (ring_nodes r) u = Some v" "prv (ring_nodes r) v = Some u"
        using r(7,8) by auto
      moreover have "v \<noteq> hd xs" "u \<noteq> last xs" "u \<noteq> a" "v \<noteq> a"
        using pairs_hd_last [OF r(2) 3] pairs_mem [OF 3] assms(2) by auto
      ultimately show ?thesis
        by (simp add: assms(5,6))
    qed (use assms(2) in \<open>auto simp: assms(5,6) xs split: if_splits\<close>)
  qed
  then show ?thesis
    using r(1-3) assms(2,3,7,8) by (auto simp: ring_ok_def)
qed

lemma ring_push_ok:
  assumes ok: "ring_ok r xs" and a: "a \<notin> set xs" "a \<noteq> 0"
  shows "\<exists>r'. ring_push a i r = Some r' \<and> ring_ok (set_head a r') (a # xs) \<and>
    idx (ring_nodes r') = (idx (ring_nodes r))(a \<mapsto> i)"
proof (cases "xs = []")
  case True
  then show ?thesis
    using ring_okD [OF ok] a
    by (auto simp: ring_push_def ring_ok_def set_head_def cycle_def nxt_def prv_def idx_def fun_eq_iff)
next
  case False
  note r = ring_okD [OF ok]
  have mem: "hd xs \<in> set xs" "last xs \<in> set xs" "(last xs, hd xs) \<in> cycle xs"
    using False by (simp_all add: cycle_def)
  obtain h l where hl: "ring_nodes r (hd xs) = Some h" "ring_nodes r (last xs) = Some l"
    using mem(1,2) r(4) by blast
  then have links: "node_prev h = last xs" "node_next l = hd xs"
    using r(7,8) [OF mem(3)] by (simp_all add: nxt_def prv_def)
  have ne: "hd xs \<noteq> a" "last xs \<noteq> a" "hd xs \<noteq> 0"
    using a(1) mem r(3) by metis+
  let ?ns2 = "(ring_nodes r)(a \<mapsto> \<lparr>node_index = i, node_next = hd xs, node_prev = last xs\<rparr>, hd xs \<mapsto> h\<lparr>node_prev := a\<rparr>)"
  obtain p where p: "?ns2 (last xs) = Some p" "node_index p = node_index l"
    "node_prev p = (if last xs = hd xs then a else node_prev l)"
    using hl ne by (cases "last xs = hd xs") auto
  let ?ns = "?ns2(last xs \<mapsto> p\<lparr>node_next := a\<rparr>)"
  have "ring_push a i r = Some (r\<lparr>ring_nodes := ?ns, ring_size := ring_size r + 1\<rparr>)"
    using False ne p(1)
    by (cases "last xs = hd xs") (simp_all add: ring_push_def r(1,5) hl links Let_def)
  moreover have "ring_ok \<lparr>ring_nodes = ?ns, ring_size = ring_size r + 1, ring_head = a\<rparr> (a # xs)"
    by (rule ring_ok_pushed [OF ok a False])
      (use hl links ne p r(4) mem in \<open>auto simp: nxt_def prv_def fun_eq_iff\<close>)
  moreover have "idx ?ns = (idx (ring_nodes r))(a \<mapsto> i)"
    using hl ne p by (auto simp: idx_def fun_eq_iff)
  ultimately show ?thesis
    by (auto simp: set_head_eq)
qed

text \<open>Taking a node out: its neighbours become neighbours of each other.\<close>

lemma pairs_last: "xs \<noteq> [] \<Longrightarrow> pairs (xs @ [y]) = pairs xs @ [(last xs, y)]"
proof (induction xs rule: pairs.induct)
  case (1 x y' zs)
  then show ?case by simp
qed simp_all

lemma cycle_remove:
  assumes "distinct xs" "x \<in> set xs" "remove1 x xs \<noteq> []"
  shows "\<exists>p n. (p, x) \<in> cycle xs \<and> (x, n) \<in> cycle xs \<and> p \<noteq> x \<and> n \<noteq> x \<and>
    hd (remove1 x xs) = (if x = hd xs then n else hd xs) \<and>
    cycle (remove1 x xs) \<subseteq> insert (p, n) (cycle xs)"
proof -
  obtain pre post where xs: "xs = pre @ x # post"
    using split_list assms(2) by metis
  have x: "x \<notin> set pre" "x \<notin> set post"
    using assms(1) by (auto simp: xs)
  have rm: "remove1 x xs = pre @ post"
    using x by (simp add: xs remove1_append)
  show ?thesis
  proof (cases pre)
    case Nil
    then obtain y ys where post: "post = y # ys"
      using assms(3) rm by (cases post) auto
    have "last (y # ys) \<noteq> x"
      using x post last_in_set [of "y # ys"] by fastforce
    then show ?thesis
      using x unfolding rm unfolding xs Nil post
      by (intro exI [of _ "last (y # ys)"] exI [of _ y]) (auto simp: cycle_def)
  next
    case (Cons w ws)
    have lp: "last pre \<noteq> x" "pre \<noteq> []" "hd pre \<noteq> x"
      using x(1) Cons last_in_set [of pre] by auto
    show ?thesis
    proof (cases post)
      case Nil
      show ?thesis
        using lp unfolding rm unfolding xs Nil
        by (intro exI [of _ "last pre"] exI [of _ "hd pre"])
          (auto simp: cycle_def pairs_last)
    next
      case (Cons y ys)
      have P: "pairs xs = pairs pre @ (last pre, x) # (x, y) # pairs (y # ys)"
        unfolding xs Cons pairs_append [of pre x "y # ys"] using lp by (simp add: pairs_last)
      have Q: "pairs (pre @ post) = pairs pre @ (last pre, y) # pairs (y # ys)"
        unfolding Cons pairs_append [of pre y ys] using lp by (simp add: pairs_last)
      have C: "cycle xs = insert (last post, hd pre) (set (pairs pre @ (last pre, x) # (x, y) # pairs (y # ys)))"
        unfolding cycle_def P using lp by (simp add: xs Cons)
      have D: "cycle (remove1 x xs) = insert (last post, hd pre) (set (pairs pre @ (last pre, y) # pairs (y # ys)))"
        unfolding cycle_def rm Q using lp by (simp add: Cons)
      have "(last pre, x) \<in> cycle xs \<and> (x, y) \<in> cycle xs \<and>
          cycle (remove1 x xs) \<subseteq> insert (last pre, y) (cycle xs)"
        unfolding C D by auto
      moreover have "y \<noteq> x" "hd (remove1 x xs) = hd pre" "hd xs = hd pre"
        using lp x Cons unfolding rm by (auto simp: xs)
      ultimately show ?thesis
        using lp by metis
    qed
  qed
qed

lemma remove1_not_mem: "distinct xs \<Longrightarrow> x \<notin> set (remove1 x xs)"
  by simp

lemma ring_ok_removed:
  assumes ok: "ring_ok r xs" and x: "x \<in> set xs" and ne: "remove1 x xs \<noteq> []"
    and px: "(p, x) \<in> cycle xs" and xn: "(x, n) \<in> cycle xs"
    and sub: "cycle (remove1 x xs) \<subseteq> insert (p, n) (cycle xs)"
    and hd: "hd (remove1 x xs) = (if x = hd xs then n else hd xs)"
    and nx: "nxt ns' = (nxt (ring_nodes r))(p \<mapsto> n, x := None)"
    and pv: "prv ns' = (prv (ring_nodes r))(n \<mapsto> p, x := None)"
    and dm: "dom ns' = set xs - {x}"
  shows "ring_ok \<lparr>ring_nodes = ns', ring_size = ring_size r - 1,
    ring_head = (if x = ring_head r then n else ring_head r)\<rparr> (remove1 x xs)"
proof -
  note r = ring_okD [OF ok]
  have len: "int (length xs) - 1 = int (length (remove1 x xs))"
    using x length_pos_if_in_set [OF x] by (simp add: length_remove1 of_nat_diff del: length_greater_0_conv)
  have "nxt ns' u = Some v \<and> prv ns' v = Some u" if uv: "(u, v) \<in> cycle (remove1 x xs)" for u v
  proof -
    have nex: "u \<noteq> x" "v \<noteq> x"
      using cycle_mem [OF uv] remove1_not_mem [OF r(2)] by metis+
    show ?thesis
    proof (cases "(u, v) = (p, n)")
      case True
      then show ?thesis
        using nex by (simp add: nx pv)
    next
      case False
      then have "(u, v) \<in> cycle xs"
        using uv sub by blast
      then have "nxt (ring_nodes r) u = Some v" "prv (ring_nodes r) v = Some u"
        using r(7,8) by auto
      moreover have "u \<noteq> p" "v \<noteq> n"
        using calculation r(7) [OF px] r(8) [OF xn] nex by auto
      ultimately show ?thesis
        using nex by (simp add: nx pv)
    qed
  qed
  moreover have "xs \<noteq> []"
    using x by auto
  ultimately show ?thesis
    using r(1,2,3,5) dm ne hd len
    by (auto simp: ring_ok_def remove1_not_mem dest: notin_set_remove1)
qed

lemma ring_unlink_ok:
  assumes ok: "ring_ok r xs" and x: "x \<in> set xs" and ne: "remove1 x xs \<noteq> []" and n: "ring_nodes r x = Some nd"
  shows "\<exists>r'. ring_unlink x nd r = Some r' \<and>
    ring_ok \<lparr>ring_nodes = (ring_nodes r')(x := None), ring_size = ring_size r' - 1, ring_head = ring_head r'\<rparr>
      (remove1 x xs) \<and>
    idx (ring_nodes r') = idx (ring_nodes r)"
proof -
  note r = ring_okD [OF ok]
  obtain p s where ps: "(p, x) \<in> cycle xs" "(x, s) \<in> cycle xs" "p \<noteq> x" "s \<noteq> x"
    "hd (remove1 x xs) = (if x = hd xs then s else hd xs)"
    "cycle (remove1 x xs) \<subseteq> insert (p, s) (cycle xs)"
    using cycle_remove [OF r(2) x ne] by blast
  have lk: "node_prev nd = p" "node_next nd = s"
    using r(7) [OF ps(2)] r(8) [OF ps(1)] by (simp_all add: nxt_def prv_def n)
  obtain pn sn where nn: "ring_nodes r p = Some pn" "ring_nodes r s = Some sn"
    using cycle_mem [OF ps(1)] cycle_mem [OF ps(2)] r(4) by blast
  let ?ns1 = "(ring_nodes r)(p \<mapsto> pn\<lparr>node_next := s\<rparr>)"
  obtain q where q: "?ns1 s = Some q" "node_index q = node_index sn"
    "node_next q = (if s = p then s else node_next sn)"
    using nn by (cases "s = p") auto
  let ?ns2 = "?ns1(s \<mapsto> q\<lparr>node_prev := p\<rparr>)"
  let ?r = "r\<lparr>ring_nodes := ?ns2, ring_head := (if x = ring_head r then s else ring_head r)\<rparr>"
  have "ring_unlink x nd r = Some ?r"
    using q(1) by (simp add: ring_unlink_def lk nn)
  moreover have "ring_ok \<lparr>ring_nodes = ?ns2(x := None), ring_size = ring_size r - 1,
      ring_head = (if x = ring_head r then s else ring_head r)\<rparr> (remove1 x xs)"
    by (rule ring_ok_removed [OF ok x ne ps(1,2,6,5)])
      (use nn q ps(3,4) r(4) cycle_mem [OF ps(1)] cycle_mem [OF ps(2)] in
        \<open>auto simp: nxt_def prv_def fun_eq_iff\<close>)
  moreover have "idx ?ns2 = idx (ring_nodes r)"
    using nn q by (auto simp: idx_def fun_eq_iff)
  ultimately show ?thesis
    by (intro exI [of _ ?r]) simp
qed

lemma idx_Some: "ring_nodes r x = Some nd \<Longrightarrow> node_of r x = node_index nd"
  by (simp add: node_of_def)

lemma ring_pop_ok:
  assumes ok: "ring_ok r xs" and x: "x \<in> set xs"
  shows "\<exists>r'. ring_pop (Other x) r = Some (node_of r x, r') \<and> ring_ok r' (remove1 x xs) \<and>
    idx (ring_nodes r') = (idx (ring_nodes r))(x := None)"
proof -
  note r = ring_okD [OF ok]
  obtain nd where nd: "ring_nodes r x = Some nd"
    using x r(4) by blast
  have x0: "x \<noteq> 0"
    using x r(3) by metis
  show ?thesis
  proof (cases "remove1 x xs = []")
    case True
    then have one: "length xs = 1" "xs = [x]"
      using x by (cases xs; auto split: if_splits)+
    have "dom ((ring_nodes r)(x := None)) = {}"
      using r(4) one by auto
    then show ?thesis
      using x0 one r(1) by (auto simp: ring_pop_def nd idx_Some ring_ok_def cycle_def idx_def fun_eq_iff)
  next
    case False
    obtain r' where r': "ring_unlink x nd r = Some r'"
      "ring_ok \<lparr>ring_nodes = (ring_nodes r')(x := None), ring_size = ring_size r' - 1, ring_head = ring_head r'\<rparr>
        (remove1 x xs)"
      "idx (ring_nodes r') = idx (ring_nodes r)"
      using ring_unlink_ok [OF ok x False nd] by blast
    have "ring_size r \<noteq> 1"
      using False x r(1) by (cases xs) (auto split: if_splits)
    then show ?thesis
      using x0 r' by (simp add: ring_pop_def nd idx_Some idx_def fun_eq_iff ring_upd)
  qed
qed

text \<open>A variable that is read to the node is cleared as well.\<close>

lemma ring_pop_var:
  "read_var r var = Some x \<Longrightarrow> x \<noteq> 0 \<Longrightarrow>
   ring_pop var r = map_option (\<lambda>(i, r'). (i, clear_var var r')) (ring_pop (Other x) r)"
  by (cases var; cases "ring_nodes r x"; cases "ring_unlink x (the (ring_nodes r x)) r")
    (auto simp: ring_pop_def fun_eq_iff)

text \<open>Nothing can be pushed onto a ring whose head lost its \<open>prev\<close> pointer.\<close>

lemma ring_push_after_pop_tail:
  assumes ok: "ring_ok r xs" and two: "2 \<le> length xs" and a: "a \<noteq> 0"
  shows "\<exists>i r'. ring_pop (Prev (ring_head r)) r = Some (i, r') \<and> ring_push a j r' = None"
proof -
  note r = ring_okD [OF ok]
  have ne: "xs \<noteq> []"
    using two by auto
  let ?t = "last xs"
  have t: "?t \<in> set xs" "?t \<noteq> hd xs" "(?t, hd xs) \<in> cycle xs" "?t \<noteq> 0" "hd xs \<noteq> 0"
  proof -
    show "?t \<in> set xs" "(?t, hd xs) \<in> cycle xs"
      using ne by (simp_all add: cycle_def)
    show "?t \<noteq> hd xs"
      using ne r(2) two by (auto simp: hd_conv_nth last_conv_nth nth_eq_iff_index_eq)
    show "?t \<noteq> 0" "hd xs \<noteq> 0"
      using ne r(3) hd_in_set last_in_set by metis+
  qed
  have rd: "read_var r (Prev (ring_head r)) = Some ?t"
    using r(8) [OF t(3)] by (simp add: r(5) [OF ne] prv_def)
  obtain r' where r': "ring_pop (Other ?t) r = Some (node_of r ?t, r')" "ring_ok r' (remove1 ?t xs)"
    using ring_pop_ok [OF ok t(1)] by blast
  have rm: "remove1 ?t xs \<noteq> []" "hd (remove1 ?t xs) = hd xs"
    using t(1,2) two by (cases xs; auto)+
  note r'' = ring_okD [OF r'(2)]
  let ?c = "clear_var (Prev (hd xs)) r'"
  have "ring_nodes r' 0 = None"
    using r''(3,4) by blast
  then have "ring_push a j ?c = None"
    using rm t(5) a r''(1,5) by (cases "ring_nodes r' (hd xs)") (auto simp: ring_push_def length_greater_0_conv)
  moreover have "ring_pop (Prev (ring_head r)) r = Some (node_of r ?t, ?c)"
    by (subst ring_pop_var [OF rd t(4)]) (simp add: r'(1) r(5) [OF ne])
  ultimately show ?thesis
    by blast
qed

subsection \<open>The interface the cache relies on\<close>

text \<open>
  A list of labelled nodes, of which a new node is put in front and any node can be taken
  out: the contract of the recency list and of the list of dirty blocks.
\<close>

locale recency_list =
  fixes holds :: "'r \<Rightarrow> nat list \<Rightarrow> bool"
    and put :: "nat \<Rightarrow> int \<Rightarrow> 'r \<Rightarrow> 'r option"
    and takeout :: "nat \<Rightarrow> 'r \<Rightarrow> (int \<times> 'r) option"
    and label :: "'r \<Rightarrow> nat \<Rightarrow> int option"
  assumes put_law: "holds r xs \<Longrightarrow> a \<notin> set xs \<Longrightarrow> a \<noteq> 0 \<Longrightarrow>
      \<exists>r'. put a i r = Some r' \<and> holds r' (a # xs) \<and> label r' = (label r)(a \<mapsto> i)"
    and takeout_law: "holds r xs \<Longrightarrow> x \<in> set xs \<Longrightarrow> label r x = Some i \<Longrightarrow>
      \<exists>r'. takeout x r = Some (i, r') \<and> holds r' (remove1 x xs) \<and> label r' = (label r)(x := None)"
    and distinct_law: "holds r xs \<Longrightarrow> distinct xs"
begin

text \<open>A node that is taken out and put back under a new address is in front.\<close>

lemma move_to_front:
  assumes "holds r xs" "x \<in> set xs" "label r x = Some i" "a \<notin> set xs" "a \<noteq> 0"
  shows "\<exists>r1 r2. takeout x r = Some (i, r1) \<and> put a i r1 = Some r2 \<and> holds r2 (a # remove1 x xs) \<and>
    label r2 = (label r)(x := None, a \<mapsto> i)"
proof -
  obtain r1 where r1: "takeout x r = Some (i, r1)" "holds r1 (remove1 x xs)" "label r1 = (label r)(x := None)"
    using takeout_law [OF assms(1-3)] by blast
  have "a \<notin> set (remove1 x xs)"
    using assms(4) by (meson notin_set_remove1)
  from put_law [OF r1(2) this assms(5), of i] obtain r2 where
    "put a i r1 = Some r2" "holds r2 (a # remove1 x xs)" "label r2 = (label r1)(a \<mapsto> i)"
    by blast
  then show ?thesis
    using r1 by (intro exI [of _ r1] exI [of _ r2]) simp
qed

text \<open>The node at the end is the oldest one.\<close>

lemma takeout_last:
  assumes "holds r (xs @ [x])" "label r x = Some i"
  shows "\<exists>r'. takeout x r = Some (i, r') \<and> holds r' xs \<and> label r' = (label r)(x := None)"
proof -
  have "x \<notin> set xs"
    using distinct_law [OF assms(1)] by simp
  then have "remove1 x (xs @ [x]) = xs"
    by (simp add: remove1_append)
  then show ?thesis
    using takeout_law [OF assms(1) _ assms(2)] by simp
qed

end

definition put_lru :: "nat \<Rightarrow> int \<Rightarrow> ring \<Rightarrow> ring option" where
  "put_lru a i r = map_option (set_head a) (lru_push a i r)"

definition put_gdl :: "nat \<Rightarrow> int \<Rightarrow> ring \<Rightarrow> ring option" where
  "put_gdl a i r = map_option (set_head a) (gdl_push a i r)"

abbreviation ring_label :: "ring \<Rightarrow> nat \<Rightarrow> int option" where
  "ring_label r \<equiv> idx (ring_nodes r)"

lemma ring_label_node_of: "ring_label r x = Some i \<Longrightarrow> node_of r x = i"
  by (auto simp: idx_def node_of_def split: option.splits)

lemma ring_label_dom: "ring_ok r xs \<Longrightarrow> (ring_label r x \<noteq> None) = (x \<in> set xs)"
  using ring_okD(4) [of r xs] by (auto simp: idx_def dom_def)

interpretation lru_list: recency_list ring_ok put_lru "\<lambda>x. lru_pop (Other x)" ring_label
proof unfold_locales
  fix r xs a i
  assume "ring_ok r xs" "a \<notin> set xs" "a \<noteq> 0"
  from ring_push_ok [OF this, of i]
  show "\<exists>r'. put_lru a i r = Some r' \<and> ring_ok r' (a # xs) \<and> ring_label r' = (ring_label r)(a \<mapsto> i)"
    by (auto simp: put_lru_def lru_push_def set_head_def)
next
  fix r xs x i
  assume "ring_ok r xs" "x \<in> set xs" "ring_label r x = Some i"
  with ring_pop_ok [OF this(1,2)] ring_label_node_of [OF this(3)]
  show "\<exists>r'. lru_pop (Other x) r = Some (i, r') \<and> ring_ok r' (remove1 x xs) \<and>
      ring_label r' = (ring_label r)(x := None)"
    by (simp add: lru_pop_def)
qed (rule ring_okD(2))

text \<open>The second file has the same code on other fields.\<close>

lemma put_gdl_lru: "put_gdl = put_lru"
  by (simp add: fun_eq_iff put_gdl_def put_lru_def gdl_push_def lru_push_def)

lemma gdl_pop_lru: "gdl_pop = lru_pop"
  by (simp add: fun_eq_iff gdl_pop_def lru_pop_def)

interpretation gdl_list: recency_list ring_ok put_gdl "\<lambda>x. gdl_pop (Other x)" ring_label
  unfolding put_gdl_lru gdl_pop_lru by (rule lru_list.recency_list_axioms)

end
