(* ===== verification/Cache_Index.thy ===== *)
theory Cache_Index
  imports Page
begin

text \<open>
  \<open>pci.c\<close>, the hash table from block numbers to slots of the cache, and \<open>fl.c\<close>, the list
  of free slots. A chain of the table is a list, and so is the list of free slots, as no
  pointer to one of their nodes is kept elsewhere.
\<close>

subsection \<open>The free list\<close>

definition fl_push :: "int list \<Rightarrow> int \<Rightarrow> int list" where
  "fl_push list index = index # list"

text \<open>\<open>fl_pop\<close> reads the head without a test.\<close>

definition fl_pop :: "int list \<Rightarrow> int list option" where
  "fl_pop list = (case list of [] \<Rightarrow> None | _ # temp \<Rightarrow> Some temp)"

subsection \<open>The primary cache index\<close>

record PCI_LL =
  pci_block :: u64
  pci_slot :: u64

type_synonym PCI_HM = "nat \<Rightarrow> PCI_LL list"

definition bucket :: "u64 \<Rightarrow> nat" where
  "bucket n = unat n mod HASHMAP_SIZE"

fun pci_walk :: "PCI_LL list \<Rightarrow> u64 \<Rightarrow> int" where
  "pci_walk [] b = -1"
| "pci_walk (current # rest) b =
     (if pci_block current = b then int_of_u64 (pci_slot current) else pci_walk rest b)"

definition pci_lookup :: "PCI_HM \<Rightarrow> u64 \<Rightarrow> int" where
  "pci_lookup hashmap b = pci_walk (hashmap (bucket b)) b"

definition pci_insert :: "PCI_HM \<Rightarrow> u64 \<Rightarrow> u64 \<Rightarrow> PCI_HM" where
  "pci_insert hashmap b i = hashmap(bucket b := \<lparr>pci_block = b, pci_slot = i\<rparr> # hashmap (bucket b))"

text \<open>
  \<open>pci_delete\<close>: the loop leaves \<open>prev\<close> unset when the first node of the chain matches or
  the chain is empty, and the branch after it reads \<open>prev\<close>. When no node matches, \<open>curr\<close>
  is null and is dereferenced.
\<close>

definition pci_delete :: "PCI_HM \<Rightarrow> u64 \<Rightarrow> PCI_HM option" where
  "pci_delete hashmap b =
     (let chain = hashmap (bucket b);
          before = takeWhile (\<lambda>n. pci_block n \<noteq> b) chain;
          rest = dropWhile (\<lambda>n. pci_block n \<noteq> b) chain
      in if before = [] then None
         else case rest of [] \<Rightarrow> None | cur # behind \<Rightarrow> Some (hashmap(bucket b := before @ behind)))"

lemma bucket_less: "bucket n < HASHMAP_SIZE"
  by (simp add: bucket_def)

lemma pci_walk_append:
  "pci_walk (xs @ ys) b = (if \<exists>n \<in> set xs. pci_block n = b then pci_walk xs b else pci_walk ys b)"
  by (induction xs) auto

lemma pci_walk_absent: "\<forall>n \<in> set xs. pci_block n \<noteq> b \<Longrightarrow> pci_walk xs b = -1"
  by (induction xs) auto

lemma pci_lookup_empty [simp]: "pci_lookup (\<lambda>_. []) b = -1"
  by (simp add: pci_lookup_def)

lemma pci_lookup_insert:
  "pci_lookup (pci_insert h b i) b' = (if b' = b then int_of_u64 i else pci_lookup h b')"
  by (auto simp: pci_lookup_def pci_insert_def)

text \<open>What a client of the index relies on.\<close>

locale slot_index =
  fixes lookup :: "'m \<Rightarrow> u64 \<Rightarrow> int"
    and enter :: "'m \<Rightarrow> u64 \<Rightarrow> u64 \<Rightarrow> 'm"
    and empty :: 'm
  assumes lookup_empty: "lookup empty b = -1"
    and lookup_enter: "lookup (enter m b i) b' = (if b' = b then int_of_u64 i else lookup m b')"
begin

definition known :: "'m \<Rightarrow> u64 set" where
  "known m = {b. lookup m b \<noteq> -1}"

lemma known_empty: "known empty = {}"
  by (simp add: known_def lookup_empty)

lemma known_enter:
  assumes "int_of_u64 i \<noteq> -1"
  shows "known (enter m b i) = insert b (known m)"
  using assms by (auto simp: known_def lookup_enter)

text \<open>One entry more for a block that was not known.\<close>

lemma card_known_enter:
  assumes "int_of_u64 i \<noteq> -1" "lookup m b = -1" "finite (known m)"
  shows "card (known (enter m b i)) = Suc (card (known m))"
  using assms by (simp add: known_enter) (simp add: known_def)

end

interpretation index: slot_index pci_lookup pci_insert "\<lambda>_. []"
  by unfold_locales (simp_all add: pci_lookup_insert)

text \<open>
  \<open>pci_delete\<close> is defined exactly when the block is in its chain and is not the first.
\<close>

lemma pci_delete_defined_iff:
  "pci_delete h b \<noteq> None \<longleftrightarrow>
     (\<exists>n before rest. h (bucket b) = n # before @ rest \<and> pci_block n \<noteq> b \<and> rest \<noteq> [] \<and> pci_block (hd rest) = b)"
proof (cases "h (bucket b)")
  case Nil
  then show ?thesis by (simp add: pci_delete_def)
next
  case (Cons n chain)
  show ?thesis
  proof (cases "pci_block n = b")
    case False
    let ?P = "\<lambda>n. pci_block n \<noteq> b"
    have "pci_delete h b \<noteq> None \<longleftrightarrow> dropWhile ?P chain \<noteq> []"
      using False by (cases "dropWhile ?P chain") (simp_all add: pci_delete_def Cons del: dropWhile_eq_Nil_conv)
    also have "\<dots> \<longleftrightarrow> (\<exists>before rest. chain = before @ rest \<and> rest \<noteq> [] \<and> pci_block (hd rest) = b)"
    proof
      assume "dropWhile ?P chain \<noteq> []"
      then show "\<exists>before rest. chain = before @ rest \<and> rest \<noteq> [] \<and> pci_block (hd rest) = b"
        using hd_dropWhile [of ?P chain] takeWhile_dropWhile_id [of ?P chain] by metis
    next
      assume "\<exists>before rest. chain = before @ rest \<and> rest \<noteq> [] \<and> pci_block (hd rest) = b"
      then have "\<exists>x \<in> set chain. \<not> ?P x"
        using hd_in_set by fastforce
      then show "dropWhile ?P chain \<noteq> []"
        by (simp add: dropWhile_eq_Nil_conv)
    qed
    finally show ?thesis
      using False by (auto simp: Cons)
  qed (simp add: pci_delete_def Cons)
qed

end
