(* ===== verification/Dirty_List.thy ===== *)
theory Dirty_List
  imports Cache_Index
begin

text \<open>
  \<open>dl.c\<close>: for every inode the list of its dirty data blocks, in a hash table of chains.
  A list and a chain are lists of records, with one exception: \<open>dl_push\<close> onto an empty
  list leaves the \<open>next\<close> field of the new node as \<open>malloc\<close> returned it, so the last node
  of every list ends in an indeterminate pointer. The parameter \<open>z\<close> says what reading it
  gives: with \<open>z\<close> fresh memory reads as null and the walk ends; otherwise the read is
  undefined. \<open>malloc\<close> does not promise null, and \<open>dl_pop\<close> leaves random bytes in the nodes it
  frees, so nothing is proved for \<open>z\<close> alone: the properties are about both values, and those
  that need a list to end have \<open>z\<close> or the absence of dirty data blocks as a hypothesis.
\<close>

record DL_LL =
  dl_index :: u64
  dl_block :: u64

record DL_HM_LL =
  hm_inode :: u64
  hm_list :: "DL_LL list"

type_synonym DL_HM = "nat \<Rightarrow> DL_HM_LL list"

definition dl_push :: "DL_LL list \<Rightarrow> u64 \<Rightarrow> DL_LL list" where
  "dl_push list b = (case list of
     [] \<Rightarrow> [\<lparr>dl_index = 1, dl_block = b\<rparr>]
   | head # _ \<Rightarrow> \<lparr>dl_index = dl_index head + 1, dl_block = b\<rparr> # list)"

text \<open>
  The nodes behind a node, as its \<open>next\<close> field gives them.
\<close>

definition dl_next :: "bool \<Rightarrow> DL_LL list \<Rightarrow> DL_LL list option" where
  "dl_next z rest = (if rest = [] \<and> \<not> z then None else Some rest)"

text \<open>
  \<open>dl_pop\<close> follows the \<open>next\<close> field only when \<open>dl_index\<close> is above 1.
\<close>

definition dl_pop :: "bool \<Rightarrow> DL_LL list \<Rightarrow> DL_LL list option" where
  "dl_pop z list = (case list of
     [] \<Rightarrow> Some []
   | node # rest \<Rightarrow> if 1 < dl_index node then dl_next z rest else Some [])"

fun chain_find :: "DL_HM_LL list \<Rightarrow> u64 \<Rightarrow> DL_HM_LL option" where
  "chain_find [] n = None"
| "chain_find (current # rest) n = (if hm_inode current = n then Some current else chain_find rest n)"

definition dl_lookup :: "DL_HM \<Rightarrow> u64 \<Rightarrow> DL_HM_LL option" where
  "dl_lookup hashmap n = chain_find (hashmap (bucket n)) n"

text \<open>\<open>dl_find_block\<close> returns whether there is a node with the block.\<close>

fun dl_find_block :: "bool \<Rightarrow> DL_LL list \<Rightarrow> u64 \<Rightarrow> bool option" where
  "dl_find_block z [] b = Some False"
| "dl_find_block z (node # rest) b =
     (if dl_block node = b then Some True
      else do { behind \<leftarrow> dl_next z rest; if behind = [] then Some False else dl_find_block z rest b })"

text \<open>An assignment to the list of the first node of a chain with the inode.\<close>

fun set_list :: "DL_HM_LL list \<Rightarrow> u64 \<Rightarrow> DL_LL list \<Rightarrow> DL_HM_LL list" where
  "set_list [] n l = []"
| "set_list (node # rest) n l =
     (if hm_inode node = n then node\<lparr>hm_list := l\<rparr> # rest else node # set_list rest n l)"

definition dl_insert :: "bool \<Rightarrow> DL_HM \<Rightarrow> u64 \<Rightarrow> u64 \<Rightarrow> DL_HM option" where
  "dl_insert z hashmap n b = (case dl_lookup hashmap n of
     None \<Rightarrow> Some (hashmap(bucket n := \<lparr>hm_inode = n, hm_list = dl_push [] b\<rparr> # hashmap (bucket n)))
   | Some node \<Rightarrow> do {
       entry \<leftarrow> dl_find_block z (hm_list node) b;
       Some (if entry then hashmap
             else hashmap(bucket n := set_list (hashmap (bucket n)) n (dl_push (hm_list node) b)))
     })"

fun chain_delete :: "DL_HM_LL list \<Rightarrow> u64 \<Rightarrow> DL_HM_LL list" where
  "chain_delete [] n = []"
| "chain_delete (current # rest) n = (if hm_inode current = n then rest else current # chain_delete rest n)"

definition dl_delete :: "DL_HM \<Rightarrow> u64 \<Rightarrow> DL_HM" where
  "dl_delete hashmap n = hashmap(bucket n := chain_delete (hashmap (bucket n)) n)"

text \<open>
  The loop of \<open>dl_remove_block\<close>: the list without the node of the block, or \<open>None\<close> when
  there is no such node.
\<close>

fun dl_take :: "bool \<Rightarrow> DL_LL list \<Rightarrow> u64 \<Rightarrow> DL_LL list option option" where
  "dl_take z [] b = Some None"
| "dl_take z (node # rest) b =
     (if dl_block node = b then Some (Some rest)
      else do {
        behind \<leftarrow> dl_next z rest;
        taken \<leftarrow> (if behind = [] then Some None else dl_take z rest b);
        Some (map_option (Cons node) taken)
      })"

definition dl_remove_block :: "bool \<Rightarrow> DL_HM \<Rightarrow> u64 \<Rightarrow> u64 \<Rightarrow> DL_HM option" where
  "dl_remove_block z hashmap n b = (case dl_lookup hashmap n of
     None \<Rightarrow> Some hashmap
   | Some node \<Rightarrow> do {
       taken \<leftarrow> dl_take z (hm_list node) b;
       case taken of
         None \<Rightarrow> Some hashmap
       | Some list \<Rightarrow> do {
           list' \<leftarrow> dl_next z list;
           let h = hashmap(bucket n := set_list (hashmap (bucket n)) n list');
           Some (if list' = [] then dl_delete h n else h)
         }
     })"

subsection \<open>With memory that reads as null\<close>

lemma dl_next_z [simp]: "dl_next True l = Some l"
  by (simp add: dl_next_def)

lemma dl_find_block_z: "dl_find_block True l b = Some (b \<in> dl_block ` set l)"
  by (induction l) auto

lemma dl_take_z: "\<exists>r. dl_take True l b = Some r"
  by (induction l) auto

lemma dl_insert_z: "\<exists>h'. dl_insert True h n b = Some h'"
  by (simp add: dl_insert_def dl_find_block_z split: option.split)

lemma dl_remove_block_z: "\<exists>h'. dl_remove_block True h n b = Some h'"
proof (cases "dl_lookup h n")
  case (Some node)
  then show ?thesis
    using dl_take_z [of "hm_list node" b] by (auto simp: dl_remove_block_def Let_def split: option.split)
qed (simp add: dl_remove_block_def)

text \<open>The blocks of an inode.\<close>

definition dl_blocks :: "DL_HM \<Rightarrow> u64 \<Rightarrow> u64 set" where
  "dl_blocks h n = (case dl_lookup h n of None \<Rightarrow> {} | Some node \<Rightarrow> dl_block ` set (hm_list node))"

lemma chain_find_set_list:
  "chain_find (set_list c n l) m =
     (if m = n then map_option (\<lambda>node. node\<lparr>hm_list := l\<rparr>) (chain_find c n) else chain_find c m)"
  by (induction c) auto

lemma dl_insert_blocks:
  "dl_insert True h n b = Some h' \<Longrightarrow> dl_blocks h' m = (if m = n then insert b (dl_blocks h n) else dl_blocks h m)"
  by (auto simp: dl_insert_def dl_find_block_z dl_blocks_def dl_lookup_def chain_find_set_list dl_push_def
      split: option.splits if_splits list.splits)

subsection \<open>With memory that may not be null\<close>

lemma dl_find_block_undefined:
  "l \<noteq> [] \<Longrightarrow> b \<notin> dl_block ` set l \<Longrightarrow> dl_find_block False l b = None"
  by (induction l) (auto simp: dl_next_def)

lemma dl_insert_undefined:
  "dl_lookup h n = Some node \<Longrightarrow> hm_list node \<noteq> [] \<Longrightarrow> b \<notin> dl_blocks h n \<Longrightarrow> dl_insert False h n b = None"
  by (simp add: dl_insert_def dl_find_block_undefined dl_blocks_def)

lemma dl_lookup_insert_first:
  "dl_lookup h n = None \<Longrightarrow> dl_insert z h n b = Some h' \<Longrightarrow>
   dl_lookup h' n = Some \<lparr>hm_inode = n, hm_list = [\<lparr>dl_index = 1, dl_block = b\<rparr>]\<rparr>"
  by (auto simp: dl_insert_def dl_lookup_def dl_push_def)

end
