(* ===== verification/Cache.thy ===== *)
theory Cache
  imports Ring Dirty_List Disk "HOL-Library.Signed_Division"
begin

text \<open>
  \<open>cache.c\<close> as it is compiled without \<open>CACHE_DISABLED\<close>. The cache is a record with the
  fields of \<open>struct cache\<close>; the buffers of its entries live in a heap of pages, and all
  allocations take addresses from one counter, so an address is never used twice. The
  parameter \<open>z\<close> of the operations is the one of the dirty lists.
\<close>

subsection \<open>The state\<close>

record cache_entry_t =
  dirty_bit :: bool
  pin_count :: int
  block_number :: u64
  inode_number :: u64
  page_data :: nat
  lru_pos :: nat
  gdl_pos :: nat

record cache =
  cache_size :: int
  entries :: "cache_entry_t list"
  pci :: PCI_HM
  lru :: ring
  free_list :: "int list"
  dirty_list :: DL_HM
  gdl :: ring
  heap :: "nat \<Rightarrow> page option"
  next_addr :: nat

definition entry :: "cache \<Rightarrow> int \<Rightarrow> cache_entry_t option" where
  "entry c i = (if 0 \<le> i \<and> i < int (length (entries c)) then Some (entries c ! nat i) else None)"

definition set_entry :: "cache \<Rightarrow> int \<Rightarrow> cache_entry_t \<Rightarrow> cache" where
  "set_entry c i e = c\<lparr>entries := (entries c)[nat i := e]\<rparr>"

text \<open>\<open>cache->lru = cache->cache[i].lru_pos = lru_push(cache, i)\<close>, and the same for the dirty list.\<close>

definition enqueue_lru :: "cache \<Rightarrow> int \<Rightarrow> cache option" where
  "enqueue_lru c i = do {
     e \<leftarrow> entry c i;
     r \<leftarrow> put_lru (next_addr c) i (lru c);
     Some ((set_entry c i (e\<lparr>lru_pos := next_addr c\<rparr>))\<lparr>lru := r, next_addr := next_addr c + 1\<rparr>)
   }"

definition enqueue_gdl :: "cache \<Rightarrow> int \<Rightarrow> cache option" where
  "enqueue_gdl c i = do {
     r \<leftarrow> put_gdl (next_addr c) i (gdl c);
     e \<leftarrow> entry c i;
     Some ((set_entry c i (e\<lparr>gdl_pos := next_addr c\<rparr>))\<lparr>gdl := r, next_addr := next_addr c + 1\<rparr>)
   }"

subsection \<open>\<open>get_block\<close>\<close>

text \<open>
  The eviction of the least recently used block. The block type is read from the buffer
  after the buffer was freed.
\<close>

definition evict :: "bool \<Rightarrow> DiskInterface \<Rightarrow> cache \<Rightarrow> (DiskInterface \<times> cache) option" where
  "evict z disk c = do {
     (i, r) \<leftarrow> lru_pop (Prev (ring_head (lru c))) (lru c);
     e \<leftarrow> entry c i;
     let c = c\<lparr>lru := r\<rparr>;
     (disk, c) \<leftarrow> (if dirty_bit e then do {
         page \<leftarrow> heap c (page_data e);
         (_, disk) \<leftarrow> disk_write_block disk (block_number e) page;
         let c = c\<lparr>heap := (heap c)(page_data e := None)\<rparr>;
         freed \<leftarrow> heap c (page_data e);
         dl \<leftarrow> (if rd32 freed 0 = block_type_code BLOCK_TYPE_DATA
               then dl_remove_block z (dirty_list c) (inode_number e) (block_number e)
               else Some (dirty_list c));
         (_, g) \<leftarrow> gdl_pop (Other (gdl_pos e)) (gdl c);
         Some (disk, (set_entry c i (e\<lparr>gdl_pos := 0\<rparr>))\<lparr>dirty_list := dl, gdl := g\<rparr>)
       }
       else Some (disk, c));
     e \<leftarrow> entry c i;
     hm \<leftarrow> pci_delete (pci c) (block_number e);
     Some (disk, c\<lparr>pci := hm, free_list := fl_push (free_list c) i\<rparr>)
   }"

text \<open>A block that is not in the cache is loaded into the first free slot.\<close>

definition load :: "DiskInterface \<Rightarrow> cache \<Rightarrow> u64 \<Rightarrow> u64 \<Rightarrow> (nat \<times> cache) option" where
  "load disk c inum pnum = (case free_list c of
     [] \<Rightarrow> None
   | index # _ \<Rightarrow> do {
       fl \<leftarrow> fl_pop (free_list c);
       e \<leftarrow> entry c index;
       let p = next_addr c;
       let c = (set_entry c index (e\<lparr>dirty_bit := False, pin_count := 0, block_number := pnum,
           inode_number := inum, page_data := p\<rparr>))\<lparr>free_list := fl, next_addr := p + 1\<rparr>;
       (_, page) \<leftarrow> disk_read_block disk pnum;
       c \<leftarrow> enqueue_lru (c\<lparr>heap := (heap c)(p \<mapsto> page)\<rparr>) index;
       Some (p, c\<lparr>pci := pci_insert (pci c) pnum (u64_of_int index)\<rparr>)
     })"

text \<open>A block that is in slot \<open>rv\<close> moves to the front.\<close>

definition touch :: "cache \<Rightarrow> int \<Rightarrow> cache option" where
  "touch c rv = (if 1 < ring_size (lru c) then do {
       e \<leftarrow> entry c rv;
       (i, r) \<leftarrow> lru_pop (Other (lru_pos e)) (lru c);
       r' \<leftarrow> put_lru (next_addr c) i r;
       Some ((set_entry c rv (e\<lparr>lru_pos := next_addr c\<rparr>))\<lparr>lru := r', next_addr := next_addr c + 1\<rparr>)
     }
     else Some c)"

text \<open>The address of the buffer is returned.\<close>

definition get_block ::
    "bool \<Rightarrow> DiskInterface \<Rightarrow> cache \<Rightarrow> u64 \<Rightarrow> u64 \<Rightarrow> (nat \<times> DiskInterface \<times> cache) option" where
  "get_block z disk c inum pnum =
     (let rv = pci_lookup (pci c) pnum in
      if rv = -1 then do {
        (disk, c) \<leftarrow> (if free_list c = [] then evict z disk c else Some (disk, c));
        (p, c) \<leftarrow> load disk c inum pnum;
        Some (p, disk, c)
      }
      else do {
        c \<leftarrow> touch c rv;
        e \<leftarrow> entry c rv;
        Some (page_data e, disk, c)
      })"

subsection \<open>\<open>write_block\<close>\<close>

text \<open>
  \<open>buf\<close> holds the 4096 bytes at the pointer of the caller. The callers pass the buffer
  that \<open>get_block\<close> returned, and the copy is then one of a buffer onto itself.
\<close>

definition mark_dirty :: "bool \<Rightarrow> cache \<Rightarrow> page \<Rightarrow> u64 \<Rightarrow> u64 \<Rightarrow> int \<Rightarrow> cache option" where
  "mark_dirty z c buf inum pnum index = do {
     e \<leftarrow> entry c index;
     old \<leftarrow> heap c (page_data e);
     let c = (set_entry c index (e\<lparr>dirty_bit := True\<rparr>))\<lparr>heap := (heap c)(page_data e \<mapsto> buf)\<rparr>;
     dl \<leftarrow> (if rd32 buf 0 = block_type_code BLOCK_TYPE_DATA then dl_insert z (dirty_list c) inum pnum
           else Some (dirty_list c));
     enqueue_gdl (c\<lparr>dirty_list := dl\<rparr>) index
   }"

definition write_block ::
    "bool \<Rightarrow> DiskInterface \<Rightarrow> cache \<Rightarrow> page \<Rightarrow> u64 \<Rightarrow> u64 \<Rightarrow> (DiskInterface \<times> cache) option" where
  "write_block z disk c buf inum pnum = do {
     (disk, c) \<leftarrow> (if pci_lookup (pci c) pnum = -1
       then map_option snd (get_block z disk c inum pnum) else Some (disk, c));
     c \<leftarrow> mark_dirty z c buf inum pnum (pci_lookup (pci c) pnum);
     Some (disk, c)
   }"

subsection \<open>\<open>cache_fsync\<close> and \<open>cache_sync\<close>\<close>

definition clean :: "cache \<Rightarrow> int \<Rightarrow> cache_entry_t \<Rightarrow> cache" where
  "clean c i e = set_entry c i (e\<lparr>dirty_bit := False, gdl_pos := 0\<rparr>)"

lemma dl_pop_shorter: "dl_pop z (n # l) = Some l' \<Longrightarrow> length l' < length (n # l)"
  by (auto simp: dl_pop_def dl_next_def split: if_splits)

function fsync_loop ::
    "bool \<Rightarrow> DL_LL list \<Rightarrow> DiskInterface \<Rightarrow> cache \<Rightarrow> (DiskInterface \<times> cache) option" where
  "fsync_loop z [] disk c = Some (disk, c)"
| "fsync_loop z (node # rest) disk c =
     (let index = pci_lookup (pci c) (dl_block node) in
      (case entry c index of None \<Rightarrow> None | Some e \<Rightarrow>
      (case heap c (page_data e) of None \<Rightarrow> None | Some page \<Rightarrow>
      (case disk_write_block disk (block_number e) page of None \<Rightarrow> None | Some (_, disk') \<Rightarrow>
      (case dl_pop z (node # rest) of None \<Rightarrow> None | Some list \<Rightarrow>
      (case gdl_pop (Other (gdl_pos e)) (gdl c) of None \<Rightarrow> None | Some (_, g) \<Rightarrow>
        fsync_loop z list disk' ((clean c index e)\<lparr>gdl := g\<rparr>)))))))"
  by pat_completeness auto
termination
  by (relation "measure (\<lambda>(z, l, _, _). length l)") (use dl_pop_shorter in auto)

definition cache_fsync :: "bool \<Rightarrow> DiskInterface \<Rightarrow> cache \<Rightarrow> u64 \<Rightarrow> (DiskInterface \<times> cache) option" where
  "cache_fsync z disk c inum = (case dl_lookup (dirty_list c) inum of
     None \<Rightarrow> Some (disk, c)
   | Some hmlist \<Rightarrow> do {
       (disk, c) \<leftarrow> fsync_loop z (hm_list hmlist) disk c;
       Some (disk, c\<lparr>dirty_list := dl_delete (dirty_list c) inum\<rparr>)
     })"

text \<open>One round of the loop of \<open>cache_sync\<close>; the flag is false after the \<open>break\<close>.\<close>

definition sync_step :: "bool \<Rightarrow> DiskInterface \<Rightarrow> cache \<Rightarrow> (bool \<times> DiskInterface \<times> cache) option" where
  "sync_step z disk c = do {
     tail_node \<leftarrow> read_var (gdl c) (Prev (ring_head (gdl c)));
     (index, g) \<leftarrow> gdl_pop (Other tail_node) (gdl c);
     let c = c\<lparr>gdl := g\<rparr>;
     if index < 0 \<or> cache_size c \<le> index then Some (False, disk, c)
     else do {
       e \<leftarrow> entry c index;
       page \<leftarrow> heap c (page_data e);
       (_, disk) \<leftarrow> disk_write_block disk (block_number e) page;
       let c = clean c index e;
       dl \<leftarrow> (if rd32 page 0 = block_type_code BLOCK_TYPE_DATA
             then dl_remove_block z (dirty_list c) (inode_number e) (block_number e)
             else Some (dirty_list c));
       Some (True, disk, c\<lparr>dirty_list := dl\<rparr>)
     }
   }"

fun sync_loop :: "nat \<Rightarrow> bool \<Rightarrow> DiskInterface \<Rightarrow> cache \<Rightarrow> (DiskInterface \<times> cache) option" where
  "sync_loop 0 z disk c = None"
| "sync_loop (Suc fuel) z disk c =
     (if 0 < ring_size (gdl c) \<and> ring_head (gdl c) \<noteq> 0 then do {
        (more, disk, c) \<leftarrow> sync_step z disk c;
        if more then sync_loop fuel z disk c else Some (disk, c)
      }
      else Some (disk, c))"

text \<open>Every round takes one node off the list, so its size bounds the rounds.\<close>

definition cache_sync :: "bool \<Rightarrow> DiskInterface \<Rightarrow> cache \<Rightarrow> (DiskInterface \<times> cache) option" where
  "cache_sync z disk c = sync_loop (Suc (nat (ring_size (gdl c)))) z disk c"

subsection \<open>\<open>alloc_cache\<close> and \<open>free_cache\<close>\<close>

text \<open>
  The size in blocks for the memory of the machine in bytes, as \<open>sysinfo\<close> reports it.
\<close>

definition size_policy :: "u64 \<Rightarrow> u64" where
  "size_policy totalram =
     (let gb_ram = int_of_u64 (totalram div (1024 * 1024 * 1024));
          physical_memory = sint totalram
      in if gb_ram < 2 then (64 * 1024 * 1024) div 4096
         else if 2 < gb_ram \<and> gb_ram \<le> 16 then word_of_int (physical_memory sdiv (8 * 4096))
         else word_of_int (min (2 * 1024 * 1024) (physical_memory sdiv (8 * 4096))))"

text \<open>
  The fields of an entry that \<open>malloc\<close> leaves unset are 0 here; \<open>load\<close> sets them, and
  \<open>gdl_pos\<close> is set with the dirty bit, before they are read.
\<close>

definition blank_entry :: cache_entry_t where
  "blank_entry = \<lparr>dirty_bit = False, pin_count = 0, block_number = 0, inode_number = 0,
     page_data = 0, lru_pos = 0, gdl_pos = 0\<rparr>"

definition alloc_cache :: "u64 \<Rightarrow> cache" where
  "alloc_cache totalram =
     (let size = size_policy totalram in
      \<lparr>cache_size = int_of_u64 size,
       entries = replicate (unat size) blank_entry,
       pci = (\<lambda>_. []),
       lru = empty_ring,
       free_list = fold (\<lambda>i list. fl_push list (int i)) [0..<unat size] [],
       dirty_list = (\<lambda>_. []),
       gdl = empty_ring,
       heap = (\<lambda>_. None),
       next_addr = 1\<rparr>)"

text \<open>\<open>free_cache\<close> returns what is still allocated at its end.\<close>

fun pop_heads :: "nat \<Rightarrow> ring \<Rightarrow> ring option" where
  "pop_heads 0 r = Some r"
| "pop_heads (Suc n) r = do { (_, r) \<leftarrow> lru_pop Head r; pop_heads n r }"

function free_list_loop :: "bool \<Rightarrow> DL_LL list \<Rightarrow> unit option" where
  "free_list_loop z [] = Some ()"
| "free_list_loop z (node # rest) =
     (case dl_pop z (node # rest) of None \<Rightarrow> None | Some list \<Rightarrow> free_list_loop z list)"
  by pat_completeness auto
termination
  by (relation "measure (\<lambda>(z, l). length l)") (use dl_pop_shorter in auto)

definition free_page_data :: "cache_entry_t \<Rightarrow> (nat \<Rightarrow> page option) \<Rightarrow> (nat \<Rightarrow> page option) option" where
  "free_page_data e h = (if page_data e \<noteq> 0
     then do { _ \<leftarrow> h (page_data e); Some (h(page_data e := None)) }
     else Some h)"

record memory =
  lru_left :: "nat \<Rightarrow> ring_node option"
  gdl_left :: "nat \<Rightarrow> ring_node option"
  pages_left :: "nat \<Rightarrow> page option"

definition free_cache :: "bool \<Rightarrow> cache \<Rightarrow> memory option" where
  "free_cache z c = do {
     g \<leftarrow> pop_heads (nat (ring_size (gdl c))) (gdl c);
     r \<leftarrow> pop_heads (nat (ring_size (lru c))) (lru c);
     _ \<leftarrow> for_each [0..<HASHMAP_SIZE] (\<lambda>i. for_each (dirty_list c i) (\<lambda>hmlist _. free_list_loop z (hm_list hmlist))) ();
     h \<leftarrow> for_each (entries c) free_page_data (heap c);
     Some \<lparr>lru_left = ring_nodes r, gdl_left = ring_nodes g, pages_left = h\<rparr>
   }"

definition nbtrfs_destroy :: "bool \<Rightarrow> DiskInterface \<Rightarrow> cache \<Rightarrow> (DiskInterface \<times> memory) option" where
  "nbtrfs_destroy z disk c = do {
     (disk, c) \<leftarrow> cache_sync z disk c;
     m \<leftarrow> free_cache z c;
     Some (disk, m)
   }"

end
