(* ===== verification/Cache_Facts.thy ===== *)
theory Cache_Facts
  imports Cache
begin

text \<open>
  The invariant of the cache in three parts, one for the index with the slots and their
  buffers and one for each ring, and what every operation does to it and to the blocks
  the cache holds.
\<close>

subsection \<open>The invariant\<close>

text \<open>The blocks in the cache, and the entry and the page of such a block.\<close>

abbreviation cached :: "cache \<Rightarrow> u64 set" where
  "cached c \<equiv> index.known (pci c)"

definition slot :: "cache \<Rightarrow> u64 \<Rightarrow> int" where
  "slot c b = pci_lookup (pci c) b"

definition at :: "cache \<Rightarrow> int \<Rightarrow> cache_entry_t" where
  "at c i = entries c ! nat i"

definition slots_ok :: "cache \<Rightarrow> bool" where
  "slots_ok c \<longleftrightarrow>
     cache_size c = int (length (entries c)) \<and> length (entries c) < 2 ^ 31 \<and>
     (\<forall>b \<in> cached c. 0 \<le> slot c b \<and> slot c b < cache_size c \<and> slot c b \<notin> set (free_list c) \<and>
        block_number (at c (slot c b)) = b \<and> page_data (at c (slot c b)) \<in> dom (heap c)) \<and>
     (\<forall>b \<in> cached c. \<forall>b' \<in> cached c. page_data (at c (slot c b)) = page_data (at c (slot c b')) \<longrightarrow> b = b') \<and>
     distinct (free_list c) \<and> set (free_list c) \<subseteq> {0..<cache_size c} \<and>
     finite (cached c) \<and> card (cached c) + length (free_list c) = length (entries c) \<and>
     dom (heap c) \<subseteq> {0<..<next_addr c} \<and> 0 < next_addr c"

definition lru_ok :: "cache \<Rightarrow> nat list \<Rightarrow> bool" where
  "lru_ok c xs \<longleftrightarrow> ring_ok (lru c) xs \<and> length xs = card (cached c) \<and> (\<forall>x \<in> set xs. x < next_addr c) \<and>
     (\<forall>b \<in> cached c. lru_pos (at c (slot c b)) \<in> set xs \<and>
        ring_label (lru c) (lru_pos (at c (slot c b))) = Some (slot c b))"

definition gdl_ok :: "cache \<Rightarrow> nat list \<Rightarrow> bool" where
  "gdl_ok c gs \<longleftrightarrow> ring_ok (gdl c) gs \<and> (\<forall>x \<in> set gs. x < next_addr c) \<and>
     (\<forall>x \<in> set gs. \<exists>b \<in> cached c. ring_label (gdl c) x = Some (slot c b))"

text \<open>No buffer without an entry, and no entry that is neither free nor in the index.\<close>

definition buffers_ok :: "cache \<Rightarrow> bool" where
  "buffers_ok c \<longleftrightarrow>
     (\<forall>i. 0 \<le> i \<longrightarrow> i < int (length (entries c)) \<longrightarrow>
        (i \<in> set (free_list c) \<and> page_data (at c i) = 0) \<or> (\<exists>b \<in> cached c. slot c b = i)) \<and>
     dom (heap c) = (\<lambda>b. page_data (at c (slot c b))) ` cached c"

definition cache_ok :: "cache \<Rightarrow> nat list \<Rightarrow> nat list \<Rightarrow> bool" where
  "cache_ok c xs gs \<longleftrightarrow> slots_ok c \<and> lru_ok c xs \<and> gdl_ok c gs \<and> buffers_ok c"

lemma cached_iff: "b \<in> cached c \<longleftrightarrow> slot c b \<noteq> -1"
  by (simp add: index.known_def slot_def)

lemma slots_okD:
  assumes "slots_ok c"
  shows "cache_size c = int (length (entries c))" "length (entries c) < 2 ^ 31"
    and "b \<in> cached c \<Longrightarrow> 0 \<le> slot c b" "b \<in> cached c \<Longrightarrow> slot c b < int (length (entries c))"
    and "b \<in> cached c \<Longrightarrow> slot c b \<notin> set (free_list c)"
    and "b \<in> cached c \<Longrightarrow> block_number (at c (slot c b)) = b"
    and "b \<in> cached c \<Longrightarrow> \<exists>pg. heap c (page_data (at c (slot c b))) = Some pg"
    and "b \<in> cached c \<Longrightarrow> b' \<in> cached c \<Longrightarrow> page_data (at c (slot c b)) = page_data (at c (slot c b')) \<Longrightarrow> b = b'"
    and "distinct (free_list c)" "set (free_list c) \<subseteq> {0..<int (length (entries c))}"
    and "finite (cached c)" "card (cached c) + length (free_list c) = length (entries c)"
    and "p \<in> dom (heap c) \<Longrightarrow> 0 < p \<and> p < next_addr c" "0 < next_addr c"
  using assms by (auto simp: slots_ok_def)

lemma buffer_less: "slots_ok c \<Longrightarrow> b \<in> cached c \<Longrightarrow> page_data (at c (slot c b)) < next_addr c"
  using slots_okD(7) [of c b] slots_okD(13) [of c] by blast

lemma slot_inject: "slots_ok c \<Longrightarrow> b \<in> cached c \<Longrightarrow> b' \<in> cached c \<Longrightarrow> slot c b = slot c b' \<Longrightarrow> b = b'"
  using slots_okD(6) by metis

lemma entry_slot: "slots_ok c \<Longrightarrow> b \<in> cached c \<Longrightarrow> entry c (slot c b) = Some (at c (slot c b))"
  by (simp add: entry_def at_def slots_okD)

text \<open>An update of one entry, and of the other fields.\<close>

lemma set_entry_fields [simp]:
  "cache_size (set_entry c i e) = cache_size c" "pci (set_entry c i e) = pci c"
  "lru (set_entry c i e) = lru c" "gdl (set_entry c i e) = gdl c"
  "free_list (set_entry c i e) = free_list c" "dirty_list (set_entry c i e) = dirty_list c"
  "heap (set_entry c i e) = heap c" "next_addr (set_entry c i e) = next_addr c"
  "length (entries (set_entry c i e)) = length (entries c)"
  by (simp_all add: set_entry_def)

lemma at_set_entry:
  "0 \<le> i \<Longrightarrow> i < int (length (entries c)) \<Longrightarrow> 0 \<le> j \<Longrightarrow> at (set_entry c i e) j = (if j = i then e else at c j)"
  by (auto simp: at_def set_entry_def nth_list_update)

lemma at_cong: "entries c = entries c' \<Longrightarrow> at c = at c'"
  by (simp add: at_def fun_eq_iff)

lemma slot_cong: "pci c = pci c' \<Longrightarrow> slot c = slot c'"
  by (rule ext) (simp add: slot_def)

text \<open>What the three parts depend on.\<close>

lemma slots_ok_cong:
  assumes "slots_ok c" "length (entries c') = length (entries c)" "cache_size c' = cache_size c"
    "pci c' = pci c" "free_list c' = free_list c" "dom (heap c') = dom (heap c)" "next_addr c \<le> next_addr c'"
    and "\<And>b. b \<in> cached c \<Longrightarrow> block_number (at c' (slot c b)) = block_number (at c (slot c b)) \<and>
      page_data (at c' (slot c b)) = page_data (at c (slot c b))"
  shows "slots_ok c'"
  using assms(1-7) assms(8) slot_cong [OF assms(4)] by (auto simp: slots_ok_def)

lemma lru_ok_cong:
  assumes "lru_ok c xs" "pci c' = pci c" "lru c' = lru c" "next_addr c \<le> next_addr c'"
    and "\<And>b. b \<in> cached c \<Longrightarrow> lru_pos (at c' (slot c b)) = lru_pos (at c (slot c b))"
  shows "lru_ok c' xs"
  using assms(1-4) assms(5) slot_cong [OF assms(2)] by (fastforce simp: lru_ok_def)

lemma gdl_ok_cong:
  assumes "gdl_ok c gs" "pci c' = pci c" "gdl c' = gdl c" "next_addr c \<le> next_addr c'"
  shows "gdl_ok c' gs"
  using assms slot_cong [OF assms(2)] by (fastforce simp: gdl_ok_def)

lemma buffers_ok_cong:
  assumes "buffers_ok c" "slots_ok c" "length (entries c') = length (entries c)" "pci c' = pci c" "free_list c' = free_list c"
    "dom (heap c') = dom (heap c)"
    and pd: "\<And>i. 0 \<le> i \<Longrightarrow> i < int (length (entries c)) \<Longrightarrow> page_data (at c' i) = page_data (at c i)"
  shows "buffers_ok c'"
proof -
  have "page_data (at c' (slot c b)) = page_data (at c (slot c b))" if "b \<in> cached c" for b
    using pd slots_okD(3,4) [OF assms(2) that] by blast
  then have "(\<lambda>b. page_data (at c' (slot c' b))) ` cached c' = (\<lambda>b. page_data (at c (slot c b))) ` cached c"
    unfolding slot_cong [OF assms(4)] assms(4) by (intro image_cong) auto
  then show ?thesis
    using assms(1,3,5,6) pd unfolding buffers_ok_def slot_cong [OF assms(4)] assms(4) by metis
qed

subsection \<open>Pages\<close>

definition cached_page :: "cache \<Rightarrow> u64 \<Rightarrow> page option" where
  "cached_page c b = (if b \<in> cached c then heap c (page_data (at c (slot c b))) else None)"

text \<open>The content of a block as the program sees it.\<close>

definition view :: "DiskInterface \<Rightarrow> cache \<Rightarrow> nat \<Rightarrow> page" where
  "view d c k = (case cached_page c (of_nat k) of None \<Rightarrow> page_at d k | Some pg \<Rightarrow> pg)"

lemma cached_page_in: "slots_ok c \<Longrightarrow> b \<in> cached c \<Longrightarrow> \<exists>pg. cached_page c b = Some pg"
  using slots_okD(7) by (auto simp: cached_page_def)

lemma cached_page_cong:
  assumes "pci c' = pci c" "heap c' = heap c"
    and "\<And>b. b \<in> cached c \<Longrightarrow> page_data (at c' (slot c b)) = page_data (at c (slot c b))"
  shows "cached_page c' = cached_page c"
  by (rule ext) (simp add: cached_page_def assms slot_cong [OF assms(1)])

text \<open>A block whose slot is not on the list of dirty blocks is as on the disk.\<close>

definition synced :: "DiskInterface \<Rightarrow> cache \<Rightarrow> nat list \<Rightarrow> bool" where
  "synced d c gs \<longleftrightarrow> (\<forall>b \<in> cached c. valid_block d (unat b) \<and>
     (Some (slot c b) \<in> ring_label (gdl c) ` set gs \<or> cached_page c b = Some (page_at d (unat b))))"

subsection \<open>Loading a block\<close>

text \<open>A free slot \<open>i\<close> gets the block \<open>b\<close> with the buffer \<open>p\<close> and the recency node \<open>a\<close>.\<close>

lemma entry_in_range: "0 \<le> i \<Longrightarrow> i < int (length (entries c)) \<Longrightarrow> entry c i = Some (at c i)"
  by (simp add: entry_def at_def)

lemma disk_read_valid:
  "valid_block d (unat b) \<Longrightarrow> disk_read_block d b = Some (0, page_at d (unat b))"
  by (simp only: disk_read_block_def int_of_u64_valid disk_get_block_valid Option.bind.bind_lunit)

lemma disk_write_valid:
  "valid_block d (unat b) \<Longrightarrow> disk_write_block d b pg = Some (0, set_page d (unat b) pg)"
  by (simp only: disk_write_block_def int_of_u64_valid disk_get_block_valid Option.bind.bind_lunit)

lemma enqueue_lru_run:
  assumes "ring_ok (lru c) xs" "\<forall>x \<in> set xs. x < next_addr c" "0 < next_addr c"
    and "0 \<le> i" "i < int (length (entries c))"
  shows "\<exists>r. enqueue_lru c i = Some ((set_entry c i ((at c i)\<lparr>lru_pos := next_addr c\<rparr>))\<lparr>lru := r, next_addr := next_addr c + 1\<rparr>) \<and>
    ring_ok r (next_addr c # xs) \<and> ring_label r = (ring_label (lru c))(next_addr c \<mapsto> i)"
proof -
  have "next_addr c \<notin> set xs" "next_addr c \<noteq> 0"
    using assms(2,3) by auto
  from lru_list.put_law [OF assms(1) this, of i] show ?thesis
    using assms(4,5) by (auto simp: enqueue_lru_def entry_in_range)
qed

text \<open>The state after a load, with the new ring.\<close>

definition loaded :: "cache \<Rightarrow> u64 \<Rightarrow> u64 \<Rightarrow> page \<Rightarrow> ring \<Rightarrow> cache" where
  "loaded c inum b pg r =
     (let i = hd (free_list c); p = next_addr c in
      c\<lparr>entries := (entries c)[nat i := (at c i)\<lparr>dirty_bit := False, pin_count := 0, block_number := b,
          inode_number := inum, page_data := p, lru_pos := p + 1\<rparr>],
        pci := pci_insert (pci c) b (u64_of_int i), lru := r, free_list := tl (free_list c),
        heap := (heap c)(p \<mapsto> pg), next_addr := p + 2\<rparr>)"

lemma free_slot:
  assumes "slots_ok c" "free_list c \<noteq> []"
  shows "0 \<le> hd (free_list c)" "hd (free_list c) < int (length (entries c))"
    "int_of_u64 (u64_of_int (hd (free_list c))) = hd (free_list c)"
    "b \<in> cached c \<Longrightarrow> slot c b \<noteq> hd (free_list c)"
proof -
  show i: "0 \<le> hd (free_list c)" "hd (free_list c) < int (length (entries c))"
    using slots_okD(10) [OF assms(1)] hd_in_set [OF assms(2)] by auto
  show "int_of_u64 (u64_of_int (hd (free_list c))) = hd (free_list c)"
    by (rule int_of_u64_of_int) (use i slots_okD(2) [OF assms(1)] in auto)
  show "b \<in> cached c \<Longrightarrow> slot c b \<noteq> hd (free_list c)"
    using slots_okD(5) [OF assms(1)] hd_in_set [OF assms(2)] by metis
qed

lemma load_run:
  assumes "slots_ok c" "lru_ok c xs" "free_list c \<noteq> []" "valid_block d (unat b)"
  shows "\<exists>r. load d c inum b = Some (next_addr c, loaded c inum b (page_at d (unat b)) r) \<and>
    ring_ok r ((next_addr c + 1) # xs) \<and>
    ring_label r = (ring_label (lru c))(next_addr c + 1 \<mapsto> hd (free_list c))"
proof -
  obtain i fl where fl: "free_list c = i # fl"
    using assms(3) by (cases "free_list c") auto
  note i = free_slot(1,2) [OF assms(1,3)]
  let ?e = "(at c i)\<lparr>dirty_bit := False, pin_count := 0, block_number := b, inode_number := inum, page_data := next_addr c\<rparr>"
  let ?c = "(set_entry c i ?e)\<lparr>free_list := fl, next_addr := next_addr c + 1, heap := (heap c)(next_addr c \<mapsto> page_at d (unat b))\<rparr>"
  have at: "at ?c i = ?e"
    using i fl by (simp add: at_def set_entry_def)
  have "\<forall>x \<in> set xs. x < next_addr ?c"
    using assms(2) by (auto simp: lru_ok_def)
  from enqueue_lru_run [of ?c xs i, OF _ this]
  obtain r where r: "enqueue_lru ?c i = Some ((set_entry ?c i ((at ?c i)\<lparr>lru_pos := next_addr ?c\<rparr>))\<lparr>lru := r, next_addr := next_addr ?c + 1\<rparr>)"
    "ring_ok r (next_addr ?c # xs)" "ring_label r = (ring_label (lru ?c))(next_addr ?c \<mapsto> i)"
    using assms(2) i fl by (auto simp: lru_ok_def)
  have "load d c inum b = Some (next_addr c, loaded c inum b (page_at d (unat b)) r)"
    using i fl r(1) unfolding at
    by (simp add: load_def fl_pop_def entry_in_range disk_read_valid assms(4) loaded_def set_entry_def Let_def)
  then show ?thesis
    using r fl by auto
qed

lemma loaded_simps:
  assumes "slots_ok c" "free_list c \<noteq> []"
  shows "slot (loaded c inum b pg r) b' = (if b' = b then hd (free_list c) else slot c b')"
    and "cached (loaded c inum b pg r) = insert b (cached c)"
    and "0 \<le> j \<Longrightarrow> j \<noteq> hd (free_list c) \<Longrightarrow> at (loaded c inum b pg r) j = at c j"
    and "block_number (at (loaded c inum b pg r) (hd (free_list c))) = b"
    and "page_data (at (loaded c inum b pg r) (hd (free_list c))) = next_addr c"
    and "lru_pos (at (loaded c inum b pg r) (hd (free_list c))) = next_addr c + 1"
    and "b' \<in> cached c \<Longrightarrow> b' \<noteq> b \<Longrightarrow> at (loaded c inum b pg r) (slot c b') = at c (slot c b')"
proof -
  note i = free_slot [OF assms]
  show "slot (loaded c inum b pg r) b' = (if b' = b then hd (free_list c) else slot c b')"
    using i by (simp add: slot_def loaded_def Let_def pci_lookup_insert)
  have "hd (free_list c) \<noteq> -1"
    using i(1) by simp
  then show "cached (loaded c inum b pg r) = insert b (cached c)"
    using i(3) by (simp add: loaded_def Let_def index.known_enter)
  show "0 \<le> j \<Longrightarrow> j \<noteq> hd (free_list c) \<Longrightarrow> at (loaded c inum b pg r) j = at c j" for j
    using i(1) by (simp add: at_def loaded_def Let_def nth_list_update eq_nat_nat_iff)
  then show "b' \<in> cached c \<Longrightarrow> b' \<noteq> b \<Longrightarrow> at (loaded c inum b pg r) (slot c b') = at c (slot c b')"
    using i(4) slots_okD(3) [OF assms(1)] by metis
qed (use free_slot [OF assms] in \<open>simp_all add: at_def loaded_def Let_def\<close>)

lemma loaded_fields [simp]:
  "cache_size (loaded c inum b pg r) = cache_size c" "length (entries (loaded c inum b pg r)) = length (entries c)"
  "lru (loaded c inum b pg r) = r" "gdl (loaded c inum b pg r) = gdl c" "free_list (loaded c inum b pg r) = tl (free_list c)"
  "heap (loaded c inum b pg r) = (heap c)(next_addr c \<mapsto> pg)" "next_addr (loaded c inum b pg r) = next_addr c + 2"
  by (simp_all add: loaded_def Let_def)

lemma loaded_slots_ok:
  assumes "slots_ok c" "free_list c \<noteq> []" "b \<notin> cached c"
  shows "slots_ok (loaded c inum b pg r)"
proof -
  note c = slots_okD [OF assms(1)] and ld = loaded_simps [OF assms(1,2)] and fr = free_slot [OF assms(1,2)]
  let ?c = "loaded c inum b pg r"
  let ?h = "hd (free_list c)"
  obtain fl where fl: "free_list c = ?h # fl"
    using assms(2) by (cases "free_list c") auto
  then have fd: "?h \<notin> set fl" "distinct fl" "set fl \<subseteq> set (free_list c)" "tl (free_list c) = fl"
    "length (free_list c) = Suc (length fl)"
    using c(9) by (metis distinct.simps(2), metis distinct.simps(2), metis set_subset_Cons, metis list.sel(3), metis length_Cons)
  have new: "next_addr c \<notin> dom (heap c)"
    using c(13) by blast
  have pd: "page_data (at ?c (slot ?c b')) = (if b' = b then next_addr c else page_data (at c (slot c b')))"
    if "b' \<in> insert b (cached c)" for b'
    using that ld(7) by (auto simp: ld(1,5))
  have old: "page_data (at c (slot c b')) \<noteq> next_addr c" if "b' \<in> cached c" for b'
    using buffer_less [OF assms(1) that] by simp
  have "\<forall>b' \<in> cached ?c. 0 \<le> slot ?c b' \<and> slot ?c b' < cache_size ?c \<and> slot ?c b' \<notin> set (free_list ?c) \<and>
      block_number (at ?c (slot ?c b')) = b' \<and> page_data (at ?c (slot ?c b')) \<in> dom (heap ?c)"
  proof
    fix b'
    assume "b' \<in> cached ?c"
    then have b': "b' \<in> insert b (cached c)"
      by (simp add: ld(2))
    show "0 \<le> slot ?c b' \<and> slot ?c b' < cache_size ?c \<and> slot ?c b' \<notin> set (free_list ?c) \<and>
      block_number (at ?c (slot ?c b')) = b' \<and> page_data (at ?c (slot ?c b')) \<in> dom (heap ?c)"
    proof (cases "b' = b")
      case True
      then show ?thesis
        using fr fd by (simp add: ld(1,4,5) c(1))
    next
      case False
      then have m: "b' \<in> cached c"
        using b' by simp
      then show ?thesis
        using c(3-7) [OF m] fd False ld(7) [OF m False] by (auto simp: ld(1) c(1))
    qed
  qed
  moreover have "\<forall>b1 \<in> cached ?c. \<forall>b2 \<in> cached ?c. page_data (at ?c (slot ?c b1)) = page_data (at ?c (slot ?c b2)) \<longrightarrow> b1 = b2"
  proof (intro ballI impI)
    fix b1 b2
    assume "b1 \<in> cached ?c" "b2 \<in> cached ?c" "page_data (at ?c (slot ?c b1)) = page_data (at ?c (slot ?c b2))"
    then show "b1 = b2"
      using c(8) [of b1 b2] old [of b1] old [of b2] pd [of b1] pd [of b2] unfolding ld(2)
      by (metis insert_iff)
  qed
  moreover have "card (cached ?c) + length (free_list ?c) = length (entries ?c)"
    using c(11,12) fd assms(3) by (simp add: ld(2))
  moreover have "distinct (free_list ?c)" "set (free_list ?c) \<subseteq> {0..<cache_size ?c}" "finite (cached ?c)"
    using fd(2,3) c(1,10,11) unfolding loaded_fields fd(4) ld(2) by auto
  moreover have "dom (heap ?c) \<subseteq> {0<..<next_addr ?c}"
    using c(13,14) by fastforce
  ultimately show ?thesis
    unfolding slots_ok_def using c(1,2) by simp
qed

lemma loaded_cached_page:
  assumes "slots_ok c" "free_list c \<noteq> []" "b \<notin> cached c"
  shows "cached_page (loaded c inum b pg r) = (cached_page c)(b \<mapsto> pg)"
proof (rule ext)
  fix b'
  note ld = loaded_simps [OF assms(1,2)]
  have "page_data (at c (slot c b')) \<noteq> next_addr c" if "b' \<in> cached c"
    using buffer_less [OF assms(1) that] by simp
  then show "cached_page (loaded c inum b pg r) b' = ((cached_page c)(b \<mapsto> pg)) b'"
    using ld(7) assms(3) by (auto simp: cached_page_def ld(1,2,5))
qed

lemma loaded_buffers_ok:
  assumes "slots_ok c" "buffers_ok c" "free_list c \<noteq> []" "b \<notin> cached c"
  shows "buffers_ok (loaded c inum b pg r)"
proof -
  note ld = loaded_simps [OF assms(1,3)] and fr = free_slot [OF assms(1,3)]
  let ?c = "loaded c inum b pg r"
  have pd: "page_data (at ?c (slot ?c b')) = (if b' = b then next_addr c else page_data (at c (slot c b')))"
    if "b' \<in> insert b (cached c)" for b'
    using that ld(7) by (auto simp: ld(1,5))
  have "page_data (at ?c (slot ?c b')) = page_data (at c (slot c b'))" if "b' \<in> cached c" for b'
    using pd [of b'] that assms(4) by (metis insertCI)
  then have im: "(\<lambda>b. page_data (at ?c (slot ?c b))) ` cached c = (\<lambda>b. page_data (at c (slot c b))) ` cached c"
    by (rule image_cong [OF refl])
  have "page_data (at ?c (slot ?c b)) = next_addr c"
    using pd [of b] by simp
  then have "(\<lambda>b. page_data (at ?c (slot ?c b))) ` cached ?c = insert (next_addr c) ((\<lambda>b. page_data (at c (slot c b))) ` cached c)"
    unfolding ld(2) image_insert im by (rule arg_cong)
  then have "dom (heap ?c) = (\<lambda>b. page_data (at ?c (slot ?c b))) ` cached ?c"
    using assms(2) by (simp add: buffers_ok_def)
  moreover have "(i \<in> set (free_list ?c) \<and> page_data (at ?c i) = 0) \<or> (\<exists>b \<in> cached ?c. slot ?c b = i)"
    if i: "0 \<le> i" "i < int (length (entries ?c))" for i
  proof (cases "i = hd (free_list c)")
    case True
    then show ?thesis
      by (simp add: ld(1,2))
  next
    case False
    have "i < int (length (entries c))"
      using i(2) by simp
    then have "(i \<in> set (free_list c) \<and> page_data (at c i) = 0) \<or> (\<exists>b' \<in> cached c. slot c b' = i)"
      using conjunct1 [OF assms(2) [unfolded buffers_ok_def]] i(1) by simp
    then show ?thesis
    proof (elim disjE conjE bexE)
      assume 1: "i \<in> set (free_list c)" "page_data (at c i) = 0"
      then have "i \<in> set (tl (free_list c))"
        using False assms(3) by (cases "free_list c") auto
      then show ?thesis
        using 1(2) ld(3) [OF i(1) False] by simp
    next
      fix b'
      assume "b' \<in> cached c" "slot c b' = i"
      then show ?thesis
        using assms(4) by (intro disjI2 bexI [of _ b']) (auto simp: ld(1,2))
    qed
  qed
  ultimately show ?thesis
    unfolding buffers_ok_def by blast
qed

lemma loaded_cache_ok:
  assumes "cache_ok c xs gs" "free_list c \<noteq> []" "b \<notin> cached c"
    and "ring_ok r ((next_addr c + 1) # xs)" "ring_label r = (ring_label (lru c))(next_addr c + 1 \<mapsto> hd (free_list c))"
  shows "cache_ok (loaded c inum b pg r) ((next_addr c + 1) # xs) gs"
proof -
  have i: "slots_ok c" and l: "lru_ok c xs" and g: "gdl_ok c gs"
    using assms(1) by (simp_all add: cache_ok_def)
  let ?c = "loaded c inum b pg r"
  note ld = loaded_simps [OF i assms(2)]
  have "lru_pos (at ?c (slot ?c b')) \<in> insert (next_addr c + 1) (set xs) \<and>
      ring_label (lru ?c) (lru_pos (at ?c (slot ?c b'))) = Some (slot ?c b')" if b': "b' \<in> cached ?c" for b'
  proof (cases "b' = b")
    case False
    then have m: "b' \<in> cached c"
      using b' by (simp add: ld(2))
    then have "lru_pos (at c (slot c b')) \<in> set xs" "ring_label (lru c) (lru_pos (at c (slot c b'))) = Some (slot c b')"
      "next_addr c + 1 \<notin> set xs"
      using l by (auto simp: lru_ok_def)
    then show ?thesis
      using False ld(7) [OF m False] by (auto simp: ld(1) assms(5))
  qed (simp add: ld(1,6) assms(5))
  moreover have "length ((next_addr c + 1) # xs) = card (cached ?c)"
    using l slots_okD(11) [OF i] assms(3) by (simp add: ld(2) lru_ok_def)
  moreover have "\<forall>x \<in> set ((next_addr c + 1) # xs). x < next_addr ?c"
    using l by (fastforce simp: lru_ok_def)
  ultimately have "lru_ok ?c ((next_addr c + 1) # xs)"
    using assms(4) by (simp add: lru_ok_def)
  moreover have "gdl_ok ?c gs"
    unfolding gdl_ok_def
  proof (intro conjI ballI)
    fix x
    assume "x \<in> set gs"
    then obtain b' where "b' \<in> cached c" "ring_label (gdl c) x = Some (slot c b')"
      using g by (auto simp: gdl_ok_def)
    then show "\<exists>b' \<in> cached ?c. ring_label (gdl ?c) x = Some (slot ?c b')"
      using assms(3) by (intro bexI [of _ b']) (auto simp: ld(1,2))
  qed (use g in \<open>fastforce simp: gdl_ok_def\<close>)+
  ultimately show ?thesis
    using loaded_slots_ok [OF i assms(2,3)] loaded_buffers_ok [OF i _ assms(2,3)] assms(1) by (simp add: cache_ok_def)
qed

lemma loaded_synced:
  assumes "slots_ok c" "free_list c \<noteq> []" "b \<notin> cached c" "synced d c gs" "valid_block d (unat b)"
  shows "synced d (loaded c inum b (page_at d (unat b)) r) gs"
  using assms(3-5) unfolding synced_def
  by (auto simp: loaded_simps [OF assms(1,2)] loaded_cached_page [OF assms(1-3)])

end
