(* ===== verification/Cache_Steps.thy ===== *)
theory Cache_Steps
  imports Cache_Facts
begin

text \<open>
  What \<open>get_block\<close>, \<open>write_block\<close> and \<open>cache_sync\<close> do while the free list lasts: the
  invariant is kept, and the blocks as the program sees them change only where the caller
  writes.
\<close>

subsection \<open>A hit\<close>

definition same_blocks :: "cache \<Rightarrow> cache \<Rightarrow> bool" where
  "same_blocks c c' \<longleftrightarrow> pci c' = pci c \<and> heap c' = heap c \<and> length (entries c') = length (entries c) \<and>
     free_list c' = free_list c \<and> cache_size c' = cache_size c \<and> dirty_list c' = dirty_list c \<and>
     next_addr c \<le> next_addr c' \<and>
     (\<forall>i. 0 \<le> i \<longrightarrow> i < int (length (entries c)) \<longrightarrow> block_number (at c' i) = block_number (at c i) \<and>
        page_data (at c' i) = page_data (at c i))"

lemma same_blocks_slots_ok: "same_blocks c c' \<Longrightarrow> slots_ok c \<Longrightarrow> slots_ok c'"
  by (rule slots_ok_cong [of c]) (auto simp: same_blocks_def slots_okD)

lemma same_blocks_buffers_ok: "same_blocks c c' \<Longrightarrow> slots_ok c \<Longrightarrow> buffers_ok c \<Longrightarrow> buffers_ok c'"
  by (rule buffers_ok_cong [of c]) (auto simp: same_blocks_def)

lemma same_blocks_cached_page: "same_blocks c c' \<Longrightarrow> slots_ok c \<Longrightarrow> cached_page c' = cached_page c"
  by (rule cached_page_cong) (auto simp: same_blocks_def slots_okD)

lemma same_blocks_view: "same_blocks c c' \<Longrightarrow> slots_ok c \<Longrightarrow> view d c' = view d c"
  by (simp add: view_def fun_eq_iff same_blocks_cached_page)

lemma same_blocks_slot: "same_blocks c c' \<Longrightarrow> slot c' = slot c \<and> cached c' = cached c"
  using slot_cong [of c' c] by (simp add: same_blocks_def)

lemma touch_run:
  assumes "cache_ok c xs gs" "b \<in> cached c" "1 < ring_size (lru c)"
  shows "\<exists>r. touch c (slot c b) = Some ((set_entry c (slot c b) ((at c (slot c b))\<lparr>lru_pos := next_addr c\<rparr>))
      \<lparr>lru := r, next_addr := next_addr c + 1\<rparr>) \<and>
    ring_ok r (next_addr c # remove1 (lru_pos (at c (slot c b))) xs) \<and>
    ring_label r = (ring_label (lru c))(lru_pos (at c (slot c b)) := None, next_addr c \<mapsto> slot c b)"
proof -
  have ok: "slots_ok c" "lru_ok c xs"
    using assms(1) by (simp_all add: cache_ok_def)
  let ?x = "lru_pos (at c (slot c b))"
  have x: "ring_ok (lru c) xs" "?x \<in> set xs" "ring_label (lru c) ?x = Some (slot c b)" "next_addr c \<notin> set xs"
    using ok(2) assms(2) by (auto simp: lru_ok_def)
  have "next_addr c \<noteq> 0"
    using slots_okD(14) [OF ok(1)] by simp
  from lru_list.move_to_front [OF x this] show ?thesis
    using assms(3) by (auto simp: touch_def entry_slot [OF ok(1) assms(2)])
qed

lemma touch_ok:
  assumes ok: "cache_ok c xs gs" and b: "b \<in> cached c"
  shows "\<exists>c' xs'. touch c (slot c b) = Some c' \<and> same_blocks c c' \<and> gdl c' = gdl c \<and> cache_ok c' xs' gs"
proof (cases "1 < ring_size (lru c)")
  case False
  then show ?thesis
    using ok by (auto simp: touch_def same_blocks_def)
next
  case True
  let ?i = "slot c b" and ?x = "lru_pos (at c (slot c b))"
  obtain r where r: "touch c ?i = Some ((set_entry c ?i ((at c ?i)\<lparr>lru_pos := next_addr c\<rparr>))\<lparr>lru := r, next_addr := next_addr c + 1\<rparr>)"
    "ring_ok r (next_addr c # remove1 ?x xs)"
    "ring_label r = (ring_label (lru c))(?x := None, next_addr c \<mapsto> ?i)"
    using touch_run [OF ok b True] by blast
  let ?c = "(set_entry c ?i ((at c ?i)\<lparr>lru_pos := next_addr c\<rparr>))\<lparr>lru := r, next_addr := next_addr c + 1\<rparr>"
  have p: "slots_ok c" "lru_ok c xs" "gdl_ok c gs"
    using ok by (simp_all add: cache_ok_def)
  have ati: "at ?c j = (if j = ?i then (at c ?i)\<lparr>lru_pos := next_addr c\<rparr> else at c j)" if "0 \<le> j" for j
    using slots_okD(3,4) [OF p(1) b] that
    by (auto simp: at_def set_entry_def nth_list_update eq_nat_nat_iff)
  have at: "at ?c (slot c b') = (if b' = b then (at c ?i)\<lparr>lru_pos := next_addr c\<rparr> else at c (slot c b'))"
    if "b' \<in> cached c" for b'
    using ati [OF slots_okD(3) [OF p(1) that]] slot_inject [OF p(1) that b] by auto
  have same: "same_blocks c ?c"
    using ati by (simp add: same_blocks_def)
  have "lru_ok ?c (next_addr c # remove1 ?x xs)"
    unfolding lru_ok_def
  proof (intro conjI ballI)
    show "ring_ok (lru ?c) (next_addr c # remove1 ?x xs)"
      using r(2) by simp
    show "length (next_addr c # remove1 ?x xs) = card (cached ?c)"
      using p(2) b length_pos_if_in_set [of ?x xs] by (auto simp: lru_ok_def length_remove1)
    show "x < next_addr ?c" if "x \<in> set (next_addr c # remove1 ?x xs)" for x
      using that p(2) set_remove1_subset [of ?x xs] by (auto simp: lru_ok_def less_Suc_eq)
    fix b'
    assume "b' \<in> cached ?c"
    then have b': "b' \<in> cached c"
      by simp
    have sl: "slot ?c b' = slot c b'"
      by (simp add: slot_def)
    have "distinct xs" "next_addr c \<notin> set xs"
      using p(2) by (auto simp: lru_ok_def dest: ring_okD(2))
    have o: "lru_pos (at c (slot c b')) \<in> set xs" "ring_label (lru c) (lru_pos (at c (slot c b'))) = Some (slot c b')"
      "ring_label (lru c) ?x = Some ?i"
      using p(2) b b' by (auto simp: lru_ok_def)
    have "lru_pos (at c (slot c b')) \<noteq> ?x" if "b' \<noteq> b"
    proof
      assume eq: "lru_pos (at c (slot c b')) = ?x"
      have "slot c b' = ?i"
        using o(2) unfolding eq o(3) by (rule sym [OF option.inject [THEN iffD1]])
      then show False
        using slot_inject [OF p(1) b' b] that by blast
    qed
    moreover have "lru_pos (at c (slot c b')) \<noteq> next_addr c"
      using o(1) \<open>next_addr c \<notin> set xs\<close> by metis
    ultimately have "lru_pos (at ?c (slot ?c b')) \<in> set (next_addr c # remove1 ?x xs) \<and>
        ring_label r (lru_pos (at ?c (slot ?c b'))) = Some (slot ?c b')"
      unfolding sl at [OF b'] using o(1,2) by (cases "b' = b") (simp_all add: r(3))
    then show "lru_pos (at ?c (slot ?c b')) \<in> set (next_addr c # remove1 ?x xs)"
      "ring_label (lru ?c) (lru_pos (at ?c (slot ?c b'))) = Some (slot ?c b')"
      by simp_all
  qed
  moreover have "gdl_ok ?c gs"
    by (rule gdl_ok_cong [OF p(3)]) simp_all
  ultimately show ?thesis
    using r(1) same same_blocks_slots_ok [OF same p(1)] same_blocks_buffers_ok [OF same p(1)] ok
    by (auto simp: cache_ok_def)
qed

subsection \<open>\<open>get_block\<close>\<close>

lemma synced_cong: "same_blocks c c' \<Longrightarrow> slots_ok c \<Longrightarrow> gdl c' = gdl c \<Longrightarrow> synced d c gs \<Longrightarrow> synced d c' gs"
  using same_blocks_slot [of c c'] same_blocks_cached_page [of c c'] by (auto simp: synced_def)

lemma view_loaded:
  assumes "slots_ok c" "free_list c \<noteq> []" "b \<notin> cached c" "valid_block d k"
  shows "view d (loaded c inum b (page_at d (unat b)) r) k = view d c k"
  using assms(3) valid_block_unat [OF assms(4)]
  by (auto simp: view_def loaded_cached_page [OF assms(1-3)] cached_page_def)

text \<open>The outcome of an access to block \<open>b\<close>, which does not change what the program sees.\<close>

definition fetched :: "DiskInterface \<Rightarrow> cache \<Rightarrow> nat list \<Rightarrow> u64 \<Rightarrow> nat \<Rightarrow> cache \<Rightarrow> bool" where
  "fetched d c gs b p c' \<longleftrightarrow> (\<exists>xs'. cache_ok c' xs' gs) \<and> synced d c' gs \<and> cached c' = insert b (cached c) \<and>
     p = page_data (at c' (slot c' b)) \<and> heap c' p = Some (view d c (unat b)) \<and>
     cached_page c' b = Some (view d c (unat b)) \<and> length (entries c') = length (entries c) \<and>
     dirty_list c' = dirty_list c \<and> gdl c' = gdl c \<and> (\<forall>k. valid_block d k \<longrightarrow> view d c' k = view d c k) \<and>
     (\<forall>b' \<in> cached c. slot c' b' = slot c b' \<and> page_data (at c' (slot c' b')) = page_data (at c (slot c b')))"

lemma get_block_hit:
  assumes ok: "cache_ok c xs gs" and s: "synced d c gs" and b: "b \<in> cached c"
  shows "\<exists>p c'. get_block z d c inum b = Some (p, d, c') \<and> fetched d c gs b p c' \<and> pci c' = pci c"
proof -
  obtain c' xs' where c': "touch c (slot c b) = Some c'" "same_blocks c c'" "gdl c' = gdl c" "cache_ok c' xs' gs"
    using touch_ok [OF ok b] by blast
  note sl = same_blocks_slot [OF c'(2)]
  have i: "slots_ok c'" and i0: "slots_ok c"
    using c'(4) ok by (simp_all add: cache_ok_def)
  have b': "b \<in> cached c'"
    using b sl by simp
  have p: "cached_page c' b = cached_page c b"
    by (simp add: same_blocks_cached_page [OF c'(2) i0])
  obtain pg where pg: "cached_page c' b = Some pg"
    using cached_page_in [OF i b'] by blast
  have v: "view d c (unat b) = pg"
    using pg p by (simp add: view_def)
  have "get_block z d c inum b = Some (page_data (at c' (slot c' b)), d, c')"
    using b c'(1) entry_slot [OF i b'] sl by (simp add: get_block_def cached_iff slot_def Let_def)
  moreover have "\<forall>b' \<in> cached c. slot c' b' = slot c b' \<and> page_data (at c' (slot c' b')) = page_data (at c (slot c b'))"
    using c'(2) sl slots_okD(3,4) [OF i0] by (simp add: same_blocks_def)
  then have "fetched d c gs b (page_data (at c' (slot c' b))) c'"
    unfolding fetched_def v using c'(4) synced_cong [OF c'(2) i0 c'(3) s] sl b b' pg c'(2,3)
    by (auto simp: same_blocks_view [OF c'(2) i0]) (auto simp: cached_page_def same_blocks_def)
  ultimately show ?thesis
    using c'(2) by (auto simp: same_blocks_def)
qed

lemma get_block_miss:
  assumes ok: "cache_ok c xs gs" and s: "synced d c gs" and b: "b \<notin> cached c"
    and fl: "free_list c \<noteq> []" and v: "valid_block d (unat b)"
  shows "\<exists>p c'. get_block z d c inum b = Some (p, d, c') \<and> fetched d c gs b p c'"
proof -
  have i: "slots_ok c" "lru_ok c xs"
    using ok by (simp_all add: cache_ok_def)
  let ?c = "\<lambda>r. loaded c inum b (page_at d (unat b)) r"
  obtain r where r: "load d c inum b = Some (next_addr c, ?c r)"
    "ring_ok r ((next_addr c + 1) # xs)" "ring_label r = (ring_label (lru c))(next_addr c + 1 \<mapsto> hd (free_list c))"
    using load_run [OF i fl v] by blast
  note ld = loaded_simps [OF i(1) fl]
  have view: "view d c (unat b) = page_at d (unat b)"
    using b by (simp add: view_def cached_page_def)
  have g: "get_block z d c inum b = Some (next_addr c, d, ?c r)"
    using b fl r(1) by (simp add: get_block_def cached_iff slot_def)
  have "dirty_list (?c r) = dirty_list c"
    by (simp add: loaded_def Let_def)
  moreover have "\<forall>b' \<in> cached c. slot (?c r) b' = slot c b' \<and>
      page_data (at (?c r) (slot (?c r) b')) = page_data (at c (slot c b'))"
    using b ld(7) by (auto simp: ld(1))
  ultimately have "fetched d c gs b (next_addr c) (?c r)"
    unfolding fetched_def view
    using loaded_cache_ok [OF ok fl b r(2,3)] loaded_synced [OF i(1) fl b s v, of inum r]
      view_loaded [OF i(1) fl b, of d] ld(1,5)
    by (auto simp: ld(2) loaded_cached_page [OF i(1) fl b])
  then show ?thesis
    using g by blast
qed

lemma get_block_ok:
  assumes "cache_ok c xs gs" "synced d c gs" "valid_block d (unat b)" "b \<in> cached c \<or> free_list c \<noteq> []"
  shows "\<exists>p c'. get_block z d c inum b = Some (p, d, c') \<and> fetched d c gs b p c'"
  using get_block_hit [OF assms(1,2)] get_block_miss [OF assms(1,2) _ _ assms(3)] assms(4) by blast

subsection \<open>\<open>write_block\<close>\<close>

text \<open>A store through the pointer that \<open>get_block\<close> returned.\<close>

definition store :: "cache \<Rightarrow> nat \<Rightarrow> page \<Rightarrow> cache" where
  "store c p pg = c\<lparr>heap := (heap c)(p \<mapsto> pg)\<rparr>"

text \<open>The dirty lists after a block of this content was written.\<close>

definition noted :: "bool \<Rightarrow> cache \<Rightarrow> page \<Rightarrow> u64 \<Rightarrow> u64 \<Rightarrow> DL_HM option" where
  "noted z c buf inum b = (if rd32 buf 0 = block_type_code BLOCK_TYPE_DATA
     then dl_insert z (dirty_list c) inum b else Some (dirty_list c))"

definition marked :: "cache \<Rightarrow> page \<Rightarrow> int \<Rightarrow> DL_HM \<Rightarrow> ring \<Rightarrow> cache" where
  "marked c buf i dl g =
     c\<lparr>entries := (entries c)[nat i := (at c i)\<lparr>dirty_bit := True, gdl_pos := next_addr c\<rparr>],
       dirty_list := dl, gdl := g, heap := (heap c)(page_data (at c i) \<mapsto> buf), next_addr := next_addr c + 1\<rparr>"

lemma marked_fields [simp]:
  "cache_size (marked c buf i dl g) = cache_size c" "length (entries (marked c buf i dl g)) = length (entries c)"
  "pci (marked c buf i dl g) = pci c" "lru (marked c buf i dl g) = lru c" "gdl (marked c buf i dl g) = g"
  "free_list (marked c buf i dl g) = free_list c" "dirty_list (marked c buf i dl g) = dl"
  "heap (marked c buf i dl g) = (heap c)(page_data (at c i) \<mapsto> buf)"
  "next_addr (marked c buf i dl g) = next_addr c + 1"
  by (simp_all add: marked_def)

lemma at_marked:
  "slots_ok c \<Longrightarrow> b \<in> cached c \<Longrightarrow> b' \<in> cached c \<Longrightarrow> at (marked c buf (slot c b) dl g) (slot c b') =
     (if b' = b then (at c (slot c b))\<lparr>dirty_bit := True, gdl_pos := next_addr c\<rparr> else at c (slot c b'))"
  using slots_okD(3,4) [of c b] slots_okD(3,4) [of c b'] slot_inject [of c b' b]
  by (auto simp: at_def marked_def nth_list_update eq_nat_nat_iff)

lemma marked_page_data:
  "0 \<le> i \<Longrightarrow> i < int (length (entries c)) \<Longrightarrow> 0 \<le> j \<Longrightarrow> page_data (at (marked c buf i dl g) j) = page_data (at c j)"
  by (auto simp: at_def marked_def nth_list_update)

lemma slot_marked [simp]: "slot (marked c buf i dl g) b' = slot c b'"
  by (simp add: slot_def)

lemma mark_dirty_run:
  assumes ok: "cache_ok c xs gs" and b: "b \<in> cached c" and dl: "noted z c buf inum b = Some dl"
  shows "\<exists>g. mark_dirty z c buf inum b (slot c b) = Some (marked c buf (slot c b) dl g) \<and>
    ring_ok g (next_addr c # gs) \<and> ring_label g = (ring_label (gdl c))(next_addr c \<mapsto> slot c b)"
proof -
  have p: "slots_ok c" "gdl_ok c gs"
    using ok by (simp_all add: cache_ok_def)
  let ?i = "slot c b"
  have i: "0 \<le> ?i" "?i < int (length (entries c))"
    using slots_okD(3,4) [OF p(1) b] by auto
  obtain old where old: "heap c (page_data (at c ?i)) = Some old"
    using slots_okD(7) [OF p(1) b] by blast
  have a: "ring_ok (gdl c) gs" "next_addr c \<notin> set gs" "next_addr c \<noteq> 0"
    using p(2) slots_okD(14) [OF p(1)] by (auto simp: gdl_ok_def)
  obtain g where g: "put_gdl (next_addr c) ?i (gdl c) = Some g" "ring_ok g (next_addr c # gs)"
    "ring_label g = (ring_label (gdl c))(next_addr c \<mapsto> ?i)"
    using gdl_list.put_law [OF a, of ?i] by blast
  have "mark_dirty z c buf inum b ?i = Some (marked c buf ?i dl g)"
    using i old g(1) dl unfolding mark_dirty_def entry_slot [OF p(1) b] noted_def
    by (cases "rd32 buf 0 = block_type_code BLOCK_TYPE_DATA")
      (auto intro!: cache.equality simp: enqueue_gdl_def entry_def at_def set_entry_def marked_def Let_def
        simp del: block_type_code.simps)
  then show ?thesis
    using g by blast
qed

lemma marked_cached_page:
  assumes "slots_ok c" "b \<in> cached c"
  shows "cached_page (marked c buf (slot c b) dl g) = (cached_page c)(b \<mapsto> buf)"
proof (rule ext)
  fix b'
  show "cached_page (marked c buf (slot c b) dl g) b' = ((cached_page c)(b \<mapsto> buf)) b'"
    using assms(2) at_marked [OF assms, of b'] slots_okD(8) [OF assms(1) _ assms(2), of b']
    by (auto simp: cached_page_def)
qed

lemma marked_cache_ok:
  assumes ok: "cache_ok c xs gs" and b: "b \<in> cached c" and g: "ring_ok g (next_addr c # gs)"
    and gl: "ring_label g = (ring_label (gdl c))(next_addr c \<mapsto> slot c b)"
  shows "cache_ok (marked c buf (slot c b) dl g) xs (next_addr c # gs)"
proof -
  have p: "slots_ok c" "lru_ok c xs" "gdl_ok c gs" "buffers_ok c"
    using ok by (simp_all add: cache_ok_def)
  let ?c = "marked c buf (slot c b) dl g"
  have pd: "page_data (at c (slot c b)) \<in> dom (heap c)"
    using slots_okD(7) [OF p(1) b] by blast
  then have "slots_ok ?c"
    by (intro slots_ok_cong [OF p(1)]) (auto simp: at_marked [OF p(1) b])
  moreover have "lru_ok ?c xs"
    by (rule lru_ok_cong [OF p(2)]) (simp_all add: at_marked [OF p(1) b])
  moreover have "gdl_ok ?c (next_addr c # gs)"
    using p(3) b g by (fastforce simp: gdl_ok_def gl)
  moreover have "buffers_ok ?c"
    by (rule buffers_ok_cong [OF p(4) p(1)])
      (use pd slots_okD(3,4) [OF p(1) b] in \<open>auto simp: marked_page_data\<close>)
  ultimately show ?thesis
    by (simp add: cache_ok_def)
qed

lemma marked_synced:
  assumes ok: "cache_ok c xs gs" and b: "b \<in> cached c" and s: "synced d c gs"
    and gl: "ring_label g = (ring_label (gdl c))(next_addr c \<mapsto> slot c b)"
  shows "synced d (marked c buf (slot c b) dl g) (next_addr c # gs)"
proof -
  have p: "slots_ok c" "gdl_ok c gs"
    using ok by (simp_all add: cache_ok_def)
  have "next_addr c \<notin> set gs"
    using p(2) by (auto simp: gdl_ok_def)
  then have "ring_label g ` set (next_addr c # gs) = insert (Some (slot c b)) (ring_label (gdl c) ` set gs)"
    by (auto simp: gl)
  then show ?thesis
    using s unfolding synced_def by (auto simp: marked_cached_page [OF p(1) b])
qed

lemma mark_dirty_store:
  assumes "slots_ok c" "b \<in> cached c" "p = page_data (at c (slot c b))"
  shows "mark_dirty z (store c p buf) buf inum b (slot c b) = mark_dirty z c buf inum b (slot c b)"
proof -
  have "entry (store c p buf) (slot c b) = Some (at c (slot c b))"
    using slots_okD(3,4) [OF assms(1,2)] by (simp add: entry_def at_def store_def)
  moreover have "set_entry (store c p buf) i e = store (set_entry c i e) p buf" for i e
    by (simp add: set_entry_def store_def)
  moreover obtain pg where "heap c p = Some pg"
    using slots_okD(7) [OF assms(1,2)] assms(3) by blast
  ultimately show ?thesis
    unfolding mark_dirty_def entry_slot [OF assms(1,2)] assms(3) by (simp add: store_def Let_def)
qed

subsection \<open>\<open>cache_sync\<close>\<close>

lemma ring_tail:
  assumes "ring_ok r xs" "xs \<noteq> []"
  shows "read_var r (Prev (ring_head r)) = Some (last xs)" "ring_head r \<noteq> 0" "0 < ring_size r"
proof -
  note r = ring_okD [OF assms(1)]
  have "(last xs, hd xs) \<in> cycle xs"
    using assms(2) by (simp add: cycle_def)
  then show "read_var r (Prev (ring_head r)) = Some (last xs)"
    using r(8) r(5) [OF assms(2)] by (simp add: prv_def)
  show "ring_head r \<noteq> 0"
    using r(3) r(5) [OF assms(2)] hd_in_set [OF assms(2)] by metis
  show "0 < ring_size r"
    using r(1) assms(2) by simp
qed

text \<open>The state after the oldest dirty block \<open>b\<close> was written back.\<close>

definition cleaned :: "cache \<Rightarrow> int \<Rightarrow> DL_HM \<Rightarrow> ring \<Rightarrow> cache" where
  "cleaned c i dl g = c\<lparr>entries := (entries c)[nat i := (at c i)\<lparr>dirty_bit := False, gdl_pos := 0\<rparr>],
     dirty_list := dl, gdl := g\<rparr>"

definition cleared :: "bool \<Rightarrow> cache \<Rightarrow> page \<Rightarrow> u64 \<Rightarrow> u64 \<Rightarrow> DL_HM option" where
  "cleared z c pg n b = (if rd32 pg 0 = block_type_code BLOCK_TYPE_DATA
     then dl_remove_block z (dirty_list c) n b else Some (dirty_list c))"

text \<open>
  The dirty lists can be walked to their ends: fresh memory reads as null, or there are no lists.
\<close>

definition lists_end :: "bool \<Rightarrow> cache \<Rightarrow> bool" where
  "lists_end z c \<longleftrightarrow> z \<or> dirty_list c = (\<lambda>_. [])"

lemma lists_endI [simp]: "lists_end True c"
  by (simp add: lists_end_def)

lemma lists_end_cong: "lists_end z c \<Longrightarrow> dirty_list c' = dirty_list c \<Longrightarrow> lists_end z c'"
  by (simp add: lists_end_def)

lemma cleared_lists:
  assumes "lists_end z c"
  shows "\<exists>dl. cleared z c pg n b = Some dl \<and> (z \<or> dl = (\<lambda>_. []))"
proof (cases z)
  case True
  then show ?thesis using dl_remove_block_z by (simp add: cleared_def)
next
  case False
  then have "dirty_list c = (\<lambda>_. [])" using assms by (simp add: lists_end_def)
  then show ?thesis by (simp add: cleared_def dl_remove_block_def dl_lookup_def)
qed

lemma cleaned_fields [simp]:
  "cache_size (cleaned c i dl g) = cache_size c" "length (entries (cleaned c i dl g)) = length (entries c)"
  "pci (cleaned c i dl g) = pci c" "lru (cleaned c i dl g) = lru c" "gdl (cleaned c i dl g) = g"
  "free_list (cleaned c i dl g) = free_list c" "dirty_list (cleaned c i dl g) = dl"
  "heap (cleaned c i dl g) = heap c" "next_addr (cleaned c i dl g) = next_addr c" "slot (cleaned c i dl g) = slot c"
  by (simp_all add: cleaned_def slot_def fun_eq_iff)

lemma at_cleaned:
  "slots_ok c \<Longrightarrow> b \<in> cached c \<Longrightarrow> b' \<in> cached c \<Longrightarrow> at (cleaned c (slot c b) dl g) (slot c b') =
     (if b' = b then (at c (slot c b))\<lparr>dirty_bit := False, gdl_pos := 0\<rparr> else at c (slot c b'))"
  using slots_okD(3,4) [of c b] slots_okD(3,4) [of c b'] slot_inject [of c b' b]
  by (auto simp: at_def cleaned_def nth_list_update eq_nat_nat_iff)

lemma cleaned_page_data:
  "0 \<le> i \<Longrightarrow> i < int (length (entries c)) \<Longrightarrow> 0 \<le> j \<Longrightarrow> page_data (at (cleaned c i dl g) j) = page_data (at c j)"
  by (auto simp: at_def cleaned_def nth_list_update)

lemma cleaned_cached_page:
  "slots_ok c \<Longrightarrow> b \<in> cached c \<Longrightarrow> cached_page (cleaned c (slot c b) dl g) = cached_page c"
  by (rule cached_page_cong) (simp_all add: at_cleaned)

lemma cleaned_cache_ok:
  assumes ok: "cache_ok c xs gs" and b: "b \<in> cached c" and g: "ring_ok g gs'" "set gs' \<subseteq> set gs"
    and gl: "\<And>y. y \<in> set gs' \<Longrightarrow> ring_label g y = ring_label (gdl c) y"
  shows "cache_ok (cleaned c (slot c b) dl g) xs gs'"
proof -
  have p: "slots_ok c" "lru_ok c xs" "gdl_ok c gs" "buffers_ok c"
    using ok by (simp_all add: cache_ok_def)
  let ?c = "cleaned c (slot c b) dl g"
  have "slots_ok ?c"
    by (rule slots_ok_cong [OF p(1)]) (simp_all add: at_cleaned [OF p(1) b])
  moreover have "lru_ok ?c xs"
    by (rule lru_ok_cong [OF p(2)]) (simp_all add: at_cleaned [OF p(1) b])
  moreover have "gdl_ok ?c gs'"
    using p(3) g by (fastforce simp: gdl_ok_def gl)
  moreover have "buffers_ok ?c"
    by (rule buffers_ok_cong [OF p(4) p(1)])
      (use slots_okD(3,4) [OF p(1) b] in \<open>auto simp: cleaned_page_data\<close>)
  ultimately show ?thesis
    by (simp add: cache_ok_def)
qed

lemma cleaned_synced:
  assumes ok: "cache_ok c xs (gs @ [x])" and b: "b \<in> cached c" and s: "synced d c (gs @ [x])"
    and x: "ring_label (gdl c) x = Some (slot c b)" and pg: "cached_page c b = Some pg"
    and gl: "\<And>y. y \<in> set gs \<Longrightarrow> ring_label g y = ring_label (gdl c) y"
  shows "synced (set_page d (unat b) pg) (cleaned c (slot c b) dl g) gs"
proof -
  have i: "slots_ok c"
    using ok by (simp add: cache_ok_def)
  have im: "ring_label g ` set gs = ring_label (gdl c) ` set gs"
    using gl by (auto simp: image_iff)
  have "Some (slot c b') \<in> ring_label (gdl c) ` set gs \<or> cached_page c b' = Some (page_at (set_page d (unat b) pg) (unat b'))"
    if b': "b' \<in> cached c" for b'
  proof (cases "b' = b")
    case False
    then have "slot c b' \<noteq> slot c b" "unat b' \<noteq> unat b"
      using slot_inject [OF i b' b] by (auto simp: word_unat_eq_iff)
    then show ?thesis
      using s b' x by (auto simp: synced_def)
  qed (simp add: pg)
  then show ?thesis
    using s by (simp add: synced_def im cleaned_cached_page [OF i b])
qed

lemma cleaned_view:
  assumes "slots_ok c" "b \<in> cached c" "cached_page c b = Some pg" "valid_block d k"
  shows "view (set_page d (unat b) pg) (cleaned c (slot c b) dl g) k = view d c k"
proof (cases "of_nat k = b")
  case False
  then have "k \<noteq> unat b"
    by auto
  then show ?thesis
    by (simp add: view_def cleaned_cached_page [OF assms(1,2)] split: option.split)
qed (simp add: view_def cleaned_cached_page [OF assms(1,2)] assms(3))

text \<open>One round takes the oldest node off the list and writes its block.\<close>

lemma sync_step_run:
  assumes ok: "cache_ok c xs (gs @ [x])" and v: "\<forall>b\<in>cached c. valid_block d (unat b)" and z: "lists_end z c"
  obtains b pg dl g where "b \<in> cached c" "ring_label (gdl c) x = Some (slot c b)" "cached_page c b = Some pg"
    "sync_step z d c = Some (True, set_page d (unat b) pg, cleaned c (slot c b) dl g)"
    "cache_ok (cleaned c (slot c b) dl g) xs gs" "\<forall>y\<in>set gs. ring_label g y = ring_label (gdl c) y"
    "lists_end z (cleaned c (slot c b) dl g)"
proof -
  have p: "slots_ok c" "gdl_ok c (gs @ [x])"
    using ok by (simp_all add: cache_ok_def)
  have ring: "ring_ok (gdl c) (gs @ [x])"
    using p(2) by (simp add: gdl_ok_def)
  obtain b where b: "b \<in> cached c" "ring_label (gdl c) x = Some (slot c b)"
    using p(2) by (auto simp: gdl_ok_def)
  obtain g where g: "gdl_pop (Other x) (gdl c) = Some (slot c b, g)" "ring_ok g gs"
    "ring_label g = (ring_label (gdl c))(x := None)"
    using gdl_list.takeout_last [OF ring b(2)] by blast
  obtain pg where pg: "cached_page c b = Some pg" "heap c (page_data (at c (slot c b))) = Some pg"
    using cached_page_in [OF p(1) b(1)] b(1) by (auto simp: cached_page_def)
  have vb: "valid_block d (unat b)"
    using v b(1) by blast
  obtain dl where dl: "cleared z c pg (inode_number (at c (slot c b))) b = Some dl" "z \<or> dl = (\<lambda>_. [])"
    using cleared_lists [OF z] by blast
  let ?d = "set_page d (unat b) pg" and ?c = "cleaned c (slot c b) dl g"
  have gl: "ring_label g y = ring_label (gdl c) y" if "y \<in> set gs" for y
    using that gdl_list.distinct_law [OF ring] by (auto simp: g(3))
  note bounds = slots_okD(3,4) [OF p(1) b(1)] slots_okD(1) [OF p(1)]
  have tail: "read_var (gdl c) (Prev (ring_head (gdl c))) = Some x"
    using ring_tail(1) [OF ring] by (simp del: read_var.simps)
  have "sync_step z d c = Some (True, ?d, ?c)"
    using bounds dl(1) pg(2)
    unfolding sync_step_def cleared_def
    by (cases "rd32 pg 0 = block_type_code BLOCK_TYPE_DATA")
      (auto intro!: cache.equality simp: tail g(1) entry_def at_def [symmetric] clean_def set_entry_def cleaned_def Let_def
        slots_okD(6) [OF p(1) b(1)] disk_write_valid [OF vb] simp del: block_type_code.simps read_var.simps)
  moreover have "cache_ok ?c xs gs"
    by (rule cleaned_cache_ok [OF ok b(1) g(2) _ gl]) auto
  moreover have "lists_end z ?c"
    using dl(2) by (simp add: lists_end_def)
  ultimately show ?thesis
    using b pg(1) gl by (intro that) auto
qed

lemma sync_step_ok:
  assumes ok: "cache_ok c xs (gs @ [x])" and s: "synced d c (gs @ [x])" and z: "lists_end z c"
  shows "\<exists>d' c'. sync_step z d c = Some (True, d', c') \<and> cache_ok c' xs gs \<and> synced d' c' gs \<and> lists_end z c' \<and>
    (\<forall>k. valid_block d' k = valid_block d k) \<and> (\<forall>k. valid_block d k \<longrightarrow> view d' c' k = view d c k) \<and>
    pci c' = pci c \<and> length (entries c') = length (entries c)"
proof -
  have p: "slots_ok c" using ok by (simp add: cache_ok_def)
  have "\<forall>b\<in>cached c. valid_block d (unat b)" using s by (simp add: synced_def)
  then obtain b pg dl g where b: "b \<in> cached c" "ring_label (gdl c) x = Some (slot c b)" "cached_page c b = Some pg"
    "sync_step z d c = Some (True, set_page d (unat b) pg, cleaned c (slot c b) dl g)"
    "cache_ok (cleaned c (slot c b) dl g) xs gs" "\<forall>y\<in>set gs. ring_label g y = ring_label (gdl c) y"
    "lists_end z (cleaned c (slot c b) dl g)"
    by (rule sync_step_run [OF ok _ z])
  have "synced (set_page d (unat b) pg) (cleaned c (slot c b) dl g) gs"
    by (rule cleaned_synced [OF ok b(1) s b(2,3)]) (use b(6) in blast)
  then show ?thesis
    using b(4,5,7) cleaned_view [OF p b(1,3)] by auto
qed

lemma sync_loop_ok:
  "cache_ok c xs gs \<Longrightarrow> synced d c gs \<Longrightarrow> lists_end z c \<Longrightarrow> length gs < n \<Longrightarrow>
   \<exists>d' c'. sync_loop n z d c = Some (d', c') \<and> cache_ok c' xs [] \<and> synced d' c' [] \<and> lists_end z c' \<and>
    (\<forall>k. valid_block d' k = valid_block d k) \<and> (\<forall>k. valid_block d k \<longrightarrow> view d' c' k = view d c k) \<and>
    pci c' = pci c \<and> length (entries c') = length (entries c)"
proof (induction gs arbitrary: n d c rule: rev_induct)
  case Nil
  then have "ring_ok (gdl c) []"
    by (simp add: cache_ok_def gdl_ok_def)
  then have "ring_size (gdl c) = 0"
    by (simp add: ring_ok_def)
  then show ?case
    using Nil by (cases n) auto
next
  case (snoc x gs)
  obtain m where n: "n = Suc m" "length gs < m"
    using snoc.prems(4) by (cases n) auto
  have "ring_ok (gdl c) (gs @ [x])"
    using snoc.prems(1) by (simp add: cache_ok_def gdl_ok_def)
  from ring_tail(2,3) [OF this] have go: "0 < ring_size (gdl c) \<and> ring_head (gdl c) \<noteq> 0"
    by simp
  obtain d1 c1 where 1: "sync_step z d c = Some (True, d1, c1)" "cache_ok c1 xs gs" "synced d1 c1 gs" "lists_end z c1"
    "\<forall>k. valid_block d1 k = valid_block d k" "\<forall>k. valid_block d k \<longrightarrow> view d1 c1 k = view d c k"
    "pci c1 = pci c" "length (entries c1) = length (entries c)"
    using sync_step_ok [OF snoc.prems(1-3)] by blast
  from snoc.IH [OF 1(2-4) n(2)] obtain d2 c2 where
    2: "sync_loop m z d1 c1 = Some (d2, c2)" "cache_ok c2 xs []" "synced d2 c2 []" "lists_end z c2"
    "\<forall>k. valid_block d2 k = valid_block d1 k" "\<forall>k. valid_block d1 k \<longrightarrow> view d2 c2 k = view d1 c1 k"
    "pci c2 = pci c1" "length (entries c2) = length (entries c1)"
    by blast
  have "sync_loop n z d c = Some (d2, c2)"
    using go 1(1) 2(1) by (simp add: n(1))
  then show ?case
    using 1(5-8) 2(2-8) by auto
qed

text \<open>
  The blocks that wait on the list, and what a sync makes of the disk: these blocks get the
  content that the program sees, and no other block changes, whatever the program did.
\<close>

definition dirty :: "cache \<Rightarrow> nat list \<Rightarrow> nat \<Rightarrow> bool" where
  "dirty c gs k \<longleftrightarrow> of_nat k \<in> cached c \<and> Some (slot c (of_nat k)) \<in> ring_label (gdl c) ` set gs"

lemma sync_loop_pages:
  "cache_ok c xs gs \<Longrightarrow> \<forall>b\<in>cached c. valid_block d (unat b) \<Longrightarrow> lists_end z c \<Longrightarrow> length gs < n \<Longrightarrow>
   \<exists>d' c'. sync_loop n z d c = Some (d', c') \<and> cache_ok c' xs [] \<and> lists_end z c' \<and> total_blocks d' = total_blocks d \<and>
     (\<forall>k. page_at d' k = (if valid_block d k \<and> dirty c gs k then view d c k else page_at d k))"
proof (induction gs arbitrary: n d c rule: rev_induct)
  case Nil
  then have "ring_ok (gdl c) []"
    by (simp add: cache_ok_def gdl_ok_def)
  then have "ring_size (gdl c) = 0"
    by (simp add: ring_ok_def)
  then show ?case
    using Nil by (cases n) (auto simp: dirty_def)
next
  case (snoc x gs)
  obtain m where n: "n = Suc m" "length gs < m"
    using snoc.prems(4) by (cases n) auto
  have p: "slots_ok c" "ring_ok (gdl c) (gs @ [x])"
    using snoc.prems(1) by (simp_all add: cache_ok_def gdl_ok_def)
  from ring_tail(2,3) [OF p(2)] have go: "0 < ring_size (gdl c) \<and> ring_head (gdl c) \<noteq> 0"
    by simp
  obtain b pg dl g where b: "b \<in> cached c" "ring_label (gdl c) x = Some (slot c b)" "cached_page c b = Some pg"
    "sync_step z d c = Some (True, set_page d (unat b) pg, cleaned c (slot c b) dl g)"
    "cache_ok (cleaned c (slot c b) dl g) xs gs" "\<forall>y\<in>set gs. ring_label g y = ring_label (gdl c) y"
    "lists_end z (cleaned c (slot c b) dl g)"
    by (rule sync_step_run [OF snoc.prems(1-3)])
  let ?d = "set_page d (unat b) pg" and ?c = "cleaned c (slot c b) dl g"
  obtain d' c' where d': "sync_loop m z ?d ?c = Some (d', c')" "cache_ok c' xs []" "total_blocks d' = total_blocks ?d"
    "\<forall>k. page_at d' k = (if valid_block ?d k \<and> dirty ?c gs k then view ?d ?c k else page_at ?d k)" "lists_end z c'"
    using snoc.IH [OF b(5) _ b(7) n(2), of ?d] snoc.prems(2) by auto
  have im: "ring_label g ` set gs = ring_label (gdl c) ` set gs"
    using b(6) by (auto simp: image_iff)
  have dirty: "dirty c (gs @ [x]) k \<longleftrightarrow> dirty ?c gs k \<or> of_nat k = b" for k
    using b(1,2) slot_inject [OF p(1), of "of_nat k" b] by (auto simp: dirty_def im)
  have "page_at d' k = (if valid_block d k \<and> dirty c (gs @ [x]) k then view d c k else page_at d k)" for k
  proof (cases "valid_block d k")
    case True
    then have k: "unat (of_nat k :: u64) = k" by (rule valid_block_unat)
    have "view d c k = pg" if "of_nat k = b"
      using that b(3) by (simp add: view_def)
    then show ?thesis
      using d'(4) True k cleaned_view [OF p(1) b(1,3) True] by (auto simp: dirty)
  next
    case False
    then show ?thesis using d'(4) snoc.prems(2) b(1) by auto
  qed
  then show ?case
    using go b(4) d'(1-3,5) by (simp add: n(1))
qed

text \<open>With an empty list of dirty blocks the disk is what the program sees.\<close>

lemma synced_Nil_view:
  assumes "synced d c []" "valid_block d k"
  shows "view d c k = page_at d k"
  using assms valid_block_unat [OF assms(2)]
  by (auto simp: view_def synced_def cached_page_def split: option.splits if_splits)

lemma cache_sync_ok:
  assumes "cache_ok c xs gs" "synced d c gs" "lists_end z c"
  shows "\<exists>d' c'. cache_sync z d c = Some (d', c') \<and> cache_ok c' xs [] \<and> synced d' c' [] \<and> lists_end z c' \<and>
    (\<forall>k. valid_block d' k = valid_block d k) \<and> (\<forall>k. valid_block d k \<longrightarrow> page_at d' k = view d c k) \<and>
    pci c' = pci c \<and> length (entries c') = length (entries c)"
proof -
  have "ring_size (gdl c) = int (length gs)"
    using assms(1) by (auto simp: cache_ok_def gdl_ok_def ring_ok_def)
  then have n: "length gs < Suc (nat (ring_size (gdl c)))"
    by simp
  from sync_loop_ok [OF assms n] obtain d' c' where
    r: "sync_loop (Suc (nat (ring_size (gdl c)))) z d c = Some (d', c')" "cache_ok c' xs []" "synced d' c' []" "lists_end z c'"
    "\<forall>k. valid_block d' k = valid_block d k" "\<forall>k. valid_block d k \<longrightarrow> view d' c' k = view d c k"
    "pci c' = pci c" "length (entries c') = length (entries c)"
    by blast
  then have "\<forall>k. valid_block d k \<longrightarrow> page_at d' k = view d c k"
    using synced_Nil_view by metis
  then show ?thesis
    using r(1-5,7,8) unfolding cache_sync_def by blast
qed

end
