(* ===== verification/Cache_Run.thy ===== *)
theory Cache_Run
  imports Cache_Steps
begin

text \<open>
  Sequences of block accesses, as the layers above issue them, over the cache and
  directly on the disk image; the cache that \<open>alloc_cache\<close> makes; and what is left
  allocated by \<open>free_cache\<close>.
\<close>

subsection \<open>Sequences of accesses\<close>

text \<open>
  A \<open>Load\<close> reads a block of an inode through the pointer of \<open>get_block\<close>. An \<open>Update\<close>
  gets the block, changes it through the pointer and calls \<open>write_block\<close> on it.
\<close>

datatype access = Load u64 u64 | Update u64 u64 "page \<Rightarrow> page"

primrec access_block :: "access \<Rightarrow> u64" where
  "access_block (Load n b) = b"
| "access_block (Update n b f) = b"

text \<open>The blocks that a list of accesses reads, one page for every \<open>Load\<close>.\<close>

fun direct_run :: "access list \<Rightarrow> DiskInterface \<Rightarrow> (page list \<times> DiskInterface) option" where
  "direct_run [] d = Some ([], d)"
| "direct_run (Load n b # as) d = do {
     k \<leftarrow> get_block_direct d n b;
     (out, d') \<leftarrow> direct_run as d;
     Some (page_at d k # out, d')
   }"
| "direct_run (Update n b f # as) d = do {
     k \<leftarrow> get_block_direct d n b;
     direct_run as (write_block_direct (set_page d k (f (page_at d k))) k n b)
   }"

fun cached_run ::
    "bool \<Rightarrow> access list \<Rightarrow> DiskInterface \<Rightarrow> cache \<Rightarrow> (page list \<times> DiskInterface \<times> cache) option" where
  "cached_run z [] d c = Some ([], d, c)"
| "cached_run z (Load n b # as) d c = do {
     (p, d, c) \<leftarrow> get_block z d c n b;
     page \<leftarrow> heap c p;
     (out, d, c) \<leftarrow> cached_run z as d c;
     Some (page # out, d, c)
   }"
| "cached_run z (Update n b f # as) d c = do {
     (p, d, c) \<leftarrow> get_block z d c n b;
     page \<leftarrow> heap c p;
     (d, c) \<leftarrow> write_block z d (store c p (f page)) (f page) n b;
     cached_run z as d c
   }"

text \<open>
  Whether a run hands a block with the tag of a data block to \<open>write_block\<close>: only then a dirty
  list is made.
\<close>

definition is_data_page :: "page \<Rightarrow> bool" where
  "is_data_page pg \<longleftrightarrow> rd32 pg 0 = block_type_code BLOCK_TYPE_DATA"

fun hands_data :: "access list \<Rightarrow> DiskInterface \<Rightarrow> bool" where
  "hands_data [] d = False"
| "hands_data (Load n b # as) d = hands_data as d"
| "hands_data (Update n b f # as) d =
     (is_data_page (f (page_at d (unat b))) \<or> hands_data as (set_page d (unat b) (f (page_at d (unat b)))))"

text \<open>The disk image of the direct run is what the cached run shows.\<close>

definition agrees :: "DiskInterface \<Rightarrow> DiskInterface \<Rightarrow> cache \<Rightarrow> bool" where
  "agrees dd d c \<longleftrightarrow> (\<forall>k. valid_block dd k = valid_block d k) \<and> (\<forall>k. valid_block d k \<longrightarrow> view d c k = page_at dd k)"

lemma slot_store [simp]: "slot (store c p pg) = slot c" "pci (store c p pg) = pci c"
  by (simp_all add: store_def slot_def fun_eq_iff)

text \<open>Writing back a block that was just fetched.\<close>

lemma write_marked:
  assumes f: "fetched d c gs b p c1" and z: "noted z c1 buf n b = Some dl"
  shows "\<exists>g xs. cache_ok c1 xs gs \<and> b \<in> cached c1 \<and>
    write_block z d (store c1 p buf) buf n b = Some (d, marked c1 buf (slot c1 b) dl g) \<and>
    ring_ok g (next_addr c1 # gs) \<and> ring_label g = (ring_label (gdl c1))(next_addr c1 \<mapsto> slot c1 b)"
proof -
  obtain xs where ok: "cache_ok c1 xs gs" and b: "b \<in> cached c1" and p: "p = page_data (at c1 (slot c1 b))"
    using f by (auto simp: fetched_def)
  have i: "slots_ok c1"
    using ok by (simp add: cache_ok_def)
  obtain g where g: "mark_dirty z c1 buf n b (slot c1 b) = Some (marked c1 buf (slot c1 b) dl g)"
    "ring_ok g (next_addr c1 # gs)" "ring_label g = (ring_label (gdl c1))(next_addr c1 \<mapsto> slot c1 b)"
    using mark_dirty_run [OF ok b z] by blast
  have "pci_lookup (pci c1) b \<noteq> -1"
    using b by (simp add: index.known_def)
  moreover have "mark_dirty z (store c1 p buf) buf n b (pci_lookup (pci c1) b) = Some (marked c1 buf (slot c1 b) dl g)"
    using mark_dirty_store [OF i b p] g(1) by (simp add: slot_def)
  ultimately have "write_block z d (store c1 p buf) buf n b = Some (d, marked c1 buf (slot c1 b) dl g)"
    by (simp add: write_block_def)
  then show ?thesis
    using ok b g by blast
qed

lemma write_fetched:
  assumes f: "fetched d c gs b p c1" and z: "noted z c1 buf n b = Some dl"
  shows "\<exists>c2 gs2 xs2. write_block z d (store c1 p buf) buf n b = Some (d, c2) \<and> cache_ok c2 xs2 gs2 \<and> synced d c2 gs2 \<and>
    cached c2 = cached c1 \<and> cached_page c2 = (cached_page c1)(b \<mapsto> buf) \<and> length (entries c2) = length (entries c1) \<and>
    dirty_list c2 = dl"
proof -
  obtain g xs where w: "cache_ok c1 xs gs" "b \<in> cached c1"
    "write_block z d (store c1 p buf) buf n b = Some (d, marked c1 buf (slot c1 b) dl g)"
    "ring_ok g (next_addr c1 # gs)" "ring_label g = (ring_label (gdl c1))(next_addr c1 \<mapsto> slot c1 b)"
    using write_marked [OF f z] by blast
  have i: "slots_ok c1" and s: "synced d c1 gs"
    using w(1) f by (simp_all add: cache_ok_def fetched_def)
  show ?thesis
    using w(3) marked_cache_ok [OF w(1,2,4,5), of buf dl] marked_synced [OF w(1,2) s w(5), of buf dl]
      marked_cached_page [OF i w(2), of buf dl g] by auto
qed

lemma valid_block_of_nat:
  assumes "valid_block d k"
  shows "(of_nat k = b) = (k = unat (b :: u64))"
proof
  assume "of_nat k = b"
  then show "k = unat b"
    by (rule subst) (rule valid_block_unat [OF assms, symmetric])
qed simp

lemma noted_lists:
  assumes "lists_end z c" "z \<or> \<not> is_data_page buf"
  shows "\<exists>dl. noted z c buf n b = Some dl \<and> (z \<or> dl = (\<lambda>_. []))"
  using assms dl_insert_z by (cases z) (simp_all add: noted_def is_data_page_def lists_end_def del: block_type_code.simps)

lemma view_upd:
  assumes "cached_page c' = (cached_page c)(b \<mapsto> buf)"
  shows "view d c' k = (if of_nat k = b then buf else view d c k)"
  by (simp add: view_def assms)

text \<open>The free list has a slot while the cache is larger than the set of blocks in use.\<close>

lemma free_list_lasts:
  assumes "slots_ok c" "finite B" "cached c \<subseteq> B" "b \<in> B" "card B \<le> length (entries c)"
  shows "b \<in> cached c \<or> free_list c \<noteq> []"
proof (rule ccontr)
  assume no: "\<not> (b \<in> cached c \<or> free_list c \<noteq> [])"
  then have "cached c \<subset> B"
    using assms(3,4) by blast
  then have "card (cached c) < card B"
    by (rule psubset_card_mono [OF assms(2)])
  then show False
    using slots_okD(12) [OF assms(1)] assms(5) no by simp
qed

lemma cached_run_ok:
  "cache_ok c xs gs \<Longrightarrow> synced d c gs \<Longrightarrow> agrees dd d c \<Longrightarrow> finite B \<Longrightarrow> cached c \<subseteq> B \<Longrightarrow>
   access_block ` set as \<subseteq> B \<Longrightarrow> card B \<le> length (entries c) \<Longrightarrow> \<forall>b \<in> B. valid_block d (unat b) \<Longrightarrow>
   lists_end z c \<Longrightarrow> z \<or> \<not> hands_data as dd \<Longrightarrow>
   \<exists>out dd' c' xs' gs'. direct_run as dd = Some (out, dd') \<and> cached_run z as d c = Some (out, d, c') \<and>
     cache_ok c' xs' gs' \<and> synced d c' gs' \<and> agrees dd' d c' \<and> cached c' = cached c \<union> access_block ` set as \<and>
     length (entries c') = length (entries c) \<and> lists_end z c'"
proof (induction as arbitrary: c xs gs dd)
  case Nil
  then show ?case by auto
next
  case (Cons a as)
  have i: "slots_ok c"
    using Cons.prems(1) by (simp add: cache_ok_def)
  let ?b = "access_block a"
  have b: "?b \<in> B" and v: "valid_block d (unat ?b)"
    using Cons.prems(6,8) by auto
  have vd: "valid_block dd (unat ?b)"
    using Cons.prems(3) v by (simp add: agrees_def)
  have room: "?b \<in> cached c \<or> free_list c \<noteq> []"
    by (rule free_list_lasts [OF i Cons.prems(4,5) b Cons.prems(7)])
  have see: "view d c (unat ?b) = page_at dd (unat ?b)"
    using Cons.prems(3) v by (simp add: agrees_def)
  have sub: "access_block ` set as \<subseteq> B"
    using Cons.prems(6) by auto
  show ?case
  proof (cases a)
    case (Load n b')
    obtain p c1 where 1: "get_block z d c n ?b = Some (p, d, c1)" "fetched d c gs ?b p c1"
      using get_block_ok [OF Cons.prems(1,2) v room] by blast
    then obtain xs1 where f: "cache_ok c1 xs1 gs" "synced d c1 gs" "cached c1 = insert ?b (cached c)"
      "heap c1 p = Some (page_at dd (unat ?b))" "length (entries c1) = length (entries c)"
      "\<forall>k. valid_block d k \<longrightarrow> view d c1 k = view d c k" "dirty_list c1 = dirty_list c"
      by (auto simp: fetched_def see)
    have "agrees dd d c1"
      using f(6) Cons.prems(3) by (simp add: agrees_def)
    moreover have "cached c1 \<subseteq> B"
      using f(3) b Cons.prems(5) by simp
    ultimately obtain out dd' c' xs' gs' where r: "direct_run as dd = Some (out, dd')" "cached_run z as d c1 = Some (out, d, c')"
      "cache_ok c' xs' gs'" "synced d c' gs'" "agrees dd' d c'" "cached c' = cached c1 \<union> access_block ` set as"
      "length (entries c') = length (entries c1)" "lists_end z c'"
      using Cons.IH [OF f(1,2) _ Cons.prems(4) _ sub _ Cons.prems(8) lists_end_cong [OF Cons.prems(9) f(7)], of dd]
        f(5) Cons.prems(7,10) Load by auto
    have "direct_run (a # as) dd = Some (page_at dd (unat ?b) # out, dd')"
      using r(1) vd by (simp add: Load)
    moreover have "cached_run z (a # as) d c = Some (page_at dd (unat ?b) # out, d, c')"
      using 1(1) f(4) r(2) by (simp add: Load)
    ultimately show ?thesis
      using r(3-8) f(3,5) by auto
  next
    case (Update n b' g)
    let ?new = "g (page_at dd (unat ?b))"
    obtain p c1 where 1: "get_block z d c n ?b = Some (p, d, c1)" "fetched d c gs ?b p c1"
      using get_block_ok [OF Cons.prems(1,2) v room] by blast
    then have f: "cached c1 = insert ?b (cached c)" "heap c1 p = Some (page_at dd (unat ?b))"
      "length (entries c1) = length (entries c)" "\<forall>k. valid_block d k \<longrightarrow> view d c1 k = view d c k" "dirty_list c1 = dirty_list c"
      by (auto simp: fetched_def see)
    obtain dl where dl: "noted z c1 ?new n ?b = Some dl" "z \<or> dl = (\<lambda>_. [])"
      using noted_lists [OF lists_end_cong [OF Cons.prems(9) f(5)], of ?new n ?b] Cons.prems(10) Update by auto
    from write_fetched [OF 1(2) dl(1)] obtain c2 gs2 xs2 where
      2: "write_block z d (store c1 p ?new) ?new n ?b = Some (d, c2)" "cache_ok c2 xs2 gs2" "synced d c2 gs2"
        "cached c2 = cached c1" "cached_page c2 = (cached_page c1)(?b \<mapsto> ?new)" "length (entries c2) = length (entries c1)"
        "dirty_list c2 = dl"
      by blast
    have z2: "lists_end z c2" "z \<or> \<not> hands_data as (set_page dd (unat ?b) ?new)"
      using dl(2) 2(7) Cons.prems(10) Update by (auto simp: lists_end_def)
    have sh: "agrees (set_page dd (unat ?b) ?new) d c2"
    proof -
      have "view d c2 k = page_at (set_page dd (unat ?b) ?new) k" if k: "valid_block d k" for k
      proof -
        have "(of_nat k = ?b) = (k = unat ?b)"
          by (rule valid_block_of_nat [OF k])
        then show ?thesis
          using f(4) k Cons.prems(3) unfolding view_upd [OF 2(5)] agrees_def by simp
      qed
      then show ?thesis
        using Cons.prems(3) by (simp add: agrees_def)
    qed
    have "cached c2 \<subseteq> B"
      using f(1) 2(4) b Cons.prems(5) by simp
    then obtain out dd' c' xs' gs' where r: "direct_run as (set_page dd (unat ?b) ?new) = Some (out, dd')"
      "cached_run z as d c2 = Some (out, d, c')"
      "cache_ok c' xs' gs'" "synced d c' gs'" "agrees dd' d c'" "cached c' = cached c2 \<union> access_block ` set as"
      "length (entries c') = length (entries c2)" "lists_end z c'"
      using Cons.IH [OF 2(2,3) sh Cons.prems(4) _ sub _ Cons.prems(8) z2] f(3) 2(6) Cons.prems(7) by metis
    have "direct_run (a # as) dd = Some (out, dd')"
      using r(1) vd by (simp add: Update)
    moreover have "cached_run z (a # as) d c = Some (out, d, c')"
      using 1(1) f(2) 2(1) r(2) by (simp add: Update)
    ultimately show ?thesis
      using r(3-8) f(1,3) 2(4,6) by auto
  qed
qed

subsection \<open>A new cache\<close>

lemma gb_ram: "unat ram < 2 ^ 61 \<Longrightarrow> int_of_u64 (ram div (1024 * 1024 * 1024)) = int (unat ram div 2 ^ 30)"
proof -
  assume a: "unat ram < 2 ^ 61"
  have "unat (ram div (1024 * 1024 * 1024)) = unat ram div 2 ^ 30"
    by (simp add: unat_div)
  moreover have "unat ram div 2 ^ 30 < 2 ^ 31"
    using a by (simp add: less_mult_imp_div_less)
  ultimately show ?thesis
    using int_of_u64_small by metis
qed

lemma physical_memory: "unat ram < 2 ^ 61 \<Longrightarrow> sint (ram :: u64) sdiv (8 * 4096) = int (unat ram div 32768)"
proof -
  assume a: "unat ram < 2 ^ 61"
  have "sint ram = int (unat ram)"
  proof -
    have lt: "uint ram < 2 ^ 63"
      using a int_less_uint_iff [of "2 ^ 63 - 1" ram] by simp
    have "sint ram = signed_take_bit 63 (uint ram)"
      by (simp add: sint_uint)
    also have "\<dots> = uint ram"
      by (rule signed_take_bit_int_eq_self) (use lt in \<open>auto intro: order_trans [of _ 0]\<close>)
    finally show ?thesis
      by (simp only: uint_nat)
  qed
  then show ?thesis
    by (cases "unat ram = 0") (simp_all add: signed_divide_int_def zdiv_int sgn_if unat_eq_0)
qed

lemma size_policy_cases:
  assumes "unat ram < 2 ^ 61"
  shows "unat (size_policy ram) =
    (if unat ram < 2 * 2 ^ 30 then 16384 else if 3 * 2 ^ 30 \<le> unat ram \<and> unat ram < 17 * 2 ^ 30 then unat ram div 32768
     else min 2097152 (unat ram div 32768))"
proof -
  let ?g = "unat ram div 2 ^ 30"
  have g: "?g < 2 \<longleftrightarrow> unat ram < 2 * 2 ^ 30" "2 < ?g \<longleftrightarrow> 3 * 2 ^ 30 \<le> unat ram" "?g \<le> 16 \<longleftrightarrow> unat ram < 17 * 2 ^ 30"
  proof -
    have m: "?g < n \<longleftrightarrow> unat ram < n * 2 ^ 30" "n \<le> ?g \<longleftrightarrow> n * 2 ^ 30 \<le> unat ram" for n
      by (rule div_less_iff_less_mult, simp) (rule less_eq_div_iff_mult_less_eq, simp)
    have "2 < ?g \<longleftrightarrow> 3 \<le> ?g" "?g \<le> 16 \<longleftrightarrow> ?g < 17"
      by auto
    then show "?g < 2 \<longleftrightarrow> unat ram < 2 * 2 ^ 30" "2 < ?g \<longleftrightarrow> 3 * 2 ^ 30 \<le> unat ram" "?g \<le> 16 \<longleftrightarrow> unat ram < 17 * 2 ^ 30"
      by (simp_all only: m)
  qed
  have small: "unat ram div 32768 < 2 ^ 64"
    using assms by simp
  have "size_policy ram = (if ?g < 2 then 16384 else if 2 < ?g \<and> ?g \<le> 16 then of_nat (unat ram div 32768)
      else of_nat (min 2097152 (unat ram div 32768)))"
    unfolding size_policy_def Let_def gb_ram [OF assms] physical_memory [OF assms]
    by (simp add: min_def)
  then show ?thesis
    unfolding g using small by (simp add: unat_of_nat_u64 min_def)
qed

lemma size_policy_small: "unat ram < 2 ^ 61 \<Longrightarrow> unat (size_policy ram) < 2 ^ 31"
  by (simp add: size_policy_cases min_def less_mult_imp_div_less)

lemma fold_fl_push: "fold (\<lambda>i list. fl_push list (int i)) [0..<n] [] = rev (map int [0..<n])"
proof -
  have "fold (\<lambda>i list. fl_push list (int i)) xs l = rev (map int xs) @ l" for xs l
    by (induction xs arbitrary: l) (simp_all add: fl_push_def)
  then show ?thesis
    by simp
qed

lemma alloc_cache_fields:
  "pci (alloc_cache ram) = (\<lambda>_. [])" "lru (alloc_cache ram) = empty_ring" "gdl (alloc_cache ram) = empty_ring"
  "heap (alloc_cache ram) = (\<lambda>_. None)" "next_addr (alloc_cache ram) = 1" "dirty_list (alloc_cache ram) = (\<lambda>_. [])"
  "length (entries (alloc_cache ram)) = unat (size_policy ram)" "cache_size (alloc_cache ram) = int_of_u64 (size_policy ram)"
  "free_list (alloc_cache ram) = rev (map int [0..<unat (size_policy ram)])" "cached (alloc_cache ram) = {}"
  by (simp_all add: alloc_cache_def Let_def fold_fl_push index.known_empty)

lemma alloc_cache_ok:
  assumes "unat (size_policy ram) < 2 ^ 31"
  shows "cache_ok (alloc_cache ram) [] []"
proof -
  note f = alloc_cache_fields [of ram]
  have "int_of_u64 (size_policy ram) = int (unat (size_policy ram))"
    using assms by (rule int_of_u64_small)
  moreover have sets: "distinct (rev (map int [0..<n]))" "set (rev (map int [0..<n])) = {0..<int n}" for n
    by (simp_all add: distinct_map image_int_atLeastLessThan)
  ultimately have "slots_ok (alloc_cache ram)"
    using assms unfolding slots_ok_def f index.known_empty by auto
  moreover have "lru_ok (alloc_cache ram) []" "gdl_ok (alloc_cache ram) []"
    by (simp_all add: lru_ok_def gdl_ok_def f index.known_empty ring_ok_empty del: length_greater_0_conv)
  moreover have "buffers_ok (alloc_cache ram)"
  proof -
    have "page_data (at (alloc_cache ram) i) = 0" if "0 \<le> i" "i < int (unat (size_policy ram))" for i
    proof -
      have "nat i < unat (size_policy ram)"
        using that by (simp only: nat_less_iff)
      then show ?thesis
        by (simp add: at_def alloc_cache_def Let_def blank_entry_def)
    qed
    then show ?thesis
      unfolding buffers_ok_def f sets index.known_empty by simp
  qed
  ultimately show ?thesis
    by (simp add: cache_ok_def)
qed

lemma alloc_cache_lists: "lists_end z (alloc_cache ram)"
  by (simp add: lists_end_def alloc_cache_fields)

lemma alloc_cache_synced: "synced d (alloc_cache ram) []"
  by (simp add: synced_def alloc_cache_fields index.known_empty)

lemma alloc_cache_agrees: "agrees d d (alloc_cache ram)"
  by (simp add: agrees_def view_def cached_page_def alloc_cache_fields)

subsection \<open>Unmounting\<close>

lemma pop_heads_null: "ring_head r = 0 \<Longrightarrow> pop_heads n r = Some r"
  by (induction n) (simp_all add: lru_pop_def ring_pop_def)

text \<open>After the first pop through the head pointer the head is null, and the loop does nothing more.\<close>

lemma pop_heads_leak:
  assumes "ring_ok r xs"
  shows "\<exists>r'. pop_heads (length xs) r = Some r' \<and> dom (ring_nodes r') = set (tl xs)"
proof (cases xs)
  case Nil
  then show ?thesis
    using ring_okD(4) [OF assms] by simp
next
  case (Cons x ys)
  note r = ring_okD [OF assms]
  obtain r1 where r1: "ring_pop (Other x) r = Some (node_of r x, r1)" "ring_ok r1 ys"
    using ring_pop_ok [OF assms, of x] Cons by auto
  have rd: "read_var r Head = Some x" "x \<noteq> 0"
    using r(3,5) Cons by auto
  have "lru_pop Head r = Some (node_of r x, r1\<lparr>ring_head := 0\<rparr>)"
    unfolding lru_pop_def by (subst ring_pop_var [OF rd]) (simp add: r1(1))
  then have "pop_heads (length xs) r = Some (r1\<lparr>ring_head := 0\<rparr>)"
    using Cons pop_heads_null [of "r1\<lparr>ring_head := 0\<rparr>"] by simp
  then show ?thesis
    using ring_okD(4) [OF r1(2)] Cons by simp
qed

lemma free_list_loop_z: "free_list_loop True l = Some ()"
proof (induction l rule: length_induct)
  case (1 l)
  show ?case
  proof (cases l)
    case (Cons n ns)
    have "\<exists>l'. dl_pop True l = Some l'"
      by (simp add: dl_pop_def Cons)
    then obtain l' where l': "dl_pop True l = Some l'"
      by blast
    then have "length l' < length l"
      using dl_pop_shorter unfolding Cons by blast
    then show ?thesis
      using 1 l' Cons by simp
  qed simp
qed

lemma for_each_total: "(\<And>i s. \<exists>s'. body i s = Some s') \<Longrightarrow> \<exists>s'. for_each is body s = Some s'"
proof (induction "is" arbitrary: s)
  case (Cons i "is")
  obtain s1 where "body i s = Some s1"
    using Cons.prems by blast
  then show ?case
    using Cons by simp
qed simp

lemma free_pages:
  "sorted_wrt (\<lambda>e e'. page_data e = page_data e' \<longrightarrow> page_data e = 0) es \<Longrightarrow>
   (\<forall>e \<in> set es. page_data e \<noteq> 0 \<longrightarrow> page_data e \<in> dom h) \<Longrightarrow> 0 \<notin> dom h \<Longrightarrow>
   \<exists>h'. for_each es free_page_data h = Some h' \<and> dom h' = dom h - page_data ` set es"
proof (induction es arbitrary: h)
  case (Cons e es)
  show ?case
  proof (cases "page_data e = 0")
    case True
    have "free_page_data e h = Some h"
      by (simp add: free_page_data_def True)
    moreover obtain h' where "for_each es free_page_data h = Some h'" "dom h' = dom h - page_data ` set es"
      using Cons.IH [of h] Cons.prems by auto
    ultimately show ?thesis
      using Cons.prems(3) True by auto
  next
    case False
    let ?h = "h(page_data e := None)"
    have "free_page_data e h = Some ?h"
      using False Cons.prems(2) by (auto simp: free_page_data_def)
    moreover have "\<forall>e' \<in> set es. page_data e' \<noteq> 0 \<longrightarrow> page_data e' \<in> dom ?h"
      using Cons.prems False by fastforce
    then obtain h' where "for_each es free_page_data ?h = Some h'" "dom h' = dom ?h - page_data ` set es"
      using Cons.IH [of ?h] Cons.prems(1,3) by (auto simp del: fun_upd_apply)
    ultimately show ?thesis
      by auto
  qed
qed simp

lemma buffers_cover:
  assumes "slots_ok c" "buffers_ok c"
  shows "sorted_wrt (\<lambda>e e'. page_data e = page_data e' \<longrightarrow> page_data e = 0) (entries c)"
    and "\<forall>e \<in> set (entries c). page_data e \<noteq> 0 \<longrightarrow> page_data e \<in> dom (heap c)"
    and "dom (heap c) \<subseteq> page_data ` set (entries c)"
proof -
  have used: "\<exists>b \<in> cached c. slot c b = int i" if "i < length (entries c)" "page_data (entries c ! i) \<noteq> 0" for i
  proof -
    have "(int i \<in> set (free_list c) \<and> page_data (at c (int i)) = 0) \<or> (\<exists>b \<in> cached c. slot c b = int i)"
      using conjunct1 [OF assms(2) [unfolded buffers_ok_def]] that(1) by simp
    then show ?thesis
      using that(2) by (simp add: at_def)
  qed
  have ix: "entries c ! nat (slot c b) = at c (slot c b)" for b
    by (simp add: at_def)
  show "sorted_wrt (\<lambda>e e'. page_data e = page_data e' \<longrightarrow> page_data e = 0) (entries c)"
    unfolding sorted_wrt_iff_nth_less
  proof (intro allI impI)
    fix i j
    assume ij: "i < j" "j < length (entries c)" and eq: "page_data (entries c ! i) = page_data (entries c ! j)"
    show "page_data (entries c ! i) = 0"
    proof (rule ccontr)
      assume nz: "page_data (entries c ! i) \<noteq> 0"
      then obtain b b' where b: "b \<in> cached c" "slot c b = int i" "b' \<in> cached c" "slot c b' = int j"
        using used [of i] used [of j] ij eq by auto
      then have "b = b'"
        using slots_okD(8) [OF assms(1) b(1,3)] eq by (simp add: at_def)
      then show False
        using b ij by simp
    qed
  qed
  show "\<forall>e \<in> set (entries c). page_data e \<noteq> 0 \<longrightarrow> page_data e \<in> dom (heap c)"
  proof (intro ballI impI)
    fix e
    assume "e \<in> set (entries c)" "page_data e \<noteq> 0"
    then obtain i where i: "i < length (entries c)" "e = entries c ! i" "page_data (entries c ! i) \<noteq> 0"
      by (auto simp: in_set_conv_nth)
    then obtain b where "b \<in> cached c" "slot c b = int i"
      using used by blast
    then show "page_data e \<in> dom (heap c)"
      using slots_okD(7) [OF assms(1)] i(2) by (fastforce simp: at_def)
  qed
  show "dom (heap c) \<subseteq> page_data ` set (entries c)"
  proof
    fix p
    assume "p \<in> dom (heap c)"
    then obtain b where b: "b \<in> cached c" "p = page_data (at c (slot c b))"
      using assms(2) by (auto simp: buffers_ok_def)
    have "nat (slot c b) < length (entries c)"
      using slots_okD(3,4) [OF assms(1) b(1)] by (simp add: nat_less_iff)
    then have "at c (slot c b) \<in> set (entries c)"
      by (simp add: at_def)
    then show "p \<in> page_data ` set (entries c)"
      using b(2) by blast
  qed
qed

lemma free_cache_ok:
  assumes ok: "cache_ok c xs []" and z: "lists_end z c"
  shows "\<exists>m. free_cache z c = Some m \<and> dom (pages_left m) = {} \<and> dom (gdl_left m) = {} \<and>
    card (dom (lru_left m)) = card (cached c) - 1"
proof -
  have p: "slots_ok c" "ring_ok (lru c) xs" "length xs = card (cached c)" "ring_ok (gdl c) []" "buffers_ok c"
    using ok by (simp_all add: cache_ok_def lru_ok_def gdl_ok_def)
  obtain r where r: "pop_heads (length xs) (lru c) = Some r" "dom (ring_nodes r) = set (tl xs)"
    using pop_heads_leak [OF p(2)] by blast
  have sizes: "nat (ring_size (gdl c)) = 0" "nat (ring_size (lru c)) = length xs" "dom (ring_nodes (gdl c)) = {}"
    using ring_okD(1,4) [OF p(4)] ring_okD(1) [OF p(2)] by simp_all
  have "0 \<notin> dom (heap c)"
    using slots_okD(13) [OF p(1)] by blast
  then obtain h where h: "for_each (entries c) free_page_data (heap c) = Some h"
    "dom h = dom (heap c) - page_data ` set (entries c)"
    using free_pages [OF buffers_cover(1,2) [OF p(1,5)]] by blast
  have dl: "\<exists>u. for_each [0..<HASHMAP_SIZE] (\<lambda>i. for_each (dirty_list c i) (\<lambda>hmlist _. free_list_loop z (hm_list hmlist))) () = Some u"
  proof (cases z)
    case True
    then show ?thesis by (intro for_each_total) (simp add: free_list_loop_z)
  next
    case False
    then have e: "dirty_list c = (\<lambda>_. [])" using z by (simp add: lists_end_def)
    show ?thesis unfolding e by (rule for_each_total) simp
  qed
  have "card (set (tl xs)) = card (cached c) - 1"
    using p(3) ring_okD(2) [OF p(2)] by (simp add: distinct_card distinct_tl)
  moreover have "dom h = {}"
    using h(2) buffers_cover(3) [OF p(1,5)] by blast
  ultimately show ?thesis
    using r h(1) dl sizes by (auto simp: free_cache_def)
qed

subsection \<open>From mounting to unmounting\<close>

lemma destroy_ok:
  assumes ok: "cache_ok c xs gs" and s: "synced d c gs" and z: "lists_end z c"
  shows "\<exists>d' m. nbtrfs_destroy z d c = Some (d', m) \<and> (\<forall>k. valid_block d k \<longrightarrow> page_at d' k = view d c k) \<and>
    dom (pages_left m) = {} \<and> dom (gdl_left m) = {} \<and> card (dom (lru_left m)) = card (cached c) - 1"
proof -
  obtain d' c' where sy: "cache_sync z d c = Some (d', c')" "cache_ok c' xs []"
    "\<forall>k. valid_block d k \<longrightarrow> page_at d' k = view d c k" "lists_end z c'"
    using cache_sync_ok [OF ok s z] by blast
  have "card (cached c') = card (cached c)"
    using ok sy(2) by (simp add: cache_ok_def lru_ok_def)
  then show ?thesis
    using free_cache_ok [OF sy(2,4)] sy(1,3) by (auto simp: nbtrfs_destroy_def)
qed

lemma run_and_destroy:
  assumes r: "unat ram < 2 ^ 61" and v: "\<forall>b \<in> access_block ` set as. valid_block d (unat b)"
    and n: "int (card (access_block ` set as)) \<le> cache_size (alloc_cache ram)" and z: "z \<or> \<not> hands_data as d"
  shows "\<exists>out d1 c d2 m. direct_run as d = Some (out, d1) \<and> cached_run z as d (alloc_cache ram) = Some (out, d, c) \<and>
    nbtrfs_destroy z d c = Some (d2, m) \<and> (\<forall>k. valid_block d k \<longrightarrow> page_at d2 k = page_at d1 k) \<and>
    dom (pages_left m) = {} \<and> dom (gdl_left m) = {} \<and> card (dom (lru_left m)) = card (access_block ` set as) - 1"
proof -
  have small: "unat (size_policy ram) < 2 ^ 31"
    by (rule size_policy_small [OF r])
  have "cache_size (alloc_cache ram) = int (unat (size_policy ram))"
    unfolding alloc_cache_fields using small by (rule int_of_u64_small)
  then have room: "card (access_block ` set as) \<le> length (entries (alloc_cache ram))"
    using n unfolding alloc_cache_fields(7) by (simp only: of_nat_le_iff)
  have sub: "cached (alloc_cache ram) \<subseteq> access_block ` set as" "finite (access_block ` set as)"
    by (simp_all add: alloc_cache_fields index.known_empty)
  from cached_run_ok [OF alloc_cache_ok [OF small] alloc_cache_synced alloc_cache_agrees sub(2,1) subset_refl room v
      alloc_cache_lists z]
  obtain out d1 c xs gs where run: "direct_run as d = Some (out, d1)" "cached_run z as d (alloc_cache ram) = Some (out, d, c)"
    "cache_ok c xs gs" "synced d c gs" "agrees d1 d c" "cached c = cached (alloc_cache ram) \<union> access_block ` set as"
    "lists_end z c"
    by blast
  have "cached c = access_block ` set as"
    using run(6) by (simp add: alloc_cache_fields index.known_empty)
  moreover have "\<forall>k. valid_block d k \<longrightarrow> view d c k = page_at d1 k"
    using run(5) by (simp add: agrees_def)
  ultimately show ?thesis
    using run(1,2) destroy_ok [OF run(3,4,7)] by auto
qed

end
