(* ===== verification/Cache_Limits.thy ===== *)
theory Cache_Limits
  imports Cache_Run
begin

text \<open>
  Where the cache stops working: the eviction of a block, a second dirty block of an inode
  when fresh memory is not null; and the way of a single block through \<open>cache_fsync\<close>.
\<close>

subsection \<open>Eviction\<close>

lemma evict_fields:
  assumes "evict z d c = Some (d', c')"
  shows "\<exists>i r. lru_pop (Prev (ring_head (lru c))) (lru c) = Some (i, r) \<and> lru c' = r \<and> next_addr c' = next_addr c"
  using assms unfolding evict_def Let_def
  by (auto simp: bind_Some_iff bind_pair_Some_iff split: if_splits)

lemma put_lru_stuck: "lru_push a i r = None \<Longrightarrow> put_lru a i r = None"
  by (simp add: put_lru_def)

lemma enqueue_lru_stuck: "lru_push (next_addr c) i (lru c) = None \<Longrightarrow> enqueue_lru c i = None"
  by (cases "entry c i") (simp_all add: enqueue_lru_def put_lru_stuck)

lemma load_stuck:
  assumes "\<And>a i. a \<noteq> 0 \<Longrightarrow> lru_push a i (lru c) = None"
  shows "load d c n b = None"
proof (cases "free_list c")
  case (Cons i fl)
  have "enqueue_lru c' i = None" if "lru c' = lru c" "next_addr c' \<noteq> 0" for c'
    using that assms by (simp add: enqueue_lru_stuck)
  then show ?thesis
    using Cons by (cases "disk_read_block d b") (auto simp: load_def Let_def bind_None_iff)
qed (simp add: load_def)

lemma full_cache_stuck:
  assumes ok: "cache_ok c xs gs" and b: "b \<notin> cached c" and full: "free_list c = []" and two: "2 \<le> card (cached c)"
  shows "get_block z d c n b = None"
proof -
  have p: "slots_ok c" "lru_ok c xs"
    using ok by (simp_all add: cache_ok_def)
  have ring: "ring_ok (lru c) xs" "2 \<le> length xs"
    using p(2) two by (auto simp: lru_ok_def)
  have "load d' c' n b = None" if e: "evict z d c = Some (d', c')" for d' c'
  proof (rule load_stuck)
    fix a i
    assume "a \<noteq> (0 :: nat)"
    from ring_push_after_pop_tail [OF ring this, of i] obtain j r' where
      r': "ring_pop (Prev (ring_head (lru c))) (lru c) = Some (j, r')" "ring_push a i r' = None"
      by blast
    then show "lru_push a i (lru c') = None"
      using evict_fields [OF e] by (simp add: lru_pop_def lru_push_def)
  qed
  then show ?thesis
    using b full by (cases "evict z d c") (auto simp: get_block_def cached_iff slot_def Let_def)
qed

subsection \<open>A first dirty block\<close>

text \<open>
  Taking the only block off the list of an inode reads the field that was never set, so a data
  block that waits on the global dirty list stops \<open>cache_sync\<close>.
\<close>

lemma dl_remove_only:
  "dl_lookup h n = Some \<lparr>hm_inode = n, hm_list = [\<lparr>dl_index = i, dl_block = b\<rparr>]\<rparr> \<Longrightarrow> dl_remove_block False h n b = None"
  by (simp add: dl_remove_block_def dl_next_def)

lemma sync_marked_stuck:
  assumes ok: "cache_ok c xs []" and b: "b \<in> cached c" and v: "valid_block d (unat b)"
    and g: "ring_ok g [next_addr c]" "ring_label g = (ring_label (gdl c))(next_addr c \<mapsto> slot c b)"
    and n: "inode_number (at c (slot c b)) = n" and data: "rd32 buf 0 = block_type_code BLOCK_TYPE_DATA"
    and dl: "dl_lookup dl n = Some \<lparr>hm_inode = n, hm_list = [\<lparr>dl_index = 1, dl_block = b\<rparr>]\<rparr>"
  shows "cache_sync False d (marked c buf (slot c b) dl g) = None"
proof -
  let ?c = "marked c buf (slot c b) dl g"
  have i: "slots_ok c" using ok by (simp add: cache_ok_def)
  have ring: "ring_ok (gdl ?c) ([] @ [next_addr c])" using g(1) by simp
  have lab: "ring_label (gdl ?c) (next_addr c) = Some (slot c b)" by (simp add: g(2))
  obtain g' where g': "gdl_pop (Other (next_addr c)) g = Some (slot c b, g')"
    using gdl_list.takeout_last [OF ring lab] by auto
  have go: "0 < ring_size g \<and> ring_head g \<noteq> 0" and tail: "read_var g (Prev (ring_head g)) = Some (next_addr c)"
    using ring_tail [OF g(1)] by (simp_all del: read_var.simps)
  note bounds = slots_okD(3,4) [OF i b] slots_okD(1) [OF i]
  have at: "at ?c (slot c b) = (at c (slot c b))\<lparr>dirty_bit := True, gdl_pos := next_addr c\<rparr>"
    by (simp add: at_marked [OF i b b])
  have "sync_step False d ?c = None"
    using bounds unfolding sync_step_def
    by (simp add: tail g' entry_def at_def [symmetric] at Let_def slots_okD(6) [OF i b] disk_write_valid [OF v]
        data n clean_def dl_remove_only [OF dl] del: block_type_code.simps read_var.simps)
  then show ?thesis
    using go by (simp add: cache_sync_def)
qed

lemma first_dirty_block:
  assumes ok: "cache_ok c xs []" and s: "synced d c []" and none: "dl_lookup (dirty_list c) n = None"
    and v: "valid_block d (unat b)" and new: "b \<notin> cached c" "free_list c \<noteq> []"
    and data: "rd32 (f (view d c (unat b))) 0 = block_type_code BLOCK_TYPE_DATA"
  shows "\<exists>c1. cached_run False [Update n b f] d c = Some ([], d, c1) \<and> cache_sync False d c1 = None"
proof -
  have i: "slots_ok c" "lru_ok c xs" using ok by (simp_all add: cache_ok_def)
  let ?pg = "page_at d (unat b)" and ?f = "f (view d c (unat b))"
  obtain r where r: "load d c n b = Some (next_addr c, loaded c n b ?pg r)"
    using load_run [OF i new(2) v] by blast
  let ?c = "loaded c n b ?pg r"
  have get: "get_block False d c n b = Some (next_addr c, d, ?c)"
    using new r by (simp add: get_block_def cached_iff slot_def)
  then have f: "fetched d c [] b (next_addr c) ?c"
    using get_block_miss [OF ok s new v, of False n] by auto
  have num: "inode_number (at ?c (slot ?c b)) = n"
    using free_slot [OF i(1) new(2)] by (simp add: loaded_simps(1) [OF i(1) new(2)]) (simp add: at_def loaded_def Let_def)
  have c1: "dirty_list ?c = dirty_list c" "heap ?c (next_addr c) = Some (view d c (unat b))"
    using f unfolding fetched_def by blast+
  obtain dl where dl: "dl_insert False (dirty_list c) n b = Some dl"
    using none by (simp add: dl_insert_def)
  have "noted False ?c ?f n b = Some dl"
    using dl by (simp add: noted_def c1(1) data del: block_type_code.simps)
  from write_marked [OF f this] obtain g xs1 where
    w: "cache_ok ?c xs1 []" "b \<in> cached ?c" "write_block False d (store ?c (next_addr c) ?f) ?f n b = Some (d, marked ?c ?f (slot ?c b) dl g)"
      "ring_ok g [next_addr ?c]" "ring_label g = (ring_label (gdl ?c))(next_addr ?c \<mapsto> slot ?c b)"
    by blast
  have "cached_run False [Update n b f] d c = Some ([], d, marked ?c ?f (slot ?c b) dl g)"
    using get c1(2) w(3) by simp
  then show ?thesis
    using sync_marked_stuck [OF w(1,2) v w(4,5) num data dl_lookup_insert_first [OF none dl]] by blast
qed

subsection \<open>A second dirty block\<close>

lemma mark_dirty_undefined:
  assumes "noted z c buf n b = None"
  shows "mark_dirty z (store c p buf) buf n b i = None"
proof -
  have "dirty_list (store c p buf) = dirty_list c"
    by (simp add: store_def)
  then show ?thesis
    using assms unfolding mark_dirty_def noted_def Let_def
    by (cases "entry (store c p buf) i"; cases "heap (store c p buf) (page_data (the (entry (store c p buf) i)))")
      (auto split: if_splits)
qed

lemma write_undefined:
  assumes "b \<in> cached c" "noted z c buf n b = None"
  shows "write_block z d (store c p buf) buf n b = None"
  using assms by (simp add: write_block_def index.known_def mark_dirty_undefined)

lemma two_dirty_blocks:
  assumes ok: "cache_ok c xs gs" and s: "synced d c gs" and none: "dl_lookup (dirty_list c) n = None"
    and v: "valid_block d (unat b)" "valid_block d (unat b')" and ne: "b' \<noteq> b"
    and new: "cached c = {}" "2 \<le> length (entries c)"
    and data: "rd32 (f (view d c (unat b))) 0 = block_type_code BLOCK_TYPE_DATA"
      "rd32 (g (view d c (unat b'))) 0 = block_type_code BLOCK_TYPE_DATA"
  shows "cached_run False [Update n b f, Update n b' g] d c = None"
proof -
  have i: "slots_ok c"
    using ok by (simp add: cache_ok_def)
  have fin: "finite {b, b'}" "card {b, b'} = 2"
    using ne by auto
  have "b \<in> cached c \<or> free_list c \<noteq> []"
    by (rule free_list_lasts [OF i fin(1)]) (use new fin in auto)
  from get_block_ok [OF ok s v(1) this, of False n] obtain p c1 where
    1: "get_block False d c n b = Some (p, d, c1)" "fetched d c gs b p c1"
    by blast
  let ?f = "f (view d c (unat b))" and ?g = "g (view d c (unat b'))"
  have c1: "dirty_list c1 = dirty_list c" "heap c1 p = Some (view d c (unat b))" "cached c1 = {b}"
    "length (entries c1) = length (entries c)" "view d c1 (unat b') = view d c (unat b')"
    using 1(2) v new(1) by (auto simp: fetched_def)
  obtain dl where dl: "dl_insert False (dirty_list c) n b = Some dl"
    using none by (simp add: dl_insert_def)
  have "noted False c1 ?f n b = Some dl"
    using dl by (simp add: noted_def c1(1) data(1) del: block_type_code.simps)
  from write_fetched [OF 1(2) this] obtain c2 gs2 xs2 where
    2: "write_block False d (store c1 p ?f) ?f n b = Some (d, c2)" "cache_ok c2 xs2 gs2" "synced d c2 gs2"
      "cached c2 = {b}" "cached_page c2 = (cached_page c1)(b \<mapsto> ?f)" "length (entries c2) = length (entries c)"
      "dirty_list c2 = dl"
    by (auto simp: c1(3,4))
  have i2: "slots_ok c2"
    using 2(2) by (simp add: cache_ok_def)
  have "b' \<in> cached c2 \<or> free_list c2 \<noteq> []"
    by (rule free_list_lasts [OF i2 fin(1)]) (use new 2(4,6) fin in auto)
  from get_block_ok [OF 2(2,3) v(2) this, of False n] obtain q c3 where
    3: "get_block False d c2 n b' = Some (q, d, c3)" "fetched d c2 gs2 b' q c3"
    by blast
  have "view d c2 (unat b') = view d c (unat b')"
    using ne c1(5) by (simp add: view_upd [OF 2(5)])
  then have c3: "dirty_list c3 = dl" "heap c3 q = Some (view d c (unat b'))" "b' \<in> cached c3"
    using 3(2) 2(7) by (auto simp: fetched_def)
  have "dl_lookup dl n = Some \<lparr>hm_inode = n, hm_list = [\<lparr>dl_index = 1, dl_block = b\<rparr>]\<rparr>"
    by (rule dl_lookup_insert_first [OF none dl])
  then have "dl_insert False dl n b' = None"
    using ne by (intro dl_insert_undefined [of dl n "\<lparr>hm_inode = n, hm_list = [\<lparr>dl_index = 1, dl_block = b\<rparr>]\<rparr>"])
      (simp_all add: dl_blocks_def)
  then have "noted False c3 ?g n b' = None"
    by (simp add: noted_def c3(1) data(2) del: block_type_code.simps)
  from write_undefined [OF c3(3) this] show ?thesis
    using 1(1) 2(1) 3(1) c1(2) c3(2) by simp
qed

subsection \<open>\<open>cache_fsync\<close>\<close>

lemma fsync_marked:
  assumes ok: "cache_ok c xs gs" and b: "b \<in> cached c" and v: "valid_block d (unat b)"
    and g: "ring_ok g (next_addr c # gs)" "ring_label g = (ring_label (gdl c))(next_addr c \<mapsto> slot c b)"
    and none: "dl_lookup (dirty_list c) n = None" and dl: "dl_insert z (dirty_list c) n b = Some dl"
  shows "\<exists>c2. cache_fsync z d (marked c buf (slot c b) dl g) n = Some (set_page d (unat b) buf, c2) \<and>
    dl_lookup (dirty_list c2) n = None"
proof -
  let ?c = "marked c buf (slot c b) dl g"
  have i: "slots_ok c"
    using ok by (simp add: cache_ok_def)
  have look: "dl_lookup dl n = Some \<lparr>hm_inode = n, hm_list = [\<lparr>dl_index = 1, dl_block = b\<rparr>]\<rparr>"
    by (rule dl_lookup_insert_first [OF none dl])
  have dl': "dl = (dirty_list c)(bucket n := \<lparr>hm_inode = n, hm_list = dl_push [] b\<rparr> # dirty_list c (bucket n))"
    using dl none by (simp add: dl_insert_def)
  have "entry ?c (slot c b) = Some (at ?c (slot c b))"
    using slots_okD(3,4) [OF i b] by (simp add: entry_in_range)
  moreover have at: "at ?c (slot c b) = (at c (slot c b))\<lparr>dirty_bit := True, gdl_pos := next_addr c\<rparr>"
    by (simp add: at_marked [OF i b b])
  moreover obtain g' where "gdl_pop (Other (next_addr c)) g = Some (slot c b, g')"
    using gdl_list.takeout_law [OF g(1), of "next_addr c" "slot c b"] g(2) by auto
  ultimately have "fsync_loop z [\<lparr>dl_index = 1, dl_block = b\<rparr>] d ?c =
      Some (set_page d (unat b) buf, (clean ?c (slot c b) (at ?c (slot c b)))\<lparr>gdl := g'\<rparr>)"
    by (simp add: Let_def slot_def [symmetric] slots_okD(6) [OF i b] disk_write_valid [OF v] dl_pop_def)
  then have "cache_fsync z d ?c n = Some (set_page d (unat b) buf,
      (clean ?c (slot c b) (at ?c (slot c b)))\<lparr>gdl := g', dirty_list := dl_delete dl n\<rparr>)"
    by (simp add: cache_fsync_def look clean_def)
  moreover have "dl_lookup (dl_delete dl n) n = None"
    using none by (simp add: dl' dl_delete_def dl_lookup_def)
  ultimately show ?thesis
    by auto
qed

lemma update_then_fsync:
  assumes ok: "cache_ok c xs gs" and s: "synced d c gs" and v: "valid_block d (unat b)"
    and room: "b \<in> cached c \<or> free_list c \<noteq> []" and none: "dl_lookup (dirty_list c) n = None"
    and data: "rd32 (f (view d c (unat b))) 0 = block_type_code BLOCK_TYPE_DATA"
  shows "\<exists>c1 c2. cached_run z [Update n b f] d c = Some ([], d, c1) \<and>
    cache_fsync z d c1 n = Some (set_page d (unat b) (f (view d c (unat b))), c2) \<and> dl_lookup (dirty_list c2) n = None"
proof -
  obtain p c1 where 1: "get_block z d c n b = Some (p, d, c1)" "fetched d c gs b p c1"
    using get_block_ok [OF ok s v room] by blast
  have c1: "dirty_list c1 = dirty_list c" "heap c1 p = Some (view d c (unat b))"
    using 1(2) by (auto simp: fetched_def)
  let ?f = "f (view d c (unat b))"
  obtain dl where dl: "dl_insert z (dirty_list c1) n b = Some dl"
    using none by (simp add: dl_insert_def c1(1))
  have "noted z c1 ?f n b = Some dl"
    using dl by (simp add: noted_def data del: block_type_code.simps)
  from write_marked [OF 1(2) this] obtain g xs1 where
    w: "cache_ok c1 xs1 gs" "b \<in> cached c1" "write_block z d (store c1 p ?f) ?f n b = Some (d, marked c1 ?f (slot c1 b) dl g)"
      "ring_ok g (next_addr c1 # gs)" "ring_label g = (ring_label (gdl c1))(next_addr c1 \<mapsto> slot c1 b)"
    by blast
  have "cached_run z [Update n b f] d c = Some ([], d, marked c1 ?f (slot c1 b) dl g)"
    using 1(1) c1(2) w(3) by simp
  then show ?thesis
    using fsync_marked [OF w(1,2) v w(4,5) _ dl, of ?f] none c1(1) by auto
qed

end
