(* ===== verification/Cache_Reach.thy ===== *)
theory Cache_Reach
  imports Cache_Run
begin

text \<open>
  The states of a mounted volume with its cache: the initial state and what accesses to a
  set of blocks and calls of \<open>cache_sync\<close>, in any order, lead to. Unless fresh memory reads as
  null, the accesses hand no data block to \<open>write_block\<close>.
\<close>

text \<open>The disk that shows what the cache shows.\<close>

definition shown :: "DiskInterface \<Rightarrow> cache \<Rightarrow> DiskInterface" where
  "shown d c = d\<lparr>disk_base := view d c\<rparr>"

inductive reachable :: "bool \<Rightarrow> u64 \<Rightarrow> u64 set \<Rightarrow> DiskInterface \<Rightarrow> DiskInterface \<Rightarrow> cache \<Rightarrow> bool"
  for z :: bool and ram :: u64 and B :: "u64 set" and d0 :: DiskInterface
where
  mount: "reachable z ram B d0 d0 (alloc_cache ram)"
| access: "reachable z ram B d0 d c \<Longrightarrow> access_block a \<in> B \<Longrightarrow> z \<or> \<not> hands_data [a] (shown d c) \<Longrightarrow>
    cached_run z [a] d c = Some (out, d', c') \<Longrightarrow> reachable z ram B d0 d' c'"
| sync: "reachable z ram B d0 d c \<Longrightarrow> cache_sync z d c = Some (d', c') \<Longrightarrow> reachable z ram B d0 d' c'"

text \<open>The invariant of the reachable states.\<close>

definition holds_in :: "bool \<Rightarrow> u64 set \<Rightarrow> DiskInterface \<Rightarrow> cache \<Rightarrow> bool" where
  "holds_in z B d c \<longleftrightarrow> (\<exists>xs gs. cache_ok c xs gs \<and> synced d c gs) \<and> lists_end z c \<and> cached c \<subseteq> B \<and> card B \<le> length (entries c) \<and>
     (\<forall>b \<in> B. valid_block d (unat b))"

lemma shown_agrees: "agrees (shown d c) d c"
  by (simp add: agrees_def shown_def valid_block_def page_at_def)

lemma access_progress:
  assumes "holds_in z B d c" "finite B" "access_block a \<in> B" "z \<or> \<not> hands_data [a] (shown d c)"
  shows "\<exists>out c'. cached_run z [a] d c = Some (out, d, c') \<and> holds_in z B d c'"
proof -
  obtain xs gs where c: "cache_ok c xs gs" "synced d c gs" and z: "lists_end z c"
    using assms(1) by (auto simp: holds_in_def)
  have pre: "cached c \<subseteq> B" "access_block ` set [a] \<subseteq> B" "card B \<le> length (entries c)" "\<forall>b \<in> B. valid_block d (unat b)"
    using assms(1,3) by (auto simp: holds_in_def)
  obtain out c' xs' gs' where r: "cached_run z [a] d c = Some (out, d, c')" "cache_ok c' xs' gs'" "synced d c' gs'"
    "cached c' = cached c \<union> access_block ` set [a]" "length (entries c') = length (entries c)"
    "lists_end z c'"
    using cached_run_ok [OF c shown_agrees assms(2) pre z assms(4)] by blast
  have "holds_in z B d c'"
    unfolding holds_in_def r(4,5) using r(2,3,6) pre by blast
  then show ?thesis
    using r(1) by blast
qed

lemma sync_progress:
  assumes "holds_in z B d c"
  shows "\<exists>d' c'. cache_sync z d c = Some (d', c') \<and> holds_in z B d' c'"
proof -
  obtain xs gs where c: "cache_ok c xs gs" "synced d c gs" and z: "lists_end z c"
    using assms by (auto simp: holds_in_def)
  obtain d' c' where s: "cache_sync z d c = Some (d', c')" "cache_ok c' xs []" "synced d' c' []"
    "\<forall>k. valid_block d' k = valid_block d k" "pci c' = pci c" "length (entries c') = length (entries c)"
    "lists_end z c'"
    using cache_sync_ok [OF c z] by blast
  have "holds_in z B d' c'"
    using assms s(2-7) unfolding holds_in_def by metis
  then show ?thesis
    using s(1) by blast
qed

lemma mount_holds:
  assumes "unat ram < 2 ^ 61" "int (card B) \<le> cache_size (alloc_cache ram)" "\<forall>b \<in> B. valid_block d (unat b)"
  shows "holds_in z B d (alloc_cache ram)"
proof -
  have small: "unat (size_policy ram) < 2 ^ 31"
    by (rule size_policy_small [OF assms(1)])
  have "card B \<le> length (entries (alloc_cache ram))"
    using assms(2) unfolding alloc_cache_fields int_of_u64_small [OF small] by (simp only: of_nat_le_iff)
  moreover have "cached (alloc_cache ram) \<subseteq> B"
    by (simp add: alloc_cache_fields index.known_empty)
  ultimately show ?thesis
    using alloc_cache_ok [OF small] alloc_cache_synced alloc_cache_lists assms(3) unfolding holds_in_def by blast
qed

lemma reachable_holds:
  assumes "reachable z ram B d0 d c" "finite B" "holds_in z B d0 (alloc_cache ram)"
  shows "holds_in z B d c"
  using assms(1)
proof (induction rule: reachable.induct)
  case mount
  then show ?case by (rule assms(3))
next
  case (access d c a out d' c')
  then show ?case
    using access_progress [OF access.IH assms(2) access.hyps(2,3)] access.hyps(4) by auto
next
  case (sync d c d' c')
  then show ?case
    using sync_progress [OF sync.IH] by fastforce
qed

end
