(* ===== verification/Cache_Theorems.thy ===== *)
theory Cache_Theorems
  imports Cache_Limits Cache_Reach
begin

text \<open>The properties of the block cache and of the structures it is built from.\<close>

subsection \<open>A sample\<close>

definition sample_image :: DiskInterface where
  "sample_image = \<lparr>disk_base = (\<lambda>_. zero_page), total_blocks = 100\<rparr>"

definition sample_ram :: u64 where
  "sample_ram = 2 ^ 30"

lemma sample_valid: "valid_block sample_image k \<longleftrightarrow> k < 100"
  by (auto simp: valid_block_def sample_image_def)

lemma sample_size: "unat sample_ram < 2 ^ 61" "cache_size (alloc_cache sample_ram) = 16384"
proof -
  have u: "unat sample_ram = 2 ^ 30"
    by (simp add: sample_ram_def)
  then show l: "unat sample_ram < 2 ^ 61"
    by simp
  have "unat (size_policy sample_ram) = 16384"
    unfolding size_policy_cases [OF l] u by simp
  then show "cache_size (alloc_cache sample_ram) = 16384"
    by (simp add: alloc_cache_fields int_of_u64_small)
qed

subsection \<open>The rings\<close>

text \<open>
  C32: A ring is a list: a push followed by the assignment of the head puts a node with the
  given index in front, and a pop through a variable outside the ring takes out the node it
  points to, returns its index, keeps the order of the others and their indices, and moves
  the head when the head is taken.
\<close>

theorem ring_refines_list:
  assumes "ring_ok r xs"
  shows "(\<forall>a i. a \<notin> set xs \<longrightarrow> a \<noteq> 0 \<longrightarrow> (\<exists>r'. lru_push a i r = Some r' \<and> ring_ok (set_head a r') (a # xs) \<and>
      node_of r' a = i \<and> (\<forall>y \<in> set xs. node_of r' y = node_of r y))) \<and>
    (\<forall>x \<in> set xs. \<exists>r'. lru_pop (Other x) r = Some (node_of r x, r') \<and> ring_ok r' (remove1 x xs) \<and>
      (\<forall>y \<in> set xs - {x}. node_of r' y = node_of r y))"
proof (intro conjI allI impI ballI)
  have lab: "node_of r' y = (case ring_label r' y of None \<Rightarrow> -1 | Some i \<Rightarrow> i)" for r' y
    by (simp add: node_of_def idx_def split: option.split)
  show "\<exists>r'. lru_push a i r = Some r' \<and> ring_ok (set_head a r') (a # xs) \<and>
      node_of r' a = i \<and> (\<forall>y \<in> set xs. node_of r' y = node_of r y)" if "a \<notin> set xs" "a \<noteq> 0" for a i
    using ring_push_ok [OF assms that, of i] that by (auto simp: lru_push_def lab)
  show "\<exists>r'. lru_pop (Other x) r = Some (node_of r x, r') \<and> ring_ok r' (remove1 x xs) \<and>
      (\<forall>y \<in> set xs - {x}. node_of r' y = node_of r y)" if "x \<in> set xs" for x
    using ring_pop_ok [OF assms that] by (auto simp: lru_pop_def lab)
qed

theorem ring_refines_list_witness:
  "\<exists>r. ring_ok r [7] \<and> (\<exists>r'. lru_pop (Other 7) r = Some (3, r') \<and> ring_ok r' [])"
proof -
  obtain r where r: "ring_ok (set_head 7 r) [7]" "node_of r 7 = 3"
    using conjunct1 [OF ring_refines_list [OF ring_ok_empty], THEN spec, THEN spec, of 7 3] by auto
  have "node_of (set_head 7 r) 7 = 3"
    using r(2) by (simp add: node_of_def set_head_def)
  then have "\<exists>r'. lru_pop (Other 7) (set_head 7 r) = Some (3, r') \<and> ring_ok r' []"
    using conjunct2 [OF ring_refines_list [OF r(1)], THEN bspec, of 7] by auto
  then show ?thesis
    using r(1) by blast
qed

subsection \<open>The index\<close>

text \<open>
  C36: pci_delete is defined exactly when the block is in its chain behind a node of another
  block, since the code never sets prev to null. It then takes the block out of the index,
  and every other block keeps its slot.
\<close>

theorem pci_delete_behaviour:
  assumes "distinct (map pci_block (h (bucket b)))"
  shows "(pci_delete h b \<noteq> None) =
      (\<exists>n before rest. h (bucket b) = n # before @ rest \<and> pci_block n \<noteq> b \<and> rest \<noteq> [] \<and> pci_block (hd rest) = b) \<and>
    (\<forall>h'. pci_delete h b = Some h' \<longrightarrow>
      pci_lookup h' b = -1 \<and> (\<forall>b'. b' \<noteq> b \<longrightarrow> pci_lookup h' b' = pci_lookup h b'))"
proof (intro conjI allI impI)
  show "(pci_delete h b \<noteq> None) =
      (\<exists>n before rest. h (bucket b) = n # before @ rest \<and> pci_block n \<noteq> b \<and> rest \<noteq> [] \<and> pci_block (hd rest) = b)"
    by (rule pci_delete_defined_iff)
  fix h'
  assume "pci_delete h b = Some h'"
  then obtain cur behind where d: "dropWhile (\<lambda>n. pci_block n \<noteq> b) (h (bucket b)) = cur # behind"
    "h' = h(bucket b := takeWhile (\<lambda>n. pci_block n \<noteq> b) (h (bucket b)) @ behind)"
    by (auto simp: pci_delete_def Let_def split: if_splits list.splits)
  let ?w = "takeWhile (\<lambda>n. pci_block n \<noteq> b) (h (bucket b))"
  have split: "h (bucket b) = ?w @ cur # behind"
    using takeWhile_dropWhile_id [of "\<lambda>n. pci_block n \<noteq> b" "h (bucket b)"] d(1) by simp
  have cur: "pci_block cur = b"
    using hd_dropWhile [of "\<lambda>n. pci_block n \<noteq> b" "h (bucket b)"] d(1) by simp
  have w: "\<forall>n \<in> set ?w. pci_block n \<noteq> b"
    by (auto dest: set_takeWhileD)
  have "distinct (map pci_block (?w @ cur # behind))"
    by (rule subst [OF split, of "\<lambda>l. distinct (map pci_block l)"]) (rule assms)
  then have "pci_block cur \<notin> pci_block ` set behind"
    by simp
  then have "\<forall>n \<in> set behind. pci_block n \<noteq> b"
    unfolding cur by blast
  then show "pci_lookup h' b = -1"
    using w by (simp add: pci_lookup_def d(2) pci_walk_append pci_walk_absent)
  fix b'
  assume "b' \<noteq> b"
  then have "pci_walk (?w @ behind) b' = pci_walk (?w @ cur # behind) b'"
    using \<open>b' \<noteq> b\<close> cur by (simp add: pci_walk_append)
  then show "pci_lookup h' b' = pci_lookup h b'"
  proof -
    have "pci_lookup h' b' = (if bucket b' = bucket b then pci_walk (?w @ behind) b' else pci_walk (h (bucket b')) b')"
      by (simp add: pci_lookup_def d(2))
    also have "\<dots> = (if bucket b' = bucket b then pci_walk (h (bucket b)) b' else pci_walk (h (bucket b')) b')"
      using \<open>pci_walk (?w @ behind) b' = pci_walk (?w @ cur # behind) b'\<close> split by metis
    finally show ?thesis
      by (simp add: pci_lookup_def)
  qed
qed

theorem pci_delete_behaviour_witness:
  "\<exists>h'. pci_delete (pci_insert (pci_insert (\<lambda>_. []) 5 0) 37 1) 5 = Some h' \<and> pci_lookup h' 5 = -1 \<and> pci_lookup h' 37 = 1"
proof -
  let ?h = "pci_insert (pci_insert (\<lambda>_. []) 5 0) 37 1"
  have chain: "?h (bucket 5) = [\<lparr>pci_block = 37, pci_slot = 1\<rparr>, \<lparr>pci_block = 5, pci_slot = 0\<rparr>]"
    by (simp add: pci_insert_def bucket_def)
  then obtain h' where h': "pci_delete ?h 5 = Some h'"
    by (simp add: pci_delete_def)
  have "distinct (map pci_block (?h (bucket 5)))"
    by (simp add: chain)
  from conjunct2 [OF pci_delete_behaviour [of ?h 5, OF this], THEN spec, THEN mp, OF h']
  have "pci_lookup h' 5 = -1" "pci_lookup h' 37 = pci_lookup ?h 37"
    by auto
  moreover have "pci_lookup ?h 37 = 1"
    by (simp add: pci_lookup_insert int_of_u64_small)
  ultimately show ?thesis
    using h' by auto
qed

subsection \<open>Reading and writing blocks\<close>

text \<open>
  C18: get_block on a cache that has the block or a free slot returns a pointer to the content
  of the block as the program last wrote it, leaves the content of every block and the dirty
  blocks as they are, and keeps the invariant of the index, the slots, the buffers and the
  two rings; the block is in the cache afterwards.
\<close>

theorem get_block_keeps_cache:
  assumes "cache_ok c xs gs" "synced d c gs" "valid_block d (unat b)" "b \<in> cached c \<or> free_list c \<noteq> []"
  shows "\<exists>p c' xs'. get_block z d c inum b = Some (p, d, c') \<and> cache_ok c' xs' gs \<and> synced d c' gs \<and>
    heap c' p = Some (view d c (unat b)) \<and> cached c' = insert b (cached c) \<and> gdl c' = gdl c \<and>
    (\<forall>k. valid_block d k \<longrightarrow> view d c' k = view d c k)"
  using get_block_ok [OF assms, of z inum] unfolding fetched_def by blast

lemma sample_new_cache:
  "cache_ok (alloc_cache sample_ram) [] []" "free_list (alloc_cache sample_ram) \<noteq> []"
proof -
  have "unat (size_policy sample_ram) = 16384"
    using size_policy_cases [OF sample_size(1)] by (simp add: sample_ram_def)
  then show "cache_ok (alloc_cache sample_ram) [] []" "free_list (alloc_cache sample_ram) \<noteq> []"
    by (simp_all add: alloc_cache_ok alloc_cache_fields)
qed

theorem get_block_keeps_cache_witness:
  "\<exists>p c' xs'. get_block True sample_image (alloc_cache sample_ram) 0 7 = Some (p, sample_image, c') \<and>
     cache_ok c' xs' [] \<and> 7 \<in> cached c'"
proof -
  have "valid_block sample_image (unat (7 :: u64))"
    by (simp add: sample_valid)
  from get_block_keeps_cache [OF sample_new_cache(1) alloc_cache_synced this disjI2 [OF sample_new_cache(2)], of True 0]
  show ?thesis
    by blast
qed

text \<open>
  C19: If no inode has a dirty data block, or if the memory that malloc returns reads as null in
  the field that dl_push leaves unset, then cache_sync returns, and afterwards every block of the
  disk has the content the program saw through the cache; no block is dirty any more and the
  invariant holds.
\<close>

theorem cache_sync_writes_back:
  assumes "cache_ok c xs gs" "synced d c gs" "z \<or> dirty_list c = (\<lambda>_. [])"
  shows "\<exists>d' c'. cache_sync z d c = Some (d', c') \<and> cache_ok c' xs [] \<and>
    (\<forall>k. valid_block d k \<longrightarrow> page_at d' k = view d c k)"
  using cache_sync_ok [OF assms(1,2) assms(3) [folded lists_end_def]] by blast

text \<open>A page of the inode table, with one byte set.\<close>

definition sample_page :: page where
  "sample_page = zero_page(0 := 2, 4 := 9)"

lemma sample_page_type: "\<not> is_data_page sample_page"
  by (simp add: is_data_page_def sample_page_def rd32_def rd_bytes_def zero_page_def upt_rec)

lemma sample_dirty:
  "\<exists>c xs gs. cache_ok c xs gs \<and> synced sample_image c gs \<and> view sample_image c 7 = sample_page \<and> dirty_list c = (\<lambda>_. [])"
proof -
  have v: "valid_block sample_image (unat (7 :: u64))"
    by (simp add: sample_valid)
  obtain p c1 where f: "fetched sample_image (alloc_cache sample_ram) [] 7 p c1"
    using get_block_ok [OF sample_new_cache(1) alloc_cache_synced v disjI2 [OF sample_new_cache(2)]] by blast
  have "dirty_list c1 = (\<lambda>_. [])" using f by (simp add: fetched_def alloc_cache_fields)
  then obtain dl where dl: "noted False c1 sample_page 0 7 = Some dl" "dl = (\<lambda>_. [])"
    using noted_lists [of False c1 sample_page 0 7] sample_page_type by (auto simp: lists_end_def)
  show ?thesis
    using write_fetched [OF f dl(1)] dl(2) by (fastforce simp: view_upd)
qed

theorem cache_sync_writes_back_witness:
  "\<exists>c d' c'. cache_sync False sample_image c = Some (d', c') \<and> page_at d' 7 = sample_page"
proof -
  obtain c xs gs where "cache_ok c xs gs" "synced sample_image c gs" "view sample_image c 7 = sample_page"
    "dirty_list c = (\<lambda>_. [])"
    using sample_dirty by blast
  then show ?thesis
    using cache_sync_writes_back [of c xs gs sample_image False] sample_valid [of 7] by fastforce
qed

text \<open>
  C8: On a new cache a sequence of reads and updates of at most as many blocks as the cache has
  slots returns what the same sequence returns on the disk itself, and unmounting leaves the same
  disk, if no data block is handed to write_block, or if the memory that malloc returns reads as
  null in the field that dl_push leaves unset.
\<close>

theorem cached_run_is_direct:
  assumes "unat ram < 2 ^ 61" "\<forall>b \<in> access_block ` set as. valid_block d (unat b)"
    and "int (card (access_block ` set as)) \<le> cache_size (alloc_cache ram)" "z \<or> \<not> hands_data as d"
  shows "\<exists>out d1 c d2 m. direct_run as d = Some (out, d1) \<and> cached_run z as d (alloc_cache ram) = Some (out, d, c) \<and>
    nbtrfs_destroy z d c = Some (d2, m) \<and> (\<forall>k. valid_block d k \<longrightarrow> page_at d2 k = page_at d1 k)"
  using run_and_destroy [OF assms] by blast

definition sample_accesses :: "access list" where
  "sample_accesses = [Update 0 7 (\<lambda>p. p(0 := 2, 4 := 9)), Load 0 7, Update 0 8 (\<lambda>p. p(0 := 2, 4 := 9)), Load 0 7]"

lemma sample_accesses_ok:
  "\<forall>b \<in> access_block ` set sample_accesses. valid_block sample_image (unat b)"
  "int (card (access_block ` set sample_accesses)) \<le> cache_size (alloc_cache sample_ram)"
  "card (access_block ` set sample_accesses) = 2" "z \<or> \<not> hands_data sample_accesses sample_image"
proof -
  have "page_at sample_image 7 = zero_page" "page_at (set_page sample_image 7 sample_page) 8 = zero_page"
    by (simp_all add: page_at_def sample_image_def set_page_def)
  then show "z \<or> \<not> hands_data sample_accesses sample_image"
    using sample_page_type by (simp add: sample_accesses_def sample_page_def del: page_at_set_page)
qed (simp_all add: sample_accesses_def sample_valid sample_size card_insert_if)

theorem cached_run_is_direct_witness:
  "\<exists>out d1 c d2 m. direct_run sample_accesses sample_image = Some (out, d1) \<and>
    cached_run False sample_accesses sample_image (alloc_cache sample_ram) = Some (out, sample_image, c) \<and>
    nbtrfs_destroy False sample_image c = Some (d2, m) \<and> page_at d2 7 = page_at d1 7"
  using cached_run_is_direct [OF sample_size(1) sample_accesses_ok(1,2,4)] sample_valid [of 7] by fastforce

text \<open>
  C20: Whatever accesses to blocks of a set that fits into the cache and whatever syncs came
  before, in any order, the next access, a sync and the unmounting all have a defined behaviour
  and return, and the invariant of the cache holds, provided that no access hands a data block to
  write_block, or that the memory that malloc returns reads as null in the field that dl_push
  leaves unset.
\<close>

theorem reachable_is_safe:
  assumes "reachable z ram B d0 d c" "finite B" "unat ram < 2 ^ 61"
    and "int (card B) \<le> cache_size (alloc_cache ram)" "\<forall>b \<in> B. valid_block d0 (unat b)"
  shows "(\<exists>xs gs. cache_ok c xs gs) \<and>
    (\<forall>a. access_block a \<in> B \<longrightarrow> z \<or> \<not> hands_data [a] (shown d c) \<longrightarrow>
      (\<exists>out c'. cached_run z [a] d c = Some (out, d, c'))) \<and>
    (\<exists>d' c'. cache_sync z d c = Some (d', c')) \<and> (\<exists>d' m. nbtrfs_destroy z d c = Some (d', m))"
proof -
  have h: "holds_in z B d c"
    by (rule reachable_holds [OF assms(1,2) mount_holds [OF assms(3-5)]])
  then obtain xs gs where "cache_ok c xs gs" "synced d c gs" "lists_end z c"
    by (auto simp: holds_in_def)
  then show ?thesis
    using access_progress [OF h assms(2)] sync_progress [OF h] destroy_ok by blast
qed

theorem reachable_is_safe_witness:
  "\<exists>d c. reachable False sample_ram {7, 8} sample_image d c \<and> cached c \<noteq> {} \<and> (\<exists>d' m. nbtrfs_destroy False d c = Some (d', m))"
proof -
  have pre: "finite {7, 8 :: u64}" "int (card {7, 8 :: u64}) \<le> cache_size (alloc_cache sample_ram)"
    "\<forall>b \<in> {7, 8}. valid_block sample_image (unat (b :: u64))"
    by (simp_all add: sample_size sample_valid)
  have m: "reachable False sample_ram {7, 8} sample_image sample_image (alloc_cache sample_ram)"
    by (rule reachable.mount)
  have v: "valid_block sample_image (unat (7 :: u64))"
    by (simp add: sample_valid)
  obtain p c where c: "get_block False sample_image (alloc_cache sample_ram) 0 7 = Some (p, sample_image, c)" "7 \<in> cached c"
    "heap c p \<noteq> None"
    using get_block_ok [OF sample_new_cache(1) alloc_cache_synced v disjI2 [OF sample_new_cache(2)], of False 0]
    by (auto simp: fetched_def)
  then obtain page where "cached_run False [Load 0 7] sample_image (alloc_cache sample_ram) = Some ([page], sample_image, c)"
    by auto
  then have r: "reachable False sample_ram {7, 8} sample_image sample_image c"
    by (rule reachable.access [OF m, rotated -1]) simp_all
  then show ?thesis
    using reachable_is_safe [OF r pre(1) sample_size(1) pre(2,3)] c(2) by blast
qed

text \<open>
  C33: Unmounting frees every page and the list of dirty blocks, but of the recency list only
  its head: the first pop through the head pointer sets the pointer to null, and the loop
  leaves one node allocated for every other block that was used. This is for runs that hand no
  data block to write_block, or for memory that reads as null in the field that dl_push leaves
  unset; else unmounting may not get this far.
\<close>

theorem unmount_leaks_recency_list:
  assumes "unat ram < 2 ^ 61" "\<forall>b \<in> access_block ` set as. valid_block d (unat b)"
    and "int (card (access_block ` set as)) \<le> cache_size (alloc_cache ram)" "z \<or> \<not> hands_data as d"
  shows "\<exists>out c d2 m. cached_run z as d (alloc_cache ram) = Some (out, d, c) \<and> nbtrfs_destroy z d c = Some (d2, m) \<and>
    dom (pages_left m) = {} \<and> dom (gdl_left m) = {} \<and> card (dom (lru_left m)) = card (access_block ` set as) - 1"
  using run_and_destroy [OF assms] by blast

theorem unmount_leaks_recency_list_witness:
  "\<exists>out c d2 m. cached_run False sample_accesses sample_image (alloc_cache sample_ram) = Some (out, sample_image, c) \<and>
    nbtrfs_destroy False sample_image c = Some (d2, m) \<and> dom (lru_left m) \<noteq> {}"
proof -
  obtain out c d2 m where "cached_run False sample_accesses sample_image (alloc_cache sample_ram) = Some (out, sample_image, c)"
    "nbtrfs_destroy False sample_image c = Some (d2, m)" "card (dom (lru_left m)) = 1"
    using unmount_leaks_recency_list [OF sample_size(1) sample_accesses_ok(1,2) sample_accesses_ok(4) [of False]] sample_accesses_ok(3) by auto
  moreover from this(3) have "dom (lru_left m) \<noteq> {}"
    by auto
  ultimately show ?thesis
    by blast
qed

text \<open>
  C35: For every amount of memory below 2^61 bytes the new cache has between 16384 slots, that
  is 64 MiB, and 2097152 slots, that is 8 GiB. All of them are free, no block is cached, and
  the invariant holds.
\<close>

theorem alloc_cache_size:
  assumes "unat ram < 2 ^ 61"
  shows "16384 \<le> cache_size (alloc_cache ram) \<and> cache_size (alloc_cache ram) \<le> 2097152 \<and>
    int (length (free_list (alloc_cache ram))) = cache_size (alloc_cache ram) \<and>
    cached (alloc_cache ram) = {} \<and> cache_ok (alloc_cache ram) [] []"
proof -
  have b: "16384 \<le> unat (size_policy ram) \<and> unat (size_policy ram) \<le> 2097152"
    unfolding size_policy_cases [OF assms]
    by (auto simp: less_eq_div_iff_mult_less_eq min_def div_le_mono intro: order_trans [OF div_le_mono])
  then have "cache_size (alloc_cache ram) = int (unat (size_policy ram))"
    unfolding alloc_cache_fields by (intro int_of_u64_small) simp
  then obtain s where s: "cache_size (alloc_cache ram) = int s" "unat (size_policy ram) = s" "16384 \<le> s" "s \<le> 2097152"
    using b by blast
  then have "length (free_list (alloc_cache ram)) = s" "cache_ok (alloc_cache ram) [] []"
    by (simp_all add: alloc_cache_fields alloc_cache_ok)
  then show ?thesis
    using s by (simp add: alloc_cache_fields(10))
qed

theorem alloc_cache_size_witness:
  "cache_size (alloc_cache (2 ^ 36)) \<le> 2097152 \<and> cache_ok (alloc_cache (2 ^ 36)) [] []"
proof -
  have "unat (2 ^ 36 :: u64) < 2 ^ 61"
    by simp
  from alloc_cache_size [OF this] show ?thesis
    by simp
qed

text \<open>
  A store through the pointer of get_block that is not followed by write_block is seen by
  the program but lost on the disk: with no block on the global dirty list, cache_sync returns
  with the disk as it was.
\<close>

lemma store_without_write_lost:
  assumes "cache_ok c xs []" "synced d c []" "valid_block d (unat b)" "b \<in> cached c \<or> free_list c \<noteq> []"
  shows "\<exists>p c1. get_block z d c n b = Some (p, d, c1) \<and> heap c1 p = Some (view d c (unat b)) \<and>
    view d (store c1 p pg) (unat b) = pg \<and> cache_sync z d (store c1 p pg) = Some (d, store c1 p pg)"
proof -
  obtain p c1 where 1: "get_block z d c n b = Some (p, d, c1)" "fetched d c [] b p c1"
    using get_block_ok [OF assms] by blast
  then have f: "heap c1 p = Some (view d c (unat b))" "p = page_data (at c1 (slot c1 b))" "b \<in> cached c1" "gdl c1 = gdl c"
    by (auto simp: fetched_def)
  have "at (store c1 p pg) = at c1"
    by (simp add: store_def at_def fun_eq_iff)
  then have "view d (store c1 p pg) (unat b) = pg"
    using f(2,3) by (simp add: view_def cached_page_def) (simp add: store_def)
  moreover have "ring_size (gdl (store c1 p pg)) = 0"
    using assms(1) f(4) by (simp add: cache_ok_def gdl_ok_def ring_ok_def store_def)
  then have "cache_sync z d (store c1 p pg) = Some (d, store c1 p pg)"
    by (simp add: cache_sync_def)
  ultimately show ?thesis
    using 1(1) f(1) by blast
qed

lemma store_without_write_lost_witness:
  "\<exists>p c1. get_block True sample_image (alloc_cache sample_ram) 0 7 = Some (p, sample_image, c1) \<and>
    cache_sync True sample_image (store c1 p (zero_page(4 := 9))) = Some (sample_image, store c1 p (zero_page(4 := 9)))"
proof -
  have "valid_block sample_image (unat (7 :: u64))"
    by (simp add: sample_valid)
  from store_without_write_lost [OF sample_new_cache(1) alloc_cache_synced this disjI2 [OF sample_new_cache(2)]]
  show ?thesis
    by blast
qed

subsection \<open>Where the cache stops\<close>

text \<open>
  C21: When no slot is free and two or more blocks are cached, get_block of another block has no
  defined behaviour, whether the evicted block is dirty or not: the pop through the prev field
  of the head leaves the field null, and the following push dereferences it.
\<close>

theorem eviction_undefined:
  assumes "cache_ok c xs gs" "b \<notin> cached c" "free_list c = []" "2 \<le> card (cached c)"
  shows "get_block z d c n b = None"
  by (rule full_cache_stuck [OF assms])

text \<open>A cache with two slots, both in use.\<close>

definition two_slots :: cache where
  "two_slots = (alloc_cache sample_ram)\<lparr>cache_size := 2, entries := replicate 2 blank_entry, free_list := [1, 0]\<rparr>"

lemma two_slots_ok: "cache_ok two_slots [] []" "cached two_slots = {}" "synced sample_image two_slots []"
proof -
  note f = alloc_cache_fields [of sample_ram]
  have c: "cached two_slots = {}"
    by (simp add: two_slots_def f index.known_empty)
  have "slots_ok two_slots"
    unfolding slots_ok_def c by (simp add: two_slots_def f)
  moreover have "lru_ok two_slots []" "gdl_ok two_slots []"
    unfolding lru_ok_def gdl_ok_def c by (simp_all add: two_slots_def f ring_ok_empty)
  moreover have "page_data (at two_slots i) = 0 \<and> i \<in> {0, 1}" if "0 \<le> i" "i < 2" for i
  proof -
    have "i = 0 \<or> i = 1"
      using that by auto
    then show ?thesis
      by (auto simp: at_def two_slots_def blank_entry_def)
  qed
  then have "buffers_ok two_slots"
    unfolding buffers_ok_def c by (auto simp: two_slots_def f)
  ultimately show "cache_ok two_slots [] []"
    by (simp add: cache_ok_def)
  show "synced sample_image two_slots []"
    by (simp add: synced_def c)
  show "cached two_slots = {}"
    by (rule c)
qed

theorem eviction_undefined_witness:
  "\<exists>out c. cached_run True [Load 0 7, Load 0 8] sample_image two_slots = Some (out, sample_image, c) \<and>
     get_block True sample_image c 0 9 = None"
proof -
  let ?as = "[Load 0 7, Load 0 8]"
  have pre: "finite {7, 8 :: u64}" "cached two_slots \<subseteq> {7, 8}" "access_block ` set ?as \<subseteq> {7, 8}"
    "card {7, 8 :: u64} \<le> length (entries two_slots)" "\<forall>b \<in> {7, 8}. valid_block sample_image (unat (b :: u64))"
    unfolding two_slots_ok(2) by (simp_all add: two_slots_def sample_valid)
  have ag: "agrees sample_image sample_image two_slots"
    by (simp add: agrees_def view_def cached_page_def two_slots_ok(2))
  obtain out c xs gs where r: "cached_run True ?as sample_image two_slots = Some (out, sample_image, c)"
    "cache_ok c xs gs" "cached c = cached two_slots \<union> {7, 8}" "length (entries c) = length (entries two_slots)"
    using cached_run_ok [OF two_slots_ok(1,3) ag pre, of True] by auto
  have c: "cached c = {7, 8}" "card (cached c) = 2" "9 \<notin> cached c"
    using r(3) by (simp_all add: two_slots_ok(2))
  have "length (free_list c) = 0"
    using slots_okD(12) [of c] r(2,4) c(2) by (simp add: cache_ok_def two_slots_def)
  then show ?thesis
    using r(1) eviction_undefined [OF r(2) c(3)] c(2) by auto
qed

text \<open>
  C31: When the memory that malloc returns does not read as null, one data block of an inode can
  be written, but then cache_sync and with it unmounting have no defined behaviour, and neither
  has writing a second data block of the inode: each follows the next field of the last node of
  the inode's dirty list, which the code never sets.
\<close>

theorem second_dirty_block_undefined:
  assumes "cache_ok c xs gs" "synced d c gs" "dl_lookup (dirty_list c) n = None" "cached c = {}" "2 \<le> length (entries c)"
    and "valid_block d (unat b)" "valid_block d (unat b')" "b' \<noteq> b"
    and "rd32 (f (view d c (unat b))) 0 = block_type_code BLOCK_TYPE_DATA"
    and "rd32 (g (view d c (unat b'))) 0 = block_type_code BLOCK_TYPE_DATA"
  shows "cached_run False [Update n b f, Update n b' g] d c = None \<and>
    (\<exists>c1. cached_run False [Update n b f] d c = Some ([], d, c1) \<and> cache_sync False d c1 = None \<and>
      nbtrfs_destroy False d c1 = None)"
proof (rule conjI)
  show "cached_run False [Update n b f, Update n b' g] d c = None"
    by (rule two_dirty_blocks [where f = f and g = g, OF assms(1-3,6-8,4,5,9,10)])
  have gs: "gs = []"
    using assms(1,4) by (cases gs) (auto simp: cache_ok_def gdl_ok_def)
  have i: "slots_ok c" using assms(1) by (simp add: cache_ok_def)
  have "b \<notin> cached c" "free_list c \<noteq> []"
    using assms(4,5) slots_okD(12) [OF i] by auto
  from first_dirty_block [where f = f, OF assms(1,2) [unfolded gs] assms(3,6) this assms(9)]
  show "\<exists>c1. cached_run False [Update n b f] d c = Some ([], d, c1) \<and> cache_sync False d c1 = None \<and>
      nbtrfs_destroy False d c1 = None"
    by (auto simp: nbtrfs_destroy_def)
qed

lemma zero_page_data: "rd32 zero_page 0 = block_type_code BLOCK_TYPE_DATA"
  by (simp add: rd32_def rd_bytes_def zero_page_def upt_rec)

lemma sample_view: "view sample_image two_slots k = zero_page"
  by (simp add: view_def cached_page_def two_slots_ok(2)) (simp add: page_at_def sample_image_def)

lemma two_slots_fields: "dl_lookup (dirty_list two_slots) n = None" "length (entries two_slots) = 2" "free_list two_slots = [1, 0]"
  by (simp_all add: two_slots_def alloc_cache_fields dl_lookup_def)

theorem second_dirty_block_undefined_witness:
  "cached_run False [Update 3 7 (\<lambda>p. p), Update 3 8 (\<lambda>p. p)] sample_image two_slots = None \<and>
   (\<exists>c1. cached_run False [Update 3 7 (\<lambda>p. p)] sample_image two_slots = Some ([], sample_image, c1) \<and>
     cache_sync False sample_image c1 = None \<and> nbtrfs_destroy False sample_image c1 = None)"
  by (rule second_dirty_block_undefined [where f = "\<lambda>p. p" and g = "\<lambda>p. p" and n = 3 and b = 7 and b' = 8, OF two_slots_ok(1,3)])
    (simp_all add: two_slots_ok(2) two_slots_fields sample_valid sample_view zero_page_data del: block_type_code.simps)

text \<open>
  C34: A data block of an inode without dirty blocks that is updated and then written back with
  cache_fsync is on the disk with its new content, no other block of the disk has changed, and
  the inode has no dirty blocks. This does not depend on what malloc returns.
\<close>

theorem fsync_writes_block:
  assumes "cache_ok c xs gs" "synced d c gs" "valid_block d (unat b)" "b \<in> cached c \<or> free_list c \<noteq> []"
    and "dl_lookup (dirty_list c) n = None"
    and "rd32 (f (view d c (unat b))) 0 = block_type_code BLOCK_TYPE_DATA"
  shows "\<exists>c1 d2 c2. cached_run z [Update n b f] d c = Some ([], d, c1) \<and> cache_fsync z d c1 n = Some (d2, c2) \<and>
    page_at d2 (unat b) = f (view d c (unat b)) \<and> (\<forall>k. k \<noteq> unat b \<longrightarrow> page_at d2 k = page_at d k) \<and>
    dl_lookup (dirty_list c2) n = None"
  using update_then_fsync [where f = f and z = z, OF assms] by fastforce

theorem fsync_writes_block_witness:
  "\<exists>c1 d2 c2. cached_run False [Update 3 7 (\<lambda>p. p)] sample_image two_slots = Some ([], sample_image, c1) \<and>
    cache_fsync False sample_image c1 3 = Some (d2, c2) \<and> page_at d2 7 = zero_page"
proof -
  have "valid_block sample_image (unat (7 :: u64))"
    by (simp add: sample_valid)
  from fsync_writes_block [where f = "\<lambda>p. p" and n = 3 and z = False, OF two_slots_ok(1,3) this] show ?thesis
    by (simp add: two_slots_fields sample_view zero_page_data del: block_type_code.simps) blast
qed

end
