(* ===== verification/Session.thy ===== *)
theory Session
  imports Fuse Cache
begin

text \<open>
  The table of handlers that \<open>nbtrfs_init_ops\<close> fills for libfuse, as the function from a
  request to the handler it is given to; a session, which is a sequence of requests; and the
  globals as \<open>main\<close> sets them before it calls \<open>fuse_main\<close>. libfuse itself is not modelled: the
  requests are arbitrary.
\<close>

datatype fuse_request =
    ACCESS "u8 list"
  | GETATTR "u8 list"
  | READDIR "u8 list"
  | MKNOD "u8 list" u32
  | CREATE "u8 list" u32
  | MKDIR "u8 list" u32
  | LINK "u8 list" "u8 list"
  | UNLINK "u8 list"
  | RMDIR "u8 list"
  | RENAME "u8 list" "u8 list"
  | CHMOD "u8 list" u32
  | TRUNCATE "u8 list" nat
  | OPEN "u8 list"
  | READ "u8 list" u64 nat
  | WRITE "u8 list" "u8 list" nat
  | UTIMENS "u8 list" "u64 \<times> u64" "u64 \<times> u64"
  | IOCTL "u8 list" int

datatype fuse_reply =
    Status int
  | Attributes int "Stat option"
  | Entries int "(u8 list \<times> Stat) list"
  | Data int "u8 list"

text \<open>The reply of a handler that changes the disk is its return value.\<close>

definition status :: "(int \<times> DiskInterface) option \<Rightarrow> (fuse_reply \<times> DiskInterface) option" where
  "status r = map_option (\<lambda>(rv, d). (Status rv, d)) r"

fun nbtrfs_ops :: "Env \<Rightarrow> fuse_request \<Rightarrow> DiskInterface \<Rightarrow> (fuse_reply \<times> DiskInterface) option" where
  "nbtrfs_ops E (ACCESS path) d = map_option (\<lambda>rv. (Status rv, d)) (nbtrfs_access d path)"
| "nbtrfs_ops E (GETATTR path) d = map_option (\<lambda>(rv, st). (Attributes rv st, d)) (nbtrfs_getattr d path)"
| "nbtrfs_ops E (READDIR path) d = map_option (\<lambda>(rv, es). (Entries rv es, d)) (nbtrfs_readdir d path)"
| "nbtrfs_ops E (MKNOD path mode) d = status (nbtrfs_mknod E d path mode)"
| "nbtrfs_ops E (CREATE path mode) d = status (nbtrfs_create E d path mode)"
| "nbtrfs_ops E (MKDIR path mode) d = status (nbtrfs_mkdir E d path mode)"
| "nbtrfs_ops E (LINK from_path to_path) d = status (nbtrfs_link E d from_path to_path)"
| "nbtrfs_ops E (UNLINK path) d = status (nbtrfs_unlink d path)"
| "nbtrfs_ops E (RMDIR path) d = status (nbtrfs_rmdir d path)"
| "nbtrfs_ops E (RENAME from_path to_path) d = status (nbtrfs_rename E d from_path to_path)"
| "nbtrfs_ops E (CHMOD path mode) d = status (nbtrfs_chmod d path mode)"
| "nbtrfs_ops E (TRUNCATE path len) d = status (nbtrfs_truncate d path len)"
| "nbtrfs_ops E (OPEN path) d = status (nbtrfs_open d path)"
| "nbtrfs_ops E (READ path len offset) d = map_option (\<lambda>(rv, bs). (Data rv bs, d)) (nbtrfs_read d path len offset)"
| "nbtrfs_ops E (WRITE path buf offset) d = status (nbtrfs_write E d path buf offset)"
| "nbtrfs_ops E (UTIMENS path ts0 ts1) d = status (nbtrfs_utimens d path ts0 ts1)"
| "nbtrfs_ops E (IOCTL path cmd) d = status (nbtrfs_ioctl d path cmd)"

fun session :: "(Env \<times> fuse_request) list \<Rightarrow> DiskInterface \<Rightarrow> (fuse_reply list \<times> DiskInterface) option" where
  "session [] d = Some ([], d)"
| "session ((E, r) # rs) d = do {
     (reply, d1) \<leftarrow> nbtrfs_ops E r d;
     (replies, d2) \<leftarrow> session rs d1;
     Some (reply # replies, d2)
   }"

lemma session_append:
  "session (rs @ ss) d = do {
     (out1, d1) \<leftarrow> session rs d;
     (out2, d2) \<leftarrow> session ss d1;
     Some (out1 @ out2, d2)
   }"
proof (induction rs arbitrary: d)
  case Nil
  show ?case by (cases "session ss d") auto
next
  case (Cons a rs)
  obtain E r where a: "a = (E, r)" by (cases a)
  show ?case
  proof (cases "nbtrfs_ops E r d")
    case (Some x)
    then show ?thesis
      by (cases x; cases "session rs (snd x)") (auto simp: a Cons split: Option.bind_splits)
  qed (simp add: a)
qed

text \<open>Requests that only read.\<close>

fun read_only :: "fuse_request \<Rightarrow> bool" where
  "read_only (ACCESS path) = True"
| "read_only (GETATTR path) = True"
| "read_only (READDIR path) = True"
| "read_only (TRUNCATE path len) = True"
| "read_only (OPEN path) = True"
| "read_only (READ path len offset) = True"
| "read_only (IOCTL path cmd) = True"
| "read_only _ = False"

lemma read_only_disk: "read_only r \<Longrightarrow> nbtrfs_ops E r d = Some (reply, d') \<Longrightarrow> d' = d"
  by (cases r) (auto simp: status_def nbtrfs_truncate_def nbtrfs_open_def nbtrfs_ioctl_def)

lemma read_only_session:
  "\<forall>(E, r) \<in> set rs. read_only r \<Longrightarrow> session rs d = Some (out, d') \<Longrightarrow> d' = d"
proof (induction rs arbitrary: out)
  case (Cons a rs)
  then show ?case
    using read_only_disk by (cases a) (fastforce simp: bind_pair_Some_iff)
qed simp

text \<open>
  \<open>main\<close>: the image is the last argument. A null pointer that \<open>disk_open\<close> returned is kept in
  the global \<open>disk\<close>, here \<open>None\<close>.
\<close>

definition nbtrfs_main ::
    "u8 list list \<Rightarrow> (u8 list \<Rightarrow> u8 list option) \<Rightarrow> u64 \<Rightarrow> (DiskInterface option \<times> cache) option" where
  "nbtrfs_main argv files ram =
     (if argv = [] then None else do {
        disk \<leftarrow> disk_open (files (last argv));
        Some (disk, alloc_cache ram)
      })"

end
