(* ===== verification/Store_Spec.thy ===== *)
theory Store_Spec
  imports Session File_Data
begin

text \<open>
  What the file system promises: an abstract store of directories and files, the reply and the new
  store for each request, and the requests for which the promise is made. A file is the list of
  its bytes, a directory the list of its names; there are no blocks, bitmaps, trees or hashes here.
\<close>

subsection \<open>The store\<close>

datatype content =
    Bytes "u8 list"
  | Names "(u8 list \<times> nat) list"

record afile =
  f_mode :: u32
  f_uid :: u32
  f_gid :: u32
  f_links :: u64
  f_ctime :: u64
  f_mtime :: u64
  f_atime :: u64
  f_content :: content

text \<open>
  The names of a directory stand in its order, each with an inode number. The files and
  directories of the store are listed by inode number, where number 0 is the root directory; the
  limits are the blocks and inodes that the volume has for them.
\<close>

record store =
  files :: "afile list"
  block_limit :: nat
  inode_limit :: nat

fun bytes_in :: "content \<Rightarrow> u8 list" where
  "bytes_in (Bytes xs) = xs"
| "bytes_in (Names ns) = []"

fun names_in :: "content \<Rightarrow> (u8 list \<times> nat) list" where
  "names_in (Bytes xs) = []"
| "names_in (Names ns) = ns"

fun holds_names :: "content \<Rightarrow> bool" where
  "holds_names (Bytes xs) = False"
| "holds_names (Names ns) = True"

abbreviation "f_data f \<equiv> bytes_in (f_content f)"

abbreviation "f_names f \<equiv> names_in (f_content f)"

abbreviation "is_dir f \<equiv> holds_names (f_content f)"

lemma not_dir: "\<not> is_dir f \<longleftrightarrow> f_content f = Bytes (f_data f)"
  by (cases "f_content f") simp_all

lemma dir_names: "is_dir f \<longleftrightarrow> f_content f = Names (f_names f)"
  by (cases "f_content f") simp_all

definition stat_file :: "afile \<Rightarrow> nat \<Rightarrow> Stat" where
  "stat_file f i = \<lparr>
     st_mode = f_mode f,
     st_size = of_nat (length (f_data f)),
     st_uid = f_uid f,
     st_gid = f_gid f,
     st_nlink = f_links f,
     st_ctime = f_ctime f,
     st_mtime = f_mtime f,
     st_atime = f_atime f,
     st_ino = of_nat i\<rparr>"

definition new_file :: "Env \<Rightarrow> u32 \<Rightarrow> afile" where
  "new_file E mode = \<lparr>f_mode = mode, f_uid = env_uid E, f_gid = env_gid E, f_links = 1,
     f_ctime = env_time E, f_mtime = 0, f_atime = 0,
     f_content = (if mode AND S_IFMT = FILE_TYPE_DIRECTORY then Names [] else Bytes [])\<rparr>"

subsection \<open>Paths\<close>

text \<open>The names between the slashes of an absolute path.\<close>

function segments :: "u8 list \<Rightarrow> u8 list list" where
  "segments [] = []"
| "segments (c # cs) = takeWhile (\<lambda>x. x \<noteq> slash) cs # segments (dropWhile (\<lambda>x. x \<noteq> slash) cs)"
  by pat_completeness auto
termination
  by (relation "measure length") (simp_all add: le_imp_less_Suc length_dropWhile_le)

definition names_of :: "u8 list \<Rightarrow> u8 list list" where
  "names_of path = (if path = [slash] then [] else segments path)"

lemma names_of_path:
  assumes "list_all name_ok names"
  shows "names_of (path_of names) = names"
proof -
  have "segments (concat (map ((#) slash) names)) = names"
    using assms
  proof (induction names)
    case (Cons s names)
    have s: "\<forall>x\<in>set s. x \<noteq> slash" using Cons.prems by (auto simp: name_ok_def)
    have t: "takeWhile (\<lambda>x. x \<noteq> slash) (s @ concat (map ((#) slash) names)) = s"
      "dropWhile (\<lambda>x. x \<noteq> slash) (s @ concat (map ((#) slash) names)) = concat (map ((#) slash) names)"
      using s by (cases names; simp add: takeWhile_append2 dropWhile_append2)+
    show ?case using Cons by (simp add: t)
  qed simp
  moreover have "path_of names \<noteq> [slash]" if "names \<noteq> []"
    using that assms by (cases names) (simp_all add: path_of_def name_ok_def)
  ultimately show ?thesis by (simp add: names_of_def path_of_def)
qed

text \<open>The inode that the names lead to from a directory.\<close>

fun lookup :: "afile list \<Rightarrow> nat \<Rightarrow> u8 list list \<Rightarrow> nat option" where
  "lookup fs i [] = Some i"
| "lookup fs i (s # ss) =
     (case f_content (fs ! i) of
        Bytes xs \<Rightarrow> None
      | Names ns \<Rightarrow> (case map_of ns s of None \<Rightarrow> None | Some j \<Rightarrow> lookup fs j ss))"

definition resolve :: "store \<Rightarrow> u8 list \<Rightarrow> nat option" where
  "resolve s path = lookup (files s) 0 (names_of path)"

text \<open>The inode that \<open>chmod\<close> and \<open>utimens\<close> change: a path that is missing stands for the root there.\<close>

definition target :: "store \<Rightarrow> u8 list \<Rightarrow> nat" where
  "target s path = (case resolve s path of None \<Rightarrow> 0 | Some i \<Rightarrow> i)"

definition parent_dir :: "store \<Rightarrow> u8 list \<Rightarrow> nat option" where
  "parent_dir s path = lookup (files s) 0 (butlast (names_of path))"

lemma lookup_append:
  "lookup fs i (xs @ ys) = (case lookup fs i xs of None \<Rightarrow> None | Some j \<Rightarrow> lookup fs j ys)"
  by (induction xs arbitrary: i) (auto split: content.splits option.splits)

subsection \<open>The requests\<close>

definition add_name :: "nat \<Rightarrow> u8 list \<Rightarrow> nat \<Rightarrow> afile list \<Rightarrow> afile list" where
  "add_name p name i fs = fs[p := (fs ! p)\<lparr>f_content := Names (f_names (fs ! p) @ [(name, i)])\<rparr>]"

definition add_file :: "Env \<Rightarrow> u8 list \<Rightarrow> u32 \<Rightarrow> store \<Rightarrow> store" where
  "add_file E path mode s = (case parent_dir s path of
     None \<Rightarrow> s
   | Some p \<Rightarrow> s\<lparr>files := add_name p (last (names_of path)) (length (files s)) (files s) @ [new_file E mode]\<rparr>)"

definition set_file :: "nat \<Rightarrow> afile \<Rightarrow> store \<Rightarrow> store" where
  "set_file i f s = s\<lparr>files := (files s)[i := f]\<rparr>"

definition add_link :: "nat \<Rightarrow> u8 list \<Rightarrow> store \<Rightarrow> store" where
  "add_link i path s = (case parent_dir s path of
     None \<Rightarrow> s
   | Some p \<Rightarrow> s\<lparr>files := add_name p (last (names_of path)) i
       ((files s)[i := (files s ! i)\<lparr>f_links := f_links (files s ! i) + 1\<rparr>])\<rparr>)"

definition spliced :: "u8 list \<Rightarrow> nat \<Rightarrow> u8 list \<Rightarrow> u8 list" where
  "spliced xs off buf = take off xs @ buf @ drop (off + length buf) xs"

definition put_data :: "nat \<Rightarrow> u8 list \<Rightarrow> nat \<Rightarrow> store \<Rightarrow> fuse_reply \<times> store" where
  "put_data i buf off s =
     (let f = files s ! i
      in (Status (int (length buf)), set_file i (f\<lparr>f_content := Bytes (spliced (f_data f) off buf)\<rparr>) s))"

text \<open>A listing: the directory itself, the one above it unless it is the root, and its names.\<close>

definition listing :: "store \<Rightarrow> u8 list \<Rightarrow> nat \<Rightarrow> (u8 list \<times> Stat) list" where
  "listing s path i =
     ([0x2E], stat_file (files s ! i) i) #
     (if path = [slash] then []
      else case parent_dir s path of None \<Rightarrow> [] | Some p \<Rightarrow> [([0x2E, 0x2E], stat_file (files s ! p) p)]) @
     map (\<lambda>(name, j). (name, stat_file (files s ! j) j)) (f_names (files s ! i))"

fun store_spec :: "Env \<Rightarrow> fuse_request \<Rightarrow> store \<Rightarrow> fuse_reply \<times> store" where
  "store_spec E (ACCESS path) s = (Status (if resolve s path = None then - ENOENT else 0), s)"
| "store_spec E (GETATTR path) s =
     (case resolve s path of
        None \<Rightarrow> Attributes (- ENOENT) None
      | Some i \<Rightarrow> Attributes 0 (Some (stat_file (files s ! i) i)), s)"
| "store_spec E (READDIR path) s = (Entries 0 (listing s path (target s path)), s)"
| "store_spec E (MKNOD path mode) s = (Status 0, add_file E path mode s)"
| "store_spec E (CREATE path mode) s = (Status 0, add_file E path (mode OR S_IFREG) s)"
| "store_spec E (MKDIR path mode) s = (Status 0, add_file E path (mode OR S_IFDIR) s)"
| "store_spec E (LINK from_path to_path) s = (Status 0, add_link (target s from_path) to_path s)"
| "store_spec E (CHMOD path mode) s =
     (let i = target s path in (Status 0, set_file i ((files s ! i)\<lparr>f_mode := mode\<rparr>) s))"
| "store_spec E (UTIMENS path ts0 ts1) s =
     (let i = target s path
      in (Status 0, set_file i ((files s ! i)\<lparr>f_atime := fst ts0 * 1000000000 + snd ts0,
            f_mtime := fst ts1 * 1000000000 + snd ts1\<rparr>) s))"
| "store_spec E (TRUNCATE path len) s = (Status 0, s)"
| "store_spec E (OPEN path) s = (Status 0, s)"
| "store_spec E (IOCTL path cmd) s = (Status (-1), s)"
| "store_spec E (READ path len off) s =
     (case resolve s path of
        None \<Rightarrow> Data (- ENOENT) []
      | Some i \<Rightarrow> if is_dir (files s ! i) then Data (- EISDIR) []
          else let bytes = take (unat len) (drop off (f_data (files s ! i)))
               in Data (int (length bytes)) bytes, s)"
| "store_spec E (WRITE path buf off) s =
     (case resolve s path of
        None \<Rightarrow> put_data (length (files s)) buf off (add_file E path (S_IFREG OR 0x1A4) s)
      | Some i \<Rightarrow> if is_dir (files s ! i) then (Status (- EISDIR), s) else put_data i buf off s)"
| "store_spec E _ s = (Status 0, s)"

subsection \<open>Where the promise is made\<close>

text \<open>
  The blocks that the store takes: for a file its pages, for a directory the root of its tree, a
  leaf for each name and a block for the entries, which holds 15 of them.
\<close>

definition pages :: "nat \<Rightarrow> nat" where
  "pages len = (len + USABLE_BLOCK_SIZE - 1) div USABLE_BLOCK_SIZE"

fun blocks_of :: "content \<Rightarrow> nat" where
  "blocks_of (Bytes xs) = pages (length xs)"
| "blocks_of (Names ns) = 1 + (if ns = [] then 0 else 1) + length ns"

fun fits_inode :: "content \<Rightarrow> bool" where
  "fits_inode (Bytes xs) = (length xs \<le> max_direct)"
| "fits_inode (Names ns) = (length ns \<le> 15)"

definition blocks_needed :: "store \<Rightarrow> nat" where
  "blocks_needed s = sum_list (map (blocks_of \<circ> f_content) (files s))"

definition has_room :: "store \<Rightarrow> bool" where
  "has_room s \<longleftrightarrow> length (files s) \<le> inode_limit s \<and> blocks_needed s \<le> block_limit s \<and>
     list_all (fits_inode \<circ> f_content) (files s)"

text \<open>
  A path that goes through directories only, and at the first name that is missing has a hash
  that no other name of the directory has; a path for a new name. A name can be made in the root
  directory or in a directory of the root, but only names of the root are found afterwards:
  \<open>write\<close> makes a file in the root only, and \<open>readdir\<close>, which searches for each name it lists, is
  for the root and for empty directories. \<open>rename\<close>, \<open>unlink\<close> and \<open>rmdir\<close> are left out.
\<close>

definition free_hash :: "(u8 list \<times> nat) list \<Rightarrow> u8 list \<Rightarrow> bool" where
  "free_hash ns name \<longleftrightarrow> path_hash name \<notin> (path_hash \<circ> fst) ` set ns"

fun clear :: "afile list \<Rightarrow> nat \<Rightarrow> u8 list list \<Rightarrow> bool" where
  "clear fs i [] = True"
| "clear fs i (s # ss) =
     (case f_content (fs ! i) of
        Bytes xs \<Rightarrow> False
      | Names ns \<Rightarrow> (case map_of ns s of None \<Rightarrow> free_hash ns s | Some j \<Rightarrow> clear fs j ss))"

lemma clear_append:
  "clear fs i (xs @ ys) \<longleftrightarrow> clear fs i xs \<and> (case lookup fs i xs of None \<Rightarrow> True | Some j \<Rightarrow> clear fs j ys)"
  by (induction xs arbitrary: i) (auto split: content.splits option.splits)

text \<open>
  The search for a path is defined as long as it finds at most one name: a second one makes
  \<open>item_search\<close> extend its buffer with itself.
\<close>

definition searchable :: "afile list \<Rightarrow> nat \<Rightarrow> u8 list list \<Rightarrow> bool" where
  "searchable fs i names \<longleftrightarrow> length names \<le> 1 \<or> lookup fs i (take 2 names) = None"

definition path_ok :: "store \<Rightarrow> u8 list \<Rightarrow> bool" where
  "path_ok s path \<longleftrightarrow> path = path_of (names_of path) \<and> names_ok (names_of path) \<and> clear (files s) 0 (names_of path) \<and>
     searchable (files s) 0 (names_of path)"

definition new_path_ok :: "Env \<Rightarrow> store \<Rightarrow> u8 list \<Rightarrow> bool" where
  "new_path_ok E s path \<longleftrightarrow> path_ok s path \<and> resolve s path = None \<and> parent_dir s path \<noteq> None \<and>
     new_name_ok (last (names_of path)) \<and> length (entry_name (env_junk E)) = NAME_MAX"

fun admissible :: "Env \<Rightarrow> fuse_request \<Rightarrow> store \<Rightarrow> bool" where
  "admissible E (ACCESS path) s = path_ok s path"
| "admissible E (GETATTR path) s = path_ok s path"
| "admissible E (READDIR path) s = (path_ok s path \<and> resolve s path \<noteq> None \<and> is_dir (files s ! target s path) \<and>
     (names_of path = [] \<or> f_names (files s ! target s path) = []))"
| "admissible E (MKNOD path mode) s = new_path_ok E s path"
| "admissible E (CREATE path mode) s = new_path_ok E s path"
| "admissible E (MKDIR path mode) s = new_path_ok E s path"
| "admissible E (LINK from_path to_path) s = (path_ok s from_path \<and> resolve s from_path \<noteq> None \<and>
     \<not> is_dir (files s ! target s from_path) \<and>
     f_mode (files s ! target s from_path) AND S_IFMT \<noteq> FILE_TYPE_DIRECTORY \<and> new_path_ok E s to_path)"
| "admissible E (CHMOD path mode) s = path_ok s path"
| "admissible E (UTIMENS path ts0 ts1) s = path_ok s path"
| "admissible E (TRUNCATE path len) s = True"
| "admissible E (OPEN path) s = True"
| "admissible E (IOCTL path cmd) s = True"
| "admissible E (READ path len off) s = (path_ok s path \<and> off < 2 ^ 63 \<and> unat len < 2 ^ 63)"
| "admissible E (WRITE path buf off) s = (case resolve s path of
       None \<Rightarrow> new_path_ok E s path \<and> length (names_of path) \<le> 1 \<and> off = 0
     | Some i \<Rightarrow> path_ok s path \<and> (is_dir (files s ! i) \<or> off \<le> length (f_data (files s ! i))))"
| "admissible E _ s = False"

text \<open>A request is served when it is admissible and its result has room on the volume.\<close>

definition served :: "Env \<times> fuse_request \<Rightarrow> store \<Rightarrow> bool" where
  "served q s \<longleftrightarrow> admissible (fst q) (snd q) s \<and> has_room (snd (store_spec (fst q) (snd q) s))"

definition request_spec :: "Env \<times> fuse_request \<Rightarrow> store \<Rightarrow> fuse_reply \<times> store" where
  "request_spec q s = store_spec (fst q) (snd q) s"

definition new_store :: "nat \<Rightarrow> u32 \<Rightarrow> u32 \<Rightarrow> store" where
  "new_store n uid gid = \<lparr>files = [\<lparr>f_mode = S_IFDIR OR 0x1ED, f_uid = uid, f_gid = gid, f_links = 1,
       f_ctime = 0, f_mtime = 0, f_atime = 0, f_content = Names []\<rparr>],
     block_limit = n - lay_root n, inode_limit = n div 88 * 22\<rparr>"

end
