(* ===== verification/Store_Relation.thy ===== *)
theory Store_Relation
  imports Store_Spec Fuse_Names
begin

text \<open>
  When a mounted volume represents a store: the abstraction relation between the blocks of the
  image and the files and directories of \<open>Store_Spec\<close>, and what a path finds on such a volume.
\<close>

subsection \<open>Files\<close>

text \<open>The inode has the attributes of the file, and its size is the number of bytes.\<close>

definition shows_file :: "Inode \<Rightarrow> nat \<Rightarrow> afile \<Rightarrow> bool" where
  "shows_file n i f \<longleftrightarrow> i_number n = of_nat i \<and> i_mode n = f_mode f \<and> owner_id n = f_uid f \<and>
     group_id n = f_gid f \<and> reference_count n = f_links f \<and> i_creation_time n = f_ctime f \<and>
     i_modification_time n = f_mtime f \<and> i_access_time n = f_atime f \<and> i_size n = of_nat (length (f_data f))"

text \<open>The blocks of a file are those of the pages below its size, and hold its bytes.\<close>

definition holds_data :: "DiskInterface \<Rightarrow> Inode \<Rightarrow> u8 list \<Rightarrow> bool" where
  "holds_data d n xs \<longleftrightarrow> length xs \<le> max_direct \<and>
     (\<forall>k<NDIRECT. file_block n k \<noteq> 0 \<longleftrightarrow> k * USABLE_BLOCK_SIZE < length xs) \<and>
     (\<forall>x<length xs. file_byte d n x = xs ! x)"

definition unused_inode :: "Inode \<Rightarrow> bool" where
  "unused_inode n \<longleftrightarrow> i_size n = 0 \<and> direct_blocks n = replicate 12 0 \<and> i_modification_time n = 0 \<and> i_access_time n = 0"

subsection \<open>Directories\<close>

definition entry_names :: "DirEntry list \<Rightarrow> (u8 list \<times> nat) list" where
  "entry_names es = map (\<lambda>e. (c_string (entry_name e), unat (entry_inode e))) es"

text \<open>
  The tree leads from the hash of each name to its inode, for a directory to the root of its own
  tree, and holds no other keys. \<open>tr\<close> are the roots of the trees, \<open>dirs\<close> tells the directories.
\<close>

definition tree_matches ::
    "(nat \<Rightarrow> nat) \<Rightarrow> (nat \<Rightarrow> bool) \<Rightarrow> tree_entry list \<Rightarrow> (u8 list \<times> nat) list \<Rightarrow> bool" where
  "tree_matches tr dirs es ns \<longleftrightarrow>
     (\<forall>(name, j)\<in>set ns. \<exists>v ty. map_of es (path_hash name) = Some (v, ty) \<and>
        (if dirs j then v = of_nat (tr j) \<and> ty = FILE_TYPE_DIRECTORY else v = of_nat j \<and> ty \<noteq> FILE_TYPE_DIRECTORY)) \<and>
     (\<forall>h. h \<notin> (path_hash \<circ> fst) ` set ns \<longrightarrow> map_of es h = None)"

definition good_names :: "(u8 list \<times> nat) list \<Rightarrow> nat \<Rightarrow> bool" where
  "good_names ns m \<longleftrightarrow> distinct (map (path_hash \<circ> fst) ns) \<and>
     (\<forall>(name, i)\<in>set ns. name_ok name \<and> length name < NAME_MAX \<and> 0 < i \<and> i < m)"

text \<open>The entries are in the directory's block; it has the block when it has names.\<close>

definition entries_match :: "DiskInterface \<Rightarrow> nat \<Rightarrow> (u8 list \<times> nat) list \<Rightarrow> bool" where
  "entries_match d i ns \<longleftrightarrow> dir_ok d i (length ns) \<and> (ns = [] \<longrightarrow> dir_first d i = 0) \<and>
     entry_names (dir_entries d i) = ns \<and> (\<forall>e\<in>set (dir_entries d i). 0 \<in> set (entry_name e)) \<and>
     (\<forall>k<NDIRECT. 0 < k \<longrightarrow> file_block (inode_at d i) k = 0)"

text \<open>A directory other than the root is marked as one in the root of its tree.\<close>

definition tree_of :: "DiskInterface \<Rightarrow> nat \<Rightarrow> nat \<Rightarrow> nat \<Rightarrow> bool" where
  "tree_of d i r n \<longleftrightarrow> index_ok (d, r) \<and> length (leaves d r) = n \<and> val (node_at d r) = of_nat i \<and>
     (0 < i \<longrightarrow> node_type (node_at d r) = FILE_TYPE_DIRECTORY)"

definition holds_dir ::
    "DiskInterface \<Rightarrow> (nat \<Rightarrow> nat) \<Rightarrow> (nat \<Rightarrow> bool) \<Rightarrow> nat \<Rightarrow> nat \<Rightarrow> (u8 list \<times> nat) list \<Rightarrow> bool" where
  "holds_dir d tr dirs m i ns \<longleftrightarrow> entries_match d i ns \<and> tree_of d i (tr i) (length ns) \<and>
     tree_matches tr dirs (index_entries (d, tr i)) ns \<and> good_names ns m"

subsection \<open>The store\<close>

definition holds :: "DiskInterface \<Rightarrow> (nat \<Rightarrow> nat) \<Rightarrow> afile list \<Rightarrow> nat \<Rightarrow> bool" where
  "holds d tr fs i \<longleftrightarrow> shows_file (inode_at d i) i (fs ! i) \<and>
     (case f_content (fs ! i) of
        Bytes xs \<Rightarrow> file_ok d i \<and> holds_data d (inode_at d i) xs
      | Names ns \<Rightarrow> holds_dir d tr (\<lambda>j. is_dir (fs ! j)) (length fs) i ns)"

text \<open>No block belongs to two inodes.\<close>

definition apart :: "DiskInterface \<Rightarrow> bool" where
  "apart d \<longleftrightarrow> (\<forall>i<inode_capacity d. \<forall>j<inode_capacity d. i \<noteq> j \<longrightarrow>
     file_blocks (inode_at d i) \<inter> file_blocks (inode_at d j) = {})"

definition inodes_match :: "DiskInterface \<Rightarrow> nat \<Rightarrow> bool" where
  "inodes_match d m \<longleftrightarrow> m \<le> inode_capacity d \<and> (\<forall>i<inode_capacity d. inode_used d i = (i < m)) \<and>
     (\<forall>i<inode_capacity d. m \<le> i \<longrightarrow> unused_inode (inode_at d i))"

text \<open>A free block holds no count of entries, as the first block of a directory is not cleared.\<close>

definition blank :: "DiskInterface \<Rightarrow> bool" where
  "blank d \<longleftrightarrow> (\<forall>k<n_blocks d. \<not> used d k \<longrightarrow> entry_count (page_at d k) = 0)"

definition represents_at :: "(nat \<Rightarrow> nat) \<Rightarrow> DiskInterface \<Rightarrow> store \<Rightarrow> bool" where
  "represents_at tr d s \<longleftrightarrow> fs_ok d \<and> inode_limit s = inode_capacity d \<and> has_room s \<and>
     block_limit s \<le> card (free_set d) + blocks_needed s \<and> blank d \<and> inodes_match d (length (files s)) \<and> apart d \<and>
     files s \<noteq> [] \<and> is_dir (files s ! 0) \<and> tr 0 = root_block d \<and> (\<forall>i<length (files s). holds d tr (files s) i)"

definition represents :: "DiskInterface \<Rightarrow> store \<Rightarrow> bool" where
  "represents d s \<longleftrightarrow> (\<exists>tr. represents_at tr d s)"

lemma represents_atD:
  assumes "represents_at tr d s"
  shows "fs_ok d" "inode_limit s = inode_capacity d" "has_room s" "block_limit s \<le> card (free_set d) + blocks_needed s"
    "blank d" "inodes_match d (length (files s))" "apart d" "0 < length (files s)" "is_dir (files s ! 0)"
    "tr 0 = root_block d" "i < length (files s) \<Longrightarrow> holds d tr (files s) i"
    "i < length (files s) \<Longrightarrow> i < inode_capacity d"
  using assms by (auto simp: represents_at_def inodes_match_def)

lemma holdsD:
  assumes "holds d tr fs i"
  shows "shows_file (inode_at d i) i (fs ! i)"
    "\<not> is_dir (fs ! i) \<Longrightarrow> file_ok d i" "\<not> is_dir (fs ! i) \<Longrightarrow> holds_data d (inode_at d i) (f_data (fs ! i))"
    "is_dir (fs ! i) \<Longrightarrow> holds_dir d tr (\<lambda>j. is_dir (fs ! j)) (length fs) i (f_names (fs ! i))"
  using assms by (auto simp: holds_def split: content.splits)

lemma holds_dirD:
  assumes "holds_dir d tr dirs m i ns"
  shows "entries_match d i ns" "tree_of d i (tr i) (length ns)" "tree_matches tr dirs (index_entries (d, tr i)) ns"
    "good_names ns m" "dir_ok d i (length ns)" "index_ok (d, tr i)" "val (node_at d (tr i)) = of_nat i"
    "length (leaves d (tr i)) = length ns"
  using assms by (simp_all add: holds_dir_def entries_match_def tree_of_def)

lemma good_namesD:
  assumes "good_names ns m" "(name, j) \<in> set ns"
  shows "name_ok name" "length name < NAME_MAX" "0 < j" "j < m"
  using assms by (auto simp: good_names_def)

subsection \<open>What a path finds\<close>

definition found_pair :: "(nat \<Rightarrow> nat) \<Rightarrow> afile list \<Rightarrow> nat option \<Rightarrow> InodeBtreePair" where
  "found_pair tr fs r = (case r of
     None \<Rightarrow> no_pair
   | Some j \<Rightarrow> if is_dir (fs ! j) then dir_pair j (tr j) else \<lparr>pair_inode = of_nat j, pair_btree = 0\<rparr>)"

lemma represents_dir:
  assumes "represents_at tr d s" "i < length (files s)" "is_dir (files s ! i)"
  shows "holds_dir d tr (\<lambda>j. is_dir (files s ! j)) (length (files s)) i (f_names (files s ! i))"
    "f_content (files s ! i) = Names (f_names (files s ! i))"
  using holdsD(4) [OF represents_atD(11) [OF assms(1,2)] assms(3)] assms(3) dir_names by blast+

lemma lookup_bounds:
  assumes "represents_at tr d s" "i < length (files s)" "lookup (files s) i names = Some j"
  shows "j < length (files s) \<and> (names \<noteq> [] \<longrightarrow> 0 < j)"
  using assms(2,3)
proof (induction names arbitrary: i)
  case (Cons s' ss)
  then obtain ns k where k: "f_content (files s ! i) = Names ns" "map_of ns s' = Some k" "lookup (files s) k ss = Some j"
    by (auto split: content.splits option.splits)
  have "good_names ns (length (files s))"
    using holds_dirD(4) [OF represents_dir(1) [OF assms(1) Cons.prems(1)]] k(1) by simp
  then have "0 < k" "k < length (files s)" using good_namesD map_of_SomeD [OF k(2)] by blast+
  then show ?case using Cons.IH [OF _ k(3)] k(3) by (cases ss) auto
qed simp

lemma tree_finds:
  assumes "represents_at tr d s" "i < length (files s)" "f_content (files s ! i) = Names ns"
    and "map_of ns name = None \<Longrightarrow> free_hash ns name"
  shows "map_of ns name = None \<Longrightarrow> map_of (index_entries (d, tr i)) (path_hash name) = None"
    "map_of ns name = Some j \<Longrightarrow> 0 < j \<and> j < length (files s) \<and>
      (\<exists>v ty. map_of (index_entries (d, tr i)) (path_hash name) = Some (v, ty) \<and>
        (if is_dir (files s ! j) then unat v = tr j \<and> ty = FILE_TYPE_DIRECTORY \<and> dir_root_ok d (tr j)
         else v = of_nat j \<and> ty \<noteq> FILE_TYPE_DIRECTORY))"
proof -
  have dir: "is_dir (files s ! i)" and fn: "f_names (files s ! i) = ns" using assms(3) by simp_all
  note h = holds_dirD [OF represents_dir(1) [OF assms(1,2) dir, unfolded fn]]
  show "map_of (index_entries (d, tr i)) (path_hash name) = None" if "map_of ns name = None"
    using h(3) assms(4) [OF that] unfolding tree_matches_def free_hash_def by blast
  assume "map_of ns name = Some j"
  then have mem: "(name, j) \<in> set ns" by (rule map_of_SomeD)
  note g = good_namesD [OF h(4) mem]
  obtain v ty where e: "map_of (index_entries (d, tr i)) (path_hash name) = Some (v, ty)"
    "if is_dir (files s ! j) then v = of_nat (tr j) \<and> ty = FILE_TYPE_DIRECTORY else v = of_nat j \<and> ty \<noteq> FILE_TYPE_DIRECTORY"
    using h(3) mem unfolding tree_matches_def by blast
  have "unat (of_nat (tr j) :: u64) = tr j \<and> dir_root_ok d (tr j)" if "is_dir (files s ! j)"
  proof -
    note hj = represents_dir(1) [OF assms(1) g(4) that]
    show ?thesis
      using node_ok_unat [OF index_nodes(2) [OF holds_dirD(6) [OF hj] disjI1 [OF refl]]] hj g(3)
      by (simp add: holds_dir_def tree_of_def dir_root_ok_def del: unsigned_of_nat)
  qed
  then show "0 < j \<and> j < length (files s) \<and> (\<exists>v ty. map_of (index_entries (d, tr i)) (path_hash name) = Some (v, ty) \<and>
        (if is_dir (files s ! j) then unat v = tr j \<and> ty = FILE_TYPE_DIRECTORY \<and> dir_root_ok d (tr j)
         else v = of_nat j \<and> ty \<noteq> FILE_TYPE_DIRECTORY))"
    using e g(3,4) by (cases "is_dir (files s ! j)") (auto simp del: unsigned_of_nat)
qed

lemma walk_store:
  assumes "represents_at tr d s" "i < length (files s)" "is_dir (files s ! i)" "clear (files s) i names"
    and "searchable (files s) i names"
  shows "walk_ok d (tr i) names \<and> walk d (tr i) names = Some (found_pair tr (files s) (lookup (files s) i names))"
proof (cases names)
  case Nil
  note h = holds_dirD [OF represents_dir(1) [OF assms(1-3)]]
  show ?thesis using Nil assms(3) h(7) by (simp add: found_pair_def dir_pair_def)
next
  case (Cons name rest)
  let ?fs = "files s"
  obtain ns where ns: "f_content (?fs ! i) = Names ns"
    using assms(3) by (cases "f_content (?fs ! i)") simp_all
  have look: "index_ok (d, tr k) \<and> index_lookup (d, tr k) h = Some (map_of (index_entries (d, tr k)) h)"
    if "k < length ?fs" "is_dir (?fs ! k)" for k h
    using holds_dirD(6) [OF represents_dir(1) [OF assms(1) that]] index_lookup_abs by blast
  note t = tree_finds [OF assms(1,2) ns, of name]
  note li = look [OF assms(2,3), of "path_hash name"]
  show ?thesis
  proof (cases "map_of ns name")
    case None
    then have "free_hash ns name" using assms(4) ns Cons by simp
    then have "map_of (index_entries (d, tr i)) (path_hash name) = None" using t(1) None by blast
    then show ?thesis
      using li None ns Cons by (cases rest) (simp_all add: found_pair_def walk_ok_def)
  next
    case (Some j)
    obtain v ty where e: "0 < j" "j < length ?fs" "map_of (index_entries (d, tr i)) (path_hash name) = Some (v, ty)"
      "if is_dir (?fs ! j) then unat v = tr j \<and> ty = FILE_TYPE_DIRECTORY \<and> dir_root_ok d (tr j)
       else v = of_nat j \<and> ty \<noteq> FILE_TYPE_DIRECTORY"
      using t(2) [OF _ Some] Some by auto
    have cl: "clear ?fs j rest" and lu: "lookup ?fs i names = lookup ?fs j rest"
      using assms(4) ns Some Cons by simp_all
    show ?thesis
    proof (cases "is_dir (?fs ! j)")
      case False
      then have "rest = []" using cl by (cases rest; cases "f_content (?fs ! j)") simp_all
      then show ?thesis using e False li lu Cons by (simp add: found_pair_def)
    next
      case True
      obtain ms where ms: "f_content (?fs ! j) = Names ms"
        using True by (cases "f_content (?fs ! j)") simp_all
      note hj = holds_dirD [OF represents_dir(1) [OF assms(1) e(2) True]]
      have v: "unat v = tr j" "ty = FILE_TYPE_DIRECTORY" "dir_root_ok d (tr j)" using e(4) True by simp_all
      show ?thesis
      proof (cases rest)
        case Nil
        then show ?thesis using e(3) v li lu Cons True hj(7) by (simp add: found_pair_def dir_pair_def)
      next
        case (Cons name' rest')
        have "map_of ms name' = None"
          using assms(5) \<open>names = name # rest\<close> Cons ns Some ms
          by (cases "map_of ms name'") (simp_all add: searchable_def numeral_2_eq_2)
        moreover from this have "free_hash ms name'" using cl Cons ms by simp
        ultimately have n: "map_of ms name' = None" "map_of (index_entries (d, tr j)) (path_hash name') = None"
          using tree_finds(1) [OF assms(1) e(2) ms, of name'] by blast+
        then show ?thesis
          using e(3) v li look [OF e(2) True, of "path_hash name'"] lu \<open>names = name # rest\<close> Cons ms
          by (simp add: found_pair_def walk_ok_def)
      qed
    qed
  qed
qed

lemma represents_leads:
  assumes "represents_at tr d s" "path_ok s path"
  shows "leads_to d (names_of path) (found_pair tr (files s) (resolve s path))"
proof -
  note r = represents_atD [OF assms(1)]
  have "walk_ok d (tr 0) (names_of path) \<and>
      walk d (tr 0) (names_of path) = Some (found_pair tr (files s) (lookup (files s) 0 (names_of path)))"
    by (rule walk_store [OF assms(1) r(8,9)]) (use assms(2) in \<open>simp_all add: path_ok_def\<close>)
  then show ?thesis
    using assms(2) r(10) by (simp add: leads_to_def path_ok_def resolve_def)
qed

text \<open>The three kinds of paths.\<close>

lemma path_cases:
  assumes "represents_at tr d s" "path_ok s path"
  obtains (dir) i where "path = path_of (names_of path)" "resolve s path = Some i" "target s path = i"
      "dir_at d (names_of path) i (tr i)" "i < length (files s)" "is_dir (files s ! i)"
  | (found) i where "path = path_of (names_of path)" "resolve s path = Some i" "target s path = i"
      "file_at d (names_of path) i" "0 < i" "i < length (files s)" "\<not> is_dir (files s ! i)"
  | (missing) "path = path_of (names_of path)" "resolve s path = None" "target s path = 0"
      "nothing_at d (names_of path)"
proof -
  note r = represents_atD [OF assms(1)]
  note l = represents_leads [OF assms]
  have p: "path = path_of (names_of path)" using assms(2) by (simp add: path_ok_def)
  show ?thesis
  proof (cases "resolve s path")
    case None
    show ?thesis
      by (rule missing [OF p None]) (use l None in \<open>simp_all add: target_def nothing_at_def found_pair_def\<close>)
  next
    case (Some i)
    then have b: "i < length (files s)" "names_of path \<noteq> [] \<Longrightarrow> 0 < i" "names_of path = [] \<Longrightarrow> i = 0"
      using lookup_bounds [OF assms(1) r(8), of "names_of path" i] by (auto simp: resolve_def)
    have t: "target s path = i" using Some by (simp add: target_def)
    show ?thesis
    proof (cases "is_dir (files s ! i)")
      case True
      then have "dir_at d (names_of path) i (tr i)"
        using l Some b by (auto simp: dir_at_def found_pair_def)
      then show ?thesis using p Some t b(1) True by (intro dir)
    next
      case False
      have "names_of path \<noteq> []" using b(3) r(9) False by auto
      then have "0 < i" by (rule b(2))
      moreover have "file_at d (names_of path) i"
        using l Some False \<open>0 < i\<close> r(12) [OF b(1)] by (simp add: file_at_def found_pair_def)
      ultimately show ?thesis using p Some t b(1) False by (intro found)
    qed
  qed
qed

lemma stat_shows: "shows_file n i f \<Longrightarrow> stat_of n (of_nat i) = stat_file f i"
  by (simp add: shows_file_def stat_of_def stat_file_def)

lemma represents_shows:
  assumes "represents_at tr d s" "i < length (files s)"
  shows "stat_of (inode_at d i) (of_nat i) = stat_file (files s ! i) i"
  using stat_shows holdsD(1) [OF represents_atD(11) [OF assms]] by blast

subsection \<open>Requests that read\<close>

lemma access_getattr_spec:
  assumes "represents_at tr d s" "path_ok s path"
  shows "nbtrfs_access d path = Some (if resolve s path = None then - ENOENT else 0)"
    "nbtrfs_getattr d path = Some (case resolve s path of
     None \<Rightarrow> (- ENOENT, None) | Some i \<Rightarrow> (0, Some (stat_file (files s ! i) i)))"
proof -
  note r = represents_atD [OF assms(1)]
  note sh = represents_shows [OF assms(1)]
  have "nbtrfs_access d path = Some (if resolve s path = None then - ENOENT else 0) \<and>
    nbtrfs_getattr d path = Some (case resolve s path of
     None \<Rightarrow> (- ENOENT, None) | Some i \<Rightarrow> (0, Some (stat_file (files s ! i) i)))"
    using assms
  proof (cases rule: path_cases)
    case (dir i)
    note h = holds_dirD [OF represents_dir(1) [OF assms(1) dir(5,6)]]
    show ?thesis
      using getattr_dir [OF r(1) dir(4) h(6) r(12) [OF dir(5)]] dir(1,2) sh [OF dir(5)] by simp
  next
    case (found i)
    then show ?thesis using getattr_file [OF r(1) found(4)] sh [OF found(6)] by simp
  next
    case missing
    then show ?thesis using getattr_nothing [OF r(1) missing(4)] by simp
  qed
  then show "nbtrfs_access d path = Some (if resolve s path = None then - ENOENT else 0)"
    "nbtrfs_getattr d path = Some (case resolve s path of
     None \<Rightarrow> (- ENOENT, None) | Some i \<Rightarrow> (0, Some (stat_file (files s ! i) i)))" by simp_all
qed

lemma getattr_asserted_spec:
  assumes "represents_at tr d s" "path_ok s path" "resolve s path = Some i"
  shows "getattr_asserted d path = Some (stat_file (files s ! i) i)"
  using access_getattr_spec(2) [OF assms(1,2)] assms(3) by (simp add: getattr_asserted_def)

text \<open>\<open>readdir\<close> asserts that the attributes of every name can be read.\<close>

lemma readdir_loop_names:
  assumes "list_all name_ok names" "\<forall>e\<in>set es. 0 \<in> set (entry_name e)"
    and "\<forall>(name, i)\<in>set (entry_names es). length (path_of (names @ [name])) < PATH_MAX \<and>
      getattr_asserted d (path_of (names @ [name])) = Some (st name i)"
  shows "readdir_loop d (path_of names) es = Some (map (\<lambda>(name, i). (name, st name i)) (entry_names es))"
  using assms(2,3)
proof (induction es)
  case (Cons e es)
  let ?p = "path_of names"
  let ?name = "c_string (entry_name e)"
  have "count_l ?p = length names" using assms(1) by (intro count_l_path_of) (simp add: list_all_iff)
  then have "(if 0 < count_l ?p then ?p @ slash # ?name else ?p @ ?name) = path_of (names @ [?name])"
    by (cases "names = []") (simp_all add: path_of_snoc, simp add: path_of_def)
  moreover have "length (path_of (names @ [?name])) < PATH_MAX"
      "getattr_asserted d (path_of (names @ [?name])) = Some (st ?name (unat (entry_inode e)))"
    using Cons.prems(2) by (auto simp: entry_names_def)
  ultimately show ?case
    using Cons by (simp add: entry_names_def Let_def)
qed (simp add: entry_names_def)

lemma path_ok_parts:
  assumes "path_ok s path"
  shows "names_ok (names_of path)" "list_all name_ok (names_of path)" "path_of (names_of path) = path"
    "clear (files s) 0 (names_of path)" "searchable (files s) 0 (names_of path)"
proof -
  note p = assms [unfolded path_ok_def]
  show "names_ok (names_of path)" "clear (files s) 0 (names_of path)" "searchable (files s) 0 (names_of path)"
    using p by blast+
  then show "list_all name_ok (names_of path)" by (simp add: names_ok_def)
  show "path_of (names_of path) = path" by (rule sym [OF conjunct1 [OF p]])
qed

lemma path_of_inj_root: "list_all name_ok names \<Longrightarrow> path_of names = [slash] \<longleftrightarrow> names = []"
  by (cases names) (auto simp: path_of_def name_ok_def)

text \<open>The path of the directory above.\<close>

lemma parent_ok:
  assumes "path_ok s path" "names_of path \<noteq> []"
  shows "path_ok s (path_of (butlast (names_of path)))" "names_of (path_of (butlast (names_of path))) = butlast (names_of path)"
    "resolve s (path_of (butlast (names_of path))) = parent_dir s path"
    "parent_path path (count_l path) = Some (path_of (butlast (names_of path)))"
    "get_name path = last (names_of path)" "name_ok (last (names_of path))"
    "resolve s path \<noteq> None \<Longrightarrow> parent_dir s path \<noteq> None"
proof -
  let ?ns = "names_of path"
  note p = path_ok_parts [OF assms(1)]
  have ns: "?ns = butlast ?ns @ [last ?ns]" using assms(2) by simp
  have nb: "names_ok (butlast ?ns)" and nl: "name_ok (last ?ns)"
    using names_ok_append [of "butlast ?ns" "last ?ns"] p(1) ns by auto
  then show nm: "names_of (path_of (butlast ?ns)) = butlast ?ns" "name_ok (last ?ns)"
    using names_of_path [of "butlast ?ns"] by (simp_all add: names_ok_def)
  have "clear (files s) 0 (butlast ?ns)"
    using p(4) clear_append [of "files s" 0 "butlast ?ns" "[last ?ns]"] ns by simp
  moreover have "searchable (files s) 0 (butlast ?ns)"
    using p(5) by (cases "length ?ns \<le> 2") (auto simp: searchable_def take_butlast)
  ultimately show "path_ok s (path_of (butlast ?ns))" using nb nm by (simp add: path_ok_def)
  show "resolve s (path_of (butlast ?ns)) = parent_dir s path"
    by (simp add: resolve_def parent_dir_def nm)
  show "parent_path path (count_l path) = Some (path_of (butlast ?ns))" "get_name path = last ?ns"
    using parent_of_path [OF nb nl] ns p(3) by simp_all
  show "resolve s path \<noteq> None \<Longrightarrow> parent_dir s path \<noteq> None"
    using lookup_append [of "files s" 0 "butlast ?ns" "[last ?ns]"] ns
    by (auto simp: resolve_def parent_dir_def split: option.splits)
qed

lemma readdir_spec:
  assumes "represents_at tr d s" "path_ok s path" "resolve s path = Some i" "is_dir (files s ! i)"
    and "names_of path = [] \<or> f_names (files s ! i) = []"
  shows "nbtrfs_readdir d path = Some (0, listing s path i)"
proof -
  let ?ns = "names_of path"
  note r = represents_atD [OF assms(1)]
  note p = path_ok_parts [OF assms(2)]
  have dir: "dir_at d ?ns i (tr i)" "i < length (files s)"
    using assms(1,2) by (cases rule: path_cases; use assms(3,4) in simp)+
  note hd = represents_dir(1) [OF assms(1) dir(2) assms(4)]
  note h = holds_dirD [OF hd]
  have em: "entry_names (dir_entries d i) = f_names (files s ! i)" "\<forall>e\<in>set (dir_entries d i). 0 \<in> set (entry_name e)"
    using h(1) by (simp_all add: entries_match_def)
  have dl: "directory_list d path = Some (dir_entries d i)"
    using directory_list_dir [OF r(1) _ h(5)] dir_at_finds [OF r(1) dir(1)] p(3) by simp
  have st: "length (path_of (?ns @ [name])) < PATH_MAX \<and>
      getattr_asserted d (path_of (?ns @ [name])) = Some (stat_file (files s ! j) j)"
    if "(name, j) \<in> set (f_names (files s ! i))" for name j
  proof -
    note g = good_namesD [OF h(4) that]
    have root: "?ns = []" using assms(5) that by auto
    then have l: "length (path_of (?ns @ [name])) < PATH_MAX" using g(2) by (simp add: path_of_def)
    have ok: "list_all name_ok (?ns @ [name])" using p(2) g(1) by simp
    note nm = names_of_path [OF ok]
    have "distinct (map fst (f_names (files s ! i)))"
      using h(4) unfolding good_names_def map_map [symmetric] by (blast dest: distinct_map [THEN iffD1])
    then have m: "map_of (f_names (files s ! i)) name = Some j" using that by simp
    have lu: "lookup (files s) 0 ?ns = Some i" using assms(3) by (simp add: resolve_def)
    obtain ns where fc: "f_content (files s ! i) = Names ns"
      using assms(4) by (cases "f_content (files s ! i)") simp_all
    have one: "lookup (files s) i [name] = Some j" "clear (files s) i [name]"
      using m by (simp_all add: fc)
    have "path_ok s (path_of (?ns @ [name]))"
      unfolding path_ok_def nm using ok l p(4) lu one(2) root by (simp add: names_ok_def clear_append searchable_def)
    moreover have "resolve s (path_of (?ns @ [name])) = Some j"
      unfolding resolve_def nm using one(1) by (simp add: lookup_append lu del: lookup.simps)
    ultimately show ?thesis using l getattr_asserted_spec [OF assms(1)] by blast
  qed
  have rl: "readdir_loop d path (dir_entries d i) = Some (map (\<lambda>(name, j). (name, stat_file (files s ! j) j)) (f_names (files s ! i)))"
    using readdir_loop_names [OF p(2) em(2), of d "\<lambda>name j. stat_file (files s ! j) j"] st unfolding em(1) p(3) by blast
  have up: "(if 0 < count_l path then do {
         parent \<leftarrow> parent_path path (count_l path);
         st' \<leftarrow> getattr_asserted d parent;
         Some [([0x2E, 0x2E :: u8], st')]
       } else Some [])
    = Some (if path = [slash] then []
      else case parent_dir s path of None \<Rightarrow> [] | Some p \<Rightarrow> [([0x2E, 0x2E], stat_file (files s ! p) p)])"
  proof (cases "?ns = []")
    case True
    then have "path = [slash]" using p(3) by (simp add: path_of_def)
    then show ?thesis by (simp add: count_l_def)
  next
    case False
    note pa = parent_ok [OF assms(2) False]
    have "path \<noteq> [slash]" using False path_of_inj_root [OF p(2)] p(3) by simp
    moreover have "count_l path = length ?ns"
      using count_l_path_of [of ?ns] p(2,3) by (simp add: list_all_iff)
    moreover obtain q where "parent_dir s path = Some q" using pa(7) assms(3) by auto
    moreover from this have "getattr_asserted d (path_of (butlast ?ns)) = Some (stat_file (files s ! q) q)"
      using getattr_asserted_spec [OF assms(1) pa(1)] pa(3) by simp
    ultimately show ?thesis using False pa(4) by simp
  qed
  have ga: "getattr_asserted d path = Some (stat_file (files s ! i) i)"
    by (rule getattr_asserted_spec [OF assms(1-3)])
  show ?thesis
    unfolding nbtrfs_readdir_def Let_def ga up dl rl bind.simps listing_def ..
qed

lemma holds_no_holes:
  assumes "holds_data d n xs" "off + m \<le> length xs"
  shows "no_holes n off m" "map (file_byte d n) [off..<off + m] = take m (drop off xs)"
proof -
  show "no_holes n off m"
    unfolding no_holes_def
  proof (intro allI impI)
    fix x
    assume "off \<le> x \<and> x < off + m"
    then have x: "x < length xs" using assms(2) by simp
    then have "x div USABLE_BLOCK_SIZE < NDIRECT" using assms(1) by (intro file_div) (simp add: holds_data_def)
    moreover have "x div USABLE_BLOCK_SIZE * USABLE_BLOCK_SIZE < length xs"
      using x div_times_less_eq_dividend [of x USABLE_BLOCK_SIZE] by (rule le_less_trans [rotated])
    ultimately show "file_block n (x div USABLE_BLOCK_SIZE) \<noteq> 0" using assms(1) unfolding holds_data_def by blast
  qed
  show "map (file_byte d n) [off..<off + m] = take m (drop off xs)"
    by (rule nth_equalityI) (use assms in \<open>auto simp: holds_data_def\<close>)
qed

lemma read_spec:
  assumes "represents_at tr d s" "path_ok s path" "off < 2 ^ 63" "unat len < 2 ^ 63"
  shows "nbtrfs_read d path len off = Some (case resolve s path of
     None \<Rightarrow> (- ENOENT, [])
   | Some i \<Rightarrow> if is_dir (files s ! i) then (- EISDIR, [])
       else let bytes = take (unat len) (drop off (f_data (files s ! i))) in (int (length bytes), bytes))"
proof -
  note r = represents_atD [OF assms(1)]
  from assms(1,2) show ?thesis
  proof (cases rule: path_cases)
    case (dir i)
    note h = holds_dirD [OF represents_dir(1) [OF assms(1) dir(5,6)]]
    have "(of_nat (tr i) :: u64) \<noteq> 0"
      by (rule node_ok_of_nat_nz [OF index_nodes(2) [OF h(6) disjI1 [OF refl]]])
    then show ?thesis
      using dir_at_finds [OF r(1) dir(4)] dir(2,6) unfolding dir(1) [symmetric]
      by (simp add: nbtrfs_read_def finds_dir_def dir_pair_def)
  next
    case (found i)
    let ?xs = "f_data (files s ! i)"
    note h = holdsD [OF r(11) [OF found(6)]]
    have hd: "holds_data d (inode_at d i) ?xs" and ok: "file_ok d i" using h(2,3) found(7) by blast+
    have l: "length ?xs \<le> max_direct" using hd by (simp add: holds_data_def)
    have sz: "unat (i_size (inode_at d i)) = length ?xs"
      using h(1) int_of_u64_file(2) [OF l] by (simp only: shows_file_def)
    let ?m = "min (unat len) (length ?xs - off)"
    have nh: "no_holes (inode_at d i) off ?m \<and> map (file_byte d (inode_at d i)) [off..<off + ?m] = take ?m (drop off ?xs)"
    proof (cases "off \<le> length ?xs")
      case True
      then have "off + ?m \<le> length ?xs" by simp
      then show ?thesis using holds_no_holes hd by blast
    qed (auto simp: no_holes_def)
    have "take ?m (drop off ?xs) = take (unat len) (drop off ?xs)"
      by (simp add: min_def)
    moreover have "nbtrfs_read d (path_of (names_of path)) (of_nat (unat len)) off
        = Some (int ?m, map (file_byte d (inode_at d i)) [off..<off + ?m])"
      using nbtrfs_read_file [OF ok found(4), of off "unat len"] assms(3,4) nh l unfolding sz by blast
    ultimately show ?thesis
      using found(2,7) nh unfolding found(1) [symmetric] by (simp add: Let_def min.commute)
  next
    case missing
    then show ?thesis
      using item_search_leads [OF r(1) missing(4) [unfolded nothing_at_def]] unfolding missing(1) [symmetric]
      by (simp add: nbtrfs_read_def no_pair_def)
  qed
qed

end
