(* ===== verification/Store_Frame.thy ===== *)
theory Store_Frame
  imports Store_Relation
begin

text \<open>
  What a step of the volume keeps of a represented store: the inodes it does not touch still hold
  their files and directories, and the changed ones are all that is left to show.
\<close>

subsection \<open>Inodes that a step leaves alone\<close>

lemma holds_blocks:
  assumes "represents_at tr d s" "i < inode_capacity d"
  shows "k \<in> file_blocks (inode_at d i) \<Longrightarrow> is_data d k" "length (files s) \<le> i \<Longrightarrow> file_blocks (inode_at d i) = {}"
proof -
  note r = represents_atD [OF assms(1)]
  show none: "file_blocks (inode_at d i) = {}" if "length (files s) \<le> i"
  proof -
    have "unused_inode (inode_at d i)" using r(6) assms(2) that by (simp add: inodes_match_def)
    then show ?thesis by (auto simp: unused_inode_def file_blocks_def file_block_def)
  qed
  show "is_data d k" if k: "k \<in> file_blocks (inode_at d i)"
  proof -
    have i: "i < length (files s)" using none k by fastforce
    note h = holdsD [OF r(11) [OF i]]
    show ?thesis
    proof (cases "is_dir (files s ! i)")
      case True
      note hd = holds_dirD [OF represents_dir(1) [OF assms(1) i True]]
      obtain j where j: "j < NDIRECT" "file_block (inode_at d i) j \<noteq> 0" "k = unat (file_block (inode_at d i) j)"
        using k by (auto simp: file_blocks_def)
      then have "j = 0" using hd(1) unfolding entries_match_def by blast
      then show ?thesis using dir_okD(1) [OF hd(5)] j by (simp add: dir_first_def file_block_def)
    next
      case False
      then show ?thesis using h(2) k file_blocks_data by blast
    qed
  qed
qed

lemma dir_first_blocks:
  assumes "entries_match d i ns"
  shows "file_blocks (inode_at d i) = (if dir_first d i = 0 then {} else {unat (dir_first d i)})"
proof -
  have z: "\<forall>k<NDIRECT. 0 < k \<longrightarrow> file_block (inode_at d i) k = 0" using assms unfolding entries_match_def by blast
  have f: "file_block (inode_at d i) 0 = dir_first d i" by (simp add: file_block_def dir_first_def)
  have "j < NDIRECT \<and> file_block (inode_at d i) j \<noteq> 0 \<longleftrightarrow> j = 0 \<and> dir_first d i \<noteq> 0" for j
    using z f by (cases "j = 0") auto
  then show ?thesis unfolding file_blocks_def by (simp add: f)
qed

text \<open>The directories have trees of their own.\<close>

lemma tree_apart:
  assumes "represents_at tr d s" "i < length (files s)" "j < length (files s)" "is_dir (files s ! i)" "is_dir (files s ! j)"
    and "tr i = tr j"
  shows "i = j"
proof -
  note r = represents_atD [OF assms(1)]
  note hi = holds_dirD [OF represents_dir(1) [OF assms(1,2,4)]] and hj = holds_dirD [OF represents_dir(1) [OF assms(1,3,5)]]
  have "(of_nat i :: u64) = of_nat j" using hi(7) hj(7) assms(6) by simp
  then show ?thesis
    using assms(2,3) r(12) inode_number_small(1) unat_of_nat_u64 by metis
qed

lemma dir_trees:
  assumes "represents_at tr d s" "i < length (files s)" "is_dir (files s ! i)"
  shows "length (leaves d (tr i)) = length (f_names (files s ! i))"
    "k \<in> set (tr i # leaves d (tr i)) \<Longrightarrow> page_type (page_at d k) = block_type_code BLOCK_TYPE_BTREE_NODE \<and> used d k"
    "j < length (files s) \<Longrightarrow> is_dir (files s ! j) \<Longrightarrow> tr i = tr j \<Longrightarrow> i = j"
proof -
  note h = holds_dirD [OF represents_dir(1) [OF assms]]
  show "length (leaves d (tr i)) = length (f_names (files s ! i))" by (rule h(8))
  show "page_type (page_at d k) = block_type_code BLOCK_TYPE_BTREE_NODE \<and> used d k" if "k \<in> set (tr i # leaves d (tr i))"
    using index_nodes(1) [OF h(6), of k] that by (simp add: is_tree_def is_node_block_def del: block_type_code.simps)
  show "i = j" if "j < length (files s)" "is_dir (files s ! j)" "tr i = tr j"
    by (rule tree_apart [OF assms(1,2) that(1) assms(3) that(2,3)])
qed

lemma file_bytes_step:
  assumes "file_ok d i" "fs_step I K d d'" "file_blocks (inode_at d i) \<inter> K = {}"
    and "direct_blocks (inode_at d' i) = direct_blocks (inode_at d i)" "i_number (inode_at d' i) = i_number (inode_at d i)"
  shows "file_ok d' i" "holds_data d (inode_at d i) xs \<Longrightarrow> holds_data d' (inode_at d' i) xs"
proof -
  note t = fs_stepD [OF assms(2)]
  have fb: "file_block (inode_at d' i) k = file_block (inode_at d i) k" for k
    using assms(4) by (simp add: file_block_def)
  have data: "is_data d' (unat (file_block (inode_at d i) k)) \<and>
      page_at d' (unat (file_block (inode_at d i) k)) = page_at d (unat (file_block (inode_at d i) k))"
    if "k < NDIRECT" "file_block (inode_at d i) k \<noteq> 0" for k
  proof -
    have "unat (file_block (inode_at d i) k) \<notin> K"
      using that assms(3) by (auto simp: file_blocks_def)
    then show ?thesis using file_okD(1) [OF assms(1) that] t(8,11) by blast
  qed
  show "file_ok d' i" using assms(1,5) t(1,9) data by (simp add: file_ok_def fb)
  have "file_byte d' (inode_at d' i) x = file_byte d (inode_at d i) x" if "x < max_direct" for x
    using data file_div [OF that] by (simp add: file_byte_def fb Let_def del: USABLE_BLOCK_SIZE_def NDIRECT_def)
  then show "holds_data d (inode_at d i) xs \<Longrightarrow> holds_data d' (inode_at d' i) xs"
    by (simp add: holds_data_def fb)
qed

lemma entries_match_step:
  assumes "entries_match d i ns" "fs_step I K d d'" "file_blocks (inode_at d i) \<inter> K = {}"
    and "direct_blocks (inode_at d' i) = direct_blocks (inode_at d i)" "i_number (inode_at d' i) = i_number (inode_at d i)"
  shows "entries_match d' i ns"
proof -
  have "dir_first d i \<noteq> 0 \<longrightarrow> unat (dir_first d i) \<notin> K"
    using assms(3) by (auto simp: dir_first_blocks [OF assms(1)])
  moreover have "dir_ok d i (length ns)" using assms(1) by (simp add: entries_match_def)
  ultimately have "dir_ok d' i (length ns) \<and> dir_entries d' i = dir_entries d i \<and> dir_first d' i = dir_first d i"
    using dir_step [OF _ assms(2) _ assms(5,4)] by blast
  then show ?thesis
    using assms(1,4) by (simp add: entries_match_def file_block_def)
qed

lemma tree_of_step:
  assumes "tree_of d i r n" "fs_step I K d d'" "\<forall>x\<in>K. is_tree d x \<longrightarrow> x \<noteq> r \<and> index_ok (d, x)"
  shows "tree_of d' i r n" "index_entries (d', r) = index_entries (d, r)"
proof -
  have "index_ok (d, r)" using assms(1) by (simp add: tree_of_def)
  note f = tree_frame [OF assms(2) this assms(3)]
  show "tree_of d' i r n" "index_entries (d', r) = index_entries (d, r)"
    using assms(1) f by (simp_all add: tree_of_def)
qed

lemma tree_matches_cong:
  assumes "tree_matches tr dirs es ns" "\<And>name j. (name, j) \<in> set ns \<Longrightarrow> dirs' j = dirs j \<and> (dirs j \<longrightarrow> tr' j = tr j)"
  shows "tree_matches tr' dirs' es ns"
  using assms unfolding tree_matches_def by fastforce

lemma good_names_mono: "good_names ns m \<Longrightarrow> m \<le> m' \<Longrightarrow> good_names ns m'"
  by (fastforce simp: good_names_def)

text \<open>
  The inode may have new attributes but has the same blocks; the file list may have grown, but
  directories are still directories, and with the same trees.
\<close>

lemma holds_step:
  assumes "holds d tr fs i" "fs_step I K d d'" "file_blocks (inode_at d i) \<inter> K = {}"
    and "\<forall>x\<in>K. is_tree d x \<longrightarrow> index_ok (d, x) \<and> (is_dir (fs ! i) \<longrightarrow> x \<noteq> tr i)"
    and "direct_blocks (inode_at d' i) = direct_blocks (inode_at d i)" "i_number (inode_at d' i) = i_number (inode_at d i)"
    and "shows_file (inode_at d' i) i (fs' ! i)" "f_content (fs' ! i) = f_content (fs ! i)"
    and "length fs \<le> length fs'" "\<forall>j<length fs. is_dir (fs' ! j) = is_dir (fs ! j) \<and> (is_dir (fs ! j) \<longrightarrow> tr' j = tr j)"
    and "i < length fs"
  shows "holds d' tr' fs' i"
proof (cases "f_content (fs ! i)")
  case (Bytes xs)
  then show ?thesis
    using assms(1,7,8) file_bytes_step [OF _ assms(2,3,5,6)] by (simp add: holds_def)
next
  case (Names ns)
  have hd: "holds_dir d tr (\<lambda>j. is_dir (fs ! j)) (length fs) i ns"
    using assms(1) Names by (simp add: holds_def)
  note h = holds_dirD [OF hd]
  have tr: "tr' i = tr i" using assms(10,11) Names by simp
  have k: "\<forall>x\<in>K. is_tree d x \<longrightarrow> x \<noteq> tr i \<and> index_ok (d, x)" using assms(4) Names by simp
  note t = tree_of_step [OF h(2) assms(2) k]
  have "tree_matches tr' (\<lambda>j. is_dir (fs' ! j)) (index_entries (d', tr i)) ns"
    unfolding t(2) by (rule tree_matches_cong [OF h(3)]) (use assms(10) good_namesD(4) [OF h(4)] in blast)
  then show ?thesis
    using entries_match_step [OF h(1) assms(2,3,5,6)] t(1) good_names_mono [OF h(4) assms(9)] assms(7,8) Names
    by (simp add: holds_def holds_dir_def tr)
qed

lemma blank_step: "blank d \<Longrightarrow> fs_step I K d d' \<Longrightarrow> blank d'"
  using fs_stepD(2,7,13) unfolding blank_def by metis

subsection \<open>A step of the store\<close>

text \<open>
  The inodes in \<open>I\<close> are the ones that change; \<open>q\<close> is the one that may have new blocks, which
  were not in use as data.
\<close>

lemma apart_step:
  assumes "represents_at tr d s" "fs_step I K d d'" "\<forall>i\<in>I. i < inode_capacity d"
    and "\<And>i. i \<in> I \<Longrightarrow> i \<noteq> q \<Longrightarrow> file_blocks (inode_at d' i) \<subseteq> file_blocks (inode_at d i)"
    and "file_blocks (inode_at d' q) \<subseteq> file_blocks (inode_at d q) \<union> {k. \<not> is_data d k}" "q < inode_capacity d"
  shows "apart d'"
proof -
  note t = fs_stepD [OF assms(2)]
  have ap: "file_blocks (inode_at d i) \<inter> file_blocks (inode_at d j) = {}"
    if "i < inode_capacity d" "j < inode_capacity d" "i \<noteq> j" for i j
    using represents_atD(7) [OF assms(1)] that by (simp add: apart_def)
  have sub: "file_blocks (inode_at d' i) \<subseteq> file_blocks (inode_at d i)" if "i < inode_capacity d" "i \<noteq> q" for i
    using assms(4) [of i] t(5) [OF that(1)] that(2) by (cases "i \<in> I") auto
  have sq: "k \<in> file_blocks (inode_at d q)" if "k \<in> file_blocks (inode_at d' q)" "k \<in> file_blocks (inode_at d i)"
    "i < inode_capacity d" for i k
    using assms(5) that holds_blocks(1) [OF assms(1) that(3)] by blast
  have "file_blocks (inode_at d' i) \<inter> file_blocks (inode_at d' j) = {}"
    if "i < inode_capacity d" "j < inode_capacity d" "i \<noteq> j" for i j
  proof (rule equals0I)
    fix k
    assume k: "k \<in> file_blocks (inode_at d' i) \<inter> file_blocks (inode_at d' j)"
    have "k \<in> file_blocks (inode_at d i) \<inter> file_blocks (inode_at d j)"
      using k sub [OF that(1)] sub [OF that(2)] sq that by (cases "i = q"; cases "j = q") blast+
    then show False using ap [OF that] by blast
  qed
  then show ?thesis by (simp add: apart_def t(9))
qed

lemma represents_change:
  assumes rep: "represents_at tr d s" and st: "fs_step I K d d'"
    and room: "has_room s'" "block_limit s' = block_limit s" "inode_limit s' = inode_limit s"
      "block_limit s \<le> card (free_set d') + blocks_needed s'"
    and len: "length (files s) \<le> length (files s')" "length (files s') \<le> inode_capacity d"
    and dirs: "\<forall>i<length (files s). is_dir (files s' ! i) = is_dir (files s ! i) \<and> (is_dir (files s ! i) \<longrightarrow> tr' i = tr i)"
    and same: "\<And>i. i < length (files s) \<Longrightarrow> i \<notin> I \<Longrightarrow> files s' ! i = files s ! i"
    and I: "\<forall>i\<in>I. i < length (files s')" "\<forall>i<length (files s'). length (files s) \<le> i \<longrightarrow> i \<in> I"
    and K: "\<And>i. i < length (files s) \<Longrightarrow> i \<notin> I \<Longrightarrow> file_blocks (inode_at d i) \<inter> K = {}"
      "\<And>i x. i < length (files s) \<Longrightarrow> i \<notin> I \<Longrightarrow> x \<in> K \<Longrightarrow> is_tree d x \<Longrightarrow>
         index_ok (d, x) \<and> (is_dir (files s ! i) \<longrightarrow> x \<noteq> tr i)"
    and new: "\<And>i. i \<in> I \<Longrightarrow> holds d' tr' (files s') i"
    and blocks: "\<And>i. i \<in> I \<Longrightarrow> i \<noteq> q \<Longrightarrow> file_blocks (inode_at d' i) \<subseteq> file_blocks (inode_at d i)"
      "file_blocks (inode_at d' q) \<subseteq> file_blocks (inode_at d q) \<union> {k. \<not> is_data d k}" "q < inode_capacity d"
    and us: "\<forall>i<inode_capacity d. inode_used d' i = (i < length (files s'))"
  shows "represents_at tr' d' s'"
proof -
  note r = represents_atD [OF rep]
  note t = fs_stepD [OF st]
  have h: "holds d' tr' (files s') i" if i: "i < length (files s')" for i
  proof (cases "i \<in> I")
    case True
    then show ?thesis by (rule new)
  next
    case False
    then have l: "i < length (files s)" using I(2) i by (metis not_le)
    have ino: "inode_at d' i = inode_at d i" by (rule t(5) [OF r(12) [OF l] False])
    have sm: "files s' ! i = files s ! i" by (rule same [OF l False])
    show ?thesis
    proof (rule holds_step [OF r(11) [OF l] st K(1) [OF l False]])
      show "\<forall>x\<in>K. is_tree d x \<longrightarrow> index_ok (d, x) \<and> (is_dir (files s ! i) \<longrightarrow> x \<noteq> tr i)"
        using K(2) [OF l False] by blast
      show "\<forall>j<length (files s). is_dir (files s' ! j) = is_dir (files s ! j) \<and> (is_dir (files s ! j) \<longrightarrow> tr' j = tr j)"
        by (rule dirs)
    qed (use ino sm len l holdsD(1) [OF r(11) [OF l]] in simp_all)
  qed
  have "apart d'"
    by (rule apart_step [OF rep st _ blocks]) (use I(1) len(2) in auto)
  moreover have "inodes_match d' (length (files s'))"
  proof -
    have "unused_inode (inode_at d' i)" if "i < inode_capacity d" "length (files s') \<le> i" for i
    proof -
      have "i \<notin> I" using I(1) that(2) by fastforce
      then have "inode_at d' i = inode_at d i" by (rule t(5) [OF that(1)])
      then show ?thesis using r(6) len(1) that by (simp add: inodes_match_def)
    qed
    then show ?thesis using us len(2) t(9) by (simp add: inodes_match_def)
  qed
  moreover have "is_dir (files s' ! 0) \<and> tr' 0 = root_block d'" using dirs r(8,9,10) t(4) by auto
  moreover have "files s' \<noteq> []" using len(1) r(8) by auto
  ultimately show ?thesis
    using room r(2) t(1,9) h blank_step [OF r(5) st] by (simp add: represents_at_def)
qed

end
