(* ===== verification/Store_Writes.thy ===== *)
theory Store_Writes
  imports Store_Frame
begin

text \<open>
  Requests that change one file or directory, on a volume that represents a store: new attributes
  by \<open>chmod\<close> and \<open>utimens\<close>, new bytes by \<open>write\<close>.
\<close>

subsection \<open>Room\<close>

lemma block_sum_update:
  assumes "i < length fs"
  shows "sum_list (map (blocks_of \<circ> f_content) (fs[i := f])) + blocks_of (f_content (fs ! i))
    = sum_list (map (blocks_of \<circ> f_content) fs) + blocks_of (f_content f)"
  using assms elem_le_sum_list [of i "map (blocks_of \<circ> f_content) fs"]
  by (simp add: map_update sum_list_update)

lemma blocks_needed_set_file:
  assumes "i < length (files s)"
  shows "blocks_needed (set_file i f s) + blocks_of (f_content (files s ! i))
    = blocks_needed s + blocks_of (f_content f)"
  using block_sum_update [OF assms, of f] by (simp add: blocks_needed_def set_file_def)

lemma has_room_same_content:
  assumes "has_room s" "i < length (files s)" "f_content f = f_content (files s ! i)"
  shows "has_room (set_file i f s)" "blocks_needed (set_file i f s) = blocks_needed s"
proof -
  show b: "blocks_needed (set_file i f s) = blocks_needed s"
    using blocks_needed_set_file [OF assms(2), of f] assms(3) by simp
  show "has_room (set_file i f s)"
    using assms b by (auto simp: has_room_def set_file_def list_all_length nth_list_update)
qed

lemma pages_0 [simp]: "pages 0 = 0"
  by (simp add: pages_def)

lemma pages_iff: "k < pages len \<longleftrightarrow> k * USABLE_BLOCK_SIZE < len"
  by (auto simp: pages_def)

lemma block_count_pages:
  assumes "holds_data d n xs"
  shows "block_count n = pages (length xs)"
proof -
  have "k < NDIRECT" if "k * USABLE_BLOCK_SIZE < length xs" for k
    using that assms by (simp add: holds_data_def max_direct_def)
  then have "{k. k < NDIRECT \<and> file_block n k \<noteq> 0} = {..<pages (length xs)}"
    using assms unfolding holds_data_def lessThan_def pages_iff by blast
  then show ?thesis by (simp add: block_count_def)
qed

subsection \<open>Attributes\<close>

lemma target_inode:
  assumes "represents_at tr d s" "path_ok s path"
  obtains p where "item_search d path = Some p" "pair_inode p = of_nat (target s path)"
    "target s path < length (files s)"
    "inode_read d (of_nat (target s path)) = Some (0, Some (inode_at d (target s path)))"
    "shows_file (inode_at d (target s path)) (target s path) (files s ! target s path)"
proof -
  note r = represents_atD [OF assms(1)]
  let ?i = "target s path"
  obtain p where p: "item_search d path = Some p" "pair_inode p = of_nat ?i" "?i < length (files s)"
    using assms
  proof (cases rule: path_cases)
    case (dir i)
    then show ?thesis
      using dir_at_finds [OF r(1) dir(4)] dir(1) by (intro that [of "dir_pair i (tr i)"]) (simp_all add: finds_dir_def dir_pair_def)
  next
    case (found i)
    then show ?thesis
      using item_search_file(1) [OF r(1) found(4)] by (intro that [of "\<lparr>pair_inode = of_nat i, pair_btree = 0\<rparr>"]) simp_all
  next
    case missing
    then show ?thesis
      using item_search_leads [OF r(1) missing(4) [unfolded nothing_at_def]] r(8)
      by (intro that [of no_pair]) (simp_all add: no_pair_def)
  qed
  have "shows_file (inode_at d ?i) ?i (files s ! ?i)" by (rule holdsD(1) [OF r(11) [OF p(3)]])
  moreover have "inode_read d (of_nat ?i) = Some (0, Some (inode_at d ?i))"
    by (rule inode_read_ok [OF fs_okD(2) [OF r(1)] r(12) [OF p(3)]])
  ultimately show ?thesis using p by (intro that)
qed

text \<open>One inode changes, and holds its file or directory again.\<close>

lemma represents_set_file:
  assumes rep: "represents_at tr d s" and i: "i < length (files s)" and st: "fs_step {i} K d d'"
    and K: "\<And>j. j < length (files s) \<Longrightarrow> j \<noteq> i \<Longrightarrow> file_blocks (inode_at d j) \<inter> K = {}" "\<forall>x\<in>K. \<not> is_tree d x"
    and room: "has_room (set_file i f s)" "block_limit s \<le> card (free_set d') + blocks_needed (set_file i f s)"
    and dir: "is_dir f = is_dir (files s ! i)" and new: "holds d' tr (files (set_file i f s)) i"
    and blocks: "file_blocks (inode_at d' i) \<subseteq> file_blocks (inode_at d i) \<union> {k. \<not> is_data d k}"
    and us: "\<forall>j<inode_capacity d. inode_used d' j = inode_used d j"
  shows "represents_at tr d' (set_file i f s)"
proof -
  note r = represents_atD [OF rep]
  have len: "length (files (set_file i f s)) = length (files s)" by (simp add: set_file_def)
  show ?thesis
  proof (rule represents_change [OF rep st room(1), where q = i])
    show "block_limit (set_file i f s) = block_limit s" "inode_limit (set_file i f s) = inode_limit s"
      by (simp_all add: set_file_def)
    show "\<forall>j<length (files s). is_dir (files (set_file i f s) ! j) = is_dir (files s ! j) \<and> (is_dir (files s ! j) \<longrightarrow> tr j = tr j)"
      using dir i by (simp add: set_file_def nth_list_update)
    show "\<forall>j<inode_capacity d. inode_used d' j = (j < length (files (set_file i f s)))"
      using us r(6) len by (simp add: inodes_match_def)
    show "i < inode_capacity d" "length (files (set_file i f s)) \<le> inode_capacity d"
      using r(6,12) i len by (simp_all add: inodes_match_def)
  qed (use i len room K new blocks in \<open>auto simp: set_file_def\<close>)
qed

lemma represents_update:
  assumes "represents_at tr d s" "i < length (files s)" "direct_blocks n = direct_blocks (inode_at d i)"
    and "shows_file n i f" "f_content f = f_content (files s ! i)"
  obtains d' where "inode_write d n = Some (0, d')" "represents_at tr d' (set_file i f s)"
proof -
  note r = represents_atD [OF assms(1)]
  have i: "i < inode_capacity d" using r(12) assms(2) .
  have wf: "inode_wf n" "i_number n = of_nat i"
    using assms(3,4) inode_wf_at [of d i] by (simp_all add: inode_wf_def shows_file_def del: inode_wf_at)
  obtain d' where d': "inode_write d n = Some (0, d')" "d' = set_inode d i n" "fs_step {i} {} d d'" "inode_at d' i = n"
      "index_entries (d', root_block d) = index_entries (d, root_block d)" "root_block d' = root_block d"
      "same_names d d'" "free_set d' = free_set d"
    by (rule fs_update_inode [OF r(1) i wf])
  note h = holdsD(1) [OF r(11) [OF assms(2)]]
  have fb: "file_blocks n = file_blocks (inode_at d i)"
    using assms(3) by (simp add: file_block_def file_blocks_def)
  let ?fs = "files (set_file i f s)"
  have fi: "?fs ! i = f" using assms(2) by (simp add: set_file_def)
  have "holds d' tr ?fs i"
  proof (rule holds_step [OF r(11) [OF assms(2)] d'(3)])
    show "\<forall>j<length (files s). is_dir (?fs ! j) = is_dir (files s ! j) \<and> (is_dir (files s ! j) \<longrightarrow> tr j = tr j)"
      using assms(2,5) by (simp add: set_file_def nth_list_update)
    show "i_number (inode_at d' i) = i_number (inode_at d i)" using d'(4) wf(2) h by (simp add: shows_file_def)
  qed (use d'(4) assms(2-5) fi in \<open>simp_all add: set_file_def\<close>)
  moreover note room = has_room_same_content [OF r(3) assms(2,5)]
  ultimately have "represents_at tr d' (set_file i f s)"
    using r(4) d'(4,7,8) fb assms(5)
    by (intro represents_set_file [OF assms(1,2) d'(3)]) (simp_all add: same_names_def)
  with d'(1) show ?thesis by (rule that)
qed

lemma chmod_spec:
  assumes "represents_at tr d s" "path_ok s path"
  obtains d' where "nbtrfs_chmod d path mode = Some (0, d')"
    "represents_at tr d' (set_file (target s path) ((files s ! target s path)\<lparr>f_mode := mode\<rparr>) s)"
proof -
  let ?i = "target s path"
  obtain p where p: "item_search d path = Some p" "pair_inode p = of_nat ?i" "?i < length (files s)"
    "inode_read d (of_nat ?i) = Some (0, Some (inode_at d ?i))" "shows_file (inode_at d ?i) ?i (files s ! ?i)"
    by (rule target_inode [OF assms])
  have "nbtrfs_chmod d path mode = inode_write d ((inode_at d ?i)\<lparr>i_mode := mode\<rparr>)"
    using p(1,2,4) by (simp add: nbtrfs_chmod_def)
  then show ?thesis
    using represents_update [OF assms(1) p(3), of "(inode_at d ?i)\<lparr>i_mode := mode\<rparr>" "(files s ! ?i)\<lparr>f_mode := mode\<rparr>"]
      p(5) that by (auto simp: shows_file_def)
qed

lemma utimens_spec:
  fixes ts0 ts1 :: "u64 \<times> u64"
  assumes "represents_at tr d s" "path_ok s path"
  defines "f \<equiv> (files s ! target s path)\<lparr>f_atime := fst ts0 * 1000000000 + snd ts0,
      f_mtime := fst ts1 * 1000000000 + snd ts1\<rparr>"
  obtains d' where "nbtrfs_utimens d path ts0 ts1 = Some (0, d')" "represents_at tr d' (set_file (target s path) f s)"
proof -
  let ?i = "target s path"
  obtain p where p: "item_search d path = Some p" "pair_inode p = of_nat ?i" "?i < length (files s)"
    "inode_read d (of_nat ?i) = Some (0, Some (inode_at d ?i))" "shows_file (inode_at d ?i) ?i (files s ! ?i)"
    by (rule target_inode [OF assms(1,2)])
  let ?n = "(inode_at d ?i)\<lparr>i_access_time := fst ts0 * 1000000000 + snd ts0,
      i_modification_time := fst ts1 * 1000000000 + snd ts1\<rparr>"
  have "nbtrfs_utimens d path ts0 ts1 = inode_write d ?n"
    using p(1,2,4) by (simp add: nbtrfs_utimens_def)
  then show ?thesis
    using represents_update [OF assms(1) p(3), of ?n f] p(5) that by (auto simp: shows_file_def f_def)
qed

subsection \<open>Writing\<close>

lemma spliced_facts:
  assumes "off \<le> length xs"
  shows "length (spliced xs off buf) = max (length xs) (off + length buf)"
    "x < length (spliced xs off buf) \<Longrightarrow> spliced xs off buf ! x = (if off \<le> x \<and> x < off + length buf then buf ! (x - off) else xs ! x)"
  using assms by (auto simp: spliced_def nth_append min_def max_def)

lemma missing_pages:
  assumes "holds_data d n xs" "off \<le> length xs" "off + length buf \<le> max_direct"
  shows "card (missing n off (length buf)) + pages (length xs) \<le> pages (length (spliced xs off buf))"
proof -
  have sub: "missing n off (length buf) \<subseteq> {pages (length xs)..<pages (length (spliced xs off buf))}"
  proof
    fix k
    assume "k \<in> missing n off (length buf)"
    then have k: "k \<in> touched off (length buf)" "file_block n k = 0" by (auto simp: missing_def)
    obtain x where x: "k = x div USABLE_BLOCK_SIZE" "off \<le> x" "x < off + length buf"
      using k(1) unfolding touched_def by blast
    have "k < NDIRECT" by (rule touched_small [OF assms(3) k(1)])
    then have "\<not> k * USABLE_BLOCK_SIZE < length xs" using assms(1) k(2) unfolding holds_data_def by blast
    moreover have "k * USABLE_BLOCK_SIZE < off + length buf"
      unfolding x(1) using x(3) div_times_less_eq_dividend [of x USABLE_BLOCK_SIZE] by (rule le_less_trans [rotated])
    ultimately show "k \<in> {pages (length xs)..<pages (length (spliced xs off buf))}"
      unfolding atLeastLessThan_iff not_less [symmetric] pages_iff spliced_facts(1) [OF assms(2)] by linarith
  qed
  have "pages (length xs) \<le> pages (length (spliced xs off buf))"
    unfolding pages_def spliced_facts(1) [OF assms(2)] by (intro div_le_mono) simp
  moreover have "card (missing n off (length buf)) \<le> pages (length (spliced xs off buf)) - pages (length xs)"
    using card_mono [OF _ sub] by simp
  ultimately show ?thesis by simp
qed

lemma holds_data_written:
  assumes "holds_data d n xs" "off \<le> length xs" "off + length buf \<le> max_direct"
    and bytes: "\<forall>x<max_direct. file_byte d' n' x = overwrite (file_byte d n) off buf x"
    and holes: "no_holes n' off (length buf)"
    and blocks: "\<And>k. k < NDIRECT \<Longrightarrow> file_block n k \<noteq> 0 \<Longrightarrow> file_block n' k = file_block n k"
      "\<And>k. k < NDIRECT \<Longrightarrow> k \<notin> touched off (length buf) \<Longrightarrow> file_block n' k = file_block n k"
  shows "holds_data d' n' (spliced xs off buf)"
proof -
  note l = spliced_facts(1) [OF assms(2), of buf]
  have len: "length (spliced xs off buf) \<le> max_direct" using assms(1,3) by (simp add: l holds_data_def)
  moreover have "file_byte d' n' x = spliced xs off buf ! x" if "x < length (spliced xs off buf)" for x
    using that len bytes assms(1,2) spliced_facts(2) [OF assms(2) that] l
    by (auto simp: overwrite_def holds_data_def)
  moreover have "file_block n' k \<noteq> 0 \<longleftrightarrow> k * USABLE_BLOCK_SIZE < length (spliced xs off buf)" if k: "k < NDIRECT" for k
  proof (cases "k \<in> touched off (length buf)")
    case True
    then obtain x where x: "k = x div USABLE_BLOCK_SIZE" "off \<le> x" "x < off + length buf"
      unfolding touched_def by blast
    then have "file_block n' k \<noteq> 0" using holes unfolding no_holes_def by blast
    moreover have "k * USABLE_BLOCK_SIZE \<le> x" unfolding x(1) by (rule div_times_less_eq_dividend)
    ultimately show ?thesis using x(3) l by simp
  next
    case False
    have "k * USABLE_BLOCK_SIZE < length xs" if "k * USABLE_BLOCK_SIZE < off + length buf"
    proof (rule ccontr)
      assume "\<not> k * USABLE_BLOCK_SIZE < length xs"
      then have "off \<le> k * USABLE_BLOCK_SIZE" using assms(2) by simp
      moreover have "k * USABLE_BLOCK_SIZE div USABLE_BLOCK_SIZE = k" by simp
      ultimately have "k \<in> touched off (length buf)"
        using that unfolding touched_def mem_Collect_eq by (intro exI [of _ "k * USABLE_BLOCK_SIZE"]) simp
      with False show False ..
    qed
    then have "k * USABLE_BLOCK_SIZE < length (spliced xs off buf) \<longleftrightarrow> k * USABLE_BLOCK_SIZE < length xs"
      unfolding l by linarith
    then show ?thesis
      using blocks(2) [OF k False] assms(1) k unfolding holds_data_def by metis
  qed
  ultimately show ?thesis by (simp add: holds_data_def)
qed

lemma max_of_nat_u64:
  assumes "a \<le> max_direct" "b \<le> max_direct"
  shows "max (of_nat a :: u64) (of_nat b) = of_nat (max a b)"
proof -
  have "(of_nat a :: u64) \<le> of_nat b \<longleftrightarrow> a \<le> b"
    unfolding word_le_nat_alt by (simp only: int_of_u64_file(2) [OF assms(1)] int_of_u64_file(2) [OF assms(2)])
  then show ?thesis by (simp add: max_def)
qed

lemma write_spec:
  fixes buf :: "u8 list"
  assumes rep: "represents_at tr d s" and i: "i < length (files s)" "\<not> is_dir (files s ! i)" "file_at d names i"
    and off: "off \<le> length (f_data (files s ! i))"
  defines "f \<equiv> (files s ! i)\<lparr>f_content := Bytes (spliced (f_data (files s ! i)) off buf)\<rparr>"
  assumes room: "has_room (set_file i f s)"
  obtains d' where "nbtrfs_write E d (path_of names) buf off = Some (int (length buf), d')"
    "represents_at tr d' (set_file i f s)"
proof -
  let ?xs = "f_data (files s ! i)"
  note r = represents_atD [OF rep]
  note h = holdsD [OF r(11) [OF i(1)]]
  have ok: "file_ok d i" and hd: "holds_data d (inode_at d i) ?xs" using h i(2) by blast+
  note l = spliced_facts(1) [OF off, of buf]
  have fc: "f_content f = Bytes (spliced ?xs off buf)" "f_content (files s ! i) = Bytes ?xs"
    using i(2) by (simp_all add: f_def not_dir)
  have max: "length (spliced ?xs off buf) \<le> max_direct"
    using room i(1) by (auto simp: has_room_def set_file_def list_all_length fc(1))
  then have e: "off + length buf \<le> max_direct" "length ?xs \<le> max_direct" using l by simp_all
  have "blocks_of (f_content (files s ! i)) = pages (length ?xs)"
    using i(2) by (cases "f_content (files s ! i)") simp_all
  then have bn: "blocks_needed (set_file i f s) + pages (length ?xs) = blocks_needed s + pages (length (spliced ?xs off buf))"
    using blocks_needed_set_file [OF i(1), of f] by (simp add: fc(1))
  have lim: "blocks_needed (set_file i f s) \<le> block_limit s"
    using room by (simp add: has_room_def set_file_def)
  have "card (missing (inode_at d i) off (length buf)) \<le> card (free_set d)"
    using missing_pages [OF hd off e(1)] bn lim r(4) by linarith
  from nbtrfs_write_exact [OF ok i(3) e(1) this, of E] obtain d' where
    d': "nbtrfs_write E d (path_of names) buf off = Some (int (length buf), d')"
      "file_ok d' i" "fs_step {i} (file_blocks (inode_at d i)) d d'"
      "\<forall>x<max_direct. file_byte d' (inode_at d' i) x = overwrite (file_byte d (inode_at d i)) off buf x"
      "written_inode (inode_at d i) (inode_at d' i) (of_nat (off + length buf))"
      "no_holes (inode_at d' i) off (length buf)" "same_names d d'"
      "blocks_added i (touched off (length buf)) d d'"
    by blast
  have hd': "holds_data d' (inode_at d' i) (spliced ?xs off buf)"
    using holds_data_written [OF hd off e(1) d'(4,6)] blocks_added_kept [OF d'(8)] blocks_added_other [OF d'(8)] by blast
  have sz: "max (i_size (inode_at d i)) (of_nat (off + length buf)) = of_nat (length (spliced ?xs off buf))"
    using h(1) max_of_nat_u64 [OF e(2,1)] unfolding l by (simp only: shows_file_def)
  have sf: "shows_file (inode_at d' i) i f"
    using h(1) same_attributesD [OF d'(5) [unfolded written_inode_def]] sz by (simp add: shows_file_def f_def)
  have fi: "files (set_file i f s) ! i = f" using i(1) by (simp add: set_file_def)
  have "represents_at tr d' (set_file i f s)"
  proof (rule represents_set_file [OF rep i(1) d'(3) _ _ room])
    show "file_blocks (inode_at d j) \<inter> file_blocks (inode_at d i) = {}" if "j < length (files s)" "j \<noteq> i" for j
      using r(7,12) that i(1) by (simp add: apart_def)
    show "\<forall>x\<in>file_blocks (inode_at d i). \<not> is_tree d x"
      using file_blocks_data [OF ok] is_tree_not_data by blast
    have "card (free_set d) + pages (length ?xs) \<le> card (free_set d') + pages (length (spliced ?xs off buf))"
      using d'(8) block_count_pages [OF hd] block_count_pages [OF hd'] by (simp add: blocks_added_def)
    then show "block_limit s \<le> card (free_set d') + blocks_needed (set_file i f s)"
      using bn r(4) by linarith
    have "k \<in> file_blocks (inode_at d i) \<or> k \<in> free_set d" if "k \<in> file_blocks (inode_at d' i)" for k
      using that d'(8) unfolding blocks_added_def file_blocks_def by (smt (verit) mem_Collect_eq)
    then show "file_blocks (inode_at d' i) \<subseteq> file_blocks (inode_at d i) \<union> {k. \<not> is_data d k}"
      using free_set_apart by blast
    show "is_dir f = is_dir (files s ! i)" using i(2) by (simp add: fc(1))
    show "holds d' tr (files (set_file i f s)) i" unfolding holds_def fi fc(1) using d'(2) sf hd' by simp
    show "\<forall>j<inode_capacity d. inode_used d' j = inode_used d j" using d'(7) by (simp add: same_names_def)
  qed
  with d'(1) show ?thesis by (rule that)
qed

end
