(* ===== verification/Store_Names.thy ===== *)
theory Store_Names
  imports Store_Writes
begin

text \<open>
  Requests that give a directory a new name, on a volume that represents a store: \<open>mknod\<close>, with
  which \<open>create\<close> and \<open>mkdir\<close> are made, and \<open>link\<close>.
\<close>

subsection \<open>The directory of the new name\<close>

lemma new_path_place:
  assumes "represents_at tr d s" "new_path_ok E s path"
  obtains p ns where "parent_dir s path = Some p" "path_of (butlast (names_of path) @ [last (names_of path)]) = path"
    "p < length (files s)" "f_content (files s ! p) = Names ns" "dir_at d (butlast (names_of path)) p (tr p)"
    "free_hash ns (last (names_of path))" "new_name_ok (last (names_of path))"
    "length (entry_name (env_junk E)) = NAME_MAX" "path_ok s path" "names_of path \<noteq> []"
proof -
  let ?ns = "names_of path"
  have ok: "path_ok s path" "resolve s path = None" "parent_dir s path \<noteq> None" "new_name_ok (last ?ns)"
    "length (entry_name (env_junk E)) = NAME_MAX"
    using assms(2) by (simp_all add: new_path_ok_def)
  have ne: "?ns \<noteq> []" using ok(2) by (auto simp: resolve_def)
  note pa = parent_ok [OF ok(1) ne]
  obtain p where p: "parent_dir s path = Some p" using ok(3) by blast
  have split: "?ns = butlast ?ns @ [last ?ns]" using ne by simp
  have lu: "lookup (files s) 0 (butlast ?ns) = Some p" using p by (simp add: parent_dir_def)
  have "clear (files s) p [last ?ns]" "lookup (files s) p [last ?ns] = None"
    using path_ok_parts(4) [OF ok(1)] ok(2) clear_append [of "files s" 0 "butlast ?ns" "[last ?ns]"]
      lookup_append [of "files s" 0 "butlast ?ns" "[last ?ns]"] lu split by (simp_all add: resolve_def del: clear.simps lookup.simps)
  then obtain ns where ns: "f_content (files s ! p) = Names ns" "free_hash ns (last ?ns)"
    by (auto split: content.splits option.splits)
  have r: "resolve s (path_of (butlast ?ns)) = Some p" using pa(3) p by simp
  from assms(1) pa(1) have "dir_at d (butlast ?ns) p (tr p) \<and> p < length (files s)"
    by (cases rule: path_cases) (use r ns(1) pa(2) in auto)
  then show ?thesis
    using that p split path_ok_parts(3) [OF ok(1)] ns ok ne by simp
qed

lemma dir_room_names:
  assumes "represents_at tr d s" "p < length (files s)" "f_content (files s ! p) = Names ns" "length ns < 15"
    and "blocks_needed s + (if ns = [] then 1 else 0) + child_blocks ty \<le> block_limit s"
  shows "dir_room d p (tr p) ty" "name_blocks d p ty = (if ns = [] then 1 else 0) + child_blocks ty"
proof -
  note r = represents_atD [OF assms(1)]
  have dir: "is_dir (files s ! p)" and fn: "f_names (files s ! p) = ns" using assms(3) by simp_all
  note h = holds_dirD [OF represents_dir(1) [OF assms(1,2) dir, unfolded fn]]
  have z: "dir_first d p = 0 \<longleftrightarrow> ns = []"
    using h(1,5) by (auto simp: entries_match_def dir_ok_def)
  then show nb: "name_blocks d p ty = (if ns = [] then 1 else 0) + child_blocks ty"
    by (simp add: name_blocks_def)
  have "entry_count (page_at d b) = 0" if "next_free d b" for b
    using r(5) that by (simp add: blank_def next_free_def)
  then show "dir_room d p (tr p) ty"
    using assms(4,5) r(4) h(8) by (simp add: dir_room_def nb)
qed

subsection \<open>A directory with one more name\<close>

lemma entries_match_added:
  assumes "entries_match d p ns" "entry_added d p (length ns) (child_entry ty (new_entry junk name (of_nat i)) b) d'"
    and "name_ok name" "length name < NAME_MAX" "length (entry_name junk) = NAME_MAX" "i < 2 ^ 64"
  shows "entries_match d' p (ns @ [(name, i)])"
proof -
  note a = entry_addedD [OF assms(2)]
  note e = new_entry_facts [OF assms(4,5), where target = "of_nat i"]
  have z: "0 \<notin> set name" using assms(3) by (simp add: name_ok_def)
  have "unat (of_nat i :: u64) = i" by (rule unat_of_nat_u64 [OF assms(6)])
  moreover have "file_block (inode_at d' p) k = 0" if "k < NDIRECT" "0 < k" for k
    using assms(1) a(3) that by (simp add: entries_match_def with_first_def file_block_def)
  ultimately show ?thesis
    using assms(1) a e(3,5) e(4) [OF z]
    by (simp add: entries_match_def entry_names_def del: unsigned_of_nat)
qed

lemma tree_matches_added:
  assumes "tree_matches tr dirs (index_entries (d, r)) ns" "free_hash ns name"
    and "index_entries (d', r) = entry_insert (path_hash name, child_value ty (of_nat i) b, ty) (index_entries (d, r))"
    and "dirs' i = (ty = FILE_TYPE_DIRECTORY)" "ty = FILE_TYPE_DIRECTORY \<Longrightarrow> tr' i = b"
    and "\<And>n j. (n, j) \<in> set ns \<Longrightarrow> dirs' j = dirs j \<and> (dirs j \<longrightarrow> tr' j = tr j)"
  shows "tree_matches tr' dirs' (index_entries (d', r)) (ns @ [(name, i)])"
proof -
  have m: "tree_matches tr' dirs' (index_entries (d, r)) ns"
    by (rule tree_matches_cong [OF assms(1,6)])
  have n: "path_hash x \<noteq> path_hash name" if "(x, j) \<in> set ns" for x j
    using assms(2) that by (force simp: free_hash_def)
  show ?thesis
    unfolding tree_matches_def
  proof (intro conjI allI impI ballI)
    fix e
    assume "e \<in> set (ns @ [(name, i)])"
    then consider "e \<in> set ns" | "e = (name, i)" by auto
    then show "case e of (x, j) \<Rightarrow> \<exists>v ty. map_of (index_entries (d', r)) (path_hash x) = Some (v, ty) \<and>
        (if dirs' j then v = of_nat (tr' j) \<and> ty = FILE_TYPE_DIRECTORY else v = of_nat j \<and> ty \<noteq> FILE_TYPE_DIRECTORY)"
    proof cases
      case 1
      obtain x j where e: "e = (x, j)" by (cases e)
      have "map_of (index_entries (d', r)) (path_hash x) = map_of (index_entries (d, r)) (path_hash x)"
        unfolding assms(3) by (rule map_of_entry_insert_other [OF n]) (use 1 e in simp)
      then show ?thesis using m 1 e unfolding tree_matches_def by fastforce
    next
      case 2
      then show ?thesis
        using assms(3-5) by (simp add: map_of_entry_insert child_value_def)
    qed
  next
    fix h
    assume h: "h \<notin> (path_hash \<circ> fst) ` set (ns @ [(name, i)])"
    then have "map_of (index_entries (d', r)) h = map_of (index_entries (d, r)) h"
      unfolding assms(3) by (intro map_of_entry_insert_other) auto
    then show "map_of (index_entries (d', r)) h = None"
      using m h unfolding tree_matches_def by auto
  qed
qed

lemma good_names_added:
  assumes "good_names ns m" "free_hash ns name" "name_ok name" "length name < NAME_MAX" "0 < i" "i < m'" "m \<le> m'"
  shows "good_names (ns @ [(name, i)]) m'"
  using good_names_mono [OF assms(1,7)] assms(2-6) by (auto simp: good_names_def free_hash_def)

lemma holds_dir_added:
  assumes "holds_dir d tr dirs m p ns" "free_hash ns name" "new_name_ok name" "length (entry_name junk) = NAME_MAX"
    and "name_added d p (tr p) (length ns) (new_entry junk name (of_nat i)) (path_hash name) (of_nat i) ty b d'"
    and "0 < i" "i < m'" "m \<le> m'" "i < 2 ^ 64" "dirs' i = (ty = FILE_TYPE_DIRECTORY)"
    and "ty = FILE_TYPE_DIRECTORY \<Longrightarrow> tr' i = b" "\<And>j. j < m \<Longrightarrow> dirs' j = dirs j \<and> (dirs j \<longrightarrow> tr' j = tr j)"
    and "tr' p = tr p"
  shows "holds_dir d' tr' dirs' m' p (ns @ [(name, i)])"
proof -
  note h = holds_dirD [OF assms(1)]
  have nm: "name_ok name" "length name < NAME_MAX" using assms(3) by (simp_all add: new_name_ok_def)
  have a: "entry_added d p (length ns) (child_entry ty (new_entry junk name (of_nat i)) b) d'"
    "tree_added d (tr p) (path_hash name) (child_value ty (of_nat i) b) ty d'"
    using assms(5) by (simp_all add: name_added_def)
  note t = a(2) [unfolded tree_added_def]
  have "tree_of d' p (tr p) (Suc (length ns))" using h(2) t by (simp add: tree_of_def)
  moreover have "tree_matches tr' dirs' (index_entries (d', tr p)) (ns @ [(name, i)])"
    by (rule tree_matches_added [where dirs' = dirs' and tr' = tr' and b = b, OF h(3) assms(2) _ assms(10) assms(11)])
      (use t assms(12) good_namesD(4) [OF h(4)] in blast)+
  ultimately show ?thesis
    using entries_match_added [OF h(1) a(1) nm assms(4,9)] good_names_added [OF h(4) assms(2) nm assms(6-8)]
    by (simp add: holds_dir_def assms(13))
qed

subsection \<open>The volume with one more name\<close>

text \<open>
  What \<open>mknod\<close> and \<open>link\<close> have in common: the directory \<open>p\<close> has one more name, for the inode
  \<open>i\<close>, which is new or has one more link.
\<close>

lemma other_blocks:
  assumes "represents_at tr d s" "p < length (files s)" "is_dir (files s ! p)" "j < length (files s)" "j \<noteq> p"
  shows "file_blocks (inode_at d j) \<inter> {unat (dir_first d p), tr p} = {}"
proof -
  note r = represents_atD [OF assms(1)]
  note h = holds_dirD [OF represents_dir(1) [OF assms(1-3)]]
  have "file_blocks (inode_at d j) \<inter> file_blocks (inode_at d p) = {}"
    using r(7,12) assms(2,4,5) by (simp add: apart_def)
  moreover have "unat (dir_first d p) \<noteq> 0" if "unat (dir_first d p) \<in> file_blocks (inode_at d j)"
    using that by (auto simp: file_blocks_def unat_eq_0)
  ultimately have "unat (dir_first d p) \<notin> file_blocks (inode_at d j)"
    using dir_first_blocks [OF h(1)] by (auto split: if_splits)
  moreover have "tr p \<notin> file_blocks (inode_at d j)"
    using holds_blocks(1) [OF assms(1) r(12) [OF assms(4)]] is_tree_not_data index_nodes(1) [OF h(6) disjI1 [OF refl]] by blast
  ultimately show ?thesis by simp
qed

lemma other_trees:
  assumes "represents_at tr d s" "p < length (files s)" "is_dir (files s ! p)" "j < length (files s)" "j \<noteq> p"
    and "x \<in> {unat (dir_first d p), tr p}" "is_tree d x"
  shows "index_ok (d, x) \<and> (is_dir (files s ! j) \<longrightarrow> x \<noteq> tr j)"
proof -
  note r = represents_atD [OF assms(1)]
  note h = holds_dirD [OF represents_dir(1) [OF assms(1-3)]]
  have "x \<noteq> 0" by (rule fs_node_apart(1) [OF r(1) assms(7)])
  then have "x \<noteq> unat (dir_first d p)"
    using dir_okD(1) [OF h(5)] is_tree_not_data [OF assms(7)] by (cases "dir_first d p = 0") auto
  then have x: "x = tr p" using assms(6) by blast
  have "tr p \<noteq> tr j" if "is_dir (files s ! j)"
    using tree_apart [OF assms(1,2,4,3) that] assms(5) by blast
  then show ?thesis using h(6) x by simp
qed

lemma represents_add_name:
  assumes rep: "represents_at tr d s" and p: "p < length (files s)" "f_content (files s ! p) = Names ns" "p \<noteq> i" "0 < i"
    and st: "fs_step {p, i} {unat (dir_first d p), tr p} d d'"
    and added: "name_added d p (tr p) (length ns) (new_entry junk name (of_nat i)) (path_hash name) (of_nat i) ty b d'"
    and name: "free_hash ns name" "new_name_ok name" "length (entry_name junk) = NAME_MAX"
    and old: "length (files s) \<le> i \<or> ty \<noteq> FILE_TYPE_DIRECTORY \<and> \<not> is_dir (files s ! i)"
    and tr': "tr' = (if ty = FILE_TYPE_DIRECTORY then tr(i := b) else tr)"
    and fs: "files s' = fs" "length (files s) \<le> length fs" "length fs \<le> inode_capacity d" "i < length fs"
      "fs ! p = (files s ! p)\<lparr>f_content := Names (ns @ [(name, i)])\<rparr>"
      "\<And>j. j < length (files s) \<Longrightarrow> j \<notin> {p, i} \<Longrightarrow> fs ! j = files s ! j"
      "\<forall>j<length fs. length (files s) \<le> j \<longrightarrow> j = i" "is_dir (fs ! i) = (ty = FILE_TYPE_DIRECTORY)"
    and room: "has_room s'" "block_limit s' = block_limit s" "inode_limit s' = inode_limit s"
      "block_limit s \<le> card (free_set d') + blocks_needed s'"
    and this_file: "holds d' tr' fs i" "file_blocks (inode_at d' i) \<subseteq> file_blocks (inode_at d i)"
    and us: "\<forall>j<inode_capacity d. inode_used d' j = (j < length fs)"
  shows "represents_at tr' d' s'"
proof -
  note r = represents_atD [OF rep]
  have dir: "is_dir (files s ! p)" and fn: "f_names (files s ! p) = ns" using p(2) by simp_all
  have hd: "holds_dir d tr (\<lambda>j. is_dir (files s ! j)) (length (files s)) p ns"
    using represents_dir(1) [OF rep p(1) dir] by (simp only: fn)
  note h = holds_dirD [OF hd]
  have ic: "i < inode_capacity d" using fs(3,4) by simp
  have dirs: "is_dir (fs ! j) = is_dir (files s ! j) \<and> (is_dir (files s ! j) \<longrightarrow> tr' j = tr j)" if "j < length (files s)" for j
    using fs(5) fs(6) [of j] fs(8) old p(2) that tr' by (cases "j = p"; cases "j = i") auto
  have trp: "tr' p = tr p" using dirs [OF p(1)] dir by blast
  have a: "entry_added d p (length ns) (child_entry ty (new_entry junk name (of_nat i)) b) d'"
    using added by (simp add: name_added_def)
  note e = entry_addedD [OF a]
  have "holds_dir d' tr' (\<lambda>j. is_dir (fs ! j)) (length fs) p (ns @ [(name, i)])"
    by (rule holds_dir_added [OF hd name added p(4) fs(4,2) inode_number_small(1) [OF ic]])
      (use fs(8) tr' dirs trp in simp_all)
  moreover have "shows_file (inode_at d' p) p (fs ! p)"
    using holdsD(1) [OF r(11) [OF p(1)]] e(3) p(2) by (simp add: shows_file_def with_first_def fs(5))
  ultimately have hp: "holds d' tr' fs p" by (simp add: holds_def fs(5))
  have z: "\<forall>k<NDIRECT. 0 < k \<longrightarrow> file_block (inode_at d' p) k = 0"
    using h(1) e(3) by (simp add: entries_match_def with_first_def file_block_def)
  have pb: "file_blocks (inode_at d' p) \<subseteq> file_blocks (inode_at d p) \<union> {k. \<not> is_data d k}"
  proof
    fix k
    assume "k \<in> file_blocks (inode_at d' p)"
    then have "k = unat (dir_first d' p)"
      using z by (force simp: file_blocks_def file_block_def dir_first_def)
    then show "k \<in> file_blocks (inode_at d p) \<union> {k. \<not> is_data d k}"
      using e(5,6) dir_first_blocks [OF h(1)] by (cases "dir_first d p = 0") simp_all
  qed
  show ?thesis
  proof (rule represents_change [OF rep st room, where q = p, unfolded fs(1), OF fs(2,3)])
    show "holds d' tr' fs j" if "j \<in> {p, i}" for j using that hp this_file(1) by blast
    show "file_blocks (inode_at d' j) \<subseteq> file_blocks (inode_at d j)" if "j \<in> {p, i}" "j \<noteq> p" for j
      using that this_file(2) by blast
    show "file_blocks (inode_at d j) \<inter> {unat (dir_first d p), tr p} = {}"
      if "j < length (files s)" "j \<notin> {p, i}" for j
      by (rule other_blocks [OF rep p(1) dir that(1)]) (use that(2) in simp)
    show "index_ok (d, x) \<and> (is_dir (files s ! j) \<longrightarrow> x \<noteq> tr j)"
      if "j < length (files s)" "j \<notin> {p, i}" "x \<in> {unat (dir_first d p), tr p}" "is_tree d x" for j x
      by (rule other_trees [OF rep p(1) dir that(1) _ that(3,4)]) (use that(2) in simp)
  qed (use dirs fs pb us r(12) p(1) in auto)
qed

subsection \<open>mknod\<close>

lemma add_fileD:
  assumes "parent_dir s path = Some p" "p < length (files s)" "f_content (files s ! p) = Names ns"
    and "has_room (add_file E path mode s)"
  defines "ty \<equiv> mode AND S_IFMT"
  shows "files (add_file E path mode s) ! p = (files s ! p)\<lparr>f_content := Names (ns @ [(last (names_of path), length (files s))])\<rparr>"
    "files (add_file E path mode s) ! length (files s) = new_file E mode"
    "\<And>j. j < length (files s) \<Longrightarrow> j \<noteq> p \<Longrightarrow> files (add_file E path mode s) ! j = files s ! j"
    "length (files (add_file E path mode s)) = Suc (length (files s))"
    "block_limit (add_file E path mode s) = block_limit s" "inode_limit (add_file E path mode s) = inode_limit s"
    "blocks_needed (add_file E path mode s) = blocks_needed s + (if ns = [] then 1 else 0) + child_blocks ty"
    "length ns < 15" "length (files s) < inode_limit s"
proof -
  let ?name = "last (names_of path)"
  let ?f = "(files s ! p)\<lparr>f_content := Names (ns @ [(?name, length (files s))])\<rparr>"
  have fs: "files (add_file E path mode s) = (files s)[p := ?f] @ [new_file E mode]"
    using assms(1,3) by (simp add: add_file_def add_name_def)
  show "files (add_file E path mode s) ! p = ?f"
    "files (add_file E path mode s) ! length (files s) = new_file E mode"
    "\<And>j. j < length (files s) \<Longrightarrow> j \<noteq> p \<Longrightarrow> files (add_file E path mode s) ! j = files s ! j"
    and l: "length (files (add_file E path mode s)) = Suc (length (files s))"
    using assms(2) by (simp_all add: fs nth_append)
  show "block_limit (add_file E path mode s) = block_limit s" and il: "inode_limit (add_file E path mode s) = inode_limit s"
    using assms(1) by (simp_all add: add_file_def)
  have "blocks_of (f_content (new_file E mode)) + 1 = child_blocks ty"
    by (simp add: new_file_def child_blocks_def ty_def pages_def)
  then show "blocks_needed (add_file E path mode s) = blocks_needed s + (if ns = [] then 1 else 0) + child_blocks ty"
    using block_sum_update [OF assms(2), of ?f] assms(3) by (cases "ns = []") (simp_all add: blocks_needed_def fs)
  have "p < length (files (add_file E path mode s))" using assms(2) l by simp
  then have "fits_inode (f_content (files (add_file E path mode s) ! p))"
    using assms(4) by (simp add: has_room_def list_all_length)
  then show "length ns < 15" using assms(2) by (simp add: fs nth_append)
  show "length (files s) < inode_limit s" using assms(4) l il by (simp add: has_room_def)
qed

text \<open>The new file is empty; the new directory has an empty tree.\<close>

lemma holds_new_file:
  assumes "unused_inode (inode_at d i)" "i < inode_capacity d" "0 < i" "fs_step I K d d'"
    and "inode_at d' i = new_file_inode E d i mode" "fs ! i = new_file E mode"
    and "child_made d (mode AND S_IFMT) b (of_nat i) d'"
    and "mode AND S_IFMT = FILE_TYPE_DIRECTORY \<Longrightarrow> tr' i = b"
  shows "holds d' tr' fs i" "file_blocks (inode_at d' i) = {}"
proof -
  note t = fs_stepD [OF assms(4)]
  have n: "shows_file (inode_at d' i) i (new_file E mode)" "direct_blocks (inode_at d' i) = replicate 12 0"
    using assms(1) by (simp_all add: assms(5) new_file_inode_def fresh_inode_def unused_inode_def shows_file_def new_file_def)
  then have num: "i_number (inode_at d' i) = of_nat i" by (simp add: shows_file_def)
  have fb: "file_block (inode_at d' i) k = 0" if "k < NDIRECT" for k
    using that n(2) by (simp add: file_block_def)
  then show none: "file_blocks (inode_at d' i) = {}" by (auto simp: file_blocks_def)
  show "holds d' tr' fs i"
  proof (cases "mode AND S_IFMT = FILE_TYPE_DIRECTORY")
    case False
    then have "f_content (new_file E mode) = Bytes []" by (simp add: new_file_def)
    then show ?thesis
      using n(1) fb t(1,9) assms(2,3) num
      by (simp add: holds_def assms(6) file_ok_def holds_data_def)
  next
    case True
    then have c: "f_content (new_file E mode) = Names []" by (simp add: new_file_def)
    have nt: "new_tree d b (of_nat i) d'" "tr' i = b" using assms(7,8) True by simp_all
    have f: "dir_first d' i = 0" using n(2) by (simp add: dir_first_def)
    then have "entries_match d' i []"
      using t(9) assms(2) num fb n(2) by (simp add: entries_match_def dir_ok_def dir_entries_def entry_names_def)
    moreover have "tree_of d' i b 0" "index_entries (d', b) = []"
      using nt(1) by (simp_all add: new_tree_def tree_of_def index_entries_def tree_entries_def)
    ultimately show ?thesis
      using n(1) nt(2) by (simp add: holds_def assms(6) c holds_dir_def tree_matches_def good_names_def)
  qed
qed

text \<open>The directory that gets the new file is ready for it.\<close>

lemma mknod_place:
  assumes rep: "represents_at tr d s" and path: "new_path_ok E s path" and room: "has_room (add_file E path mode s)"
  obtains p ns where "parent_dir s path = Some p" "path_of (butlast (names_of path) @ [last (names_of path)]) = path"
    "p < length (files s)" "f_content (files s ! p) = Names ns" "dir_at d (butlast (names_of path)) p (tr p)"
    "free_hash ns (last (names_of path))" "new_name_ok (last (names_of path))" "length (entry_name (env_junk E)) = NAME_MAX"
    "dir_ok d p (length ns)" "length ns < 15" "index_ok (d, tr p)" "dir_room d p (tr p) (mode AND S_IFMT)"
    "name_blocks d p (mode AND S_IFMT) = (if ns = [] then 1 else 0) + child_blocks (mode AND S_IFMT)"
    "first_inode d (length (files s))" "p \<noteq> length (files s)"
proof -
  note r = represents_atD [OF rep]
  obtain p ns where p: "parent_dir s path = Some p" "path_of (butlast (names_of path) @ [last (names_of path)]) = path"
    "p < length (files s)" "f_content (files s ! p) = Names ns" "dir_at d (butlast (names_of path)) p (tr p)"
    "free_hash ns (last (names_of path))" "new_name_ok (last (names_of path))" "length (entry_name (env_junk E)) = NAME_MAX"
    by (rule new_path_place [OF rep path])
  note a = add_fileD [OF p(1,3,4) room]
  have dir: "is_dir (files s ! p)" and fn: "f_names (files s ! p) = ns" using p(4) by simp_all
  note h = holds_dirD [OF represents_dir(1) [OF rep p(3) dir, unfolded fn]]
  have lim: "blocks_needed (add_file E path mode s) \<le> block_limit s" using room a(5) by (simp add: has_room_def)
  note rr = dir_room_names [OF rep p(3,4) a(8) lim [unfolded a(7)]]
  have "first_inode d (length (files s))"
    using r(2,6,8) a(9) by (simp add: first_inode_def inodes_match_def)
  then show ?thesis
    using p(3) by (intro that [OF p h(5) a(8) h(6) rr]) simp_all
qed

lemma mknod_spec:
  assumes rep: "represents_at tr d s" and path: "new_path_ok E s path" and room: "has_room (add_file E path mode s)"
  obtains tr' d' where "nbtrfs_mknod E d path mode = Some (0, d')" "represents_at tr' d' (add_file E path mode s)"
proof -
  let ?s' = "add_file E path mode s"
  let ?i = "length (files s)"
  let ?ty = "mode AND S_IFMT"
  let ?names = "butlast (names_of path)" and ?name = "last (names_of path)"
  note r = represents_atD [OF rep]
  obtain p ns where p: "parent_dir s path = Some p" "path_of (?names @ [?name]) = path" "p < length (files s)"
    "f_content (files s ! p) = Names ns" "dir_at d ?names p (tr p)" "free_hash ns ?name" "new_name_ok ?name"
    "length (entry_name (env_junk E)) = NAME_MAX" "dir_ok d p (length ns)" "length ns < 15" "index_ok (d, tr p)"
    "dir_room d p (tr p) ?ty" "name_blocks d p ?ty = (if ns = [] then 1 else 0) + child_blocks ?ty"
    "first_inode d ?i" "p \<noteq> ?i"
    by (rule mknod_place [OF rep path room])
  note a = add_fileD [OF p(1,3,4) room]
  have i: "?i < inode_capacity d" using a(9) r(2) by simp
  have ui: "unused_inode (inode_at d ?i)" using r(6) i by (simp add: inodes_match_def)
  obtain b d' where d': "nbtrfs_mknod E d (path_of (?names @ [?name])) mode = Some (0, d')"
    "fs_step {p, ?i} {unat (dir_first d p), tr p} d d'"
    "name_added d p (tr p) (length ns) (new_entry (env_junk E) ?name (of_nat ?i)) (path_hash ?name) (of_nat ?i) ?ty b d'"
    "inode_at d' ?i = new_file_inode E d ?i mode"
    "\<forall>j<inode_capacity d. inode_used d' j = (j = ?i \<or> inode_used d j)"
    "card (free_set d) \<le> card (free_set d') + name_blocks d p ?ty"
    by (rule mknod_dir [OF r(1) p(5,9-12,7,8,14,15)])
  let ?tr = "if ?ty = FILE_TYPE_DIRECTORY then tr(?i := b) else tr"
  have cm: "child_made d ?ty b (of_nat ?i) d'" using d'(3) by (simp add: name_added_def)
  note new = holds_new_file [OF ui i r(8) d'(2,4) a(2) cm, where tr' = ?tr]
  have "represents_at ?tr d' ?s'"
  proof (rule represents_add_name [OF rep p(3,4,15) r(8) d'(2,3) p(6-8) _ refl refl _ _ _ a(1)])
    show "\<forall>j<inode_capacity d. inode_used d' j = (j < length (files ?s'))"
      using d'(5) r(6) a(4) by (auto simp: inodes_match_def)
    show "block_limit s \<le> card (free_set d') + blocks_needed ?s'"
      using r(4) d'(6) a(7) p(13) by simp
    show "is_dir (files ?s' ! ?i) = (?ty = FILE_TYPE_DIRECTORY)"
      unfolding a(2) by (simp add: new_file_def)
    show "holds d' ?tr (files ?s') ?i" "file_blocks (inode_at d' ?i) \<subseteq> file_blocks (inode_at d ?i)"
      using new by simp_all
  qed (use a i room in \<open>simp_all add: less_Suc_eq_le\<close>)
  then show ?thesis using d'(1) p(2) by (intro that) simp_all
qed

subsection \<open>link\<close>

lemma link_files:
  assumes "parent_dir s to_path = Some p" "f_content (files s ! p) = Names ns" "p \<noteq> i" "p < length (files s)" "i < length (files s)"
  shows "files (add_link i to_path s) = (files s)
      [i := (files s ! i)\<lparr>f_links := f_links (files s ! i) + 1\<rparr>,
       p := (files s ! p)\<lparr>f_content := Names (ns @ [(last (names_of to_path), i)])\<rparr>]"
    "block_limit (add_link i to_path s) = block_limit s" "inode_limit (add_link i to_path s) = inode_limit s"
    "blocks_needed (add_link i to_path s) = blocks_needed s + (if ns = [] then 1 else 0) + child_blocks FILE_TYPE_REGULAR"
proof -
  let ?g = "(files s ! i)\<lparr>f_links := f_links (files s ! i) + 1\<rparr>"
  let ?f = "(files s ! p)\<lparr>f_content := Names (ns @ [(last (names_of to_path), i)])\<rparr>"
  show fs: "files (add_link i to_path s) = (files s)[i := ?g, p := ?f]"
    and "block_limit (add_link i to_path s) = block_limit s" "inode_limit (add_link i to_path s) = inode_limit s"
    using assms(1-3) by (simp_all add: add_link_def add_name_def)
  have pl: "p < length ((files s)[i := ?g])" using assms(4) by simp
  have "blocks_of (f_content ((files s)[i := ?g] ! p)) = blocks_of (Names ns)" using assms(2,3) by simp
  then show "blocks_needed (add_link i to_path s) = blocks_needed s + (if ns = [] then 1 else 0) + child_blocks FILE_TYPE_REGULAR"
    using block_sum_update [OF assms(5), of ?g] block_sum_update [OF pl, of ?f]
    by (cases "ns = []") (simp_all add: blocks_needed_def fs child_blocks_def FILE_TYPE_REGULAR_def FILE_TYPE_DIRECTORY_def)
qed

lemma link_place:
  assumes rep: "represents_at tr d s" and from_path: "path_ok s from_path" "resolve s from_path = Some i" "\<not> is_dir (files s ! i)"
      "f_mode (files s ! i) AND S_IFMT \<noteq> FILE_TYPE_DIRECTORY"
    and path: "new_path_ok E s to_path" and room: "has_room (add_link i to_path s)"
  obtains src p ns where "path_of src = from_path" "file_at d src i" "0 < i" "i < length (files s)"
    "parent_dir s to_path = Some p" "path_of (butlast (names_of to_path) @ [last (names_of to_path)]) = to_path"
    "p < length (files s)" "f_content (files s ! p) = Names ns" "dir_at d (butlast (names_of to_path)) p (tr p)"
    "free_hash ns (last (names_of to_path))" "new_name_ok (last (names_of to_path))"
    "length (entry_name (env_junk E)) = NAME_MAX" "p \<noteq> i" "dir_ok d p (length ns)" "length ns < 15" "index_ok (d, tr p)"
    "dir_room d p (tr p) FILE_TYPE_REGULAR"
    "name_blocks d p FILE_TYPE_REGULAR = (if ns = [] then 1 else 0) + child_blocks FILE_TYPE_REGULAR"
    "i_mode (inode_at d i) AND S_IFMT \<noteq> FILE_TYPE_DIRECTORY" "i_number (inode_at d i) = of_nat i"
proof -
  note r = represents_atD [OF rep]
  from rep from_path(1) obtain src where src: "path_of src = from_path" "file_at d src i" "0 < i" "i < length (files s)"
    by (cases rule: path_cases) (use from_path(2,3) that [of "names_of from_path"] in auto)
  obtain p ns where p: "parent_dir s to_path = Some p" "path_of (butlast (names_of to_path) @ [last (names_of to_path)]) = to_path"
    "p < length (files s)" "f_content (files s ! p) = Names ns" "dir_at d (butlast (names_of to_path)) p (tr p)"
    "free_hash ns (last (names_of to_path))" "new_name_ok (last (names_of to_path))"
    "length (entry_name (env_junk E)) = NAME_MAX"
    by (rule new_path_place [OF rep path])
  have dir: "is_dir (files s ! p)" and fn: "f_names (files s ! p) = ns" using p(4) by simp_all
  have pi: "p \<noteq> i" using dir from_path(3) by auto
  note h = holds_dirD [OF represents_dir(1) [OF rep p(3) dir, unfolded fn]]
  note fs = link_files [OF p(1,4) pi p(3) src(4)]
  have "p < length (files (add_link i to_path s))" using p(3) by (simp add: fs(1))
  then have "fits_inode (f_content (files (add_link i to_path s) ! p))"
    using room by (simp add: has_room_def list_all_length)
  then have n: "length ns < 15" using p(3) by (simp add: fs(1))
  have lim: "blocks_needed (add_link i to_path s) \<le> block_limit s" using room fs(2) by (simp add: has_room_def)
  note rr = dir_room_names [OF rep p(3,4) n lim [unfolded fs(4)]]
  have "i_mode (inode_at d i) AND S_IFMT \<noteq> FILE_TYPE_DIRECTORY" "i_number (inode_at d i) = of_nat i"
    using holdsD(1) [OF r(11) [OF src(4)]] from_path(4) by (simp_all add: shows_file_def)
  then show ?thesis
    by (rule that [OF src p pi h(5) n h(6) rr])
qed

lemma link_spec:
  assumes rep: "represents_at tr d s" and from_path: "path_ok s from_path" "resolve s from_path = Some i" "\<not> is_dir (files s ! i)"
      "f_mode (files s ! i) AND S_IFMT \<noteq> FILE_TYPE_DIRECTORY"
    and path: "new_path_ok E s to_path" and room: "has_room (add_link i to_path s)"
  obtains d' where "nbtrfs_link E d from_path to_path = Some (0, d')" "represents_at tr d' (add_link i to_path s)"
proof -
  let ?names = "butlast (names_of to_path)" and ?name = "last (names_of to_path)"
  let ?s' = "add_link i to_path s"
  let ?g = "(files s ! i)\<lparr>f_links := f_links (files s ! i) + 1\<rparr>"
  note r = represents_atD [OF rep]
  obtain src p ns where src: "path_of src = from_path" "file_at d src i" "0 < i" "i < length (files s)"
    and p: "parent_dir s to_path = Some p" "path_of (?names @ [?name]) = to_path" "p < length (files s)"
    "f_content (files s ! p) = Names ns" "dir_at d ?names p (tr p)" "free_hash ns ?name" "new_name_ok ?name"
    "length (entry_name (env_junk E)) = NAME_MAX" and pi: "p \<noteq> i"
    and rd: "dir_ok d p (length ns)" "length ns < 15" "index_ok (d, tr p)" "dir_room d p (tr p) FILE_TYPE_REGULAR"
    "name_blocks d p FILE_TYPE_REGULAR = (if ns = [] then 1 else 0) + child_blocks FILE_TYPE_REGULAR"
    and ty: "i_mode (inode_at d i) AND S_IFMT \<noteq> FILE_TYPE_DIRECTORY" "i_number (inode_at d i) = of_nat i"
    by (rule link_place [OF assms])
  have dir: "is_dir (files s ! p)" using p(4) by simp
  note hi = holdsD(1) [OF r(11) [OF src(4)]]
  let ?f = "(files s ! p)\<lparr>f_content := Names (ns @ [(?name, i)])\<rparr>"
  note lf = link_files [OF p(1,4) pi p(3) src(4)]
  note fs = lf(1) and lims = lf(2,3) and bn = lf(4)
  obtain b d' where d': "nbtrfs_link E d (path_of src) (path_of (?names @ [?name])) = Some (0, d')"
    "fs_step {p, i} {unat (dir_first d p), tr p} d d'"
    "name_added d p (tr p) (length ns) (new_entry (env_junk E) ?name (of_nat i)) (path_hash ?name) (of_nat i)
       (i_mode (inode_at d i) AND S_IFMT) b d'"
    "inode_at d' i = (inode_at d i)\<lparr>reference_count := reference_count (inode_at d i) + 1\<rparr>"
    "\<forall>j<inode_capacity d. inode_used d' j = inode_used d j"
    "card (free_set d) \<le> card (free_set d') + name_blocks d p FILE_TYPE_REGULAR"
    by (rule link_dir [OF r(1) p(5) rd(1-4) src(2) p(7) pi ty p(8)])
  have fi: "files ?s' ! i = ?g" "f_content ?g = f_content (files s ! i)" using src(4) pi by (simp_all add: fs)
  have dirs: "is_dir (files ?s' ! j) = is_dir (files s ! j)" if "j < length (files s)" for j
    using that p(3,4) src(4) dir by (cases "j = p") (simp_all add: fs nth_list_update)
  have hol: "holds d' tr (files ?s') i"
  proof (rule holds_step [OF r(11) [OF src(4)] d'(2) other_blocks [OF rep p(3) dir src(4) pi [symmetric]]])
    show "\<forall>x\<in>{unat (dir_first d p), tr p}. is_tree d x \<longrightarrow> index_ok (d, x) \<and> (is_dir (files s ! i) \<longrightarrow> x \<noteq> tr i)"
      using other_trees [OF rep p(3) dir src(4) pi [symmetric]] by blast
    show "shows_file (inode_at d' i) i (files ?s' ! i)" using hi by (simp add: fi(1) d'(4) shows_file_def)
  qed (use dirs fi src(4) in \<open>simp_all add: d'(4) fs\<close>)
  have "represents_at tr d' ?s'"
  proof (rule represents_add_name [OF rep p(3,4) pi src(3) d'(2,3) p(6-8) _ _ refl])
    show "\<forall>j<inode_capacity d. inode_used d' j = (j < length (files ?s'))"
      using d'(5) r(6) by (simp add: inodes_match_def fs)
    show "block_limit s \<le> card (free_set d') + blocks_needed ?s'"
      using r(4) d'(6) bn rd(5) by simp
    show "length (files s) \<le> i \<or> i_mode (inode_at d i) AND S_IFMT \<noteq> FILE_TYPE_DIRECTORY \<and> \<not> is_dir (files s ! i)"
      using ty(1) from_path(3) by blast
    show "is_dir (files ?s' ! i) = (i_mode (inode_at d i) AND S_IFMT = FILE_TYPE_DIRECTORY)"
      using ty(1) from_path(3) fi by simp
    show "file_blocks (inode_at d' i) \<subseteq> file_blocks (inode_at d i)"
      by (simp add: d'(4) file_blocks_def file_block_def)
    show "files ?s' ! j = files s ! j" if "j \<notin> {p, i}" for j using that by (simp add: fs)
    show "files ?s' ! p = ?f" using p(3) by (simp add: fs)
  qed (use hol ty(1) r(6) room lims src(4) in \<open>simp_all add: fs inodes_match_def\<close>)
  then show ?thesis using d'(1) p(2) src(1) by (intro that) simp_all
qed

end
