(* ===== verification/Store_Simulation.thy ===== *)
theory Store_Simulation
  imports Store_Names
begin

text \<open>
  Every handler, on a volume that represents a store, gives the reply of \<open>Store_Spec\<close> and leaves a
  volume that represents the new store.
\<close>

subsection \<open>A write that creates the file\<close>

text \<open>Directories that only get more names still lead where they led.\<close>

lemma lookup_grows:
  assumes "\<And>j ns. j < m \<Longrightarrow> f_content (fs ! j) = Names ns \<Longrightarrow> \<exists>ms. f_content (fs' ! j) = Names (ns @ ms)"
    and "\<And>j name k. j < m \<Longrightarrow> (name, k) \<in> set (f_names (fs ! j)) \<Longrightarrow> k < m"
    and "i < m" "lookup fs i names = Some p"
  shows "lookup fs' i names = Some p \<and> clear fs' i names"
  using assms(3,4)
proof (induction names arbitrary: i)
  case (Cons name names)
  then obtain ns j where j: "f_content (fs ! i) = Names ns" "map_of ns name = Some j" "lookup fs j names = Some p"
    by (auto split: content.splits option.splits)
  obtain ms where "f_content (fs' ! i) = Names (ns @ ms)" using assms(1) [OF Cons.prems(1) j(1)] by blast
  moreover have "j < m"
    using assms(2) [OF Cons.prems(1), of name j] map_of_SomeD [OF j(2)] j(1) by simp
  ultimately show ?case using Cons.IH [OF _ j(3)] j(2) by (simp add: map_add_Some_iff)
qed simp

lemma new_file_found:
  assumes "represents_at tr d s" "new_path_ok E s path" "represents_at tr' d' (add_file E path mode s)"
    and "length (names_of path) \<le> 1"
  shows "path_ok (add_file E path mode s) path" "resolve (add_file E path mode s) path = Some (length (files s))"
proof -
  let ?s' = "add_file E path mode s"
  let ?names = "butlast (names_of path)" and ?name = "last (names_of path)"
  obtain p ns where p: "parent_dir s path = Some p" "p < length (files s)" "f_content (files s ! p) = Names ns"
    "free_hash ns ?name" "path_ok s path" "names_of path \<noteq> []"
    by (rule new_path_place [OF assms(1,2)])
  note a = add_fileD(1-4) [OF p(1-3) represents_atD(3) [OF assms(3)]]
  have lu: "lookup (files s) 0 ?names = Some p" using p(1) by (simp add: parent_dir_def)
  have "\<exists>ms. f_content (files ?s' ! j) = Names (xs @ ms)" if "j < length (files s)" "f_content (files s ! j) = Names xs" for j xs
    using a(1) a(3) [of j] that p(3) by (cases "j = p") auto
  moreover have "k < length (files s)" if "j < length (files s)" "(x, k) \<in> set (f_names (files s ! j))" for j x k
  proof -
    have "is_dir (files s ! j)" using that(2) by (cases "f_content (files s ! j)") simp_all
    from good_namesD(4) [OF holds_dirD(4) [OF represents_dir(1) [OF assms(1) that(1) this]] that(2)] show ?thesis .
  qed
  ultimately have g: "lookup (files ?s') 0 ?names = Some p" "clear (files ?s') 0 ?names"
    using lookup_grows [OF _ _ represents_atD(8) [OF assms(1)] lu, of "files ?s'"] by blast+
  have "map_of ns ?name = None"
    using p(4) by (force simp: free_hash_def map_of_eq_None_iff)
  then have one: "lookup (files ?s') p [?name] = Some (length (files s))" "clear (files ?s') p [?name]"
    using a(1) by (simp_all add: map_add_def)
  have split: "names_of path = ?names @ [?name]" using p(6) by simp
  have "lookup (files ?s') 0 (?names @ [?name]) = Some (length (files s))" "clear (files ?s') 0 (?names @ [?name])"
    using g one by (simp_all add: lookup_append clear_append del: lookup.simps clear.simps)
  then have "lookup (files ?s') 0 (names_of path) = Some (length (files s))" "clear (files ?s') 0 (names_of path)"
    unfolding split [symmetric] by simp_all
  then show "resolve ?s' path = Some (length (files s))" "path_ok ?s' path"
    using p(5) assms(4) unfolding path_ok_def resolve_def searchable_def by blast+
qed

lemma put_data_room:
  assumes rep: "represents_at tr d s" and path: "new_path_ok E s path"
    and room: "has_room (snd (put_data (length (files s)) buf 0 (add_file E path (S_IFREG OR 0x1A4) s)))"
  shows "has_room (add_file E path (S_IFREG OR 0x1A4) s)"
    "f_content (files (add_file E path (S_IFREG OR 0x1A4) s) ! length (files s)) = Bytes []"
    "length (files s) < length (files (add_file E path (S_IFREG OR 0x1A4) s))"
proof -
  let ?m = "S_IFREG OR 0x1A4 :: u32"
  let ?s = "add_file E path ?m s"
  let ?i = "length (files s)"
  let ?f = "(files ?s ! ?i)\<lparr>f_content := Bytes (spliced (f_data (files ?s ! ?i)) 0 buf)\<rparr>"
  have room': "has_room (set_file ?i ?f ?s)" using room by (simp add: put_data_def Let_def)
  obtain p ns where p: "parent_dir s path = Some p" "p < length (files s)" "f_content (files s ! p) = Names ns"
    by (rule new_path_place [OF rep path])
  have ty: "?m AND S_IFMT \<noteq> FILE_TYPE_DIRECTORY"
    by (simp add: S_IFREG_def S_IFMT_def FILE_TYPE_DIRECTORY_def)
  show fi: "f_content (files ?s ! ?i) = Bytes []" "?i < length (files ?s)"
    using p(1-3) ty by (simp_all add: add_file_def add_name_def nth_append new_file_def)
  show "has_room ?s"
    unfolding has_room_def
  proof (intro conjI)
    show "length (files ?s) \<le> inode_limit ?s" using room' by (simp add: has_room_def set_file_def)
    show "blocks_needed ?s \<le> block_limit ?s"
      using room' blocks_needed_set_file [OF fi(2), of ?f] fi(1) by (simp add: has_room_def set_file_def)
    show "list_all (fits_inode \<circ> f_content) (files ?s)"
      unfolding list_all_length
    proof (intro allI impI)
      fix j
      assume "j < length (files ?s)"
      then show "(fits_inode \<circ> f_content) (files ?s ! j)"
        using room' fi(1) by (cases "j = ?i") (auto simp: has_room_def set_file_def list_all_length)
    qed
  qed
qed

lemma new_path_missing:
  assumes rep: "represents_at tr d s" and path: "new_path_ok E s path"
  shows "item_search d path = Some no_pair"
proof -
  have ok: "path_ok s path" "resolve s path = None" using path by (simp_all add: new_path_ok_def)
  then have "leads_to d (names_of path) no_pair"
    using represents_leads [OF rep ok(1)] by (simp add: found_pair_def)
  then show ?thesis
    using item_search_leads [OF represents_atD(1) [OF rep]] path_ok_parts(3) [OF ok(1)] by fastforce
qed

lemma put_data_create:
  assumes rep: "represents_at tr d s" and path: "new_path_ok E s path" and single: "length (names_of path) \<le> 1"
    and room: "has_room (snd (put_data (length (files s)) buf 0 (add_file E path (S_IFREG OR 0x1A4) s)))"
  obtains tr' d' where "nbtrfs_write E d path buf 0 = Some (int (length buf), d')"
    "represents_at tr' d' (snd (put_data (length (files s)) buf 0 (add_file E path (S_IFREG OR 0x1A4) s)))"
proof -
  let ?m = "S_IFREG OR 0x1A4 :: u32"
  let ?s = "add_file E path ?m s"
  let ?i = "length (files s)"
  let ?f = "(files ?s ! ?i)\<lparr>f_content := Bytes (spliced (f_data (files ?s ! ?i)) 0 buf)\<rparr>"
  have room': "has_room (set_file ?i ?f ?s)" using room by (simp add: put_data_def Let_def)
  note hr = put_data_room [OF rep path room]
  note fi = hr(2,3)
  have ok: "path_ok s path" using path by (simp add: new_path_ok_def)
  obtain tr' d1 where d1: "nbtrfs_mknod E d path ?m = Some (0, d1)" "represents_at tr' d1 ?s"
    using mknod_spec [OF rep path hr(1)] by blast
  note nf = new_file_found [OF rep path d1(2) single]
  from d1(2) nf(1) have at: "file_at d1 (names_of path) ?i \<and> 0 < ?i"
    by (cases rule: path_cases) (use nf(2) fi(1) in auto)
  have pp: "path_of (names_of path) = path" by (rule path_ok_parts(3) [OF ok])
  obtain d' where d': "nbtrfs_write E d1 (path_of (names_of path)) buf 0 = Some (int (length buf), d')"
      "represents_at tr' d' (set_file ?i ?f ?s)"
    by (rule write_spec [OF d1(2) fi(2) _ _ _ room', of "names_of path" E]) (use fi at in simp_all)
  note missing = new_path_missing [OF rep path]
  note look = item_search_file [OF represents_atD(1) [OF d1(2)] conjunct1 [OF at], unfolded pp]
  have "nbtrfs_write E d path buf 0 = nbtrfs_write E d1 path buf 0"
    using missing d1(1) look unfolding nbtrfs_write_def by (simp add: no_pair_def)
  then show ?thesis
    using d' pp by (intro that) (simp_all add: put_data_def Let_def)
qed

subsection \<open>Every request\<close>

lemma write_step:
  assumes "represents_at tr d s" "served (E, WRITE path buf off) s"
  shows "\<exists>tr' d'. nbtrfs_ops E (WRITE path buf off) d = Some (fst (store_spec E (WRITE path buf off) s), d') \<and>
    represents_at tr' d' (snd (store_spec E (WRITE path buf off) s))"
proof -
  have adm: "admissible E (WRITE path buf off) s" and room: "has_room (snd (store_spec E (WRITE path buf off) s))"
    using assms(2) by (simp_all add: served_def)
  show ?thesis
  proof (cases "resolve s path")
    case None
    then have a: "new_path_ok E s path" "length (names_of path) \<le> 1" "off = 0"
        "has_room (snd (put_data (length (files s)) buf 0 (add_file E path (S_IFREG OR 0x1A4) s)))"
      using adm room by simp_all
    show ?thesis
      by (rule put_data_create [OF assms(1) a(1,2,4)]) (use None a(3) in \<open>auto simp: status_def put_data_def Let_def\<close>)
  next
    case (Some i)
    have ok: "path_ok s path" using adm Some by simp
    from assms(1) ok show ?thesis
    proof (cases rule: path_cases)
      case (dir j)
      note h = holds_dirD [OF represents_dir(1) [OF assms(1) dir(5,6)]]
      have "(of_nat (tr j) :: u64) \<noteq> 0"
        by (rule node_ok_of_nat_nz [OF index_nodes(2) [OF h(6) disjI1 [OF refl]]])
      then show ?thesis
        using dir_at_finds [OF represents_atD(1) [OF assms(1)] dir(4)] dir(2,6) assms(1) unfolding dir(1) [symmetric]
        by (auto simp: nbtrfs_write_def status_def finds_dir_def dir_pair_def)
    next
      case (found j)
      have a: "off \<le> length (f_data (files s ! j))" "has_room (snd (put_data j buf off s))"
        using adm room found(2,7) by simp_all
      from write_spec [OF assms(1) found(6,7,4) a(1), of buf E] a(2) obtain d' where
        "nbtrfs_write E d path buf off = Some (int (length buf), d')" "represents_at tr d' (snd (put_data j buf off s))"
        unfolding found(1) [symmetric] by (auto simp: put_data_def Let_def)
      then show ?thesis
        using found(2,7) by (auto simp: status_def put_data_def Let_def)
    next
      case missing
      then show ?thesis using Some by simp
    qed
  qed
qed

lemma request_step:
  assumes "represents d s" "served (E, q) s"
  shows "\<exists>d'. nbtrfs_ops E q d = Some (fst (store_spec E q s), d') \<and> represents d' (snd (store_spec E q s))"
proof -
  have adm: "admissible E q s" and room: "has_room (snd (store_spec E q s))"
    using assms(2) by (simp_all add: served_def)
  obtain tr where rep: "represents_at tr d s" using assms(1) unfolding represents_def by blast
  have "\<exists>tr' d'. nbtrfs_ops E q d = Some (fst (store_spec E q s), d') \<and> represents_at tr' d' (snd (store_spec E q s))"
  proof (cases q)
    case (ACCESS path)
    then show ?thesis using adm rep access_getattr_spec(1) [OF rep, of path] by auto
  next
    case (GETATTR path)
    then show ?thesis using adm rep access_getattr_spec(2) [OF rep, of path] by (auto split: option.splits)
  next
    case (READDIR path)
    then obtain i where i: "resolve s path = Some i" using adm by auto
    then show ?thesis
      using READDIR adm rep readdir_spec [OF rep _ i] by (auto simp: target_def)
  next
    case (MKNOD path mode)
    then have a: "new_path_ok E s path" "has_room (add_file E path (mode) s)" using adm room by simp_all
    show ?thesis
      by (rule mknod_spec [OF rep a]) (use MKNOD in \<open>auto simp: status_def\<close>)
  next
    case (CREATE path mode)
    then have a: "new_path_ok E s path" "has_room (add_file E path (mode OR S_IFREG) s)" using adm room by simp_all
    show ?thesis
      by (rule mknod_spec [OF rep a]) (use CREATE in \<open>auto simp: status_def nbtrfs_create_def\<close>)
  next
    case (MKDIR path mode)
    then have a: "new_path_ok E s path" "has_room (add_file E path (mode OR S_IFDIR) s)" using adm room by simp_all
    show ?thesis
      by (rule mknod_spec [OF rep a]) (use MKDIR in \<open>auto simp: status_def nbtrfs_mkdir_def\<close>)
  next
    case (LINK from_path to_path)
    then obtain i where i: "resolve s from_path = Some i" using adm by auto
    then have a: "path_ok s from_path" "\<not> is_dir (files s ! i)" "f_mode (files s ! i) AND S_IFMT \<noteq> FILE_TYPE_DIRECTORY"
        "new_path_ok E s to_path" "has_room (add_link i to_path s)"
      using LINK adm room by (simp_all add: target_def)
    show ?thesis
      by (rule link_spec [OF rep a(1) i a(2-5)]) (use LINK i in \<open>auto simp: status_def target_def\<close>)
  next
    case (CHMOD path mode)
    then have a: "path_ok s path" using adm by simp
    show ?thesis
      by (rule chmod_spec [OF rep a]) (use CHMOD in \<open>auto simp: status_def Let_def\<close>)
  next
    case (UTIMENS path ts0 ts1)
    then have a: "path_ok s path" using adm by simp
    show ?thesis
      by (rule utimens_spec [OF rep a]) (use UTIMENS in \<open>auto simp: status_def Let_def\<close>)
  next
    case (READ path len off)
    then show ?thesis
      using adm rep read_spec [OF rep, of path off len] by (auto simp: Let_def split: option.splits)
  next
    case (WRITE path buf off)
    then show ?thesis using write_step [OF rep] assms(2) by blast
  qed (use adm rep in \<open>auto simp: status_def nbtrfs_truncate_def nbtrfs_open_def nbtrfs_ioctl_def\<close>)
  then show ?thesis unfolding represents_def by blast
qed

end
