(* ===== verification/Image.thy ===== *)
theory Image
  imports Store_Relation
begin

text \<open>
  A volume and the file it is mapped from: what can be observed of a volume depends only on the
  bytes that are in the image, so unmapping and mapping the image again changes nothing.
\<close>

subsection \<open>Pages with the same bytes\<close>

definition page_eq :: "page \<Rightarrow> page \<Rightarrow> bool" where
  "page_eq p q \<longleftrightarrow> (\<forall>a<BLOCK_SIZE. q a = p a)"

lemma page_eq_reads:
  assumes "page_eq p q"
  shows "a < 4096 \<Longrightarrow> q a = p a" "a + n \<le> 4096 \<Longrightarrow> rd_bytes q a n = rd_bytes p a n"
    "a + 2 \<le> 4096 \<Longrightarrow> rd16 q a = rd16 p a" "a + 4 \<le> 4096 \<Longrightarrow> rd32 q a = rd32 p a"
    "a + 8 \<le> 4096 \<Longrightarrow> rd64 q a = rd64 p a" "a < 4096 \<Longrightarrow> rd_bool q a = rd_bool p a"
    "a + 8 * m \<le> 4096 \<Longrightarrow> rd64s q a m = rd64s p a m"
proof -
  have byte: "q x = p x" if "x < 4096" for x using assms that by (simp add: page_eq_def)
  have bytes: "rd_bytes q x c = rd_bytes p x c" if "x + c \<le> 4096" for x c
    using byte that by (simp add: rd_bytes_def)
  show "a < 4096 \<Longrightarrow> q a = p a" "a + n \<le> 4096 \<Longrightarrow> rd_bytes q a n = rd_bytes p a n"
    "a + 2 \<le> 4096 \<Longrightarrow> rd16 q a = rd16 p a" "a + 4 \<le> 4096 \<Longrightarrow> rd32 q a = rd32 p a"
    "a + 8 \<le> 4096 \<Longrightarrow> rd64 q a = rd64 p a" "a < 4096 \<Longrightarrow> rd_bool q a = rd_bool p a"
    "a + 8 * m \<le> 4096 \<Longrightarrow> rd64s q a m = rd64s p a m"
    by (simp_all add: byte bytes rd_defs rd_bool_def rd64s_def)
qed

lemma page_eq_structs:
  assumes "page_eq p q"
  shows "page_type q = page_type p" "superblock_of_page q = superblock_of_page p" "node_of_page q = node_of_page p"
    "j < 22 \<Longrightarrow> inode_of_page q (inode_slot j) = inode_of_page p (inode_slot j)"
    "i < USABLE_BLOCK_SIZE \<Longrightarrow> bitmap_bit q i = bitmap_bit p i"
    "entry_count q = entry_count p" "j < 15 \<Longrightarrow> slot_entry q j = slot_entry p j"
  by (simp_all add: page_type_def superblock_of_page_def node_of_page_def inode_of_page_def inode_slot_def
      bitmap_bit_def entry_count_def slot_entry_def entry_of_page_def entry_at_def first_entry_def
      page_eq_reads [OF assms])

subsection \<open>Volumes with the same image\<close>

definition same_image :: "DiskInterface \<Rightarrow> DiskInterface \<Rightarrow> bool" where
  "same_image d d' \<longleftrightarrow> total_blocks d' = total_blocks d \<and>
     (\<forall>k<n_blocks d. page_eq (page_at d k) (page_at d' k))"

lemma same_image_pages:
  assumes "same_image d d'" "valid_block d k"
  shows "page_eq (page_at d k) (page_at d' k)" "page_type (page_at d' k) = page_type (page_at d k)"
    "node_at d' k = node_at d k"
proof -
  show e: "page_eq (page_at d k) (page_at d' k)"
    using assms valid_block_less by (simp add: same_image_def)
  show "page_type (page_at d' k) = page_type (page_at d k)" "node_at d' k = node_at d k"
    using page_eq_structs [OF e] by (simp_all add: node_at_def)
qed

lemma same_image_volume:
  assumes "same_image d d'" "fs_ok d"
  shows "n_blocks d' = n_blocks d" "valid_block d' k = valid_block d k" "the_sb d' = the_sb d"
    "layout_of d' = layout_of d" "root_block d' = root_block d" "super_ok d'"
    "b < n_blocks d \<Longrightarrow> used d' b = used d b"
    "i < inode_capacity d \<Longrightarrow> inode_at d' i = inode_at d i \<and> inode_used d' i = inode_used d i"
    "k < n_blocks d \<Longrightarrow> is_data d' k = is_data d k"
proof -
  have tb: "total_blocks d' = total_blocks d" using assms(1) by (simp add: same_image_def)
  then show nb: "n_blocks d' = n_blocks d" and vb: "valid_block d' k = valid_block d k" for k
    by (simp_all add: n_blocks_def valid_block_def)
  have z: "valid_block d 0" using fs_okD(5) [OF assms(2)] by (simp add: super_ok_def)
  note s = same_image_pages [OF assms(1) z]
  show sb: "the_sb d' = the_sb d" using page_eq_structs(2) [OF s(1)] by (simp add: the_sb_def)
  then show lay: "layout_of d' = layout_of d" "root_block d' = root_block d"
    by (simp_all add: layout_of_def root_block_def)
  show "super_ok d'" using fs_okD(5) [OF assms(2)] s(2) vb by (simp add: super_ok_def)
  show us: "used d' b = used d b" if "b < n_blocks d" for b
  proof -
    have "valid_block d (bitmap_block b)" by (rule alloc_okD(1) [OF fs_okD(6) [OF assms(2)] that])
    then show ?thesis
      using page_eq_structs(5) [OF same_image_pages(1) [OF assms(1)]] by (simp add: used_def)
  qed
  show "inode_at d' i = inode_at d i \<and> inode_used d' i = inode_used d i" if "i < inode_capacity d"
  proof -
    note v = fs_ok_inode_blocks(6,7) [OF assms(2) that]
    have "i mod inode_per_page < 22" by simp
    then show ?thesis
      using page_eq_structs(4) [OF same_image_pages(1) [OF assms(1) v(2)]]
        page_eq_structs(5) [OF same_image_pages(1) [OF assms(1) v(1)]] layout_cong' [OF lay(1)]
      by (simp add: inode_at_def inode_used_def)
  qed
  show "is_data d' k = is_data d k" if "k < n_blocks d"
    using us [OF that] vb same_image_pages(2) [OF assms(1)] by (auto simp: is_data_def)
qed

lemma same_image_node:
  assumes "same_image d d'" "fs_ok d"
  shows "valid_block d l \<Longrightarrow> node_at d' l = node_at d l \<and> is_node_block d' l = is_node_block d l"
    "node_ok d' l = node_ok d l"
proof -
  show n: "node_at d' l = node_at d l \<and> is_node_block d' l = is_node_block d l" if "valid_block d l" for l
    using same_image_pages(2,3) [OF assms(1) that] by (simp add: is_node_block_def)
  show "node_ok d' l = node_ok d l"
    using n same_image_volume(2) [OF assms] by (auto simp: node_ok_def)
qed

lemma same_image_tree:
  assumes "same_image d d'" "fs_ok d" "index_ok (d, r)"
  shows "leaves d' r = leaves d r" "index_entries (d', r) = index_entries (d, r)" "node_at d' r = node_at d r"
    "index_ok (d', r)"
proof -
  note v = same_image_volume [OF assms(1,2)]
  note node = same_image_node [OF assms(1,2)]
  note r = index_nodes(2) [OF assms(3) disjI1 [OF refl]]
  show root: "node_at d' r = node_at d r"
    using r same_image_pages(3) [OF assms(1)] by (simp add: node_ok_def)
  then show lv: "leaves d' r = leaves d r" by (simp add: leaves_def)
  have lf: "valid_block d l \<and> leaf_ok d' r l \<and> leaf_key d' l = leaf_key d l \<and> leaf_entry d' l = leaf_entry d l"
    if "l \<in> set (leaves d r)" for l
  proof -
    have l: "leaf_ok d r l"
      using flat_treeD(9) assms(3) that by (auto simp: index_ok_def)
    then have "valid_block d l" by (simp add: leaf_ok_def node_ok_def)
    then show ?thesis using node l by (auto simp: leaf_ok_def leaf_key_def leaf_entry_def)
  qed
  then show "index_entries (d', r) = index_entries (d, r)"
    by (simp add: index_entries_def tree_entries_def lv)
  have keys: "map (leaf_key d') (leaves d r) = map (leaf_key d) (leaves d r)"
    using lf by simp
  have bm: "valid_block d (bitmap_block b) \<and> bitmap_block b < n_blocks d" if "b < n_blocks d" for b
    using alloc_okD(1) [OF fs_okD(6) [OF assms(2)] that] valid_block_less by blast
  have vol: "volume_ok d'"
    using fs_okD(1) [OF assms(2)] v(1,2,6,7) bm valid_block_less [of d 0] fs_okD(5) [OF assms(2)] same_image_pages(2) [OF assms(1)]
    by (auto simp: volume_ok_def alloc_ok_def is_bitmap_def super_ok_def)
  have flat: "flat_tree d' r (leaves d r)"
    using assms(3) lf root node keys by (auto simp: flat_tree_def index_ok_def list_all_iff simp del: map_eq_conv)
  have us: "used d' x" if "x = r \<or> x \<in> set (leaves d r)" for x
    using index_nodes(1) [OF assms(3) that] v(7) valid_block_less by (simp add: is_tree_def)
  show "index_ok (d', r)"
    using assms(3) vol flat us lf by (simp add: index_ok_def lv list_all_iff)
qed

lemma same_image_fs:
  assumes "same_image d d'" "fs_ok d"
  shows "fs_ok d'"
proof -
  note v = same_image_volume [OF assms]
  note t = same_image_tree [OF assms fs_okD(3) [OF assms(2)]]
  have "volume_ok d'" using t(4) by (simp add: index_ok_def)
  moreover have "inode_ok d'"
    using fs_okD(2) [OF assms(2)] v(2,6) layout_cong' [OF v(4)] same_image_pages(2) [OF assms(1)]
    by (simp add: inode_ok_def is_bitmap_def is_inode_block_def)
  ultimately show ?thesis
    using assms(2) t v(1,5,7) layout_cong' [OF v(4)] fs_ok_inode_blocks(6,7) [OF assms(2)] valid_block_less
    by (auto simp: fs_ok_def)
qed

lemma same_image_file:
  assumes "same_image d d'" "fs_ok d" "file_ok d i" "holds_data d (inode_at d i) xs"
  shows "file_ok d' i" "holds_data d' (inode_at d' i) xs"
proof -
  note v = same_image_volume [OF assms(1,2)]
  have i: "i < inode_capacity d" using assms(3) by (simp add: file_ok_def)
  have at: "inode_at d' i = inode_at d i" using v(8) [OF i] by simp
  have data: "is_data d' (unat (file_block (inode_at d i) k)) \<and>
      page_eq (page_at d (unat (file_block (inode_at d i) k))) (page_at d' (unat (file_block (inode_at d i) k)))"
    if "k < NDIRECT" "file_block (inode_at d i) k \<noteq> 0" for k
  proof -
    have "is_data d (unat (file_block (inode_at d i) k))" by (rule file_okD(1) [OF assms(3) that])
    then show ?thesis using v(9) valid_block_less same_image_pages(1) [OF assms(1)] by (auto simp: is_data_def)
  qed
  show "file_ok d' i"
    using assms(3) data same_image_fs [OF assms(1,2)] layout_cong'(1) [OF v(4)] by (simp add: file_ok_def at)
  have "file_byte d' (inode_at d i) x = file_byte d (inode_at d i) x" if "x < max_direct" for x
  proof -
    have "4 + x mod USABLE_BLOCK_SIZE < BLOCK_SIZE" by simp
    then show ?thesis
      using data file_div [OF that] by (simp add: file_byte_def Let_def page_eq_def del: USABLE_BLOCK_SIZE_def NDIRECT_def BLOCK_SIZE_def)
  qed
  then show "holds_data d' (inode_at d' i) xs" using assms(4) by (simp add: holds_data_def at)
qed

lemma same_image_dir:
  assumes "same_image d d'" "fs_ok d" "entries_match d i ns"
  shows "entries_match d' i ns"
proof -
  note v = same_image_volume [OF assms(1,2)]
  have ok: "dir_ok d i (length ns)" using assms(3) by (simp add: entries_match_def)
  then have i: "inode_at d' i = inode_at d i" using v(8) by (simp add: dir_ok_def)
  then have f: "dir_first d' i = dir_first d i" by (simp add: dir_first_def)
  have page: "is_data d' (unat (dir_first d i)) \<and> entry_count (dir_page d' i) = entry_count (dir_page d i) \<and>
      (\<forall>j<15. slot_entry (dir_page d' i) j = slot_entry (dir_page d i) j)" if nz: "dir_first d i \<noteq> 0"
  proof -
    have dk: "is_data d (unat (dir_first d i))" by (rule dir_okD(1) [OF ok nz])
    then have vb: "valid_block d (unat (dir_first d i))" by (simp add: is_data_def)
    note pe = same_image_pages(1) [OF assms(1) vb]
    show ?thesis
      using dk v(9) [OF valid_block_less [OF vb]] page_eq_structs(6,7) [OF pe] by (simp add: dir_page_def f)
  qed
  have "dir_entries d' i = dir_entries d i"
  proof (cases "dir_first d i = 0")
    case False
    have "length ns \<le> 15" "unat (entry_count (dir_page d i)) = length ns"
      using dir_okD(2) [OF ok False] packed_count by (auto simp: packed_def)
    then show ?thesis using page [OF False] False by (simp add: dir_entries_def f)
  qed (simp add: dir_entries_def f)
  moreover have "dir_ok d' i (length ns)"
    using ok page i layout_cong'(1) [OF v(4)] by (auto simp: dir_ok_def f packed_def)
  ultimately show ?thesis using assms(3) by (simp add: entries_match_def f i)
qed

lemma same_image_holds:
  assumes "same_image d d'" "fs_ok d" "i < inode_capacity d" "holds d tr fs i"
  shows "holds d' tr fs i"
proof -
  note at = same_image_volume(8) [OF assms(1-3)]
  show ?thesis
  proof (cases "f_content (fs ! i)")
    case (Bytes xs)
    then show ?thesis
      using assms(4) at same_image_file [OF assms(1,2), of i xs] by (simp add: holds_def)
  next
    case (Names ns)
    have hd: "holds_dir d tr (\<lambda>j. is_dir (fs ! j)) (length fs) i ns"
      using assms(4) Names by (simp add: holds_def)
    note h = holds_dirD [OF hd]
    note t = same_image_tree [OF assms(1,2) h(6)]
    have "tree_of d' i (tr i) (length ns)" using h(2) t by (simp add: tree_of_def)
    then show ?thesis
      using assms(4) h(3,4) t(2) same_image_dir [OF assms(1,2) h(1)] at Names by (simp add: holds_def holds_dir_def)
  qed
qed

lemma same_image_represents:
  assumes "same_image d d'" "represents d s"
  shows "represents d' s"
proof -
  obtain tr where rep: "represents_at tr d s" using assms(2) unfolding represents_def by blast
  note r = represents_atD [OF rep]
  note v = same_image_volume [OF assms(1) r(1)]
  note cap = layout_cong'(1) [OF v(4)]
  have "free_set d' = free_set d" using v(1,7) by (auto simp: free_set_def)
  moreover have "blank d'"
    using r(5) v(1,7) page_eq_structs(6) assms(1) unfolding blank_def same_image_def by metis
  moreover have "inodes_match d' (length (files s))" "apart d'"
    using r(6,7) v(8) by (simp_all add: inodes_match_def apart_def cap)
  moreover have "holds d' tr (files s) i" if "i < length (files s)" for i
    by (rule same_image_holds [OF assms(1) r(1) r(12) [OF that] r(11) [OF that]])
  ultimately have "represents_at tr d' s"
    using r(2-4,8-10) same_image_fs [OF assms(1) r(1)] v(5) by (simp add: represents_at_def cap)
  then show ?thesis unfolding represents_def by blast
qed

subsection \<open>Unmounting and mounting again\<close>

lemma remount_same_image:
  assumes "n_blocks d \<le> 2 ^ 19" "0 < n_blocks d"
  obtains d' where "disk_open (Some (disk_close d)) = Some (Some d')" "same_image d d'"
proof -
  have len: "length (disk_close d) = n_blocks d * 4096" by (simp add: disk_close_def n_blocks_def)
  have "disk_close d \<noteq> []" using len assms(2) by auto
  then obtain d' where d': "disk_open (Some (disk_close d)) = Some (Some d')" by (simp add: disk_open_def)
  have "total_blocks d' = total_blocks d"
    using d' len by (auto simp: disk_open_def n_blocks_def split: if_splits)
  moreover have "page_eq (page_at d k) (page_at d' k)" if k: "k < n_blocks d" for k
    unfolding page_eq_def
  proof (intro allI impI)
    fix a
    assume a: "a < BLOCK_SIZE"
    let ?x = "4096 * k + a"
    have x: "?x < n_blocks d * 4096" using k a by simp
    have "page_at d' k a = disk_close d ! ?x"
      using d' len x by (auto simp: disk_open_def page_at_def split: if_splits)
    also have "\<dots> = page_at d (?x div 4096) (?x mod 4096)"
      using x by (simp add: disk_close_def n_blocks_def)
    also have "\<dots> = page_at d k a" using a by simp
    finally show "page_at d' k a = page_at d k a" .
  qed
  ultimately show ?thesis using d' by (intro that [of d']) (simp_all add: same_image_def)
qed

end
