(* ===== verification/First_File.thy ===== *)
theory First_File
  imports Session File_Data Format
begin

text \<open>
  The first file of a new volume: the conditions of the handlers hold on every volume that
  formatting makes, and one session creates the file, writes it and reads it back.
\<close>

subsection \<open>A new volume\<close>

lemma new_volume_facts:
  assumes "fits n" "new_volume n label now uid gid v"
  shows "fs_ok v" "root_dir v 0" "first_inode v 1" "inode_capacity v = n div 88 * 22"
    and "i_size (inode_at v 1) = 0" "direct_blocks (inode_at v 1) = replicate 12 0"
    and "lay_root n + 2 < n \<Longrightarrow> root_room v" "card (free_set v) = n - Suc (lay_root n)"
    and "k < n_blocks v \<Longrightarrow> \<not> used v k \<Longrightarrow> entry_count (page_at v k) = 0"
proof -
  note w = assms(2) [unfolded new_volume_def]
  have n: "88 \<le> n" "n \<le> 2 ^ 19"
    using assms(1) by (simp_all add: fits_def)
  note b = lay_bounds [OF n(1)]
  have cap: "1 < n div 88 * 22"
    using n(1) div_le_mono [OF n(1), of 88] by simp
  show "fs_ok v"
    by (rule fs_ok_new_volume [OF assms])
  have root: "root_block v = lay_root n"
    by (rule fs_ok_new_volume [OF assms])
  have lv: "leaves v (lay_root n) = []"
    using w leaves_flat by blast
  show cp: "inode_capacity v = n div 88 * 22"
    using w by blast
  have z: "i_number (inode_at v 0) = 0" "direct_blocks (inode_at v 0) = replicate 12 0"
    using w cap by auto
  then have f: "root_first v = 0"
    by (simp add: dir_first_def)
  then show "root_dir v 0"
    using z cap cp by (simp add: dir_ok_def)
  show "first_inode v 1"
    using w cap by (simp add: first_inode_def)
  show "i_size (inode_at v 1) = 0" "direct_blocks (inode_at v 1) = replicate 12 0"
    using w cap by auto
  have "free_set v = {Suc (lay_root n)..<n}"
    using w by (auto simp: free_set_def)
  then show free: "card (free_set v) = n - Suc (lay_root n)"
    by simp
  have nb: "n_blocks v = n"
    using w by blast
  have used: "used v c = (c \<le> lay_root n)" if "c < n" for c
    using w that by blast
  show blank: "entry_count (page_at v k) = 0" if "k < n_blocks v" "\<not> used v k" for k
  proof -
    have "page_at v k = zero_page"
      using w that used nb by auto
    then show ?thesis
      by (simp add: entry_count_def rd16_def rd_bytes_def zero_page_def numeral_2_eq_2)
  qed
  assume room: "lay_root n + 2 < n"
  show "root_room v"
    using room free blank by (simp add: dir_room_def name_blocks_def root lv f next_free_def
        FILE_TYPE_REGULAR_def FILE_TYPE_DIRECTORY_def)
qed

subsection \<open>Create, write, read\<close>

lemma create_in_session:
  assumes "fs_ok d" "root_dir d 0" "root_room d" "new_name_ok name" "length (entry_name (env_junk E)) = NAME_MAX"
    and "first_inode d 1" "i_size (inode_at d 1) = 0" "direct_blocks (inode_at d 1) = replicate 12 0"
  obtains d1 where "nbtrfs_create E d (path_of [name]) mode = Some (0, d1)" "file_ok d1 1" "root_file d1 name 1"
    "inode_at d1 1 = new_file_inode E d 1 (mode OR S_IFREG)" "card (free_set d) \<le> card (free_set d1) + 2"
    "i_size (inode_at d1 1) = 0"
proof -
  let ?m = "mode OR S_IFREG"
  have ty: "?m AND S_IFMT \<noteq> FILE_TYPE_DIRECTORY"
    by (rule create_type)
  obtain d1 where d1: "nbtrfs_mknod E d (path_of [name]) ?m = Some (0, d1)"
      "fs_step {0, 1} {unat (root_first d), root_block d} d d1"
      "root_added d 0 (new_entry (env_junk E) name (of_nat 1)) (path_hash name) (of_nat 1) (?m AND S_IFMT) d1"
      "inode_at d1 1 = new_file_inode E d 1 ?m"
      "\<forall>j<inode_capacity d. inode_used d1 j = (j = 1 \<or> inode_used d j)"
      "card (free_set d) \<le> card (free_set d1) + (if root_first d = 0 then 2 else 1)"
    by (rule mknod_root [OF assms(1,2) _ assms(3,4) ty assms(5,6)]) simp_all
  note st = fs_stepD [OF d1(2)]
  have i: "1 < inode_capacity d"
    using assms(6) by (simp add: first_inode_def)
  have rf: "root_file d1 name 1"
    by (rule root_added_file [OF d1(3,2) assms(4) _ i ty]) simp
  have "file_block (inode_at d1 1) j = 0" if "j < NDIRECT" for j
    using that assms(8) unfolding d1(4) by (simp add: file_block_def new_file_inode_def fresh_inode_def)
  moreover have "i_number (inode_at d1 1) = of_nat 1" "i_size (inode_at d1 1) = 0"
    using assms(7) unfolding d1(4) by (simp_all add: new_file_inode_def fresh_inode_def)
  ultimately have "file_ok d1 1"
    using st(1,9) i by (simp add: file_ok_def)
  then show ?thesis
    using d1(1,4,6) rf \<open>i_size (inode_at d1 1) = 0\<close> by (intro that [of d1]) (simp_all add: nbtrfs_create_def split: if_splits)
qed

text \<open>The session on one file, from the state before \<open>create\<close>.\<close>

definition file_session ::
    "Env \<Rightarrow> Env \<Rightarrow> u8 list \<Rightarrow> u32 \<Rightarrow> u8 list \<Rightarrow> nat \<Rightarrow> (Env \<times> fuse_request) list" where
  "file_session E E' name mode buf off =
     [(E, CREATE (path_of [name]) mode), (E', WRITE (path_of [name]) buf off),
      (E', READ (path_of [name]) (of_nat (length buf)) off), (E', GETATTR (path_of [name]))]"

lemma write_read_file:
  assumes "file_ok d i" "file_at d names i" "off + length buf \<le> max_direct"
    and "pages_for off (length buf) \<le> card (free_set d)" "i_size (inode_at d i) = 0"
  obtains d' where "nbtrfs_write E d (path_of names) buf off = Some (int (length buf), d')"
    "nbtrfs_read d' (path_of names) (of_nat (length buf)) off = Some (int (length buf), buf)"
    "file_ok d' i" "file_at d' names i" "i_size (inode_at d' i) = of_nat (off + length buf)"
proof -
  obtain d' where d': "nbtrfs_write E d (path_of names) buf off = Some (int (length buf), d')"
      "file_ok d' i" "file_at d' names i" "fs_step {i} (file_blocks (inode_at d i)) d d'"
      "\<forall>x<max_direct. file_byte d' (inode_at d' i) x = overwrite (file_byte d (inode_at d i)) off buf x"
      "i_size (inode_at d' i) = max (i_size (inode_at d i)) (of_nat (off + length buf))"
      "no_holes (inode_at d' i) off (length buf)"
    by (rule nbtrfs_write_file [OF assms(1-4)])
  have u: "unat (of_nat (off + length buf) :: u64) = off + length buf"
    by (rule int_of_u64_file(2) [OF assms(3)])
  have sz: "i_size (inode_at d' i) = of_nat (off + length buf)"
    unfolding d'(6) assms(5) by (simp only: max_absorb2 word_zero_le)
  have s: "unat (i_size (inode_at d' i)) = off + length buf"
    unfolding sz by (rule u)
  have small: "off < 2 ^ 63" "length buf < 2 ^ 63"
    using max_direct_small [OF assms(3)] by simp_all
  have "nbtrfs_read d' (path_of names) (of_nat (length buf)) off
      = Some (int (length buf), map (file_byte d' (inode_at d' i)) [off..<off + length buf])"
    using nbtrfs_read_file [OF d'(2,3) _ small] d'(7) assms(3) unfolding s by simp
  moreover have "map (file_byte d' (inode_at d' i)) [off..<off + length buf] = buf"
    by (rule nth_equalityI) (use d'(5) assms(3) in \<open>simp_all add: overwrite_def\<close>)
  ultimately show ?thesis
    using that d'(1-3) sz by simp
qed

lemma file_session_run:
  assumes "fits n" "new_volume n label now uid gid v" "new_name_ok name"
    and "length (entry_name (env_junk E)) = NAME_MAX" "off + length buf \<le> max_direct"
    and "lay_root n + 3 + pages_for off (length buf) \<le> n"
  shows "\<exists>st d. session (file_session E E' name mode buf off) v =
      Some ([Status 0, Status (int (length buf)), Data (int (length buf)) buf, Attributes 0 (Some st)], d) \<and>
    fs_ok d \<and> st_size st = of_nat (off + length buf)"
proof -
  note v = new_volume_facts [OF assms(1,2)]
  have "root_room v"
    by (rule v(7)) (use assms(6) in simp)
  from create_in_session [OF v(1,2) this assms(3,4) v(3,5,6)] obtain d1 where
    d1: "nbtrfs_create E v (path_of [name]) mode = Some (0, d1)" "file_ok d1 1" "root_file d1 name 1"
      "card (free_set v) \<le> card (free_set d1) + 2" "i_size (inode_at d1 1) = 0"
    by metis
  have enough: "pages_for off (length buf) \<le> card (free_set d1)"
    using d1(4) assms(6) unfolding v(8) by simp
  have ok1: "fs_ok d1"
    using d1(2) by (simp add: file_ok_def)
  from write_read_file [OF d1(2) root_file_at [OF ok1 d1(3)] assms(5) enough d1(5), of E'] obtain d2 where
    d2: "nbtrfs_write E' d1 (path_of [name]) buf off = Some (int (length buf), d2)"
      "nbtrfs_read d2 (path_of [name]) (of_nat (length buf)) off = Some (int (length buf), buf)"
      "file_ok d2 1" "file_at d2 [name] 1" "i_size (inode_at d2 1) = of_nat (off + length buf)"
    by blast
  have ok: "fs_ok d2"
    using d2(3) by (simp add: file_ok_def)
  show ?thesis
    using d1(1) d2(1,2) getattr_file [OF ok d2(4)] ok d2(5)
    by (simp add: file_session_def status_def stat_of_def)
qed

text \<open>
  On a volume of any admissible size that disk_format made, a session that creates a file
  in the root directory, writes a range within its direct blocks, reads the range and asks for
  the attributes gets the replies 0, the number of bytes, the bytes themselves, and a size that
  is the end of the range; the volume keeps its invariant.
\<close>

lemma first_file_of_new_volume:
  assumes "fits n" "length label \<le> 31" "new_name_ok name" "length (entry_name (env_junk E)) = NAME_MAX"
    and "off + length buf \<le> max_direct" "lay_root n + 3 + pages_for off (length buf) \<le> n"
  shows "\<exists>v st d. disk_format (blank_disk n) label now uid gid = Some (0, v) \<and>
    session (file_session E E' name mode buf off) v =
      Some ([Status 0, Status (int (length buf)), Data (int (length buf)) buf, Attributes 0 (Some st)], d) \<and>
    fs_ok d \<and> st_size st = of_nat (off + length buf)"
proof -
  obtain v where v: "disk_format (blank_disk n) label now uid gid = Some (0, v)" "new_volume n label now uid gid v"
    using disk_format_blank [OF assms(1,2)] by blast
  show ?thesis
    using v(1) file_session_run [OF assms(1) v(2) assms(3-6), of E' mode] by blast
qed

end
