(* ===== verification/Simulation.thy ===== *)
theory Simulation
  imports Prelude
begin

text \<open>
  Runs of a system that serves requests one after the other, and the interface between such a
  system and its specification: if each served request is simulated, so are all runs.
\<close>

fun run_steps :: "('q \<Rightarrow> 'c \<Rightarrow> ('r \<times> 'c) option) \<Rightarrow> 'q list \<Rightarrow> 'c \<Rightarrow> ('r list \<times> 'c) option" where
  "run_steps step [] c = Some ([], c)"
| "run_steps step (q # qs) c = do {
     (reply, c1) \<leftarrow> step q c;
     (replies, c2) \<leftarrow> run_steps step qs c1;
     Some (reply # replies, c2)
   }"

fun run_spec :: "('q \<Rightarrow> 'a \<Rightarrow> 'r \<times> 'a) \<Rightarrow> 'q list \<Rightarrow> 'a \<Rightarrow> 'r list \<times> 'a" where
  "run_spec spec [] a = ([], a)"
| "run_spec spec (q # qs) a =
     (let (reply, a1) = spec q a; (replies, a2) = run_spec spec qs a1 in (reply # replies, a2))"

fun all_served :: "('q \<Rightarrow> 'a \<Rightarrow> 'r \<times> 'a) \<Rightarrow> ('q \<Rightarrow> 'a \<Rightarrow> bool) \<Rightarrow> 'q list \<Rightarrow> 'a \<Rightarrow> bool" where
  "all_served spec serves [] a = True"
| "all_served spec serves (q # qs) a = (serves q a \<and> all_served spec serves qs (snd (spec q a)))"

text \<open>States that the system reaches with served requests, together with those of the specification.\<close>

inductive reaches ::
    "('q \<Rightarrow> 'c \<Rightarrow> ('r \<times> 'c) option) \<Rightarrow> ('q \<Rightarrow> 'a \<Rightarrow> 'r \<times> 'a) \<Rightarrow> ('q \<Rightarrow> 'a \<Rightarrow> bool) \<Rightarrow> ('c \<Rightarrow> 'a \<Rightarrow> bool) \<Rightarrow> 'c \<Rightarrow> 'a \<Rightarrow> bool"
  for step spec serves start where
  starts: "start c a \<Longrightarrow> reaches step spec serves start c a"
| steps: "reaches step spec serves start c a \<Longrightarrow> serves q a \<Longrightarrow> step q c = Some (reply, c') \<Longrightarrow>
    reaches step spec serves start c' (snd (spec q a))"

locale simulation =
  fixes step :: "'q \<Rightarrow> 'c \<Rightarrow> ('r \<times> 'c) option"
    and spec :: "'q \<Rightarrow> 'a \<Rightarrow> 'r \<times> 'a"
    and serves :: "'q \<Rightarrow> 'a \<Rightarrow> bool"
    and rel :: "'c \<Rightarrow> 'a \<Rightarrow> bool"
  assumes simulates: "rel c a \<Longrightarrow> serves q a \<Longrightarrow> \<exists>c'. step q c = Some (fst (spec q a), c') \<and> rel c' (snd (spec q a))"
begin

lemma run_simulates:
  assumes "rel c a" "all_served spec serves qs a"
  shows "\<exists>c'. run_steps step qs c = Some (fst (run_spec spec qs a), c') \<and> rel c' (snd (run_spec spec qs a))"
  using assms
proof (induction qs arbitrary: c a)
  case Nil
  then show ?case by simp
next
  case (Cons q qs)
  obtain c1 where c1: "step q c = Some (fst (spec q a), c1)" "rel c1 (snd (spec q a))"
    using simulates [OF Cons.prems(1), of q] Cons.prems(2) by auto
  obtain c2 where c2: "run_steps step qs c1 = Some (fst (run_spec spec qs (snd (spec q a))), c2)"
      "rel c2 (snd (run_spec spec qs (snd (spec q a))))"
    using Cons.IH [OF c1(2)] Cons.prems(2) by auto
  then show ?case using c1(1) by (auto simp: split_def Let_def)
qed

lemma reaches_related:
  assumes "reaches step spec serves start c a" "\<And>c a. start c a \<Longrightarrow> rel c a"
  shows "rel c a"
  using assms(1)
proof induction
  case (steps c a q reply c')
  then show ?case using simulates by fastforce
qed (use assms(2) in blast)

lemma reached_serves:
  assumes "reaches step spec serves start c a" "\<And>c a. start c a \<Longrightarrow> rel c a" "serves q a"
  obtains c' where "step q c = Some (fst (spec q a), c')" "reaches step spec serves start c' (snd (spec q a))"
  using simulates [OF reaches_related [OF assms(1,2)] assms(3)] assms(1,3) by (blast intro: steps)

lemma reached_runs:
  assumes "reaches step spec serves start c a" "\<And>c a. start c a \<Longrightarrow> rel c a" "all_served spec serves qs a"
  shows "\<exists>c'. reaches step spec serves start c' (snd (run_spec spec qs a))"
  using assms(1,3)
proof (induction qs arbitrary: c a)
  case (Cons q qs)
  have q: "serves q a" "all_served spec serves qs (snd (spec q a))" using Cons.prems(2) by simp_all
  obtain c1 where "reaches step spec serves start c1 (snd (spec q a))"
    by (rule reached_serves [OF Cons.prems(1) assms(2) q(1)])
  from Cons.IH [OF this q(2)] show ?case by (auto simp: split_def Let_def)
qed auto

end

end
