(* ===== verification/Session_Theorems.thy ===== *)
theory Session_Theorems
  imports Store_Simulation Image First_File Simulation Sample_Files
begin

text \<open>
  Sessions on a formatted volume: the handlers as a system that serves requests are a simulation
  of the store of \<open>Store_Spec\<close>, from formatting on and for any number of requests.
\<close>

subsection \<open>The first store\<close>

lemma lay_root_room: "88 \<le> n \<Longrightarrow> lay_root n + 2 < n"
  by (simp add: lay_ib_def lay_table_def lay_root_def)

lemma new_volume_represents:
  assumes "fits n" "new_volume n label now uid gid v"
  shows "represents v (new_store n uid gid)"
proof -
  let ?tr = "\<lambda>_. root_block v"
  let ?s = "new_store n uid gid"
  note f = new_volume_facts [OF assms]
  note w = assms(2) [unfolded new_volume_def]
  have n: "88 \<le> n" using assms(1) by (simp add: fits_def)
  have cap: "0 < inode_capacity v" "inode_capacity v = n div 88 * 22"
    using n f(4) by (simp_all add: div_greater_zero_iff)
  have rb: "root_block v = lay_root n" by (rule fs_ok_new_volume [OF assms])
  have lv: "leaves v (lay_root n) = []" using w leaves_flat by blast
  have z: "direct_blocks (inode_at v i) = replicate 12 0" if "i < inode_capacity v" for i using w cap that by simp
  then have db: "direct_blocks (inode_at v 0) = replicate 12 0" using cap(1) by blast
  have zero: "root_first v = 0" using db by (simp add: dir_first_def)
  have "inodes_match v (length (files ?s))"
    using w cap by (auto simp: inodes_match_def new_store_def unused_inode_def)
  moreover have "apart v"
    using z by (auto simp: apart_def file_blocks_def file_block_def)
  moreover have "holds v ?tr (files ?s) 0"
  proof -
    have "shows_file (inode_at v 0) 0 (files ?s ! 0)"
      using w cap by (auto simp: new_store_def shows_file_def)
    moreover have "entries_match v 0 []"
      using f(2) zero db by (simp add: entries_match_def dir_entries_def entry_names_def file_block_def)
    moreover have "tree_of v 0 (root_block v) 0" "index_entries (v, root_block v) = []"
      using fs_okD(3,8) [OF f(1)] by (simp_all add: tree_of_def rb lv index_entries_def tree_entries_def)
    ultimately show ?thesis
      by (simp add: holds_def new_store_def holds_dir_def tree_matches_def good_names_def)
  qed
  moreover have "has_room ?s" "blocks_needed ?s = 1"
    using cap lay_root_room [OF n] by (simp_all add: has_room_def new_store_def blocks_needed_def)
  moreover have "blank v" using f(9) by (simp add: blank_def)
  ultimately have "represents_at ?tr v ?s"
    using f(1,8) cap(2) by (simp add: represents_at_def new_store_def)
  then show ?thesis unfolding represents_def by blast
qed

text \<open>The handlers as a system that serves requests.\<close>

definition nbtrfs_step :: "Env \<times> fuse_request \<Rightarrow> DiskInterface \<Rightarrow> (fuse_reply \<times> DiskInterface) option" where
  "nbtrfs_step q d = nbtrfs_ops (fst q) (snd q) d"

lemma session_run: "session qs d = run_steps nbtrfs_step qs d"
  by (induction qs arbitrary: d) (auto simp: nbtrfs_step_def)

interpretation handlers: simulation nbtrfs_step request_spec served represents
  by unfold_locales (use request_step in \<open>auto simp: nbtrfs_step_def request_spec_def\<close>)

definition starts_new :: "DiskInterface \<Rightarrow> store \<Rightarrow> bool" where
  "starts_new d s \<longleftrightarrow> (\<exists>n label now uid gid. fits n \<and> new_volume n label now uid gid d \<and> s = new_store n uid gid)"

lemma starts_new_represents: "starts_new d s \<Longrightarrow> represents d s"
  using new_volume_represents by (auto simp: starts_new_def)

subsection \<open>A sample session\<close>

text \<open>
  A directory, a file beside it, which is written before it exists, and a second link to the file
  in the directory; then the file is read by its first name.
\<close>

abbreviation "path_a \<equiv> path_of [name_a]"

abbreviation "path_ab \<equiv> path_of [name_a, name_b]"

abbreviation "path_b \<equiv> path_of [name_b]"

definition sample_session :: "(Env \<times> fuse_request) list" where
  "sample_session =
     [(sample_env, GETATTR path_a),
      (sample_env, MKDIR path_a 0x1ED),
      (sample_env, WRITE path_b [1, 2, 3] 0),
      (sample_env, WRITE path_b [7, 8] 2),
      (sample_env, LINK path_b path_ab),
      (sample_env, READ path_b 10 1),
      (sample_env, ACCESS path_a)]"

lemma sample_paths:
  "names_of path_a = [name_a]" "names_of path_ab = [name_a, name_b]" "names_of path_b = [name_b]"
  using name_a_facts name_b_facts by (simp_all add: names_of_path)

lemma sample_names_ok: "names_ok [name_a]" "names_ok [name_a, name_b]" "names_ok [name_b]"
  using name_a_facts name_b_facts by (simp_all add: names_ok_def path_of_def)

lemma name_a_not_b: "name_a \<noteq> name_b" "name_b \<noteq> name_a"
  by (simp_all add: name_a_def name_b_def)

lemmas sample_eval = request_spec_def resolve_def target_def parent_dir_def add_file_def add_name_def add_link_def
  set_file_def put_data_def new_file_def new_store_def spliced_def Let_def sample_paths name_a_not_b
  S_IFDIR_def S_IFREG_def S_IFMT_def FILE_TYPE_DIRECTORY_def

lemmas sample_served = served_def path_ok_def searchable_def new_path_ok_def has_room_def blocks_needed_def pages_def
  max_direct_def sample_layout free_hash_def

lemma sample_session_spec:
  "fst (run_spec request_spec sample_session (new_store 512 1000 1000))
    = [Attributes (-2) None, Status 0, Status 3, Status 2, Status 0, Data 3 [2, 7, 8], Status 0]"
  "map f_content (files (snd (run_spec request_spec sample_session (new_store 512 1000 1000))))
    = [Names [(name_a, 1), (name_b, 2)], Names [(name_b, 2)], Bytes [1, 2, 7, 8]]"
  by (simp_all add: sample_session_def sample_eval)

lemma sample_session_served:
  "all_served request_spec served sample_session (new_store 512 1000 1000)"
  "has_room (snd (run_spec request_spec sample_session (new_store 512 1000 1000)))"
  using name_a_facts name_b_facts name_a_new name_b_new sample_env_name sample_names_ok
  by (simp_all add: sample_session_def sample_eval sample_served)

text \<open>A second session reads the file.\<close>

definition sample_reread :: "(Env \<times> fuse_request) list" where
  "sample_reread = [(sample_env, READ path_b 4 0)]"

lemma sample_reread_served:
  defines "s \<equiv> snd (run_spec request_spec sample_session (new_store 512 1000 1000))"
  shows "all_served request_spec served sample_reread s" "fst (run_spec request_spec sample_reread s) = [Data 4 [1, 2, 7, 8]]"
proof -
  have "length (files s) = 3" using arg_cong [OF sample_session_spec(2), of length] by (simp add: s_def)
  then have "f_content (files s ! i) = map f_content (files s) ! i" if "i < 3" for i using that by simp
  then have b: "f_content (files s ! 0) = Names [(name_a, 1), (name_b, 2)]" "f_content (files s ! 1) = Names [(name_b, 2)]"
    "f_content (files s ! 2) = Bytes [1, 2, 7, 8]"
    unfolding s_def sample_session_spec(2) by simp_all
  have "path_ok s path_b" "resolve s path_b = Some 2"
    using sample_names_ok name_a_not_b b by (simp_all add: path_ok_def resolve_def searchable_def sample_paths)
  then show "all_served request_spec served sample_reread s" "fst (run_spec request_spec sample_reread s) = [Data 4 [1, 2, 7, 8]]"
    using b(3) sample_session_served(2) by (simp_all add: served_def request_spec_def sample_reread_def s_def)
qed

subsection \<open>mkfs and main\<close>

lemma mkfs_makes_volume:
  assumes "fits n" "fsys img = Some (replicate (n * 4096) 0)"
  obtains d where "mkfs_main [prog, img] fsys now uid gid = Some (0, Some d)" "n_blocks d = n"
    "represents d (new_store n uid gid)"
proof -
  have len: "length untitled \<le> 31" by (simp add: untitled_def)
  obtain d where d: "disk_format (blank_disk n) untitled now uid gid = Some (0, d)" "new_volume n untitled now uid gid d"
    using disk_format_blank [OF assms(1) len] by blast
  have "mkfs_main [prog, img] fsys now uid gid = Some (0, Some d)"
    using assms(2) d(1) disk_open_zeros [OF assms(1)] len by (simp add: mkfs_main_def)
  moreover have "n_blocks d = n" using d(2) by (simp add: new_volume_def)
  ultimately show ?thesis
    using new_volume_represents [OF assms(1) d(2)] by (rule that)
qed

lemma main_maps_volume:
  assumes "represents d s" "argv \<noteq> []" "last argv = img"
  obtains d' where "nbtrfs_main argv (fsys(img := Some (disk_close d))) ram = Some (Some d', alloc_cache ram)"
    "n_blocks d' = n_blocks d" "represents d' s"
proof -
  have "n_blocks d \<le> 2 ^ 19"
    using fs_okD(6) assms(1) by (auto simp: alloc_ok_def represents_def represents_at_def)
  moreover have "0 < n_blocks d"
    using fs_okD(5) assms(1) by (auto simp: super_ok_def valid_block_def n_blocks_def represents_def represents_at_def)
  ultimately obtain d' where d': "disk_open (Some (disk_close d)) = Some (Some d')" "same_image d d'"
    by (rule remount_same_image)
  have "nbtrfs_main argv (fsys(img := Some (disk_close d))) ram = Some (Some d', alloc_cache ram)"
    using assms(2,3) d'(1) by (simp add: nbtrfs_main_def)
  moreover have "n_blocks d' = n_blocks d" using d'(2) by (simp add: same_image_def n_blocks_def)
  ultimately show ?thesis
    using same_image_represents [OF d'(2) assms(1)] by (rule that)
qed

subsection \<open>Reachable volumes\<close>

text \<open>
  C15: On every volume that served requests can reach from a formatted one, the type tag of each
  block agrees with its use: superblock, both bitmaps, inode table, the nodes of the tree of each
  directory and the data blocks of files and directories; all of them are marked as used, no
  data block belongs to two inodes, and each directory has a tree of its own.
\<close>

theorem reached_blocks_typed:
  assumes "reaches nbtrfs_step request_spec served starts_new d s"
  shows "page_type (page_at d 0) = block_type_code BLOCK_TYPE_SUPER \<and>
    (\<forall>b<n_blocks d. page_type (page_at d (bitmap_block b)) = block_type_code BLOCK_TYPE_BITMAP \<and> used d (bitmap_block b)) \<and>
    (\<forall>i<inode_capacity d.
       page_type (page_at d (inode_bitmap_block d i)) = block_type_code BLOCK_TYPE_BITMAP \<and> used d (inode_bitmap_block d i) \<and>
       page_type (page_at d (inode_table_block d i)) = block_type_code BLOCK_TYPE_INODE \<and> used d (inode_table_block d i) \<and>
       (\<forall>k\<in>file_blocks (inode_at d i). page_type (page_at d k) = block_type_code BLOCK_TYPE_DATA \<and> used d k \<and>
          (\<forall>j<inode_capacity d. k \<in> file_blocks (inode_at d j) \<longrightarrow> j = i))) \<and>
    (\<exists>tree. tree 0 = root_block d \<and> (\<forall>i<length (files s). is_dir (files s ! i) \<longrightarrow>
       length (leaves d (tree i)) = length (f_names (files s ! i)) \<and>
       (\<forall>k\<in>set (tree i # leaves d (tree i)). page_type (page_at d k) = block_type_code BLOCK_TYPE_BTREE_NODE \<and> used d k) \<and>
       (\<forall>j<length (files s). is_dir (files s ! j) \<longrightarrow> tree i = tree j \<longrightarrow> i = j)))"
proof -
  have "represents d s"
    by (rule handlers.reaches_related [OF assms starts_new_represents])
  then obtain tr where rep: "represents_at tr d s" unfolding represents_def by blast
  note r = represents_atD [OF rep]
  have "used d (bitmap_block b)" if "b < n_blocks d" for b
    using fs_okD(1) [OF r(1)] that by (simp add: volume_ok_def)
  moreover have "is_data d k \<and> (\<forall>j<inode_capacity d. k \<in> file_blocks (inode_at d j) \<longrightarrow> j = i)"
    if "i < inode_capacity d" "k \<in> file_blocks (inode_at d i)" for i k
    using holds_blocks(1) [OF rep that] r(7) that unfolding apart_def by blast
  moreover have "\<exists>tree. tree 0 = root_block d \<and> (\<forall>i<length (files s). is_dir (files s ! i) \<longrightarrow>
       length (leaves d (tree i)) = length (f_names (files s ! i)) \<and>
       (\<forall>k\<in>set (tree i # leaves d (tree i)). page_type (page_at d k) = block_type_code BLOCK_TYPE_BTREE_NODE \<and> used d k) \<and>
       (\<forall>j<length (files s). is_dir (files s ! j) \<longrightarrow> tree i = tree j \<longrightarrow> i = j))"
    by (rule exI [of _ tr]) (use r(10) dir_trees [OF rep] in blast)
  ultimately show ?thesis
    using fs_okD(5) [OF r(1)] fs_bitmap_block(1) [OF r(1)] fs_ok_inode_blocks [OF r(1)]
    by (simp add: super_ok_def is_bitmap_def is_inode_block_def is_data_def del: block_type_code.simps)
qed

lemma starts_new_sample: "starts_new sample_volume (new_store 512 1000 1000)"
  unfolding starts_new_def
  by (intro exI [of _ 512] exI [of _ "[0x76]"] exI [of _ 0] exI [of _ 1000] conjI sample_new refl) (simp add: fits_def)

theorem reached_blocks_typed_witness:
  "\<exists>d s. reaches nbtrfs_step request_spec served starts_new d s \<and>
     map f_content (files s) = [Names [(name_a, 1), (name_b, 2)], Names [(name_b, 2)], Bytes [1, 2, 7, 8]] \<and>
     (\<forall>k\<in>file_blocks (inode_at d 2). page_type (page_at d k) = 0)"
proof -
  let ?s = "snd (run_spec request_spec sample_session (new_store 512 1000 1000))"
  obtain d where d: "reaches nbtrfs_step request_spec served starts_new d ?s"
    using handlers.reached_runs [OF reaches.starts, of starts_new, OF starts_new_sample starts_new_represents sample_session_served(1)]
    by blast
  have "represents d ?s" by (rule handlers.reaches_related [OF d starts_new_represents])
  then have "inodes_match d (length (files ?s))" by (auto simp: represents_def represents_at_def)
  moreover have "length (files ?s) = 3" using arg_cong [OF sample_session_spec(2), of length] by simp
  ultimately have "2 < inode_capacity d" by (simp add: inodes_match_def)
  then have "\<forall>k\<in>file_blocks (inode_at d 2). page_type (page_at d k) = 0"
    using reached_blocks_typed [OF d, THEN conjunct2, THEN conjunct2, THEN conjunct1, THEN spec [of _ 2]] by simp
  then show ?thesis
    using sample_session_spec(2) d by (intro exI [of _ d] exI [of _ ?s]) simp
qed

subsection \<open>Paths of several names\<close>

text \<open>The requests that search for a path.\<close>

fun searches :: "fuse_request \<Rightarrow> u8 list \<Rightarrow> bool" where
  "searches (ACCESS path) q = (path = q)"
| "searches (GETATTR path) q = (path = q)"
| "searches (READDIR path) q = (path = q)"
| "searches (LINK from_path to_path) q = (from_path = q)"
| "searches (RENAME from_path to_path) q = (from_path = q)"
| "searches (CHMOD path mode) q = (path = q)"
| "searches (UTIMENS path ts0 ts1) q = (path = q)"
| "searches (READ path len off) q = (path = q)"
| "searches (WRITE path buf off) q = (path = q)"
| "searches _ q = False"

lemma search_undefined:
  assumes "searches r path" "item_search d path = None"
  shows "nbtrfs_ops E r d = None"
  using assms
  by (cases r) (simp_all add: status_def nbtrfs_access_def nbtrfs_getattr_def nbtrfs_readdir_def getattr_asserted_def
      nbtrfs_link_def nbtrfs_rename_def nbtrfs_chmod_def nbtrfs_utimens_def nbtrfs_read_def nbtrfs_write_def)

lemma nested_search:
  assumes rep: "represents_at tr d s" and ok: "names_ok names" "1 < length names"
    and found: "lookup (files s) 0 (take 2 names) \<noteq> None"
  shows "item_search d (path_of names) = None"
proof -
  let ?fs = "files s"
  note r = represents_atD [OF rep]
  obtain a b rest where names: "names = a # b # rest"
    using ok(2) by (cases names; cases "tl names") auto
  obtain ns j where 1: "f_content (?fs ! 0) = Names ns" "map_of ns a = Some j" "lookup ?fs j [b] \<noteq> None"
    using found by (auto simp: names split: content.splits option.splits)
  then obtain ms k where 2: "f_content (?fs ! j) = Names ms" "map_of ms b = Some k"
    by (auto split: content.splits option.splits)
  obtain v where v: "map_of (index_entries (d, root_block d)) (path_hash a) = Some (v, FILE_TYPE_DIRECTORY)"
      "unat v = tr j" "dir_root_ok d (tr j)" "j < length ?fs"
    using tree_finds(2) [OF rep r(8) 1(1) _ 1(2)] 1(2) 2(1) r(10) by auto
  obtain e where e: "map_of (index_entries (d, tr j)) (path_hash b) = Some e"
    using tree_finds(2) [OF rep v(4) 2(1) _ 2(2)] 2(2) by auto
  have "walk_sound d (root_block d) names" "second_found d (root_block d) names"
    using fs_okD(3) [OF r(1)] v e by (simp_all add: names)
  then show ?thesis
    using item_search_sound [OF fs_okD(5,7) [OF r(1)], of names] ok(1) by (simp add: names_ok_def list_all_iff)
qed

text \<open>
  C4: Two names of a path are never found. On every volume that served requests can reach from a
  formatted one, let the first two names of a path lead to a file or directory of the store.
  Then item_search, and with it every handler that searches for the path (access, getattr,
  readdir, link and rename from it, chmod, utimens, read, write), is undefined: for the second
  name snprintf prints curr_path into curr_path itself.
\<close>

theorem nested_path_undefined:
  assumes "reaches nbtrfs_step request_spec served starts_new d s" "names_ok names" "1 < length names"
    and "lookup (files s) 0 (take 2 names) \<noteq> None"
  shows "item_search d (path_of names) = None \<and> (\<forall>E r. searches r (path_of names) \<longrightarrow> nbtrfs_ops E r d = None)"
proof -
  have "represents d s"
    by (rule handlers.reaches_related [OF assms(1) starts_new_represents])
  then obtain tr where "represents_at tr d s" unfolding represents_def by blast
  from nested_search [OF this assms(2-4)] show ?thesis
    using search_undefined by blast
qed

theorem nested_path_undefined_witness:
  "\<exists>d s. reaches nbtrfs_step request_spec served starts_new d s \<and>
     map f_content (files s) = [Names [(name_a, 1), (name_b, 2)], Names [(name_b, 2)], Bytes [1, 2, 7, 8]] \<and>
     nbtrfs_read d path_b 4 0 = Some (4, [1, 2, 7, 8]) \<and> nbtrfs_read d path_ab 4 0 = None"
proof -
  let ?s = "snd (run_spec request_spec sample_session (new_store 512 1000 1000))"
  obtain d where d: "reaches nbtrfs_step request_spec served starts_new d ?s"
    using handlers.reached_runs [OF reaches.starts, of starts_new, OF starts_new_sample starts_new_represents sample_session_served(1)]
    by blast
  note c = sample_session_spec(2)
  have "length (files ?s) = 3" using arg_cong [OF c, of length] by simp
  then have "f_content (files ?s ! i) = map f_content (files ?s) ! i" if "i < 3" for i using that by simp
  then have "f_content (files ?s ! 0) = Names [(name_a, 1), (name_b, 2)]" "f_content (files ?s ! 1) = Names [(name_b, 2)]"
    unfolding c by simp_all
  then have two: "1 < length [name_a, name_b]" "lookup (files ?s) 0 (take 2 [name_a, name_b]) \<noteq> None" by simp_all
  have "searches (READ path_ab 4 0) path_ab" by simp
  then have "nbtrfs_ops sample_env (READ path_ab 4 0) d = None"
    using nested_path_undefined [OF d sample_names_ok(2) two] by blast
  moreover have "\<exists>d'. session sample_reread d = Some ([Data 4 [1, 2, 7, 8]], d')"
    using handlers.run_simulates [OF handlers.reaches_related [OF d starts_new_represents] sample_reread_served(1)]
      sample_reread_served(2) unfolding session_run by auto
  ultimately show ?thesis
    using d c by (intro exI [of _ d] exI [of _ ?s]) (auto simp: sample_reread_def bind_Some_iff)
qed

end
