(* ===== verification/Programs.thy ===== *)
theory Programs
  imports Disk
begin

text \<open>
  C functions as programs over the block interface of \<open>cache.h\<close>. The same source is compiled
  with the cache (\<open>nbtrfs\<close>) and without it (\<open>mkfs.nbtrfs\<close>, \<open>CACHE_DISABLED\<close>), so a program only
  says which blocks it gets, what it loads and stores through the pointers, and which blocks it
  hands to \<open>write_block\<close>. A pointer is named by the number of its block. Here are the
  semantics on the mapped image and the discipline that makes sense of the pointers; the
  semantics over the cache are in \<open>Cached_Programs\<close>.
\<close>

subsection \<open>Programs\<close>

text \<open>
  \<open>Fetch inum pnum\<close> is \<open>get_block\<close>, \<open>Look\<close> and \<open>Put\<close> load and store the bytes of a block through
  its pointer, \<open>Commit ptr inum pnum\<close> is \<open>write_block\<close>, \<open>Extent\<close> reads \<open>disk->total_blocks\<close>.
\<close>

datatype 'a prog =
    Return 'a
  | Undefined
  | Fetch u64 u64 "nat \<Rightarrow> 'a prog"
  | Look nat "page \<Rightarrow> 'a prog"
  | Put nat page "'a prog"
  | Commit nat u64 u64 "'a prog"
  | Extent "u64 \<Rightarrow> 'a prog"

named_theorems run_simps \<open>the run of a program on the mapped image\<close>
named_theorems owned \<open>the pointers of a program\<close>

text \<open>A call of another function, and a value that may be undefined.\<close>

primrec call :: "'a prog \<Rightarrow> ('a \<Rightarrow> 'b prog) \<Rightarrow> 'b prog" where
  "call (Return x) g = g x"
| "call Undefined g = Undefined"
| "call (Fetch n b f) g = Fetch n b (\<lambda>k. call (f k) g)"
| "call (Look k f) g = Look k (\<lambda>pg. call (f pg) g)"
| "call (Put k pg p) g = Put k pg (call p g)"
| "call (Commit k n b p) g = Commit k n b (call p g)"
| "call (Extent f) g = Extent (\<lambda>t. call (f t) g)"

lemma call_call: "call (call p f) g = call p (\<lambda>x. call (f x) g)"
  by (induction p) simp_all

definition need :: "'a option \<Rightarrow> ('a \<Rightarrow> 'b prog) \<Rightarrow> 'b prog" where
  "need m f = (case m of None \<Rightarrow> Undefined | Some x \<Rightarrow> f x)"

lemma need_simps [simp]: "need None f = Undefined" "need (Some x) f = f x"
  by (simp_all add: need_def)

lemma call_if: "call (if b then p else q) g = (if b then call p g else call q g)"
  by simp

lemma call_need: "call (need m f) g = need m (\<lambda>x. call (f x) g)"
  by (cases m) simp_all

lemma call_prod: "call (case x of (a, b) \<Rightarrow> f a b) g = (case x of (a, b) \<Rightarrow> call (f a b) g)"
  by (cases x) simp

lemmas call_simps = call_call call_if call_need call_prod

text \<open>A \<open>for\<close> loop without \<open>break\<close>.\<close>

primrec each :: "'i list \<Rightarrow> ('i \<Rightarrow> 's \<Rightarrow> 's prog) \<Rightarrow> 's \<Rightarrow> 's prog" where
  "each [] body s = Return s"
| "each (i # is) body s = call (body i s) (each is body)"

subsection \<open>On the mapped image\<close>

primrec direct :: "'a prog \<Rightarrow> DiskInterface \<Rightarrow> ('a \<times> DiskInterface) option" where
  "direct (Return x) d = Some (x, d)"
| "direct Undefined d = None"
| "direct (Fetch n b f) d = do { k \<leftarrow> get_block_direct d n b; direct (f k) d }"
| "direct (Look k f) d = direct (f (page_at d k)) d"
| "direct (Put k pg p) d = direct p (set_page d k pg)"
| "direct (Commit k n b p) d = direct p (write_block_direct d k n b)"
| "direct (Extent f) d = direct (f (total_blocks d)) d"

text \<open>The value alone, for functions that do not change the image.\<close>

definition same_disk :: "DiskInterface \<Rightarrow> 'a option \<Rightarrow> ('a \<times> DiskInterface) option" where
  "same_disk d = map_option (\<lambda>x. (x, d))"

lemma same_disk_simps [simp]: "same_disk d None = None" "same_disk d (Some x) = Some (x, d)"
  by (simp_all add: same_disk_def)

lemma direct_call [simp]: "direct (call p g) d = Option.bind (direct p d) (\<lambda>(x, d'). direct (g x) d')"
  by (induction p arbitrary: d) simp_all

lemma direct_need [simp]: "direct (need m f) d = Option.bind m (\<lambda>x. direct (f x) d)"
  by (cases m) simp_all

lemma same_disk_bind [simp]:
  "Option.bind (same_disk d m) (\<lambda>(x, d'). g x d') = Option.bind m (\<lambda>x. g x d)"
  by (cases m) simp_all

lemma same_disk_bind_out: "same_disk d (Option.bind m f) = Option.bind m (\<lambda>x. same_disk d (f x))"
  by (cases m) simp_all

lemma bind_map_pair [simp]:
  "Option.bind (map_option f m) g = Option.bind m (\<lambda>x. g (f x))"
  by (cases m) simp_all

lemma same_disk_return [simp]: "Option.bind m (\<lambda>x. Some (x, d)) = same_disk d m"
  by (cases m) simp_all

lemmas run_bind = same_disk_bind_out map_option_bind Let_def

text \<open>Results of more than one part, as the functions give them, with the disk last.\<close>

definition last3 :: "'a \<times> 'b \<times> DiskInterface \<Rightarrow> ('a \<times> 'b) \<times> DiskInterface" where
  "last3 = (\<lambda>(x, y, d). ((x, y), d))"

definition last4 :: "'a \<times> 'b \<times> 'c \<times> DiskInterface \<Rightarrow> ('a \<times> 'b \<times> 'c) \<times> DiskInterface" where
  "last4 = (\<lambda>(x, y, z, d). ((x, y, z), d))"

lemma last_simps [simp]: "last3 (x, y, d) = ((x, y), d)" "last4 (x, y, z, d) = ((x, y, z), d)"
  by (simp_all add: last3_def last4_def)

abbreviation only_disk :: "DiskInterface option \<Rightarrow> (unit \<times> DiskInterface) option" where
  "only_disk \<equiv> map_option (\<lambda>d. ((), d))"

lemma direct_each:
  assumes "\<And>i s d. i \<in> set is \<Longrightarrow> direct (body i s) d = f i (s, d)"
  shows "direct (each is body s) d = for_each is f (s, d)"
  using assms
proof (induction "is" arbitrary: s d)
  case (Cons i "is")
  then show ?case by (cases "f i (s, d)") auto
qed simp

lemma direct_each_disk:
  assumes "\<And>i d. i \<in> set is \<Longrightarrow> direct (body i ()) d = map_option (\<lambda>d'. ((), d')) (f i d)"
  shows "direct (each is body ()) d = map_option (\<lambda>d'. ((), d')) (for_each is f d)"
  using assms
proof (induction "is" arbitrary: d)
  case (Cons i "is")
  then show ?case by (cases "f i d") auto
qed simp

lemma direct_each_value:
  assumes "\<And>i s. i \<in> set is \<Longrightarrow> direct (body i s) d = same_disk d (f i s)"
  shows "direct (each is body s) d = same_disk d (for_each is f s)"
  using assms
proof (induction "is" arbitrary: s)
  case (Cons i "is")
  then show ?case by (cases "f i s") auto
qed simp

text \<open>No program changes which blocks there are.\<close>

lemma direct_total: "direct p d = Some (x, d') \<Longrightarrow> total_blocks d' = total_blocks d"
  by (induction p arbitrary: d) (auto simp: bind_Some_iff)

lemma get_block_total: "total_blocks d' = total_blocks d \<Longrightarrow> get_block_direct d' n b = get_block_direct d m b"
  by (simp add: get_block_direct_def disk_get_block_def)

subsection \<open>Pointers\<close>

text \<open>
  A program loads and stores only through pointers that it got: \<open>F\<close> are the blocks that were
  fetched, \<open>R\<close> gives the pointers in a result. \<open>write_block\<close> gets the block of its pointer.
\<close>

primrec owns :: "('a \<Rightarrow> nat set) \<Rightarrow> 'a prog \<Rightarrow> nat set \<Rightarrow> bool" where
  "owns R (Return x) = (\<lambda>F. R x \<subseteq> F)"
| "owns R Undefined = (\<lambda>F. True)"
| "owns R (Fetch n b f) = (\<lambda>F. owns R (f (unat b)) (insert (unat b) F))"
| "owns R (Look k f) = (\<lambda>F. k \<in> F \<and> (\<forall>pg. owns R (f pg) F))"
| "owns R (Put k pg p) = (\<lambda>F. k \<in> F \<and> owns R p F)"
| "owns R (Commit k n b p) = (\<lambda>F. k \<in> F \<and> k = unat b \<and> owns R p F)"
| "owns R (Extent f) = (\<lambda>F. \<forall>t. owns R (f t) F)"

abbreviation "no_pointer \<equiv> \<lambda>_. {} :: nat set"

lemma owns_call:
  assumes "owns R p F" "\<And>x F'. F \<subseteq> F' \<Longrightarrow> R x \<subseteq> F' \<Longrightarrow> owns S (g x) F'"
  shows "owns S (call p g) F"
  using assms
proof (induction p arbitrary: F)
  case (Return x)
  then show ?case by simp
next
  case (Fetch n b f)
  have "owns R (f (unat b)) (insert (unat b) F)"
    using Fetch.prems(1) by simp
  moreover have "owns S (g x) F'" if "insert (unat b) F \<subseteq> F'" "R x \<subseteq> F'" for x F'
    by (rule Fetch.prems(2)) (use that in blast)+
  ultimately have "owns S (call (f (unat b)) g) (insert (unat b) F)"
    by (rule Fetch.IH [OF rangeI])
  then show ?case by simp
next
  case (Look k f)
  then show ?case using Look.IH [OF rangeI _ Look.prems(2)] by simp
next
  case (Put k pg p)
  then show ?case using Put.IH [OF _ Put.prems(2)] by simp
next
  case (Commit k n b p)
  have "owns S (call p g) F"
    by (rule Commit.IH [OF _ Commit.prems(2)]) (use Commit.prems(1) in simp_all)
  then show ?case using Commit.prems(1) by auto
next
  case (Extent f)
  then show ?case using Extent.IH [OF rangeI _ Extent.prems(2)] by simp
qed simp

lemma owns_mono: "owns R p F \<Longrightarrow> F \<subseteq> F' \<Longrightarrow> owns R p F'"
proof (induction p arbitrary: F F')
  case (Return x)
  then show ?case by auto
next
  case (Fetch n b f)
  have "insert (unat b) F \<subseteq> insert (unat b) F'" using Fetch.prems(2) by blast
  then show ?case using Fetch.IH [OF rangeI] Fetch.prems(1) by simp
next
  case (Look k f)
  have "owns R (f pg) F'" for pg
    by (rule Look.IH [OF rangeI _ Look.prems(2)]) (use Look.prems(1) in simp)
  then show ?case using Look.prems by auto
next
  case (Put k pg p)
  have "owns R p F'" by (rule Put.IH [OF _ Put.prems(2)]) (use Put.prems(1) in simp)
  then show ?case using Put.prems by auto
next
  case (Commit k n b p)
  have "owns R p F'" by (rule Commit.IH [OF _ Commit.prems(2)]) (use Commit.prems(1) in simp)
  then show ?case using Commit.prems by auto
next
  case (Extent f)
  have "owns R (f t) F'" for t
    by (rule Extent.IH [OF rangeI _ Extent.prems(2)]) (use Extent.prems(1) in simp)
  then show ?case by simp
qed simp

text \<open>A called function that hands out no pointers, and a loop.\<close>

lemma owns_call_plain [owned]:
  assumes "owns no_pointer p F" "\<And>x. owns S (g x) F"
  shows "owns S (call p g) F"
  by (rule owns_call [OF assms(1)]) (rule owns_mono [OF assms(2)])

lemma owns_need [owned]: "(\<And>x. m = Some x \<Longrightarrow> owns R (f x) F) \<Longrightarrow> owns R (need m f) F"
  by (cases m) simp_all

lemma owns_each [owned]:
  assumes "\<And>i s. i \<in> set is \<Longrightarrow> owns no_pointer (body i s) F"
  shows "owns no_pointer (each is body s) F"
  using assms
proof (induction "is" arbitrary: s)
  case (Cons i "is")
  then show ?case by (auto intro!: owns_call_plain)
qed simp

end
