(* ===== verification/Cached_Programs.thy ===== *)
theory Cached_Programs
  imports Programs Cache_Reach
begin

text \<open>
  The programs of \<open>Programs\<close> over the block cache, as \<open>nbtrfs\<close> is compiled, and the
  simulation: as long as the cache has a slot for every block of the volume, and each dirty list
  that is made ends (\<open>z\<close>) or none is made because the run hands over no data block, each run that
  is defined on the mapped image is defined over the cache, returns the same and shows the same
  blocks.
\<close>

subsection \<open>Runs over the cache\<close>

text \<open>
  The pointers a program holds are the addresses that \<open>get_block\<close> gave it, under the number of
  the block. A block that is handed out again at another address, after an eviction, leaves an
  old pointer to a freed buffer: such a run counts as undefined.
\<close>

type_synonym pointers = "nat \<Rightarrow> nat option"

type_synonym 'a run = "('a \<times> pointers \<times> DiskInterface \<times> cache) option"

primrec over_cache ::
    "bool \<Rightarrow> 'a prog \<Rightarrow> pointers \<Rightarrow> DiskInterface \<Rightarrow> cache \<Rightarrow> 'a run" where
  "over_cache z (Return x) ps d c = Some (x, ps, d, c)"
| "over_cache z Undefined ps d c = None"
| "over_cache z (Fetch n b f) ps d c = do {
     (p, d, c) \<leftarrow> get_block z d c n b;
     if ps (unat b) = None \<or> ps (unat b) = Some p
     then over_cache z (f (unat b)) (ps(unat b \<mapsto> p)) d c
     else None
   }"
| "over_cache z (Look k f) ps d c = do {
     p \<leftarrow> ps k;
     page \<leftarrow> heap c p;
     over_cache z (f page) ps d c
   }"
| "over_cache z (Put k pg q) ps d c = do {
     p \<leftarrow> ps k;
     _ \<leftarrow> heap c p;
     over_cache z q ps d (store c p pg)
   }"
| "over_cache z (Commit k n b q) ps d c = do {
     p \<leftarrow> ps k;
     page \<leftarrow> heap c p;
     (d, c) \<leftarrow> write_block z d c page n b;
     over_cache z q ps d c
   }"
| "over_cache z (Extent f) ps d c = over_cache z (f (total_blocks d)) ps d c"

text \<open>The functions one after the other that a handler calls are one run.\<close>

lemma over_cache_call:
  "over_cache z (call p g) ps d c = do {
     (x, ps, d, c) \<leftarrow> over_cache z p ps d c;
     over_cache z (g x) ps d c
   }"
proof (induction p arbitrary: ps d c)
  case (Fetch n b f)
  show ?case
    by (cases "get_block z d c n b") (auto simp: Fetch.IH fun_upd_def)
next
  case (Look k f)
  then show ?case
    by (cases "ps k"; cases "heap c (the (ps k))") auto
next
  case (Put k pg p)
  then show ?case
    by (cases "ps k"; cases "heap c (the (ps k))") auto
next
  case (Commit k n b p)
  show ?case
  proof (cases "ps k")
    case (Some a)
    then show ?thesis
      by (cases "heap c a"; cases "write_block z d c (the (heap c a)) n b") (auto simp: Commit.IH)
  qed simp
qed (simp_all)

subsection \<open>The relation between the two runs\<close>

text \<open>
  \<open>ds\<close> is the disk with the pages that were stored to but not yet handed to \<open>write_block\<close>;
  such a page differs from the disk although its entry is clean.
\<close>

definition pretend :: "DiskInterface \<Rightarrow> DiskInterface \<Rightarrow> cache \<Rightarrow> bool" where
  "pretend ds d c \<longleftrightarrow> total_blocks ds = total_blocks d \<and>
     (\<forall>k. valid_block d k \<longrightarrow> of_nat k \<notin> cached c \<longrightarrow> page_at ds k = page_at d k)"

definition pointers_ok :: "DiskInterface \<Rightarrow> cache \<Rightarrow> pointers \<Rightarrow> bool" where
  "pointers_ok d c ps \<longleftrightarrow> (\<forall>k p. ps k = Some p \<longrightarrow>
     valid_block d k \<and> of_nat k \<in> cached c \<and> p = page_data (at c (slot c (of_nat k))))"

text \<open>\<open>D\<close> are the blocks that will be written back; all others but those in \<open>U\<close> are as \<open>ds\<close> has them.\<close>

definition kept :: "DiskInterface \<Rightarrow> DiskInterface \<Rightarrow> cache \<Rightarrow> nat list \<Rightarrow> nat set \<Rightarrow> nat set \<Rightarrow> bool" where
  "kept ds d c gs U D \<longleftrightarrow> U \<inter> D = {} \<and> (\<forall>k\<in>D. dirty c gs k) \<and>
     (\<forall>k. valid_block d k \<longrightarrow> dirty c gs k \<longrightarrow> k \<in> D) \<and>
     (\<forall>k. valid_block d k \<longrightarrow> k \<notin> U \<longrightarrow> dirty c gs k \<or> page_at ds k = page_at d k)"

text \<open>
  \<open>U\<close> are the blocks that were stored to and whose changes will not be written back, \<open>D\<close> are the
  blocks that were handed to \<open>write_block\<close>; the dirty lists can be walked to their ends.
\<close>

definition same_run :: "bool \<Rightarrow> DiskInterface \<Rightarrow> DiskInterface \<Rightarrow> cache \<Rightarrow> nat set \<Rightarrow> nat set \<Rightarrow> bool" where
  "same_run z dd d c U D \<longleftrightarrow>
     (\<exists>xs gs ds. cache_ok c xs gs \<and> synced ds c gs \<and> pretend ds d c \<and> agrees dd ds c \<and> kept ds d c gs U D) \<and>
     lists_end z c \<and>
     total_blocks dd = total_blocks d \<and> unat (total_blocks d) \<le> length (entries c) \<and>
     (\<forall>k. \<not> valid_block d k \<longrightarrow> page_at dd k = page_at d k)"

lemma pretend_valid: "pretend ds d c \<Longrightarrow> valid_block ds = valid_block d"
  by (auto simp: pretend_def valid_block_def)

text \<open>The number of blocks bounds the number of cached ones.\<close>

lemma valid_blocks_finite:
  "finite {b. valid_block d (unat (b :: u64))}" "card {b. valid_block d (unat (b :: u64))} \<le> unat (total_blocks d)"
proof -
  have sub: "{b :: u64. valid_block d (unat b)} \<subseteq> of_nat ` {..<unat (total_blocks d)}"
  proof
    fix b :: u64
    assume "b \<in> {b. valid_block d (unat b)}"
    then have "unat b < unat (total_blocks d)"
      by (simp add: valid_block_def)
    then show "b \<in> of_nat ` {..<unat (total_blocks d)}"
      by (intro image_eqI [of _ _ "unat b"]) simp_all
  qed
  then show "finite {b :: u64. valid_block d (unat b)}"
    by (rule finite_subset) simp
  have "card {b :: u64. valid_block d (unat b)} \<le> card ((of_nat :: nat \<Rightarrow> u64) ` {..<unat (total_blocks d)})"
    by (rule card_mono [OF _ sub]) simp
  also have "\<dots> \<le> card {..<unat (total_blocks d)}"
    by (rule card_image_le) simp
  finally show "card {b :: u64. valid_block d (unat b)} \<le> unat (total_blocks d)" by simp
qed

lemma room_for_block:
  assumes "slots_ok c" "synced d c gs" "valid_block d (unat b)" "unat (total_blocks d) \<le> length (entries c)"
  shows "b \<in> cached c \<or> free_list c \<noteq> []"
proof (rule free_list_lasts [OF assms(1) valid_blocks_finite(1) [of d]])
  show "cached c \<subseteq> {b. valid_block d (unat b)}"
    using assms(2) by (auto simp: synced_def)
  show "card {b :: u64. valid_block d (unat b)} \<le> length (entries c)"
    using valid_blocks_finite(2) [of d] assms(4) by (rule order_trans)
qed (use assms(3) in simp)

subsection \<open>Each step\<close>

lemma get_block_pretend:
  assumes "pretend ds d c" "valid_block d (unat b)" "b \<in> cached c \<or> free_list c \<noteq> []"
    and "get_block z ds c n b = Some (p, ds', c')"
  shows "get_block z d c n b = Some (p, d, c')"
proof (cases "pci_lookup (pci c) b = -1")
  case True
  then have nc: "b \<notin> cached c"
    by (simp add: index.known_def)
  then have "page_at ds (unat b) = page_at d (unat b)"
    using assms(1,2) by (simp add: pretend_def)
  moreover have "valid_block ds (unat b)"
    using assms(2) pretend_valid [OF assms(1)] by simp
  ultimately have "disk_read_block ds b = disk_read_block d b"
    using assms(2) by (simp add: disk_read_valid)
  then have "load ds c n b = load d c n b"
    by (simp add: load_def cong: list.case_cong)
  then show ?thesis
    using assms(3,4) True nc by (auto simp: get_block_def Let_def bind_pair_Some_iff split: Option.bind_splits)
qed (use assms(4) in \<open>auto simp: get_block_def Let_def split: Option.bind_splits\<close>)

lemma pointers_okD:
  assumes "pointers_ok d c ps" "ps k = Some p"
  shows "valid_block d k" "of_nat k \<in> cached c" "p = page_data (at c (slot c (of_nat k)))"
  using assms by (auto simp: pointers_ok_def)

lemma same_runE:
  assumes "same_run z dd d c U D"
  obtains xs gs ds where "cache_ok c xs gs" "synced ds c gs" "pretend ds d c" "agrees dd ds c" "kept ds d c gs U D"
    "slots_ok c" "valid_block ds = valid_block d" "valid_block dd = valid_block d"
    "total_blocks dd = total_blocks d" "unat (total_blocks d) \<le> length (entries c)"
    "\<forall>k. \<not> valid_block d k \<longrightarrow> page_at dd k = page_at d k" "lists_end z c"
  using assms pretend_valid unfolding same_run_def
  by (auto simp: cache_ok_def agrees_def fun_eq_iff)

lemma same_runI:
  assumes "cache_ok c xs gs" "synced ds c gs" "pretend ds d c" "agrees dd ds c" "kept ds d c gs U D"
    "total_blocks dd = total_blocks d" "unat (total_blocks d) \<le> length (entries c)"
    "\<forall>k. \<not> valid_block d k \<longrightarrow> page_at dd k = page_at d k" "lists_end z c"
  shows "same_run z dd d c U D"
  unfolding same_run_def using assms by blast

text \<open>A block that was just loaded does not wait on the list.\<close>

lemma fetched_dirty:
  assumes "cache_ok c xs gs" "cache_ok c' xs' gs" "cached c' = insert b (cached c)" "gdl c' = gdl c"
    and "\<And>b'. b' \<in> cached c \<Longrightarrow> slot c' b' = slot c b'"
  shows "dirty c' gs = dirty c gs"
proof (rule ext)
  fix k
  have "of_nat k \<in> cached c" if k: "of_nat k \<in> cached c'" "Some (slot c' (of_nat k)) \<in> ring_label (gdl c) ` set gs"
  proof -
    obtain b' where b': "b' \<in> cached c" "slot c' (of_nat k) = slot c b'"
      using k(2) assms(1) unfolding cache_ok_def gdl_ok_def by fastforce
    have "slots_ok c'" using assms(2) by (simp add: cache_ok_def)
    from slot_inject [OF this k(1), of b'] have "of_nat k = b'"
      using b' assms(3,5) by simp
    then show ?thesis using b'(1) by simp
  qed
  then show "dirty c' gs k = dirty c gs k"
    using assms(3-5) by (auto simp: dirty_def)
qed

lemma fetch_step:
  assumes "same_run z dd d c U D" "pointers_ok d c ps" "valid_block d (unat b)"
  shows "\<exists>p c'. get_block z d c n b = Some (p, d, c') \<and> (ps (unat b) = None \<or> ps (unat b) = Some p) \<and>
    same_run z dd d c' U D \<and> pointers_ok d c' (ps(unat b \<mapsto> p))"
proof -
  from assms(1) obtain xs gs ds where c: "cache_ok c xs gs" "synced ds c gs" "pretend ds d c" "agrees dd ds c"
    "kept ds d c gs U D" "slots_ok c" "valid_block ds = valid_block d" "total_blocks dd = total_blocks d"
    "unat (total_blocks d) \<le> length (entries c)"
    "\<forall>k. \<not> valid_block d k \<longrightarrow> page_at dd k = page_at d k" "lists_end z c"
    by (rule same_runE)
  have v: "valid_block ds (unat b)" "unat (total_blocks ds) \<le> length (entries c)"
    using assms(3) c(3,7,9) by (simp_all add: pretend_def)
  have room: "b \<in> cached c \<or> free_list c \<noteq> []"
    by (rule room_for_block [OF c(6,2) v])
  obtain p c' where g: "get_block z ds c n b = Some (p, ds, c')" "fetched ds c gs b p c'"
    using get_block_ok [OF c(1,2) v(1) room] by blast
  have get: "get_block z d c n b = Some (p, d, c')"
    by (rule get_block_pretend [OF c(3) assms(3) room g(1)])
  from g(2) obtain xs' where f: "cache_ok c' xs' gs" "synced ds c' gs" "cached c' = insert b (cached c)"
    "p = page_data (at c' (slot c' b))" "length (entries c') = length (entries c)" "gdl c' = gdl c"
    "\<forall>k. valid_block ds k \<longrightarrow> view ds c' k = view ds c k"
    "\<forall>b' \<in> cached c. slot c' b' = slot c b' \<and> page_data (at c' (slot c' b')) = page_data (at c (slot c b'))"
    "dirty_list c' = dirty_list c"
    unfolding fetched_def by blast
  have stays: "page_data (at c' (slot c b')) = page_data (at c (slot c b'))" if "b' \<in> cached c" for b'
    using f(8) that by metis
  have "pretend ds d c'" "agrees dd ds c'"
    using c(3,4) f(3,7) by (auto simp: pretend_def agrees_def)
  moreover have "dirty c' gs = dirty c gs"
    by (rule fetched_dirty [OF c(1) f(1,3,6)]) (use f(8) in blast)
  then have "kept ds d c' gs U D"
    using c(5) by (simp add: kept_def)
  ultimately have "same_run z dd d c' U D"
    using f(1,2,5) c(8-10) lists_end_cong [OF c(11) f(9)] by (intro same_runI) auto
  moreover have "pointers_ok d c' (ps(unat b \<mapsto> p))"
    using assms(2,3) f(3,4,8) stays by (auto simp: pointers_ok_def)
  moreover have "ps (unat b) = None \<or> ps (unat b) = Some p"
  proof (cases "ps (unat b)")
    case (Some q)
    then show ?thesis
      using pointers_okD(2,3) [OF assms(2) Some] f(4,8) stays [of b] by simp
  qed simp
  ultimately show ?thesis
    using get by blast
qed

lemma look_step:
  assumes "same_run z dd d c U D" "pointers_ok d c ps" "ps k = Some p"
  shows "heap c p = Some (page_at dd k)"
proof -
  from assms(1) obtain xs gs ds where c: "cache_ok c xs gs" "synced ds c gs" "pretend ds d c" "agrees dd ds c"
    "slots_ok c" "valid_block ds = valid_block d"
    by (auto elim: same_runE)
  note p = pointers_okD [OF assms(2,3)]
  obtain pg where pg: "heap c p = Some pg"
    using slots_okD(7) [OF c(5) p(2)] p(3) by blast
  then have "view ds c k = pg"
    using p(2,3) by (simp add: view_def cached_page_def)
  then show ?thesis
    using c(4,6) p(1) pg by (simp add: agrees_def)
qed

lemma store_fields [simp]:
  "heap (store c p pg) = (heap c)(p \<mapsto> pg)" "entries (store c p pg) = entries c" "gdl (store c p pg) = gdl c"
  "lru (store c p pg) = lru c" "free_list (store c p pg) = free_list c" "cache_size (store c p pg) = cache_size c"
  "next_addr (store c p pg) = next_addr c" "at (store c p pg) = at c" "dirty_list (store c p pg) = dirty_list c"
  by (simp_all add: store_def at_def fun_eq_iff)

lemma store_cached_page:
  assumes "slots_ok c" "b \<in> cached c" "p = page_data (at c (slot c b))"
  shows "cached_page (store c p pg) = (cached_page c)(b \<mapsto> pg)"
proof (rule ext)
  fix b'
  show "cached_page (store c p pg) b' = ((cached_page c)(b \<mapsto> pg)) b'"
    using assms slots_okD(8) [OF assms(1) _ assms(2), of b'] by (auto simp: cached_page_def)
qed

lemma store_cache_ok:
  assumes "cache_ok c xs gs" "p \<in> dom (heap c)"
  shows "cache_ok (store c p pg) xs gs"
proof -
  have h: "insert p (dom (heap c)) = dom (heap c)"
    using assms(2) by (rule insert_absorb)
  have ok: "slots_ok c" "lru_ok c xs" "gdl_ok c gs" "buffers_ok c"
    using assms(1) by (simp_all add: cache_ok_def)
  have "slots_ok (store c p pg)"
    by (rule slots_ok_cong [OF ok(1)]) (simp_all add: h del: fun_upd_apply)
  moreover have "lru_ok (store c p pg) xs"
    by (rule lru_ok_cong [OF ok(2)]) simp_all
  moreover have "gdl_ok (store c p pg) gs"
    by (rule gdl_ok_cong [OF ok(3)]) simp_all
  moreover have "buffers_ok (store c p pg)"
    by (rule buffers_ok_cong [OF ok(4,1)]) (simp_all add: h del: fun_upd_apply)
  ultimately show ?thesis
    by (simp add: cache_ok_def)
qed

text \<open>What a store does to the two sets, and what \<open>write_block\<close> does.\<close>

definition stored :: "nat \<Rightarrow> nat set \<Rightarrow> nat set \<Rightarrow> nat set" where
  "stored k U D = (if k \<in> D then U else insert k U)"

lemma put_step:
  assumes "same_run z dd d c U D" "pointers_ok d c ps" "ps k = Some p"
  shows "same_run z (set_page dd k pg) d (store c p pg) (stored k U D) D" "pointers_ok d (store c p pg) ps"
proof -
  from assms(1) obtain xs gs ds where c: "cache_ok c xs gs" "synced ds c gs" "pretend ds d c" "agrees dd ds c"
    "kept ds d c gs U D" "slots_ok c" "valid_block ds = valid_block d" "valid_block dd = valid_block d"
    "total_blocks dd = total_blocks d" "unat (total_blocks d) \<le> length (entries c)"
    "\<forall>k. \<not> valid_block d k \<longrightarrow> page_at dd k = page_at d k" "lists_end z c"
    by (rule same_runE)
  note p = pointers_okD [OF assms(2,3)]
  have h: "p \<in> dom (heap c)"
    using slots_okD(7) [OF c(6) p(2)] p(3) by blast
  have k: "unat (of_nat k :: u64) = k"
    using p(1) by simp
  note cp = store_cached_page [OF c(6) p(2,3), of pg]
  have other: "unat b \<noteq> k" if "b \<noteq> of_nat k" for b :: u64
    using that by auto
  have "synced (set_page ds k pg) (store c p pg) gs"
    using c(2) other k unfolding synced_def by (auto simp: cp)
  moreover have "pretend (set_page ds k pg) d (store c p pg)"
    using c(3) p(2) by (auto simp: pretend_def)
  moreover have "agrees (set_page dd k pg) (set_page ds k pg) (store c p pg)"
    unfolding agrees_def
  proof (intro conjI allI impI)
    fix j
    assume "valid_block (set_page ds k pg) j"
    then have j: "valid_block d j" using c(7) by simp
    then have "(of_nat j = (of_nat k :: u64)) = (j = k)"
      using valid_block_of_nat [OF j, of "of_nat k"] k by simp
    moreover have "view ds c j = page_at dd j"
      using c(4,7) j by (simp add: agrees_def)
    ultimately show "view (set_page ds k pg) (store c p pg) j = page_at (set_page dd k pg) j"
      by (auto simp: view_def cp split: option.splits)
  qed (use c(7,8) in simp)
  moreover have "kept (set_page ds k pg) d (store c p pg) gs (stored k U D) D"
  proof -
    have "dirty (store c p pg) gs = dirty c gs"
      by (simp add: dirty_def fun_eq_iff)
    then show ?thesis
      using c(5) by (cases "k \<in> D") (simp_all add: kept_def stored_def)
  qed
  ultimately show "same_run z (set_page dd k pg) d (store c p pg) (stored k U D) D"
    using store_cache_ok [OF c(1) h, of pg] c(9-11) p(1) lists_end_cong [OF c(12)] by (intro same_runI) auto
  show "pointers_ok d (store c p pg) ps"
    using assms(2) by (simp add: pointers_ok_def)
qed

lemma marked_dirty:
  assumes "cache_ok c xs gs" "ring_label g = (ring_label (gdl c))(next_addr c \<mapsto> slot c b)" "b \<in> cached c"
  shows "dirty (marked c page (slot c b) dl g) (next_addr c # gs) k \<longleftrightarrow> dirty c gs k \<or> of_nat k = b"
proof -
  have "next_addr c \<notin> set gs" "slots_ok c"
    using assms(1) by (auto simp: cache_ok_def gdl_ok_def)
  then have "ring_label g ` set (next_addr c # gs) = insert (Some (slot c b)) (ring_label (gdl c) ` set gs)"
    by (auto simp: assms(2))
  then show ?thesis
    using assms(3) slot_inject [OF \<open>slots_ok c\<close> _ assms(3), of "of_nat k"] by (auto simp: dirty_def)
qed

lemma commit_step:
  assumes "same_run z dd d c U D" "pointers_ok d c ps" "ps (unat b) = Some p" "z \<or> \<not> is_data_page (page_at dd (unat b))"
  shows "\<exists>page c'. heap c p = Some page \<and> write_block z d c page n b = Some (d, c') \<and>
    same_run z dd d c' (U - {unat b}) (insert (unat b) D) \<and> pointers_ok d c' ps"
proof -
  from assms(1) obtain xs gs ds where c: "cache_ok c xs gs" "synced ds c gs" "pretend ds d c" "agrees dd ds c"
    "kept ds d c gs U D" "slots_ok c" "total_blocks dd = total_blocks d" "unat (total_blocks d) \<le> length (entries c)"
    "\<forall>k. \<not> valid_block d k \<longrightarrow> page_at dd k = page_at d k" "lists_end z c"
    by (rule same_runE)
  have p: "b \<in> cached c" "p = page_data (at c (slot c b))"
    using pointers_okD [OF assms(2,3)] by simp_all
  let ?page = "page_at dd (unat b)"
  have page: "heap c p = Some ?page"
    by (rule look_step [OF assms(1-3)])
  obtain dl where dl: "noted z c ?page n b = Some dl" "z \<or> dl = (\<lambda>_. [])"
    using noted_lists [OF c(10) assms(4)] by blast
  obtain g where g: "mark_dirty z c ?page n b (slot c b) = Some (marked c ?page (slot c b) dl g)"
    "ring_ok g (next_addr c # gs)" "ring_label g = (ring_label (gdl c))(next_addr c \<mapsto> slot c b)"
    using mark_dirty_run [OF c(1) p(1) dl(1)] by blast
  let ?c = "marked c ?page (slot c b) dl g"
  have w: "write_block z d c ?page n b = Some (d, ?c)"
    using g(1) p(1) by (simp add: write_block_def slot_def index.known_def)
  have "cached_page ?c = cached_page c"
    unfolding marked_cached_page [OF c(6) p(1)] using page p by (auto simp: cached_page_def)
  then have "agrees dd ds ?c"
    using c(4) by (simp add: agrees_def view_def)
  moreover have "pretend ds d ?c"
    using c(3) by (simp add: pretend_def)
  moreover have "kept ds d ?c (next_addr c # gs) (U - {unat b}) (insert (unat b) D)"
    unfolding kept_def marked_dirty [OF c(1) g(3) p(1)]
  proof (intro conjI)
    note k = c(5) [unfolded kept_def]
    show "(U - {unat b}) \<inter> insert (unat b) D = {}" "\<forall>j\<in>insert (unat b) D. dirty c gs j \<or> of_nat j = b"
      using k by auto
    show "\<forall>j. valid_block d j \<longrightarrow> dirty c gs j \<or> of_nat j = b \<longrightarrow> j \<in> insert (unat b) D"
      using k valid_block_of_nat [of d _ b] by blast
    show "\<forall>j. valid_block d j \<longrightarrow> j \<notin> U - {unat b} \<longrightarrow> (dirty c gs j \<or> of_nat j = b) \<or> page_at ds j = page_at d j"
      using k valid_block_of_nat [of d _ b] by blast
  qed
  ultimately have "same_run z dd d ?c (U - {unat b}) (insert (unat b) D)"
    using marked_cache_ok [OF c(1) p(1) g(2,3)] marked_synced [OF c(1) p(1) c(2) g(3)] c(7-9) dl(2)
    by (intro same_runI) (simp_all add: lists_end_def)
  moreover have "pointers_ok d ?c ps"
    using assms(2) slots_okD(3,4) [OF c(6)] p(1)
    by (auto simp: pointers_ok_def marked_page_data)
  ultimately show ?thesis
    using page w by blast
qed

subsection \<open>Whole runs\<close>

text \<open>The two sets along a run on the mapped image.\<close>

primrec unsaved :: "'a prog \<Rightarrow> DiskInterface \<Rightarrow> nat set \<Rightarrow> nat set \<Rightarrow> nat set \<times> nat set" where
  "unsaved (Return x) d U D = (U, D)"
| "unsaved Undefined d U D = (U, D)"
| "unsaved (Fetch n b f) d U D =
     (case get_block_direct d n b of None \<Rightarrow> (U, D) | Some k \<Rightarrow> unsaved (f k) d U D)"
| "unsaved (Look k f) d U D = unsaved (f (page_at d k)) d U D"
| "unsaved (Put k pg p) d U D = unsaved p (set_page d k pg) (stored k U D) D"
| "unsaved (Commit k n b p) d U D = unsaved p d (U - {k}) (insert k D)"
| "unsaved (Extent f) d U D = unsaved (f (total_blocks d)) d U D"

text \<open>Whether the run hands a data block to \<open>write_block\<close>.\<close>

primrec writes_data :: "'a prog \<Rightarrow> DiskInterface \<Rightarrow> bool" where
  "writes_data (Return x) d = False"
| "writes_data Undefined d = False"
| "writes_data (Fetch n b f) d = (case get_block_direct d n b of None \<Rightarrow> False | Some k \<Rightarrow> writes_data (f k) d)"
| "writes_data (Look k f) d = writes_data (f (page_at d k)) d"
| "writes_data (Put k pg p) d = writes_data p (set_page d k pg)"
| "writes_data (Commit k n b p) d = (is_data_page (page_at d k) \<or> writes_data p d)"
| "writes_data (Extent f) d = writes_data (f (total_blocks d)) d"

lemma writes_data_call:
  "direct p d = Some (x, d') \<Longrightarrow> writes_data (call p g) d \<longleftrightarrow> writes_data p d \<or> writes_data (g x) d'"
  by (induction p arbitrary: d) (auto simp: bind_Some_iff)

lemma writes_data_undefined: "direct p d = None \<Longrightarrow> writes_data (call p g) d \<longleftrightarrow> writes_data p d"
  by (induction p arbitrary: d) (auto simp: bind_None_iff split: option.split)

lemma over_cache_direct:
  assumes "direct p dd = Some (x, dd')" "owns R p (dom ps)" "same_run z dd d c U D" "pointers_ok d c ps"
    and "z \<or> \<not> writes_data p dd"
  shows "\<exists>ps' c'. over_cache z p ps d c = Some (x, ps', d, c') \<and>
    same_run z dd' d c' (fst (unsaved p dd U D)) (snd (unsaved p dd U D)) \<and> pointers_ok d c' ps'"
  using assms
proof (induction p arbitrary: dd ps c U D)
  case (Fetch n b f)
  then obtain k where k: "get_block_direct dd n b = Some k" "direct (f k) dd = Some (x, dd')"
    by (auto simp: bind_Some_iff)
  have b: "valid_block dd (unat b)" "k = unat b"
    using get_block_direct_Some [OF k(1)] by simp_all
  then have "valid_block d (unat b)"
    using Fetch.prems(3) by (auto elim: same_runE)
  then obtain p c' where g: "get_block z d c n b = Some (p, d, c')" "ps (unat b) = None \<or> ps (unat b) = Some p"
    "same_run z dd d c' U D" "pointers_ok d c' (ps(unat b \<mapsto> p))"
    using fetch_step [OF Fetch.prems(3,4)] by blast
  have "owns R (f k) (dom (ps(unat b \<mapsto> p)))"
    using Fetch.prems(2) b(2) by simp
  then show ?case
    using Fetch.IH [OF rangeI k(2) _ g(3,4)] g(1,2) b(2) k(1) Fetch.prems(5) by (simp del: dom_fun_upd fun_upd_apply)
next
  case (Look k f)
  then obtain p where p: "ps k = Some p" by auto
  show ?case
    using Look.IH [OF rangeI _ _ Look.prems(3,4)] Look.prems(1,2,5) look_step [OF Look.prems(3,4) p] p by simp
next
  case (Put k pg q)
  then obtain p where p: "ps k = Some p" by auto
  note st = put_step [OF Put.prems(3,4) p, of pg]
  show ?case
    using Put.IH [OF _ _ st] Put.prems(1,2,5) look_step [OF Put.prems(3,4) p] p by simp
next
  case (Commit k n b q)
  then obtain p where p: "ps (unat b) = Some p" "k = unat b" by auto
  obtain page c' where w: "heap c p = Some page" "write_block z d c page n b = Some (d, c')"
    "same_run z dd d c' (U - {unat b}) (insert (unat b) D)" "pointers_ok d c' ps"
    using commit_step [OF Commit.prems(3,4) p(1), of n] Commit.prems(5) p(2) by auto
  have q: "z \<or> \<not> writes_data q dd" using Commit.prems(5) by auto
  show ?case
    using Commit.IH [OF _ _ w(3,4) q] Commit.prems(1,2) w(1,2) p by simp
next
  case (Extent f)
  have "total_blocks dd = total_blocks d"
    using Extent.prems(3) by (rule same_runE)
  then show ?case
    using Extent.IH [OF rangeI _ _ Extent.prems(3,4)] Extent.prems(1,2,5) by simp
qed auto

end
