(* ===== verification/Alloc_Programs.thy ===== *)
theory Alloc_Programs
  imports Programs Alloc
begin

text \<open>
  The superblock and the block allocation as programs, with the same structure as in
  \<open>Superblock\<close> and \<open>Alloc\<close>. For each function: its run on the mapped image is the function
  there, and it uses its own pointers only.
\<close>

subsection \<open>The superblock\<close>

definition superblock_read_p :: "(int \<times> Superblock option) prog" where
  "superblock_read_p = Fetch 0 0 (\<lambda>k. Look k (\<lambda>pg.
     if page_type pg \<noteq> block_type_code BLOCK_TYPE_SUPER then Return (-1, None)
     else Return (0, Some (superblock_of_page pg))))"

definition superblock_write_p :: "Superblock \<Rightarrow> int prog" where
  "superblock_write_p sb = Fetch 0 0 (\<lambda>k. Look k (\<lambda>pg.
     if page_type pg \<noteq> block_type_code BLOCK_TYPE_SUPER then Return (-1)
     else Put k (superblock_to_page sb pg) (Commit k 0 0 (Return 0))))"

text \<open>The bytes of a superblock that was not read are indeterminate.\<close>

definition superblock_write_opt_p :: "Superblock option \<Rightarrow> int prog" where
  "superblock_write_opt_p sbo = (case sbo of
     Some sb \<Rightarrow> superblock_write_p sb
   | None \<Rightarrow> Fetch 0 0 (\<lambda>k. Look k (\<lambda>pg.
       if page_type pg \<noteq> block_type_code BLOCK_TYPE_SUPER then Return (-1) else Undefined)))"

lemma superblock_read_run [run_simps]: "direct superblock_read_p d = same_disk d (superblock_read d)"
  by (cases "get_block_direct d 0 0") (simp_all add: superblock_read_p_def superblock_read_def)

lemma superblock_write_run [run_simps]: "direct (superblock_write_p sb) d = superblock_write d sb"
  by (cases "get_block_direct d 0 0") (simp_all add: superblock_write_p_def superblock_write_def)

lemma superblock_write_opt_run:
  assumes "get_block_direct d 0 0 \<noteq> None"
  shows "direct (superblock_write_opt_p sbo) d = superblock_write_opt d sbo"
proof -
  obtain k where k: "get_block_direct d 0 0 = Some k"
    using assms by blast
  then have "k = 0"
    using get_block_direct_Some by fastforce
  then show ?thesis
    using k by (cases sbo) (simp_all add: superblock_write_opt_p_def superblock_write_opt_def run_simps)
qed

lemma superblock_owned [owned]:
  "owns no_pointer superblock_read_p F" "owns no_pointer (superblock_write_p sb) F"
  "owns no_pointer (superblock_write_opt_p sbo) F"
  by (simp_all add: superblock_read_p_def superblock_write_p_def superblock_write_opt_p_def split: option.split)

subsection \<open>Block allocation\<close>

text \<open>A call of \<open>bitmap_put\<close> that fails stores nothing.\<close>

lemma bitmap_put_failed: "bitmap_put (page_at d k) i v = Some (rv, pg) \<Longrightarrow> rv \<noteq> 0 \<Longrightarrow> d = set_page d k pg"
  by (auto simp: bitmap_put_def Let_def split: if_splits)

fun alloc_scan_p :: "nat \<Rightarrow> Superblock option \<Rightarrow> nat \<Rightarrow> nat \<Rightarrow> nat \<Rightarrow> u64 prog" where
  "alloc_scan_p 0 sbo pbm pbmn ii = Return 0"
| "alloc_scan_p (Suc r) sbo pbm pbmn ii =
     (if 2 ^ 31 \<le> ii then Undefined
      else call
        (if ii mod USABLE_BLOCK_SIZE = 0 \<and> ii \<noteq> 0
         then Fetch 0 (of_nat (pbmn + 1)) (\<lambda>k. Return (k, pbmn + 1))
         else Return (pbm, pbmn))
        (\<lambda>(pbm, pbmn). let idx = int ii - int ((pbmn - 1) * USABLE_BLOCK_SIZE) in
         Look pbm (\<lambda>bm. need (bitmap_get bm idx) (\<lambda>b.
         if b = 0 then need (bitmap_put bm idx 1) (\<lambda>(rv, pg).
           if rv \<noteq> 0 then Return 0
           else Put pbm pg (call (superblock_write_opt_p (dec_free_blocks sbo)) (\<lambda>_.
             Commit pbm 0 (of_nat pbmn) (Return (of_nat ii)))))
         else alloc_scan_p r sbo pbm pbmn (Suc ii)))))"

definition alloc_page_p :: "u64 prog" where
  "alloc_page_p = Fetch 0 1 (\<lambda>pbm. call superblock_read_p (\<lambda>(_, sbo).
     Extent (\<lambda>t. alloc_scan_p (unat t) sbo pbm 1 0)))"

definition free_page_p :: "int \<Rightarrow> unit prog" where
  "free_page_p pnum = (let pbmn = 1 + (pnum sdiv int USABLE_BLOCK_SIZE) in
     Fetch 0 (u64_of_int pbmn) (\<lambda>pbm. call superblock_read_p (\<lambda>(_, sbo).
     Look pbm (\<lambda>bm. need (bitmap_put bm (pnum - (pbmn - 1) * int USABLE_BLOCK_SIZE) 0) (\<lambda>(_, pg).
     Put pbm pg (call (superblock_write_opt_p (dec_free_blocks sbo)) (\<lambda>_.
     Commit pbm 0 (u64_of_int pbmn) (Return ()))))))))"

lemma alloc_scan_run:
  "get_block_direct d 0 0 \<noteq> None \<Longrightarrow> direct (alloc_scan_p r sbo pbm pbmn ii) d = alloc_scan r d sbo pbm pbmn ii"
proof (induction r arbitrary: pbm pbmn ii)
  case (Suc r)
  have w: "direct (superblock_write_opt_p (dec_free_blocks sbo)) (set_page d k pg)
      = superblock_write_opt (set_page d k pg) (dec_free_blocks sbo)" for k pg
    using Suc.prems by (intro superblock_write_opt_run) simp
  show ?case
    unfolding alloc_scan_p.simps alloc_scan.simps
    by (auto simp: Suc w Let_def intro!: Option.bind_cong split: prod.split)
      (metis bitmap_put_failed)+
qed simp

lemma superblock_read_fetch: "superblock_read d = Some x \<Longrightarrow> get_block_direct d 0 0 \<noteq> None"
  by (cases "get_block_direct d 0 0") (simp_all add: superblock_read_def)

lemma alloc_page_run [run_simps]: "direct alloc_page_p d = alloc_page d"
  using superblock_read_fetch
  by (auto simp: alloc_page_p_def alloc_page_def run_simps intro!: Option.bind_cong alloc_scan_run)

lemma free_page_run [run_simps]: "direct (free_page_p pnum) d = map_option (\<lambda>d'. ((), d')) (free_page d pnum)"
proof (cases "superblock_read d")
  case (Some x)
  then have "get_block_direct d 0 0 \<noteq> None"
    by (rule superblock_read_fetch)
  then have "direct (superblock_write_opt_p (dec_free_blocks sbo)) (set_page d k pg)
      = superblock_write_opt (set_page d k pg) (dec_free_blocks sbo)" for k pg sbo
    by (intro superblock_write_opt_run) simp
  then show ?thesis
    by (cases x) (auto simp: free_page_p_def free_page_def run_simps Let_def Some map_option_bind intro!: Option.bind_cong)
next
  case None
  then show ?thesis
    by (cases "get_block_direct d 0 (u64_of_int (1 + pnum sdiv int USABLE_BLOCK_SIZE))")
      (simp_all add: free_page_p_def free_page_def run_simps Let_def)
qed

lemma alloc_scan_owned:
  "pbm \<in> F \<Longrightarrow> pbm = unat (of_nat pbmn :: u64) \<Longrightarrow> owns no_pointer (alloc_scan_p r sbo pbm pbmn ii) F"
proof (induction r arbitrary: pbm pbmn ii F)
  case (Suc r)
  then show ?case
    unfolding alloc_scan_p.simps
    by (auto simp: Let_def intro!: owned Suc.IH)
qed simp

lemma alloc_owned [owned]: "owns no_pointer alloc_page_p F" "owns no_pointer (free_page_p pnum) F"
  by (auto simp: alloc_page_p_def free_page_p_def Let_def intro!: owned alloc_scan_owned)

end
