(* ===== verification/Btree_Programs.thy ===== *)
theory Btree_Programs
  imports Alloc_Programs Btree
begin

text \<open>
  The nodes of the tree of \<open>btr.c\<close>, searching it and inserting into a node with room as
  programs, with the structure of \<open>Btree\<close>.
\<close>

subsection \<open>Nodes\<close>

text \<open>Fields of a node are read and set through the pointer into its block.\<close>

definition load_node :: "nat \<Rightarrow> (BTreeNode \<Rightarrow> 'a prog) \<Rightarrow> 'a prog" where
  "load_node k f = Look k (\<lambda>pg. f (node_of_page pg))"

definition save_node :: "nat \<Rightarrow> BTreeNode \<Rightarrow> 'a prog \<Rightarrow> 'a prog" where
  "save_node k n p = Look k (\<lambda>pg. Put k (node_to_page n pg) p)"

lemma direct_node [simp]:
  "direct (load_node k f) d = direct (f (node_at d k)) d"
  "direct (save_node k n p) d = direct p (set_node d k n)"
  by (simp_all add: load_node_def save_node_def node_at_def set_node_def)

lemma owns_node [simp]:
  "owns R (load_node k f) F \<longleftrightarrow> k \<in> F \<and> (\<forall>pg. owns R (f (node_of_page pg)) F)"
  "owns R (save_node k n p) F \<longleftrightarrow> k \<in> F \<and> owns R p F"
  by (auto simp: load_node_def save_node_def)

definition btree_node_create_p :: "bool \<Rightarrow> (nat option \<times> u64) prog" where
  "btree_node_create_p leaf = call alloc_page_p (\<lambda>page.
     if page = 0 then Return (None, page)
     else Fetch 0 page (\<lambda>k. Look k (\<lambda>pg. Put k (set_page_type pg BLOCK_TYPE_BTREE_NODE) (load_node k (\<lambda>n.
       let n = n\<lparr>block_number := page, is_leaf := leaf, key := 0,
         num_keys := 0, val := 0, parent := 0, left_sibling := 0, right_sibling := 0,
         keys := replicate MAX_KEYS 0, children := replicate (MAX_KEYS + 1) 0\<rparr> in
       save_node k n (Commit k 0 (block_number n) (Return (Some k, page))))))))"

definition btree_node_free_p :: "u64 \<Rightarrow> unit prog" where
  "btree_node_free_p block = free_page_p (int_of_u64 block)"

definition btree_node_read_p :: "u64 \<Rightarrow> (int \<times> BTreeNode option) prog" where
  "btree_node_read_p block_num = Fetch 0 block_num (\<lambda>k. Look k (\<lambda>pg.
     if page_type pg \<noteq> block_type_code BLOCK_TYPE_BTREE_NODE then Return (-1, None)
     else Return (0, Some (node_of_page pg))))"

definition btree_node_write_p :: "BTreeNode \<Rightarrow> int prog" where
  "btree_node_write_p n = Fetch 0 (block_number n) (\<lambda>k. Look k (\<lambda>pg.
     if page_type pg \<noteq> block_type_code BLOCK_TYPE_BTREE_NODE then Return (-1)
     else save_node k n (Commit k 0 (block_number n) (Return 0))))"

definition node_get_p :: "u64 \<Rightarrow> BTreeNode prog" where
  "node_get_p b = call (btree_node_read_p b) (\<lambda>(_, no). need no Return)"

definition node_reread_p :: "u64 \<Rightarrow> BTreeNode \<Rightarrow> BTreeNode prog" where
  "node_reread_p b old = call (btree_node_read_p b) (\<lambda>(_, no).
     Return (case no of None \<Rightarrow> old | Some n \<Rightarrow> n))"

text \<open>The bound of \<open>tree_fuel\<close>.\<close>

definition with_fuel :: "(nat \<Rightarrow> 'a prog) \<Rightarrow> 'a prog" where
  "with_fuel f = Extent (\<lambda>t. f (Suc (unat t)))"

lemma with_fuel_simps [simp]:
  "direct (with_fuel f) d = direct (f (tree_fuel d)) d"
  "owns R (with_fuel f) F \<longleftrightarrow> (\<forall>t :: u64. owns R (f (Suc (unat t))) F)"
  by (simp_all add: with_fuel_def tree_fuel_def n_blocks_def)

lemma btree_node_create_run [run_simps]:
  "direct (btree_node_create_p leaf) d = map_option last3 (btree_node_create d leaf)"
  by (auto simp: btree_node_create_p_def btree_node_create_def run_simps run_bind intro!: Option.bind_cong split: prod.split)

lemma btree_node_free_run [run_simps]: "direct (btree_node_free_p block) d = only_disk (btree_node_free d block)"
  by (simp add: btree_node_free_p_def btree_node_free_def run_simps)

lemma btree_node_read_run [run_simps]: "direct (btree_node_read_p b) d = same_disk d (btree_node_read d b)"
  by (auto simp: btree_node_read_p_def btree_node_read_def run_simps run_bind node_at_def intro!: Option.bind_cong)

lemma btree_node_write_run [run_simps]: "direct (btree_node_write_p n) d = btree_node_write d n"
  by (auto simp: btree_node_write_p_def btree_node_write_def run_simps run_bind intro!: Option.bind_cong)

lemma node_get_run [run_simps]: "direct (node_get_p b) d = same_disk d (node_get d b)"
  by (auto simp: node_get_p_def node_get_def run_simps run_bind intro!: Option.bind_cong)

lemma node_reread_run [run_simps]: "direct (node_reread_p b old) d = same_disk d (node_reread d b old)"
  by (auto simp: node_reread_p_def node_reread_def run_simps run_bind intro!: Option.bind_cong)

text \<open>A created node is handed out with its pointer.\<close>

abbreviation created :: "nat option \<times> u64 \<Rightarrow> nat set" where
  "created \<equiv> \<lambda>(ko, _). set_option ko"

lemma btree_node_create_owned: "owns created (btree_node_create_p leaf) F"
  by (auto simp: btree_node_create_p_def Let_def intro!: owned)

lemma owns_create [owned]:
  assumes "\<And>ko page. owns R (g (ko, page)) (F \<union> set_option ko)"
  shows "owns R (call (btree_node_create_p leaf) g) F"
proof (rule owns_call [OF btree_node_create_owned])
  fix x F'
  assume "F \<subseteq> F'" "created x \<subseteq> F'"
  then show "owns R (g x) F'"
    using owns_mono [OF assms [of "fst x" "snd x"], of F'] by (cases x) auto
qed

lemma btree_node_owned [owned]:
  "owns no_pointer (btree_node_free_p block) F" "owns no_pointer (btree_node_read_p b) F"
  "owns no_pointer (btree_node_write_p n) F" "owns no_pointer (node_get_p b) F"
  "owns no_pointer (node_reread_p b old) F"
  by (auto simp: btree_node_free_p_def btree_node_read_p_def btree_node_write_p_def node_get_p_def node_reread_p_def
      intro!: owned)

subsection \<open>Search\<close>

fun search_children_p :: "(u64 \<Rightarrow> u64 prog) \<Rightarrow> BTreeNode \<Rightarrow> nat list \<Rightarrow> u64 prog" where
  "search_children_p rec n [] = Return 0"
| "search_children_p rec n (i # is) = need (child_at n i) (\<lambda>c.
     if c \<noteq> 0 then call (rec c) (\<lambda>rv. if rv \<noteq> 0 then Return rv else search_children_p rec n is)
     else search_children_p rec n is)"

fun btree_search_fuel_p :: "nat \<Rightarrow> u64 \<Rightarrow> u64 \<Rightarrow> u64 prog" where
  "btree_search_fuel_p 0 b k = Undefined"
| "btree_search_fuel_p (Suc f) b k = call (node_get_p b) (\<lambda>n.
     if is_leaf n then Return (if key n = k then block_number n else 0)
     else search_children_p (\<lambda>c. btree_search_fuel_p f c k) n [0..<Suc (unat (num_keys n))])"

definition btree_search_p :: "u64 \<Rightarrow> u64 \<Rightarrow> u64 prog" where
  "btree_search_p node_block k = with_fuel (\<lambda>f. btree_search_fuel_p f node_block k)"

fun find_depth_loop_p :: "nat \<Rightarrow> BTreeNode \<Rightarrow> int \<Rightarrow> int prog" where
  "find_depth_loop_p 0 n depth = Undefined"
| "find_depth_loop_p (Suc f) n depth =
     (if is_leaf n then Return depth
      else need (child_at n 0) (\<lambda>c.
        if c \<noteq> 0 then call (node_reread_p c n) (\<lambda>n'. find_depth_loop_p f n' (depth + 1))
        else Return (-1)))"

definition btree_find_depth_p :: "u64 \<Rightarrow> int prog" where
  "btree_find_depth_p node_block = call (node_get_p node_block) (\<lambda>n. with_fuel (\<lambda>f. find_depth_loop_p f n 0))"

fun find_maximum_fuel_p :: "nat \<Rightarrow> u64 \<Rightarrow> u64 prog" where
  "find_maximum_fuel_p 0 root_block = Undefined"
| "find_maximum_fuel_p (Suc f) root_block = call (node_get_p root_block) (\<lambda>root.
     if is_leaf root then Return (key root)
     else need (last_child root (rev [0..<Suc (unat (num_keys root))])) (\<lambda>c.
       if c \<noteq> 0 then find_maximum_fuel_p f c else Return 0))"

definition btree_find_maximum_p :: "u64 \<Rightarrow> u64 prog" where
  "btree_find_maximum_p root_block = with_fuel (\<lambda>f. find_maximum_fuel_p f root_block)"

lemma search_children_run:
  assumes "\<And>c. direct (rec_p c) d = same_disk d (rec c)"
  shows "direct (search_children_p rec_p n is) d = same_disk d (search_children rec n is)"
  by (induction "is") (auto simp: assms run_bind intro!: Option.bind_cong)

lemma btree_search_fuel_run: "direct (btree_search_fuel_p f b k) d = same_disk d (btree_search_fuel f d b k)"
proof (induction f arbitrary: b)
  case (Suc f)
  show ?case
    by (auto simp: run_simps run_bind search_children_run [OF Suc] intro!: Option.bind_cong)
qed simp

lemma btree_search_run [run_simps]: "direct (btree_search_p b k) d = same_disk d (btree_search d b k)"
  by (simp add: btree_search_p_def btree_search_def btree_search_fuel_run)

lemma find_depth_loop_run: "direct (find_depth_loop_p f n depth) d = same_disk d (find_depth_loop f d n depth)"
  by (induction f arbitrary: n depth) (auto simp: run_simps run_bind intro!: Option.bind_cong)

lemma btree_find_depth_run [run_simps]: "direct (btree_find_depth_p b) d = same_disk d (btree_find_depth d b)"
  by (auto simp: btree_find_depth_p_def btree_find_depth_def find_depth_loop_run run_simps run_bind
      intro!: Option.bind_cong)

lemma find_maximum_fuel_run: "direct (find_maximum_fuel_p f b) d = same_disk d (find_maximum_fuel f d b)"
  by (induction f arbitrary: b) (auto simp: run_simps run_bind intro!: Option.bind_cong)

lemma btree_find_maximum_run [run_simps]: "direct (btree_find_maximum_p b) d = same_disk d (btree_find_maximum d b)"
  by (simp add: btree_find_maximum_p_def btree_find_maximum_def find_maximum_fuel_run)

lemma search_children_owned:
  "(\<And>c. owns no_pointer (rec c) F) \<Longrightarrow> owns no_pointer (search_children_p rec n is) F"
  by (induction "is") (auto intro!: owned)

lemma btree_search_fuel_owned: "owns no_pointer (btree_search_fuel_p f b k) F"
  by (induction f arbitrary: b) (auto intro!: owned search_children_owned)

lemma find_depth_loop_owned: "owns no_pointer (find_depth_loop_p f n depth) F"
  by (induction f arbitrary: n depth) (auto intro!: owned)

lemma find_maximum_fuel_owned: "owns no_pointer (find_maximum_fuel_p f b) F"
  by (induction f arbitrary: b) (auto intro!: owned)

lemma btree_search_owned [owned]:
  "owns no_pointer (btree_search_p b k) F" "owns no_pointer (btree_find_depth_p b) F"
  "owns no_pointer (btree_find_maximum_p b) F"
  by (auto simp: btree_search_p_def btree_find_depth_p_def btree_find_maximum_p_def
      intro!: owned btree_search_fuel_owned find_depth_loop_owned find_maximum_fuel_owned
      simp del: btree_search_fuel_p.simps find_depth_loop_p.simps find_maximum_fuel_p.simps)

subsection \<open>Inserting into a node with room\<close>

definition insert_pos_step_p :: "BTreeNode \<Rightarrow> BTreeNode \<Rightarrow> nat \<Rightarrow> nat \<Rightarrow> nat prog" where
  "insert_pos_step_p root node j pos = need (child_at root j) (\<lambda>c.
     if c \<noteq> 0 then call (node_get_p c) (\<lambda>child.
       if is_leaf child \<and> key child < key node then Return (j + 1)
       else if \<not> is_leaf child then call (btree_find_maximum_p (block_number child)) (\<lambda>max_key.
         Return (if max_key < key node then j + 1 else pos))
       else Return pos)
     else Return pos)"

definition btree_insert_nonfull_p :: "BTreeNode \<Rightarrow> BTreeNode \<Rightarrow> (int \<times> BTreeNode \<times> BTreeNode) prog" where
  "btree_insert_nonfull_p root node =
     (if is_leaf root then Return (-1, root, node)
      else let n = unat (num_keys root) in
        call (each [0..<Suc n] (insert_pos_step_p root node) 0) (\<lambda>pos0.
        let child_pos = (if n < pos0 then n else pos0) in
        need (for_each (rev [child_pos..<Suc n])
          (\<lambda>j r. do { c \<leftarrow> child_at r j; set_child r (j + 1) c }) root) (\<lambda>r1.
        need (for_each (rev [Suc child_pos..<Suc n])
          (\<lambda>j r. do { k \<leftarrow> key_at r (j - 1); set_key r j k }) r1) (\<lambda>r2.
        need (set_child r2 child_pos (block_number node)) (\<lambda>r3.
        Return (0, r3\<lparr>num_keys := num_keys r3 + 1\<rparr>, node\<lparr>parent := block_number root\<rparr>))))))"

fun pick_child_p :: "BTreeNode \<Rightarrow> u64 \<Rightarrow> nat list \<Rightarrow> nat \<Rightarrow> nat prog" where
  "pick_child_p n k [] idx = Return idx"
| "pick_child_p n k (i # is) idx = need (child_at n i) (\<lambda>c.
     if c \<noteq> 0 then call (btree_find_maximum_p c) (\<lambda>child_max.
       if k \<le> child_max then Return i else pick_child_p n k is (i + 1))
     else pick_child_p n k is idx)"

definition descend_p :: "BTreeNode \<Rightarrow> u64 \<Rightarrow> BTreeNode option prog" where
  "descend_p n k = call (pick_child_p n k [0..<unat (num_keys n)] 0) (\<lambda>idx0.
     let idx = (if unat (num_keys n) < idx0 then unat (num_keys n) else idx0) in
     need (child_at n idx) (\<lambda>c.
     if c \<noteq> 0 then call (node_reread_p c n) (\<lambda>n'. Return (Some n'))
     else need (last_child n (rev [0..<Suc (unat (num_keys n))])) (\<lambda>c'.
       if c' \<noteq> 0 then call (node_reread_p c' n) (\<lambda>n'. Return (Some n')) else Return None)))"

fun insertion_loop_p :: "nat \<Rightarrow> u64 \<Rightarrow> u64 \<Rightarrow> BTreeNode \<Rightarrow> int \<Rightarrow> BTreeNode prog" where
  "insertion_loop_p 0 root_block k n depth = Undefined"
| "insertion_loop_p (Suc f) root_block k n depth = call (btree_find_depth_p root_block) (\<lambda>h.
     if depth < h - 1 then call (descend_p n k) (\<lambda>r.
       case r of None \<Rightarrow> Return n | Some n' \<Rightarrow> insertion_loop_p f root_block k n' (depth + 1))
     else Return n)"

definition btree_insertion_search_p :: "u64 \<Rightarrow> u64 \<Rightarrow> int prog" where
  "btree_insertion_search_p root_block k = call (node_get_p root_block) (\<lambda>root. need (child_at root 0) (\<lambda>c.
     if c = 0 then Return (int_of_u64 (block_number root))
     else call (btree_find_depth_p root_block) (\<lambda>h.
       if h - 1 \<le> 0 then Return (int_of_u64 (block_number root))
       else with_fuel (\<lambda>f. call (insertion_loop_p f root_block k root 0) (\<lambda>n.
         Return (int_of_u64 (block_number n)))))))"

definition refresh_keys_p :: "BTreeNode \<Rightarrow> BTreeNode prog" where
  "refresh_keys_p n = each [0..<unat (num_keys n)] (\<lambda>i p. need (child_at p i) (\<lambda>c.
     if c \<noteq> 0 then call (btree_find_maximum_p c) (\<lambda>m. need (set_key p i m) Return) else Return p)) n"

definition btree_update_parent_keys_p :: "BTreeNode \<Rightarrow> unit prog" where
  "btree_update_parent_keys_p node =
     (if parent node = 0 then Return ()
      else call (node_get_p (parent node)) (\<lambda>p. call (refresh_keys_p p) (\<lambda>p'.
        call (btree_node_write_p p') (\<lambda>_. Return ()))))"

lemma insert_pos_step_run [run_simps]:
  "direct (insert_pos_step_p root node j pos) d = same_disk d (insert_pos_step d root node j pos)"
  by (auto simp: insert_pos_step_p_def insert_pos_step_def run_simps run_bind intro!: Option.bind_cong)

lemma btree_insert_nonfull_run [run_simps]:
  "direct (btree_insert_nonfull_p root node) d = same_disk d (btree_insert_nonfull d root node)"
proof -
  have "direct (each is (insert_pos_step_p root node) s) d = same_disk d (for_each is (insert_pos_step d root node) s)"
    for "is" s by (intro direct_each_value) (simp add: run_simps)
  then show ?thesis
    unfolding btree_insert_nonfull_p_def btree_insert_nonfull_def
    by (auto simp: run_bind simp del: upt_Suc intro!: Option.bind_cong)
qed

lemma pick_child_run [run_simps]: "direct (pick_child_p n k is idx) d = same_disk d (pick_child d n k is idx)"
  by (induction "is" arbitrary: idx) (auto simp: run_simps run_bind intro!: Option.bind_cong)

lemma descend_run [run_simps]: "direct (descend_p n k) d = same_disk d (descend d n k)"
  unfolding descend_p_def descend_def
  by (auto simp: run_simps run_bind simp del: upt_Suc intro!: Option.bind_cong)

lemma insertion_loop_run [run_simps]:
  "direct (insertion_loop_p f root_block k n depth) d = same_disk d (insertion_loop f d root_block k n depth)"
  by (induction f arbitrary: n depth) (auto simp: run_simps run_bind intro!: Option.bind_cong split: option.split)

lemma btree_insertion_search_run [run_simps]:
  "direct (btree_insertion_search_p root_block k) d = same_disk d (btree_insertion_search d root_block k)"
  by (auto simp: btree_insertion_search_p_def btree_insertion_search_def run_simps run_bind
      simp del: insertion_loop_p.simps insertion_loop.simps intro!: Option.bind_cong)

lemma refresh_keys_run [run_simps]: "direct (refresh_keys_p n) d = same_disk d (refresh_keys d n)"
  unfolding refresh_keys_p_def refresh_keys_def
  by (intro direct_each_value) (auto simp: run_simps run_bind intro!: Option.bind_cong)

lemma btree_update_parent_keys_run [run_simps]:
  "direct (btree_update_parent_keys_p node) d = only_disk (btree_update_parent_keys d node)"
  by (auto simp: btree_update_parent_keys_p_def btree_update_parent_keys_def run_simps run_bind
      intro!: Option.bind_cong)

lemma pick_child_owned [owned]: "owns no_pointer (pick_child_p n k is idx) F"
  by (induction "is" arbitrary: idx) (auto intro!: owned)

lemma descend_owned [owned]: "owns no_pointer (descend_p n k) F"
  by (auto simp: descend_p_def Let_def intro!: owned)

lemma insertion_loop_owned [owned]: "owns no_pointer (insertion_loop_p f root_block k n depth) F"
  by (induction f arbitrary: n depth) (auto intro!: owned split: option.split)

lemma btree_update_owned [owned]:
  "owns no_pointer (insert_pos_step_p root node j pos) F" "owns no_pointer (refresh_keys_p n) F"
  "owns no_pointer (btree_insertion_search_p root_block k) F"
  by (auto simp: insert_pos_step_p_def refresh_keys_p_def btree_insertion_search_p_def intro!: owned
      simp del: insertion_loop_p.simps)

lemma btree_insert_owned [owned]:
  "owns no_pointer (btree_insert_nonfull_p root node) F" "owns no_pointer (btree_update_parent_keys_p node) F"
  by (auto simp: btree_insert_nonfull_p_def btree_update_parent_keys_p_def Let_def intro!: owned simp del: upt_Suc)

end
