(* ===== verification/Balance_Programs.thy ===== *)
theory Balance_Programs
  imports Btree_Programs Btree_Balance
begin

text \<open>
  Splitting, borrowing and merging of the nodes of \<open>btr.c\<close> as programs, with the structure of
  \<open>Btree_Balance\<close>.
\<close>

subsection \<open>Splitting the root\<close>

definition set_parent_p :: "u64 \<Rightarrow> u64 \<Rightarrow> unit prog" where
  "set_parent_p c p = call (node_get_p c) (\<lambda>child.
     call (btree_node_write_p (child\<lparr>parent := p\<rparr>)) (\<lambda>_. Return ()))"

definition split_root_lower_p :: "BTreeNode \<Rightarrow> nat \<Rightarrow> nat \<Rightarrow> unit \<Rightarrow> unit prog" where
  "split_root_lower_p root ka i _ = need (key_at root i) (\<lambda>k. need (child_at root i) (\<lambda>c.
     load_node ka (\<lambda>a. need (set_key a i k) (\<lambda>a1. need (set_child a1 i c) (\<lambda>a2.
     save_node ka a2 (load_node ka (\<lambda>a.
     call (if c \<noteq> 0 then set_parent_p c (block_number a) else Return ()) (\<lambda>_.
     load_node ka (\<lambda>a. save_node ka (a\<lparr>num_keys := num_keys a + 1\<rparr>) (Return ()))))))))))"

definition split_root_upper_key_p :: "BTreeNode \<Rightarrow> nat \<Rightarrow> nat \<Rightarrow> unit \<Rightarrow> unit prog" where
  "split_root_upper_key_p root kb i _ = need (key_at root i) (\<lambda>k.
     load_node kb (\<lambda>b. need (set_key b (i - MIN_KEYS - 1) k) (\<lambda>b1.
     save_node kb (b1\<lparr>num_keys := num_keys b1 + 1\<rparr>) (Return ()))))"

definition split_root_upper_child_p :: "BTreeNode \<Rightarrow> nat \<Rightarrow> nat \<Rightarrow> unit \<Rightarrow> unit prog" where
  "split_root_upper_child_p root kb i _ = need (child_at root i) (\<lambda>c.
     load_node kb (\<lambda>b. need (set_child b (i - MIN_KEYS - 1) c) (\<lambda>b1.
     save_node kb b1 (load_node kb (\<lambda>b.
     if c \<noteq> 0 then set_parent_p c (block_number b) else Return ())))))"

definition btree_split_root_p :: "BTreeNode \<Rightarrow> BTreeNode prog" where
  "btree_split_root_p root = call (btree_node_create_p False) (\<lambda>(pa, _).
     call (btree_node_create_p False) (\<lambda>(pb, _). need pa (\<lambda>ka. need pb (\<lambda>kb.
     load_node ka (\<lambda>a. load_node kb (\<lambda>b. save_node ka (a\<lparr>right_sibling := block_number b\<rparr>) (
     load_node kb (\<lambda>b. load_node ka (\<lambda>a. save_node kb (b\<lparr>left_sibling := block_number a\<rparr>) (
     call (each [0..<MIN_KEYS] (split_root_lower_p root ka) ()) (\<lambda>_.
     need (child_at root MIN_KEYS) (\<lambda>cm.
     load_node ka (\<lambda>a. need (set_child a MIN_KEYS cm) (\<lambda>am. save_node ka am (load_node ka (\<lambda>a.
     call (if cm \<noteq> 0 then set_parent_p cm (block_number a) else Return ()) (\<lambda>_.
     call (each [MIN_KEYS + 1..<unat (num_keys root)] (split_root_upper_key_p root kb) ()) (\<lambda>_.
     call (each [MIN_KEYS + 1..<Suc (unat (num_keys root))] (split_root_upper_child_p root kb) ()) (\<lambda>_.
     need (child_at root MAX_KEYS) (\<lambda>cl.
     call
       (if cl \<noteq> 0 then load_node kb (\<lambda>b. need (set_child b (unat (num_keys b)) cl) (\<lambda>bl.
          save_node kb bl (load_node kb (\<lambda>b. set_parent_p cl (block_number b)))))
        else Return ()) (\<lambda>_.
     load_node ka (\<lambda>a. load_node kb (\<lambda>b.
     let root1 = root\<lparr>is_leaf := False, num_keys := 1,
       children := block_number a # block_number b # replicate (MAX_KEYS - 1) 0,
       keys := hd (keys root) # replicate (MAX_KEYS - 1) 0\<rparr> in
     save_node ka (a\<lparr>parent := block_number root1\<rparr>) (
     load_node kb (\<lambda>b. save_node kb (b\<lparr>parent := block_number root1\<rparr>) (
     load_node ka (\<lambda>a. call (btree_find_maximum_p (block_number a)) (\<lambda>m.
     need (set_key root1 0 m) Return))))))))))))))))))))))))))))"

lemma set_parent_run [run_simps]: "direct (set_parent_p c p) d = only_disk (set_parent d c p)"
  by (auto simp: set_parent_p_def set_parent_def run_simps run_bind intro!: Option.bind_cong)

lemma split_root_lower_run [run_simps]:
  "direct (split_root_lower_p root ka i s) d = only_disk (split_root_lower root ka i d)"
  by (auto simp: split_root_lower_p_def split_root_lower_def run_simps run_bind intro!: Option.bind_cong)

lemma split_root_upper_key_run [run_simps]:
  "direct (split_root_upper_key_p root kb i s) d = only_disk (split_root_upper_key root kb i d)"
  by (auto simp: split_root_upper_key_p_def split_root_upper_key_def run_simps run_bind intro!: Option.bind_cong)

lemma split_root_upper_child_run [run_simps]:
  "direct (split_root_upper_child_p root kb i s) d = only_disk (split_root_upper_child root kb i d)"
  by (auto simp: split_root_upper_child_p_def split_root_upper_child_def run_simps run_bind intro!: Option.bind_cong)

lemma split_root_loops [run_simps]:
  "direct (each is (split_root_lower_p root ka) ()) d = only_disk (for_each is (split_root_lower root ka) d)"
  "direct (each is (split_root_upper_key_p root kb) ()) d = only_disk (for_each is (split_root_upper_key root kb) d)"
  "direct (each is (split_root_upper_child_p root kb) ()) d = only_disk (for_each is (split_root_upper_child root kb) d)"
  by (rule direct_each_disk; simp add: run_simps)+

lemma btree_split_root_run [run_simps]: "direct (btree_split_root_p root) d = btree_split_root d root"
  unfolding btree_split_root_p_def btree_split_root_def
  by (auto simp: run_simps run_bind simp del: upt_Suc intro!: Option.bind_cong split: prod.split)

lemma set_parent_owned [owned]: "owns no_pointer (set_parent_p c p) F"
  by (auto simp: set_parent_p_def intro!: owned)

lemma split_root_step_owned [owned]:
  "k \<in> F \<Longrightarrow> owns no_pointer (split_root_lower_p root k i s) F"
  "k \<in> F \<Longrightarrow> owns no_pointer (split_root_upper_key_p root k i s) F"
  "k \<in> F \<Longrightarrow> owns no_pointer (split_root_upper_child_p root k i s) F"
  by (auto simp: split_root_lower_p_def split_root_upper_key_p_def split_root_upper_child_p_def intro!: owned)

lemma btree_split_root_owned [owned]: "owns no_pointer (btree_split_root_p root) F"
  unfolding btree_split_root_p_def
  by (auto simp: Let_def intro!: owned simp del: upt_Suc)

subsection \<open>Splitting a child\<close>

definition split_child_key_p :: "nat \<Rightarrow> nat \<Rightarrow> BTreeNode \<Rightarrow> BTreeNode prog" where
  "split_child_key_p kb i child = need (key_at child i) (\<lambda>k.
     load_node kb (\<lambda>b. need (set_key b (i - MIN_KEYS - 1) k) (\<lambda>b1.
     need (set_key child i 0) (\<lambda>child1.
     save_node kb (b1\<lparr>num_keys := num_keys b1 + 1\<rparr>) (Return child1)))))"

definition split_child_child_p :: "nat \<Rightarrow> nat \<Rightarrow> BTreeNode \<Rightarrow> BTreeNode prog" where
  "split_child_child_p kb i child = need (child_at child i) (\<lambda>c.
     load_node kb (\<lambda>b. need (set_child b (i - MIN_KEYS - 1) c) (\<lambda>b1.
     save_node kb b1 (load_node kb (\<lambda>b.
     call (if c \<noteq> 0 then set_parent_p c (block_number b) else Return ()) (\<lambda>_.
     need (set_child child i 0) Return))))))"

fun split_child_fuel_p :: "nat \<Rightarrow> BTreeNode \<Rightarrow> nat \<Rightarrow> BTreeNode \<Rightarrow> (BTreeNode \<times> BTreeNode) prog" where
  "split_child_fuel_p 0 node index child = Undefined"
| "split_child_fuel_p (Suc f) node index child = call (btree_node_create_p False) (\<lambda>(pb, _). need pb (\<lambda>kb.
     load_node kb (\<lambda>n. save_node kb (n\<lparr>parent := block_number node\<rparr>) (
     load_node kb (\<lambda>n. let child1 = child\<lparr>right_sibling := block_number n\<rparr> in
     save_node kb (n\<lparr>left_sibling := block_number child1\<rparr>) (
     call (each [MIN_KEYS + 1..<unat (num_keys child)] (split_child_key_p kb) child1) (\<lambda>child2.
     call (each [MIN_KEYS + 1..<Suc (unat (num_keys child))] (split_child_child_p kb) child2) (\<lambda>child3.
     need (set_key child3 MIN_KEYS 0) (\<lambda>child4.
     let child5 = child4\<lparr>num_keys := of_nat MIN_KEYS\<rparr> in
     load_node kb (\<lambda>n. let b = block_number n in
     if unat (num_keys node) < MAX_KEYS then
       need (link_child node index b) (\<lambda>n1.
       call (btree_find_maximum_p b) (\<lambda>m.
       need (set_key n1 index m) (\<lambda>n2.
       load_node kb (\<lambda>n. save_node kb (n\<lparr>parent := block_number n2\<rparr>) (
       call (refresh_keys_p (n2\<lparr>num_keys := num_keys n2 + 1\<rparr>)) (\<lambda>n3.
       Return (n3, child5)))))))
     else
       call
         (if parent node \<noteq> 0 then
            call (node_get_p (parent node)) (\<lambda>grandparent.
            need (child_index grandparent (block_number node) [0..<Suc (unat (num_keys grandparent))]) (\<lambda>parent_index.
            call (split_child_fuel_p f grandparent parent_index node) (\<lambda>(gp1, nd1).
            call (btree_node_write_p gp1) (\<lambda>_. Return nd1))))
          else btree_split_root_p node) (\<lambda>node1.
       call (node_get_p (parent child5)) (\<lambda>current_parent.
       need (child_index current_parent (block_number child5) [0..<Suc (unat (num_keys current_parent))]) (\<lambda>new_index.
       call
         (if unat (num_keys current_parent) < MAX_KEYS then
            need (link_child current_parent new_index b) (\<lambda>cp1.
            refresh_keys_p (cp1\<lparr>num_keys := num_keys cp1 + 1\<rparr>))
          else Return current_parent) (\<lambda>cp.
       call (btree_node_write_p cp) (\<lambda>_. Return (node1, child5))))))))))))))))"

definition btree_split_child_p :: "BTreeNode \<Rightarrow> nat \<Rightarrow> BTreeNode \<Rightarrow> (BTreeNode \<times> BTreeNode) prog" where
  "btree_split_child_p node index child = with_fuel (\<lambda>f. split_child_fuel_p f node index child)"

lemma split_child_loops [run_simps]:
  "direct (each is (split_child_key_p kb) child) d = for_each is (split_child_key kb) (child, d)"
  "direct (each is (split_child_child_p kb) child) d = for_each is (split_child_child kb) (child, d)"
  by (rule direct_each; auto simp: split_child_key_p_def split_child_key_def split_child_child_p_def
      split_child_child_def run_simps run_bind intro!: Option.bind_cong)+

lemma split_child_fuel_run [run_simps]:
  "direct (split_child_fuel_p f node index child) d = map_option last3 (split_child_fuel f d node index child)"
proof (induction f arbitrary: node index child d)
  case (Suc f)
  show ?case
    unfolding split_child_fuel_p.simps split_child_fuel.simps
    by (auto simp: run_simps run_bind Suc simp del: upt_Suc intro!: Option.bind_cong split: prod.split)
qed simp

lemma btree_split_child_run [run_simps]:
  "direct (btree_split_child_p node index child) d = map_option last3 (btree_split_child d node index child)"
  by (simp add: btree_split_child_p_def btree_split_child_def run_simps
      del: split_child_fuel_p.simps split_child_fuel.simps)

lemma split_child_step_owned [owned]:
  "k \<in> F \<Longrightarrow> owns no_pointer (split_child_key_p k i child) F"
  "k \<in> F \<Longrightarrow> owns no_pointer (split_child_child_p k i child) F"
  by (auto simp: split_child_key_p_def split_child_child_p_def intro!: owned)

lemma split_child_fuel_owned [owned]: "owns no_pointer (split_child_fuel_p f node index child) F"
proof (induction f arbitrary: node index child F)
  case (Suc f)
  show ?case
    unfolding split_child_fuel_p.simps
    by (auto simp: Let_def intro!: owned Suc simp del: upt_Suc)
qed simp

lemma btree_split_child_owned [owned]: "owns no_pointer (btree_split_child_p node index child) F"
  by (auto simp: btree_split_child_p_def intro!: owned simp del: split_child_fuel_p.simps)

subsection \<open>Inserting\<close>

definition insert_into_target_p :: "BTreeNode \<Rightarrow> nat \<Rightarrow> unit prog" where
  "insert_into_target_p target kn = load_node kn (\<lambda>n.
     call (btree_insert_nonfull_p target n) (\<lambda>(_, t1, n1). save_node kn n1 (
     call (btree_node_write_p t1) (\<lambda>_. Return ()))))"

definition insert_into_full_p :: "u64 \<Rightarrow> u64 \<Rightarrow> BTreeNode \<Rightarrow> nat \<Rightarrow> unit prog" where
  "insert_into_full_p root_block k target kn = need (key_at target (MAX_KEYS - 1)) (\<lambda>kl.
     need (child_at target MAX_KEYS) (\<lambda>cl.
     if kl < k \<and> cl = 0 then load_node kn (\<lambda>n.
       need (set_child target MAX_KEYS (block_number n)) (\<lambda>target'.
       save_node kn (n\<lparr>parent := block_number target'\<rparr>) (Return ())))
     else call
       (if parent target \<noteq> 0 then
          call (node_get_p (parent target)) (\<lambda>p. call (btree_find_maximum_p (block_number target)) (\<lambda>m.
          call (btree_split_child_p p (key_index p m) target) (\<lambda>_. Return ())))
        else call (btree_split_root_p target) (\<lambda>_. Return ())) (\<lambda>_.
       call (btree_insertion_search_p root_block k) (\<lambda>tb.
       call (node_get_p (u64_of_int tb)) (\<lambda>target'.
       insert_into_target_p target' kn)))))"

definition btree_insert_p :: "u64 \<Rightarrow> u64 \<Rightarrow> u64 \<Rightarrow> u32 \<Rightarrow> int prog" where
  "btree_insert_p root_block k v type = call (btree_node_create_p True) (\<lambda>(pn, _). need pn (\<lambda>kn.
     load_node kn (\<lambda>n. save_node kn (n\<lparr>key := k, val := v, node_type := type\<rparr>) (
     load_node kn (\<lambda>n. call (btree_node_write_p n) (\<lambda>_.
     call (btree_insertion_search_p root_block k) (\<lambda>target_block.
     call (node_get_p (u64_of_int target_block)) (\<lambda>target.
     call (if unat (num_keys target) = MAX_KEYS
       then insert_into_full_p root_block k target kn
       else insert_into_target_p target kn) (\<lambda>_.
     load_node kn (\<lambda>n. call (btree_update_parent_keys_p n) (\<lambda>_. Return 0)))))))))))"

lemma insert_into_target_run [run_simps]:
  "direct (insert_into_target_p target kn) d = only_disk (insert_into_target d target kn)"
  by (auto simp: insert_into_target_p_def insert_into_target_def run_simps run_bind intro!: Option.bind_cong
      split: prod.split)

lemma insert_into_full_run [run_simps]:
  "direct (insert_into_full_p root_block k target kn) d = only_disk (insert_into_full d root_block k target kn)"
  by (auto simp: insert_into_full_p_def insert_into_full_def run_simps run_bind intro!: Option.bind_cong
      split: prod.split)

lemma btree_insert_run [run_simps]: "direct (btree_insert_p root_block k v type) d = btree_insert d root_block k v type"
  by (auto simp: btree_insert_p_def btree_insert_def run_simps run_bind intro!: Option.bind_cong split: prod.split)

lemma insert_into_target_owned [owned]: "kn \<in> F \<Longrightarrow> owns no_pointer (insert_into_target_p target kn) F"
  by (auto simp: insert_into_target_p_def intro!: owned)

lemma insert_into_full_owned [owned]: "kn \<in> F \<Longrightarrow> owns no_pointer (insert_into_full_p root_block k target kn) F"
  by (auto simp: insert_into_full_p_def intro!: owned)

lemma btree_insert_p_owned [owned]: "owns no_pointer (btree_insert_p root_block k v type) F"
  by (auto simp: btree_insert_p_def intro!: owned)

subsection \<open>Borrowing and merging\<close>

definition btree_borrow_left_p :: "BTreeNode \<Rightarrow> int prog" where
  "btree_borrow_left_p node =
     (if left_sibling node = 0 then Return (-1)
      else call (node_get_p (left_sibling node)) (\<lambda>s.
        if unat (num_keys s) = MIN_KEYS then Return (-1)
        else need (borrow_last s (rev [0..<Suc (unat (num_keys s))])) (\<lambda>(rv, s1).
          call (btree_node_write_p s1) (\<lambda>_. Return rv))))"

definition btree_borrow_right_p :: "BTreeNode \<Rightarrow> int prog" where
  "btree_borrow_right_p node =
     (if right_sibling node = 0 then Return (-1)
      else call (node_get_p (right_sibling node)) (\<lambda>s.
        if unat (num_keys s) = MIN_KEYS then Return (-1)
        else need (child_at s 0) (\<lambda>c0.
          need (for_each [0..<MAX_KEYS] (\<lambda>i r. do { k \<leftarrow> key_at r (i + 1); set_key r i k }) s) (\<lambda>s1.
          need (for_each [0..<MAX_KEYS + 1] (\<lambda>i r. do { c \<leftarrow> child_at r (i + 1); set_child r i c }) s1) (\<lambda>s2.
          need (set_key s2 (MAX_KEYS - 1) 0) (\<lambda>s3.
          need (set_child s3 MAX_KEYS 0) (\<lambda>s4.
          call (btree_node_write_p (s4\<lparr>num_keys := num_keys s4 - 1\<rparr>)) (\<lambda>_.
          Return (int_of_u64 c0)))))))))"

definition promote_step_p :: "BTreeNode \<Rightarrow> nat \<Rightarrow> BTreeNode option \<Rightarrow> BTreeNode option prog" where
  "promote_step_p root i local = need (child_at root i) (\<lambda>c.
     if c \<noteq> 0 then call (btree_node_read_p c) (\<lambda>(_, no).
       need (case no of None \<Rightarrow> local | Some n \<Rightarrow> Some n) (\<lambda>child.
       call (btree_node_write_p (child\<lparr>parent := block_number root\<rparr>)) (\<lambda>_. Return None)))
     else Return local)"

definition btree_promote_root_p :: "BTreeNode \<Rightarrow> BTreeNode prog" where
  "btree_promote_root_p root =
     (let page = int_of_u64 (block_number root) in
      need (child_at root 0) (\<lambda>c. call (node_get_p c) (\<lambda>child.
      let root1 = child\<lparr>block_number := u64_of_int page, parent := 0\<rparr> in
      call (btree_node_free_p (block_number child)) (\<lambda>_.
      call (each [0..<Suc (unat (num_keys root1))] (promote_step_p root1) (Some child)) (\<lambda>_.
      Return root1)))))"

fun merge_children_fuel_p :: "nat \<Rightarrow> BTreeNode \<Rightarrow> nat \<Rightarrow> BTreeNode prog" where
  "merge_children_fuel_p 0 prnt index = Undefined"
| "merge_children_fuel_p (Suc f) prnt index =
     (if index = MAX_KEYS then merge_children_fuel_p f prnt (index - 1)
      else need (child_at prnt index) (\<lambda>ca. need (child_at prnt (index + 1)) (\<lambda>cb.
        if ca = 0 \<or> cb = 0 then Return prnt
        else call (node_get_p ca) (\<lambda>child_a. call (node_get_p cb) (\<lambda>child_b.
          need (merge_copy (child_a\<lparr>right_sibling := right_sibling child_b\<rparr>) child_b) (\<lambda>a1.
          call (btree_node_write_p a1) (\<lambda>_.
          need (for_each [index + 1..<MAX_KEYS - 1] (\<lambda>i r. do { k \<leftarrow> key_at r (i + 1); set_key r i k }) prnt) (\<lambda>p1.
          need (set_key p1 (MAX_KEYS - 1) 0) (\<lambda>p2.
          need (for_each [index + 1..<MAX_KEYS] (\<lambda>i r. do { c \<leftarrow> child_at r (i + 1); set_child r i c }) p2) (\<lambda>p3.
          call (btree_node_free_p (block_number child_b)) (\<lambda>_.
          let p4 = p3\<lparr>num_keys := num_keys p3 - 1\<rparr> in
          if unat (num_keys p4) < MIN_KEYS then
            if parent p4 = 0 then need (child_at p4 1) (\<lambda>c1.
              if c1 = 0 then btree_promote_root_p p4 else Return p4)
            else call (btree_borrow_left_p p4) (\<lambda>rv.
              call (if rv = -1 then btree_borrow_right_p p4 else Return rv) (\<lambda>rv'.
              if rv' = -1 then call (node_get_p (parent p4)) (\<lambda>grandparent.
                call (btree_find_maximum_p (block_number p4)) (\<lambda>m.
                call (merge_children_fuel_p f grandparent (key_index grandparent m)) (\<lambda>gp.
                call (btree_node_write_p gp) (\<lambda>_. Return p4))))
              else Return p4))
          else Return p4)))))))))))"

definition btree_merge_children_p :: "BTreeNode \<Rightarrow> nat \<Rightarrow> BTreeNode prog" where
  "btree_merge_children_p prnt index = with_fuel (\<lambda>f. merge_children_fuel_p (Suc f) prnt index)"

definition rebalance_p :: "BTreeNode \<Rightarrow> u64 \<Rightarrow> int prog" where
  "rebalance_p root k =
     (if unat (num_keys root) = MIN_KEYS \<and> parent root \<noteq> 0 then
        call (btree_borrow_left_p root) (\<lambda>rv.
        if rv \<noteq> -1 then Return rv
        else call (btree_borrow_right_p root) (\<lambda>rv'.
          if rv' \<noteq> -1 then Return rv'
          else call (node_get_p (parent root)) (\<lambda>grandparent.
            call (btree_merge_children_p grandparent (key_index grandparent k)) (\<lambda>gp.
            call (btree_node_write_p gp) (\<lambda>_. Return (-1))))))
      else Return (-1))"

lemma btree_borrow_run [run_simps]:
  "direct (btree_borrow_left_p node) d = btree_borrow_left d node"
  "direct (btree_borrow_right_p node) d = btree_borrow_right d node"
  by (auto simp: btree_borrow_left_p_def btree_borrow_left_def btree_borrow_right_p_def btree_borrow_right_def
      run_simps run_bind simp del: upt_Suc intro!: Option.bind_cong split: prod.split)

lemma promote_loop [run_simps]:
  "direct (each is (promote_step_p root) local) d = for_each is (promote_step root) (local, d)"
  by (rule direct_each)
    (auto simp: promote_step_p_def promote_step_def run_simps run_bind intro!: Option.bind_cong split: prod.split)

lemma btree_promote_root_run [run_simps]: "direct (btree_promote_root_p root) d = btree_promote_root d root"
  by (auto simp: btree_promote_root_p_def btree_promote_root_def run_simps run_bind simp del: upt_Suc
      intro!: Option.bind_cong)

lemma merge_children_fuel_run [run_simps]:
  "direct (merge_children_fuel_p f prnt index) d = merge_children_fuel f d prnt index"
proof (induction f arbitrary: prnt index d)
  case (Suc f)
  show ?case
    unfolding merge_children_fuel_p.simps merge_children_fuel.simps
    by (auto simp: run_simps run_bind Suc simp del: upt_Suc intro!: Option.bind_cong split: prod.split)
qed simp

lemma btree_merge_children_run [run_simps]:
  "direct (btree_merge_children_p prnt index) d = btree_merge_children d prnt index"
  by (simp add: btree_merge_children_p_def btree_merge_children_def run_simps
      del: merge_children_fuel_p.simps merge_children_fuel.simps)

lemma rebalance_run [run_simps]: "direct (rebalance_p root k) d = rebalance d root k"
  by (auto simp: rebalance_p_def rebalance_def run_simps run_bind intro!: Option.bind_cong split: prod.split)

lemma btree_borrow_owned [owned]:
  "owns no_pointer (btree_borrow_left_p node) F" "owns no_pointer (btree_borrow_right_p node) F"
  "owns no_pointer (promote_step_p root i local) F"
  by (auto simp: btree_borrow_left_p_def btree_borrow_right_p_def promote_step_p_def intro!: owned
      simp del: upt_Suc)

lemma btree_promote_root_owned [owned]: "owns no_pointer (btree_promote_root_p root) F"
  by (auto simp: btree_promote_root_p_def Let_def intro!: owned simp del: upt_Suc)

lemma merge_children_fuel_owned [owned]: "owns no_pointer (merge_children_fuel_p f prnt index) F"
proof (induction f arbitrary: prnt index F)
  case (Suc f)
  show ?case
    unfolding merge_children_fuel_p.simps by (auto simp: Let_def intro!: owned Suc simp del: upt_Suc)
qed simp

lemma rebalance_owned [owned]:
  "owns no_pointer (btree_merge_children_p prnt index) F" "owns no_pointer (rebalance_p root k) F"
  by (auto simp: btree_merge_children_p_def rebalance_p_def intro!: owned simp del: merge_children_fuel_p.simps)

subsection \<open>Deleting\<close>

definition btree_remove_key_p :: "u64 \<Rightarrow> u64 \<Rightarrow> unit prog" where
  "btree_remove_key_p root_block k = call (node_get_p root_block) (\<lambda>root.
     need (child_at root (key_index root k)) (\<lambda>c.
     call (btree_node_read_p c) (\<lambda>(_, no).
     call (rebalance_p root k) (\<lambda>rv.
     need (unlink_child root (key_index root k)) (\<lambda>root1.
     call (btree_node_write_p root1) (\<lambda>_.
     need (child_at root1 0) (\<lambda>c0.
     call
       (if num_keys root1 = 0 \<and> c0 \<noteq> 0 then call (btree_find_maximum_p root_block) (\<lambda>m.
          need (set_key root1 0 m) (\<lambda>r. Return (r\<lparr>num_keys := num_keys r + 1\<rparr>)))
        else Return root1) (\<lambda>root2.
     call
       (if rv \<noteq> -1 then call (node_get_p (u64_of_int rv)) (\<lambda>borrowed.
          call (btree_insert_nonfull_p root2 borrowed) (\<lambda>(_, r, _). Return r))
        else Return root2) (\<lambda>root3.
     need no (\<lambda>node. call (btree_update_parent_keys_p node) (\<lambda>_.
     call (btree_node_write_p root3) (\<lambda>_. Return ()))))))))))))"

definition btree_delete_p :: "u64 \<Rightarrow> u64 \<Rightarrow> u64 prog" where
  "btree_delete_p root_block k = call (btree_search_p root_block k) (\<lambda>rv.
     if rv \<noteq> 0 then call (btree_remove_key_p root_block k) (\<lambda>_.
       call (btree_node_free_p rv) (\<lambda>_. Return rv))
     else Return 0)"

lemma btree_remove_key_run [run_simps]:
  "direct (btree_remove_key_p root_block k) d = only_disk (btree_remove_key d root_block k)"
  by (auto simp: btree_remove_key_p_def btree_remove_key_def run_simps run_bind intro!: Option.bind_cong
      split: prod.split)

lemma btree_delete_run [run_simps]: "direct (btree_delete_p root_block k) d = btree_delete d root_block k"
  by (auto simp: btree_delete_p_def btree_delete_def run_simps run_bind intro!: Option.bind_cong)

lemma btree_delete_owned [owned]:
  "owns no_pointer (btree_remove_key_p root_block k) F" "owns no_pointer (btree_delete_p root_block k) F"
  by (auto simp: btree_remove_key_p_def btree_delete_p_def intro!: owned)

end
