(* ===== verification/Inode_Programs.thy ===== *)
theory Inode_Programs
  imports Alloc_Programs Inode
begin

text \<open>The inode table of \<open>inode.c\<close> as programs, with the structure of \<open>Inode\<close>.\<close>

subsection \<open>Reading and writing an inode\<close>

definition inode_read_p :: "u64 \<Rightarrow> (int \<times> Inode option) prog" where
  "inode_read_p n = call superblock_read_p (\<lambda>(_, sbo). need sbo (\<lambda>sb.
     let inode_page = n div of_nat inode_per_page in
     Fetch 0 (inode_table_start sb + inode_page) (\<lambda>k. Look k (\<lambda>pg.
     if page_type pg \<noteq> block_type_code BLOCK_TYPE_INODE then Return (-1, None)
     else Return (0, Some (inode_of_page pg (inode_slot (unat (n mod of_nat inode_per_page)))))))))"

definition inode_write_p :: "Inode \<Rightarrow> int prog" where
  "inode_write_p n = call superblock_read_p (\<lambda>(_, sbo). need sbo (\<lambda>sb.
     let inode_page = u64_of_int (sint (i_number n) sdiv int inode_per_page) in
     Fetch 0 (inode_table_start sb + inode_page) (\<lambda>k. Look k (\<lambda>pg.
     if page_type pg \<noteq> block_type_code BLOCK_TYPE_INODE then Return (-1)
     else
       let r = sint (i_number n) smod int inode_per_page
       in if r < 0 then Undefined
          else Put k (inode_to_page n pg (inode_slot (nat r)))
            (Commit k 0 (inode_table_start sb + inode_page) (Return 0))))))"

lemma inode_read_run [run_simps]: "direct (inode_read_p n) d = same_disk d (inode_read d n)"
  by (auto simp: inode_read_p_def inode_read_def run_simps run_bind intro!: Option.bind_cong split: prod.split)

lemma inode_write_run [run_simps]: "direct (inode_write_p n) d = inode_write d n"
  by (auto simp: inode_write_p_def inode_write_def run_simps run_bind intro!: Option.bind_cong split: prod.split)

lemma inode_owned [owned]: "owns no_pointer (inode_read_p n) F" "owns no_pointer (inode_write_p node) F"
  by (auto simp: inode_read_p_def inode_write_p_def Let_def intro!: owned)

subsection \<open>Allocating and freeing an inode\<close>

definition inode_claim_p :: "nat \<Rightarrow> int \<Rightarrow> int \<Rightarrow> nat \<Rightarrow> u32 \<Rightarrow> u32 \<Rightarrow> u32 \<Rightarrow> int prog" where
  "inode_claim_p ibm idx ibmn ii mode uid gid = Look ibm (\<lambda>bm. need (bitmap_put bm idx 1) (\<lambda>(rv, pg).
     if rv \<noteq> 0 then Return (-1)
     else Put ibm pg
       (call (inode_read_p (of_nat ii)) (\<lambda>(rv1, no).
          if rv1 \<noteq> 0 then Return (-1)
          else need no (\<lambda>node. call (inode_write_p (node\<lparr>i_number := of_nat ii, i_mode := mode,
              owner_id := uid, group_id := gid, reference_count := 1\<rparr>)) (\<lambda>rv2.
            if rv2 \<noteq> 0 then Return (-1)
            else Commit ibm 0 (u64_of_int ibmn) (Return (int ii))))))))"

fun inode_scan_p :: "nat \<Rightarrow> Superblock \<Rightarrow> nat \<Rightarrow> int \<Rightarrow> nat \<Rightarrow> u32 \<Rightarrow> u32 \<Rightarrow> u32 \<Rightarrow> int prog" where
  "inode_scan_p 0 sb ibm ibmn ii mode uid gid = Undefined"
| "inode_scan_p (Suc r) sb ibm ibmn ii mode uid gid = Look ibm (\<lambda>first.
     if page_type first \<noteq> block_type_code BLOCK_TYPE_BITMAP then Return (-1)
     else call
       (if ii mod USABLE_BLOCK_SIZE = 0 \<and> ii \<noteq> 0
        then Fetch 0 (u64_of_int (ibmn + 1)) (\<lambda>k. Return (k, ibmn + 1))
        else Return (ibm, ibmn))
       (\<lambda>(ibm, ibmn).
         let idx = int_of_u64 (of_nat ii - (u64_of_int ibmn - inode_bitmap sb) * of_nat USABLE_BLOCK_SIZE) in
         Look ibm (\<lambda>bm. need (bitmap_get bm idx) (\<lambda>b.
         if b = 0 then inode_claim_p ibm idx ibmn ii mode uid gid
         else inode_scan_p r sb ibm ibmn (Suc ii) mode uid gid))))"

text \<open>The number of blocks only bounds the rounds, as in \<open>inode_allocate\<close>.\<close>

definition inode_allocate_p :: "u32 \<Rightarrow> u32 \<Rightarrow> u32 \<Rightarrow> int prog" where
  "inode_allocate_p mode uid gid = call superblock_read_p (\<lambda>(_, sbo). need sbo (\<lambda>sb.
     let ibmn = int_of_u64 (inode_bitmap sb) in
     Fetch 0 (u64_of_int ibmn) (\<lambda>ibm. Extent (\<lambda>t.
     inode_scan_p (Suc (USABLE_BLOCK_SIZE * Suc (unat t))) sb ibm ibmn 0 mode uid gid))))"

definition inode_free_p :: "u64 \<Rightarrow> int prog" where
  "inode_free_p n = call superblock_read_p (\<lambda>(_, sbo). need sbo (\<lambda>sb.
     let ibmn = int_of_u64 (inode_bitmap sb + n div of_nat USABLE_BLOCK_SIZE) in
     Fetch 0 (u64_of_int ibmn) (\<lambda>ibm. Look ibm (\<lambda>bm.
     need (bitmap_put bm (int_of_u64 (n - u64_of_int ((ibmn - 1) * int USABLE_BLOCK_SIZE))) 0) (\<lambda>(rv, pg).
     if rv \<noteq> 0 then Return 0
     else Put ibm pg
         (let inode_page = int_of_u64 (n div of_nat inode_per_page) in
          Fetch 0 (inode_table_start sb + u64_of_int inode_page) (\<lambda>k. Look k (\<lambda>pg.
          if page_type pg \<noteq> block_type_code BLOCK_TYPE_INODE then Return 0
          else
            let a = inode_slot (unat (n mod of_nat inode_per_page)) in
            Put k (wr_bytes pg a (replicate sizeof_Inode 0))
              (Commit k 0 (inode_table_start sb + u64_of_int inode_page)
                (Commit ibm 0 (u64_of_int ibmn) (Return 0)))))))))))"

lemma inode_claim_run [run_simps]:
  "direct (inode_claim_p ibm idx ibmn ii mode uid gid) d = inode_claim d ibm idx ibmn ii mode uid gid"
  by (auto simp: inode_claim_p_def inode_claim_def run_simps run_bind intro!: Option.bind_cong split: prod.split)
    (metis bitmap_put_failed)

lemma inode_scan_run [run_simps]:
  "direct (inode_scan_p r sb ibm ibmn ii mode uid gid) d = inode_scan r d sb ibm ibmn ii mode uid gid"
proof (induction r arbitrary: ibm ibmn ii)
  case (Suc r)
  then show ?case
    unfolding inode_scan_p.simps inode_scan.simps
    by (auto simp: run_simps run_bind intro!: Option.bind_cong split: prod.split)
qed simp

lemma inode_allocate_run [run_simps]: "direct (inode_allocate_p mode uid gid) d = inode_allocate d mode uid gid"
  by (auto simp: inode_allocate_p_def inode_allocate_def n_blocks_def run_simps run_bind intro!: Option.bind_cong
      split: prod.split)

lemma inode_free_run [run_simps]: "direct (inode_free_p n) d = inode_free d n"
  by (auto simp: inode_free_p_def inode_free_def run_simps run_bind intro!: Option.bind_cong split: prod.split)
    (metis bitmap_put_failed)

lemma inode_claim_owned [owned]:
  "ibm \<in> F \<Longrightarrow> ibm = unat (u64_of_int ibmn) \<Longrightarrow> owns no_pointer (inode_claim_p ibm idx ibmn ii mode uid gid) F"
  by (auto simp: inode_claim_p_def Let_def intro!: owned)

lemma inode_scan_owned [owned]:
  "ibm \<in> F \<Longrightarrow> ibm = unat (u64_of_int ibmn) \<Longrightarrow> owns no_pointer (inode_scan_p r sb ibm ibmn ii mode uid gid) F"
proof (induction r arbitrary: ibm ibmn ii F)
  case (Suc r)
  then show ?case
    unfolding inode_scan_p.simps by (auto simp: Let_def intro!: owned Suc.IH)
qed simp

lemma inode_allocate_owned [owned]:
  "owns no_pointer (inode_allocate_p mode uid gid) F" "owns no_pointer (inode_free_p n) F"
  by (auto simp: inode_allocate_p_def inode_free_p_def Let_def intro!: owned)

subsection \<open>The blocks of a file\<close>

definition inode_get_block_p :: "Inode \<Rightarrow> u64 \<Rightarrow> u64 \<Rightarrow> (int \<times> u64) prog" where
  "inode_get_block_p n idx cur =
     (if unat idx < NDIRECT then
        let p = direct_blocks n ! unat idx in Return (if p \<noteq> 0 then 0 else -1, p)
      else if unat idx \<le> PTRS_PER_BLOCK then
        if indirect_block n = 0 then Return (-1, cur)
        else Fetch (i_number n) (indirect_block n) (\<lambda>k. Look k (\<lambda>pg.
          if page_type pg \<noteq> block_type_code BLOCK_TYPE_DATA then Return (-1, cur)
          else Return (0, rd64 pg (4 + 8 * (unat idx - NDIRECT)))))
      else Return (-1, cur))"

definition inode_set_block_p :: "Inode \<Rightarrow> u64 \<Rightarrow> u64 \<Rightarrow> (int \<times> Inode) prog" where
  "inode_set_block_p n idx phys =
     (if unat idx < NDIRECT then
        Return (0, n\<lparr>direct_blocks := (direct_blocks n)[unat idx := phys]\<rparr>)
      else if unat idx \<le> PTRS_PER_BLOCK then
        if indirect_block n = 0 then call alloc_page_p (\<lambda>p.
          let n1 = n\<lparr>indirect_block := p\<rparr> in
          if p = 0 then Return (-1, n1)
          else Fetch (i_number n1) p (\<lambda>k. Look k (\<lambda>pg.
            let pg = set_page_type pg BLOCK_TYPE_DATA in
            Put k (wr64 pg (4 + 8 * (unat idx - NDIRECT)) phys) (Return (0, n1)))))
        else Return (-1, n)
      else Return (-1, n))"

lemma inode_get_block_run [run_simps]:
  "direct (inode_get_block_p n idx cur) d = same_disk d (inode_get_block d n idx cur)"
  by (auto simp: inode_get_block_p_def inode_get_block_def run_simps run_bind intro!: Option.bind_cong)

lemma inode_set_block_run [run_simps]:
  "direct (inode_set_block_p n idx phys) d = map_option last3 (inode_set_block d n idx phys)"
  by (auto simp: inode_set_block_p_def inode_set_block_def run_simps run_bind intro!: Option.bind_cong split: prod.split)

lemma inode_block_owned [owned]:
  "owns no_pointer (inode_get_block_p n idx cur) F" "owns no_pointer (inode_set_block_p n idx phys) F"
  by (auto simp: inode_get_block_p_def inode_set_block_p_def Let_def intro!: owned)

end
