(* ===== verification/Dir_Programs.thy ===== *)
theory Dir_Programs
  imports Balance_Programs Inode_Programs Directory
begin

text \<open>
  The path search of \<open>hash.c\<close> and the directories of \<open>directory.c\<close> as programs, with the
  structure of \<open>Hash\<close> and \<open>Directory\<close>.
\<close>

subsection \<open>Searching a path\<close>

definition search_step_p :: "u8 list \<Rightarrow> BTreeNode \<Rightarrow> u8 list \<Rightarrow> u8 list \<Rightarrow> (InodeBtreePair + BTreeNode \<times> u8 list) prog" where
  "search_step_p path node cp token = call (btree_search_p (block_number node) (path_hash token)) (\<lambda>node_block.
     if node_block = 0 then Return (Inl no_pair)
     else need (append_name cp token) (\<lambda>cp'.
       call (node_reread_p node_block node) (\<lambda>node1.
       call
         (if node_type node1 = FILE_TYPE_DIRECTORY
          then call (btree_node_read_p (val node1)) (\<lambda>(rv, no).
            Return (rv, case no of None \<Rightarrow> node1 | Some n \<Rightarrow> n))
          else Return (0, node1)) (\<lambda>(rv, node2).
       if rv \<noteq> 0 then Return (Inl no_pair)
       else if path = cp' then
         Return (Inl \<lparr>pair_inode = val node2,
           pair_btree = (if node_type node2 = FILE_TYPE_DIRECTORY then block_number node2 else 0)\<rparr>)
       else Return (Inr (node2, cp'))))))"

fun search_loop_p :: "u8 list \<Rightarrow> nat list \<Rightarrow> BTreeNode \<Rightarrow> u8 list \<Rightarrow> InodeBtreePair prog" where
  "search_loop_p path [] node cp = Return no_pair"
| "search_loop_p path (i # is) node cp = need (split path i) (\<lambda>token.
     call (search_step_p path node cp token) (\<lambda>r.
     case r of Inl pair \<Rightarrow> Return pair | Inr (node', cp') \<Rightarrow> search_loop_p path is node' cp'))"

definition item_search_p :: "u8 list \<Rightarrow> InodeBtreePair prog" where
  "item_search_p path = call superblock_read_p (\<lambda>(_, sbo). need sbo (\<lambda>sb.
     call (node_get_p (btree_root sb)) (\<lambda>node.
     if path = [slash] then Return \<lparr>pair_inode = val node, pair_btree = block_number node\<rparr>
     else search_loop_p path [1..<Suc (count_l path)] node [])))"

lemma search_step_run [run_simps]:
  "direct (search_step_p path node cp token) d = same_disk d (search_step d path node cp token)"
  by (auto simp: search_step_p_def search_step_def run_simps run_bind intro!: Option.bind_cong split: prod.split)

lemma search_loop_run [run_simps]:
  "direct (search_loop_p path is node cp) d = same_disk d (search_loop d path is node cp)"
  by (induction "is" arbitrary: node cp)
    (auto simp: run_simps run_bind intro!: Option.bind_cong split: sum.split prod.split)

lemma item_search_run [run_simps]: "direct (item_search_p path) d = same_disk d (item_search d path)"
  by (auto simp: item_search_p_def item_search_def run_simps run_bind simp del: upt_Suc
      intro!: Option.bind_cong split: prod.split)

lemma search_loop_owned [owned]: "owns no_pointer (search_loop_p path is node cp) F"
  by (induction "is" arbitrary: node cp)
    (auto simp: search_step_p_def Let_def intro!: owned split: sum.split prod.split)

lemma item_search_owned [owned]: "owns no_pointer (item_search_p path) F"
  by (auto simp: item_search_p_def intro!: owned simp del: upt_Suc)

subsection \<open>Adding an entry\<close>

definition add_to_tree_p :: "InodeBtreePair \<Rightarrow> u8 list \<Rightarrow> u64 \<Rightarrow> u32 \<Rightarrow> DirEntry \<Rightarrow> DirEntry prog" where
  "add_to_tree_p pair name target type new_file =
     (if type = FILE_TYPE_DIRECTORY then
        call (btree_node_create_p False) (\<lambda>(rootp, page). need rootp (\<lambda>k.
        load_node k (\<lambda>n. save_node k (n\<lparr>val := target, node_type := FILE_TYPE_DIRECTORY\<rparr>) (
        load_node k (\<lambda>n. call (btree_node_write_p n) (\<lambda>_.
        call (btree_insert_p (pair_btree pair) (path_hash name) page type) (\<lambda>_.
        Return (new_file\<lparr>entry_btree := page\<rparr>))))))))
      else call (btree_insert_p (pair_btree pair) (path_hash name) target type) (\<lambda>_. Return new_file))"

definition add_commit_p ::
    "InodeBtreePair \<Rightarrow> Inode \<Rightarrow> u8 list \<Rightarrow> u64 \<Rightarrow> u32 \<Rightarrow> DirEntry \<Rightarrow> u64 \<Rightarrow> nat \<Rightarrow> nat \<Rightarrow> u16 \<Rightarrow> int prog" where
  "add_commit_p pair node name target type new_file block k a number_of_entries =
     call (add_to_tree_p pair name target type new_file) (\<lambda>e.
     Look k (\<lambda>pg. Put k (entry_to_page e pg a) (Commit k 0 block (
     call (inode_get_block_p node 0 block) (\<lambda>(_, block0).
     Fetch (pair_inode pair) block0 (\<lambda>k0.
     Look k0 (\<lambda>pg0. Put k0 (wr16 pg0 4 (number_of_entries + 1)) (Commit k0 0 block0 (Return 0)))))))))"

definition add_block_p :: "InodeBtreePair \<Rightarrow> Inode \<Rightarrow> nat \<Rightarrow> (Inode \<times> u64 \<times> nat) option prog" where
  "add_block_p pair node i = call alloc_page_p (\<lambda>block.
     if block = 0 then Return None
     else call (inode_set_block_p node (of_nat i) block) (\<lambda>(_, node1).
       Fetch (pair_inode pair) block (\<lambda>k. Look k (\<lambda>pg. Put k (set_page_type pg BLOCK_TYPE_DATA) (
       call (inode_write_p node1) (\<lambda>_. Return (Some (node1, block, k))))))))"

text \<open>
  The block pointer is the one of the new block, or that of \<open>get_block\<close> for a block the
  directory has; the second part of the result is what \<open>db\<close> is afterwards.
\<close>

fun add_loop_p ::
    "InodeBtreePair \<Rightarrow> u8 list \<Rightarrow> u64 \<Rightarrow> u32 \<Rightarrow> DirEntry \<Rightarrow> nat list \<Rightarrow> Inode \<Rightarrow>
     u64 \<Rightarrow> nat \<Rightarrow> u16 \<Rightarrow> u16 \<Rightarrow> int prog" where
  "add_loop_p pair name target type new_file [] node block db number_of_entries count = Return (-1)"
| "add_loop_p pair name target type new_file (i # is) node block db number_of_entries count =
     call (inode_get_block_p node (of_nat i) block) (\<lambda>(_, block1).
     call
       (if block1 = 0 then call (add_block_p pair node i) (\<lambda>r. Return (case r of
          None \<Rightarrow> None | Some (node1, block2, k) \<Rightarrow> Some (node1, block2, k, k)))
        else Fetch (pair_inode pair) block1 (\<lambda>k. Return (Some (node, block1, k, db)))) (\<lambda>r.
     case r of
       None \<Rightarrow> Return (-1)
     | Some (node1, block2, k, db1) \<Rightarrow> Look k (\<lambda>pg.
         if page_type pg \<noteq> block_type_code BLOCK_TYPE_DATA then Return (-1)
         else
           let db2 = (if i = 0 then k else db1);
               number = (if i = 0 then entry_count pg else number_of_entries)
           in Look db2 (\<lambda>head. case add_slot pg (i = 0) (entry_count head) count
                [0..<(USABLE_BLOCK_SIZE - sizeof_DirectoryBlock) div sizeof_DirEntry] of
                (Some j, _) \<Rightarrow>
                  add_commit_p pair node1 name target type new_file block2 k (entry_at (i = 0) j) number
              | (None, count1) \<Rightarrow>
                  add_loop_p pair name target type new_file is node1 block2 db2 number count1))))"

definition directory_add_entry_p :: "u8 list \<Rightarrow> u8 list \<Rightarrow> u64 \<Rightarrow> u32 \<Rightarrow> DirEntry \<Rightarrow> int prog" where
  "directory_add_entry_p path name target_inode type junk = call (item_search_p path) (\<lambda>pair.
     if NAME_MAX \<le> length name then Undefined
     else
       let new_file = junk\<lparr>entry_inode := target_inode,
         entry_name := name @ 0 # drop (Suc (length name)) (entry_name junk), entry_active := True\<rparr> in
       if pair_inode pair \<noteq> 0 \<or> path = [slash] then
         call (inode_read_p (pair_inode pair)) (\<lambda>(_, no).
         let node = (case no of None \<Rightarrow> zero_inode | Some n \<Rightarrow> n) in
         add_loop_p pair name target_inode type new_file [0..<dir_blocks] node 0 0 0 0)
       else Return (-1))"

lemma add_to_tree_run [run_simps]:
  "direct (add_to_tree_p pair name target type new_file) d = add_to_tree d pair name target type new_file"
  by (auto simp: add_to_tree_p_def add_to_tree_def run_simps run_bind intro!: Option.bind_cong split: prod.split)

lemma add_commit_run [run_simps]:
  "direct (add_commit_p pair node name target type new_file block k a number) d
    = add_commit d pair node name target type new_file block k a number"
  by (auto simp: add_commit_p_def add_commit_def set_entry_count_def run_simps run_bind
      intro!: Option.bind_cong split: prod.split)

lemma add_block_run [run_simps]: "direct (add_block_p pair node i) d = add_block d pair node i"
  by (auto simp: add_block_p_def add_block_def run_simps run_bind intro!: Option.bind_cong split: prod.split)

text \<open>Getting the new block once more gives the same pointer.\<close>

lemma add_block_pointer:
  assumes "add_block d pair node i = Some (Some (node1, block, k), d')"
  shows "get_block_direct d' n block = Some k"
proof -
  have "total_blocks d' = total_blocks d"
    by (rule direct_total [of "add_block_p pair node i"]) (simp add: run_simps assms)
  moreover obtain d1 d2 n1 x where a: "alloc_page d = Some (block, d1)" "inode_set_block d1 node (of_nat i) block = Some (x, n1, d2)"
    "get_block_direct d2 (pair_inode pair) block = Some k"
    using assms by (auto simp: add_block_def bind_Some_iff split: if_splits)
  have "total_blocks d1 = total_blocks d"
    by (rule direct_total [of alloc_page_p]) (simp add: run_simps a(1))
  moreover have "total_blocks d2 = total_blocks d1"
    by (rule direct_total [of "inode_set_block_p node (of_nat i) block"]) (simp add: run_simps a(2))
  ultimately have "total_blocks d' = total_blocks d2" by simp
  then show ?thesis
    using a(3) get_block_total by metis
qed

lemma add_loop_run [run_simps]:
  "direct (add_loop_p pair name target type new_file is node block db number count) d
    = add_loop pair name target type new_file is d node block db number count"
proof (induction "is" arbitrary: d node block db number count)
  case (Cons i "is")
  show ?case
    unfolding add_loop_p.simps add_loop.simps
    by (auto simp: run_simps run_bind Cons add_block_pointer simp del: upt_Suc
      intro!: Option.bind_cong split: prod.split option.split)
qed simp

lemma directory_add_entry_run [run_simps]:
  "direct (directory_add_entry_p path name target type junk) d = directory_add_entry d path name target type junk"
  by (auto simp: directory_add_entry_p_def directory_add_entry_def run_simps run_bind intro!: Option.bind_cong
      simp del: upt_Suc split: prod.split)

lemma add_to_tree_owned [owned]: "owns no_pointer (add_to_tree_p pair name target type new_file) F"
  by (auto simp: add_to_tree_p_def intro!: owned)

lemma add_commit_owned [owned]:
  "k \<in> F \<Longrightarrow> k = unat block \<Longrightarrow> owns no_pointer (add_commit_p pair node name target type new_file block k a number) F"
  by (auto simp: add_commit_p_def intro!: owned)

text \<open>A new block comes with its pointer.\<close>

lemma add_block_owned:
  assumes "\<And>node1 block. owns R (g (Some (node1, block, unat block))) (insert (unat block) F)" "owns R (g None) F"
  shows "owns R (call (add_block_p pair node i) g) F"
  using assms by (auto simp: add_block_p_def call_simps intro!: owned split: prod.split)

text \<open>The pointer to the count is set in the first block.\<close>

lemma add_loop_owned:
  "is = [] \<or> hd is = 0 \<or> db \<in> F \<Longrightarrow>
   owns no_pointer (add_loop_p pair name target type new_file is node block db number count) F"
proof (induction "is" arbitrary: node block db number count F)
  case (Cons i "is")
  let ?rest = "\<lambda>r. case r of
       None \<Rightarrow> Return (-1)
     | Some (node1, block2, k, db1) \<Rightarrow> Look k (\<lambda>pg.
         if page_type pg \<noteq> block_type_code BLOCK_TYPE_DATA then Return (-1)
         else
           let db2 = (if i = 0 then k else db1);
               number = (if i = 0 then entry_count pg else number)
           in Look db2 (\<lambda>head. case add_slot pg (i = 0) (entry_count head) count
                [0..<(USABLE_BLOCK_SIZE - sizeof_DirectoryBlock) div sizeof_DirEntry] of
                (Some j, _) \<Rightarrow>
                  add_commit_p pair node1 name target type new_file block2 k (entry_at (i = 0) j) number
              | (None, count1) \<Rightarrow>
                  add_loop_p pair name target type new_file is node1 block2 db2 number count1))"
  have rest: "owns no_pointer (?rest (Some (node1, block2, unat block2, db1))) F'"
    if "unat block2 \<in> F'" "i = 0 \<or> db1 \<in> F'" for node1 block2 db1 F'
    using that by (auto simp: Let_def simp del: upt_Suc intro!: owned Cons.IH split: prod.split option.split)
  have db: "i = 0 \<or> db \<in> F"
    using Cons.prems by simp
  have step: "owns no_pointer (call
       (if block1 = 0 then call (add_block_p pair node i) (\<lambda>r. Return (case r of
          None \<Rightarrow> None | Some (node1, block2, k) \<Rightarrow> Some (node1, block2, k, k)))
        else Fetch (pair_inode pair) block1 (\<lambda>k. Return (Some (node, block1, k, db)))) ?rest) F" for block1
  proof (cases "block1 = 0")
    case True
    have "owns no_pointer (call (add_block_p pair node i) (\<lambda>r. ?rest (case r of
        None \<Rightarrow> None | Some (node1, block2, k) \<Rightarrow> Some (node1, block2, k, k)))) F"
      by (rule add_block_owned) (unfold option.case prod.case, rule rest [unfolded option.case prod.case], simp_all)
    then show ?thesis
      using True by (simp add: call_call)
  next
    case False
    have "owns no_pointer (?rest (Some (node, block1, unat block1, db))) (insert (unat block1) F)"
      using db by (intro rest) auto
    then show ?thesis
      using False by simp
  qed
  show ?case
    unfolding add_loop_p.simps
    apply (rule owns_call_plain [OF inode_block_owned(1)])
    subgoal for x by (cases x) (simp only: prod.case step)
    done
qed simp

lemma directory_add_entry_owned [owned]: "owns no_pointer (directory_add_entry_p path name target type junk) F"
proof -
  have "hd [0..<dir_blocks] = 0"
    by (simp add: dir_blocks_def)
  then show ?thesis
    by (auto simp: directory_add_entry_p_def Let_def simp del: upt_Suc hd_upt intro!: owned add_loop_owned)
qed

subsection \<open>Removing an entry\<close>

definition remove_commit_p ::
    "InodeBtreePair \<Rightarrow> Inode \<Rightarrow> Inode \<Rightarrow> u8 list \<Rightarrow> u64 \<Rightarrow> nat \<Rightarrow> nat \<Rightarrow> nat \<Rightarrow> u16 \<Rightarrow> int \<Rightarrow>
     (int + Inode \<times> u64 \<times> nat) prog" where
  "remove_commit_p pair dir_node file_node name block k a db number_of_entries rv =
     Look k (\<lambda>pg. Put k (wr_bool pg (a + 271) False) (
     Look db (\<lambda>head. Put db (wr16 head 4 (entry_count head - 1)) (
     Look k (\<lambda>pg. let inum = rd64 pg a in
     call (inode_read_p inum) (\<lambda>(_, fo).
     let file = (case fo of None \<Rightarrow> file_node | Some n \<Rightarrow> n) in
     call
       (if reference_count file = 1 then call (inode_free_p inum) (\<lambda>frv.
          if frv \<noteq> 0 then Return True
          else call (btree_delete_p (pair_btree pair) (path_hash name)) (\<lambda>_. Return False))
        else Return False) (\<lambda>failed.
     if failed then Return (Inl rv)
     else Commit k 0 block (
       call (inode_get_block_p dir_node 0 block) (\<lambda>(_, block0).
       Fetch (pair_inode pair) block0 (\<lambda>k0. Look k0 (\<lambda>head.
       Put k0 (wr16 head 4 number_of_entries) (Commit k0 0 block0 (
       Return (Inr (file, block0, k0)))))))))))))))"

fun remove_loop_p ::
    "InodeBtreePair \<Rightarrow> u8 list \<Rightarrow> nat list \<Rightarrow> Inode \<Rightarrow> Inode \<Rightarrow>
     u64 \<Rightarrow> nat \<Rightarrow> u16 \<Rightarrow> u16 \<Rightarrow> int \<Rightarrow> int prog" where
  "remove_loop_p pair name [] dir_node file_node block db number_of_entries count rv = Return rv"
| "remove_loop_p pair name (i # is) dir_node file_node block db number_of_entries count rv =
     call (inode_get_block_p dir_node (of_nat i) block) (\<lambda>(_, block1).
     if block1 = 0 then Return rv
     else Fetch (pair_inode pair) block1 (\<lambda>k. Look k (\<lambda>pg.
       if page_type pg \<noteq> block_type_code BLOCK_TYPE_DATA then Return rv
       else
         let fst_blk = (count = 0);
             db1 = (if fst_blk then k else db);
             number = (if fst_blk then entry_count pg else number_of_entries)
         in Look db1 (\<lambda>head. if entry_count head = count then Return rv
           else need (remove_slot pg fst_blk name count [0..<USABLE_BLOCK_SIZE div sizeof_DirEntry]) (\<lambda>(slot, count1).
             case slot of
               None \<Rightarrow> remove_loop_p pair name is dir_node file_node block1 db1 number count1 rv
             | Some j \<Rightarrow>
                 call (remove_commit_p pair dir_node file_node name block1 k (entry_at fst_blk j) db1 number rv) (\<lambda>r.
                 case r of
                   Inl code \<Rightarrow> Return code
                 | Inr (file, block2, db2) \<Rightarrow> remove_loop_p pair name is dir_node file block2 db2 number count1 0))))))"

definition directory_remove_entry_p :: "u8 list \<Rightarrow> u8 list \<Rightarrow> int prog" where
  "directory_remove_entry_p path name = call (item_search_p path) (\<lambda>pair.
     if pair_inode pair \<noteq> 0 \<or> path = [slash] then
       call (inode_read_p (pair_inode pair)) (\<lambda>(_, no).
       let dir_node = (case no of None \<Rightarrow> zero_inode | Some n \<Rightarrow> n) in
       remove_loop_p pair name [0..<dir_blocks] dir_node zero_inode 0 0 0 0 (-1))
     else Return (-1))"

lemma remove_commit_run [run_simps]:
  "direct (remove_commit_p pair dir_node file_node name block k a db number rv) d
    = remove_commit d pair dir_node file_node name block k a db number rv"
  by (auto simp: remove_commit_p_def remove_commit_def set_entry_count_def run_simps run_bind
      intro!: Option.bind_cong split: prod.split)

lemma remove_loop_run [run_simps]:
  "direct (remove_loop_p pair name is dir_node file_node block db number count rv) d
    = remove_loop pair name is d dir_node file_node block db number count rv"
proof (induction "is" arbitrary: d file_node block db number count rv)
  case (Cons i "is")
  show ?case
    unfolding remove_loop_p.simps remove_loop.simps
    by (auto simp: run_simps run_bind Cons simp del: upt_Suc
      intro!: Option.bind_cong split: prod.split option.split sum.split)
qed simp

lemma directory_remove_entry_run [run_simps]:
  "direct (directory_remove_entry_p path name) d = directory_remove_entry d path name"
  by (auto simp: directory_remove_entry_p_def directory_remove_entry_def run_simps run_bind intro!: Option.bind_cong
      simp del: upt_Suc split: prod.split)

lemma remove_commit_owned:
  assumes "k \<in> F" "k = unat block" "db \<in> F"
    and "\<And>code. owns R (g (Inl code)) F" "\<And>file block0. owns R (g (Inr (file, block0, unat block0))) (insert (unat block0) F)"
  shows "owns R (call (remove_commit_p pair dir_node file_node name block k a db number rv) g) F"
  using assms by (auto simp: remove_commit_p_def call_simps Let_def intro!: owned split: prod.split)

text \<open>The pointer to the count is set while no entry has been counted.\<close>

lemma remove_loop_owned:
  "count = 0 \<or> db \<in> F \<Longrightarrow>
   owns no_pointer (remove_loop_p pair name is dir_node file_node block db number count rv) F"
proof (induction "is" arbitrary: file_node block db number count rv F)
  case (Cons i "is")
  have commit: "owns no_pointer (call (remove_commit_p pair dir_node file_node name block1 (unat block1) a db1 number rv) (\<lambda>r.
      case r of Inl code \<Rightarrow> Return code
      | Inr (file, block2, db2) \<Rightarrow> remove_loop_p pair name is dir_node file block2 db2 number count1 0)) F'"
    if "unat block1 \<in> F'" "db1 \<in> F'" for block1 a db1 number rv F' count1
    by (rule remove_commit_owned) (use that in \<open>auto intro!: Cons.IH\<close>)
  have found: "owns no_pointer (case slot of
      None \<Rightarrow> remove_loop_p pair name is dir_node file_node block1 db1 number count1 rv
    | Some j \<Rightarrow>
        call (remove_commit_p pair dir_node file_node name block1 (unat block1) (entry_at fst_blk j) db1 number rv) (\<lambda>r.
        case r of
          Inl code \<Rightarrow> Return code
        | Inr (file, block2, db2) \<Rightarrow> remove_loop_p pair name is dir_node file block2 db2 number count1 0)) F'"
    if "unat block1 \<in> F'" "db1 \<in> F'" for slot fst_blk block1 db1 number F' count1
    by (cases slot) (use that in \<open>auto intro!: commit Cons.IH\<close>)
  show ?case
    unfolding remove_loop_p.simps Let_def
    apply (rule owns_call_plain [OF inode_block_owned(1)])
    subgoal for x
      by (cases x) (use Cons.prems in \<open>auto simp del: upt_Suc intro!: owns_need found\<close>)
    done
qed simp

lemma directory_remove_entry_owned [owned]: "owns no_pointer (directory_remove_entry_p path name) F"
  by (auto simp: directory_remove_entry_p_def Let_def simp del: upt_Suc intro!: owned remove_loop_owned)

subsection \<open>Listing a directory\<close>

fun list_loop_p ::
    "InodeBtreePair \<Rightarrow> Inode \<Rightarrow> nat list \<Rightarrow> u64 \<Rightarrow> nat \<Rightarrow> DirEntry list \<Rightarrow> DirEntry list prog" where
  "list_loop_p pair node [] block db found = Return found"
| "list_loop_p pair node (i # is) block db found =
     call (inode_get_block_p node (of_nat i) block) (\<lambda>(_, block1).
     if block1 = 0 then Return found
     else Fetch (pair_inode pair) block1 (\<lambda>k. Look k (\<lambda>pg.
       if page_type pg \<noteq> block_type_code BLOCK_TYPE_DATA then Return found
       else
         let fst_blk = (found = []);
             db1 = (if fst_blk then k else db)
         in Look db1 (\<lambda>head. let n_entries = unat (entry_count head) in
            if n_entries = length found then Return found
            else list_loop_p pair node is block1 db1
              (list_slots pg fst_blk n_entries [0..<USABLE_BLOCK_SIZE div sizeof_DirEntry] found)))))"

definition directory_list_p :: "u8 list \<Rightarrow> DirEntry list prog" where
  "directory_list_p path = call (item_search_p path) (\<lambda>pair.
     if pair_inode pair \<noteq> 0 \<or> path = [slash] then
       call (inode_read_p (pair_inode pair)) (\<lambda>(_, no).
       let node = (case no of None \<Rightarrow> zero_inode | Some n \<Rightarrow> n) in
       list_loop_p pair node [0..<dir_blocks] 0 0 [])
     else Return [])"

lemma list_loop_run [run_simps]:
  "direct (list_loop_p pair node is block db found) d = same_disk d (list_loop pair d node is block db found)"
proof (induction "is" arbitrary: block db found)
  case (Cons i "is")
  show ?case
    unfolding list_loop_p.simps list_loop.simps
    by (auto simp: run_simps run_bind Cons simp del: upt_Suc intro!: Option.bind_cong split: prod.split)
qed simp

lemma directory_list_run [run_simps]: "direct (directory_list_p path) d = same_disk d (directory_list d path)"
  by (auto simp: directory_list_p_def directory_list_def run_simps run_bind intro!: Option.bind_cong
      simp del: upt_Suc split: prod.split)

lemma list_loop_owned: "found = [] \<or> db \<in> F \<Longrightarrow> owns no_pointer (list_loop_p pair node is block db found) F"
proof (induction "is" arbitrary: block db found F)
  case (Cons i "is")
  then show ?case
    unfolding list_loop_p.simps
    by (auto simp: Let_def simp del: upt_Suc intro!: owned)
qed simp

lemma directory_list_owned [owned]: "owns no_pointer (directory_list_p path) F"
  by (auto simp: directory_list_p_def Let_def simp del: upt_Suc intro!: owned list_loop_owned)

end
