(* ===== verification/Fuse_Programs.thy ===== *)
theory Fuse_Programs
  imports Dir_Programs Session
begin

text \<open>The handlers of \<open>fuse.c\<close> as programs, with the structure of \<open>Fuse\<close>.\<close>

subsection \<open>Attributes\<close>

definition nbtrfs_access_p :: "u8 list \<Rightarrow> int prog" where
  "nbtrfs_access_p path = call (item_search_p path) (\<lambda>pair.
     Return (if pair_inode pair \<noteq> 0 \<or> pair_btree pair \<noteq> 0 then 0 else - ENOENT))"

definition nbtrfs_getattr_p :: "u8 list \<Rightarrow> (int \<times> Stat option) prog" where
  "nbtrfs_getattr_p path = call (item_search_p path) (\<lambda>pair.
     if pair_inode pair \<noteq> 0 \<or> pair_btree pair \<noteq> 0 then
       call (inode_read_p (pair_inode pair)) (\<lambda>(_, no). need no (\<lambda>node.
       Return (0, Some (stat_of node (pair_inode pair)))))
     else Return (- ENOENT, None))"

definition getattr_asserted_p :: "u8 list \<Rightarrow> Stat prog" where
  "getattr_asserted_p path = call (nbtrfs_getattr_p path) (\<lambda>(rv, st).
     if rv = 0 then need st Return else Undefined)"

fun readdir_loop_p :: "u8 list \<Rightarrow> DirEntry list \<Rightarrow> (u8 list \<times> Stat) list prog" where
  "readdir_loop_p path [] = Return []"
| "readdir_loop_p path (e # es) =
     (if 0 \<notin> set (entry_name e) then Undefined
      else
        let name = c_string (entry_name e);
            absolute = take (PATH_MAX - 1) (if 0 < count_l path then path @ slash # name else path @ name)
        in call (getattr_asserted_p absolute) (\<lambda>st. call (readdir_loop_p path es) (\<lambda>rest.
           Return ((name, st) # rest))))"

definition nbtrfs_readdir_p :: "u8 list \<Rightarrow> (int \<times> (u8 list \<times> Stat) list) prog" where
  "nbtrfs_readdir_p path =
     (let l = count_l path in
      call (getattr_asserted_p path) (\<lambda>st.
      call
        (if 0 < l then need (parent_path path l) (\<lambda>parent. call (getattr_asserted_p parent) (\<lambda>st'.
           Return [([0x2E, 0x2E], st')]))
         else Return []) (\<lambda>up.
      call (directory_list_p path) (\<lambda>entries. call (readdir_loop_p path entries) (\<lambda>rest.
      Return (0, ([0x2E], st) # up @ rest))))))"

definition nbtrfs_chmod_p :: "u8 list \<Rightarrow> u32 \<Rightarrow> int prog" where
  "nbtrfs_chmod_p path mode = call (item_search_p path) (\<lambda>pair.
     call (inode_read_p (pair_inode pair)) (\<lambda>(rv, no).
     if rv \<noteq> 0 then Return rv
     else need no (\<lambda>node. inode_write_p (node\<lparr>i_mode := mode\<rparr>))))"

definition nbtrfs_utimens_p :: "u8 list \<Rightarrow> u64 \<times> u64 \<Rightarrow> u64 \<times> u64 \<Rightarrow> int prog" where
  "nbtrfs_utimens_p path ts0 ts1 = call (item_search_p path) (\<lambda>pair.
     call (inode_read_p (pair_inode pair)) (\<lambda>(rv, no).
     if rv \<noteq> 0 then Return rv
     else need no (\<lambda>node. inode_write_p (node\<lparr>i_access_time := fst ts0 * 1000000000 + snd ts0,
       i_modification_time := fst ts1 * 1000000000 + snd ts1\<rparr>))))"

lemma getattr_run [run_simps]:
  "direct (nbtrfs_access_p path) d = same_disk d (nbtrfs_access d path)"
  "direct (nbtrfs_getattr_p path) d = same_disk d (nbtrfs_getattr d path)"
  by (auto simp: nbtrfs_access_p_def nbtrfs_access_def nbtrfs_getattr_p_def nbtrfs_getattr_def run_simps run_bind
      intro!: Option.bind_cong split: prod.split)

lemma getattr_asserted_run [run_simps]:
  "direct (getattr_asserted_p path) d = same_disk d (getattr_asserted d path)"
  by (auto simp: getattr_asserted_p_def getattr_asserted_def run_simps run_bind intro!: Option.bind_cong
      split: prod.split)

lemma readdir_loop_run [run_simps]:
  "direct (readdir_loop_p path es) d = same_disk d (readdir_loop d path es)"
  by (induction es) (auto simp: run_simps run_bind intro!: Option.bind_cong)

lemma readdir_run [run_simps]: "direct (nbtrfs_readdir_p path) d = same_disk d (nbtrfs_readdir d path)"
  by (auto simp: nbtrfs_readdir_p_def nbtrfs_readdir_def run_simps run_bind intro!: Option.bind_cong)

lemma attributes_run [run_simps]:
  "direct (nbtrfs_chmod_p path mode) d = nbtrfs_chmod d path mode"
  "direct (nbtrfs_utimens_p path ts0 ts1) d = nbtrfs_utimens d path ts0 ts1"
  by (auto simp: nbtrfs_chmod_p_def nbtrfs_chmod_def nbtrfs_utimens_p_def nbtrfs_utimens_def run_simps run_bind
      intro!: Option.bind_cong split: prod.split)

lemma getattr_owned [owned]:
  "owns no_pointer (nbtrfs_access_p path) F" "owns no_pointer (nbtrfs_getattr_p path) F"
  "owns no_pointer (getattr_asserted_p path) F" "owns no_pointer (nbtrfs_chmod_p path mode) F"
  "owns no_pointer (nbtrfs_utimens_p path ts0 ts1) F"
  by (auto simp: nbtrfs_access_p_def nbtrfs_getattr_p_def getattr_asserted_p_def nbtrfs_chmod_p_def
      nbtrfs_utimens_p_def intro!: owned)

lemma readdir_loop_owned [owned]: "owns no_pointer (readdir_loop_p path es) F"
  by (induction es) (auto simp: Let_def intro!: owned)

lemma readdir_owned [owned]: "owns no_pointer (nbtrfs_readdir_p path) F"
  by (auto simp: nbtrfs_readdir_p_def Let_def intro!: owned)

subsection \<open>Names\<close>

definition nbtrfs_mknod_p :: "Env \<Rightarrow> u8 list \<Rightarrow> u32 \<Rightarrow> int prog" where
  "nbtrfs_mknod_p E path mode = need (parent_path path (count_l path)) (\<lambda>parent.
     let name = get_name path in
     call (inode_allocate_p mode (env_uid E) (env_gid E)) (\<lambda>inum.
     if inum = -1 then Return (-1)
     else call (inode_read_p (u64_of_int inum)) (\<lambda>(rv, no).
       if rv \<noteq> 0 then Return rv
       else need no (\<lambda>node0. let node = node0\<lparr>i_creation_time := env_time E\<rparr> in
         call (inode_write_p node) (\<lambda>rv'.
         if rv' \<noteq> 0 then Return rv'
         else directory_add_entry_p parent name (i_number node) (mode AND S_IFMT) (env_junk E))))))"

definition nbtrfs_create_p :: "Env \<Rightarrow> u8 list \<Rightarrow> u32 \<Rightarrow> int prog" where
  "nbtrfs_create_p E path mode = nbtrfs_mknod_p E path (mode OR S_IFREG)"

definition nbtrfs_mkdir_p :: "Env \<Rightarrow> u8 list \<Rightarrow> u32 \<Rightarrow> int prog" where
  "nbtrfs_mkdir_p E path mode = nbtrfs_mknod_p E path (mode OR S_IFDIR)"

definition nbtrfs_unlink_p :: "u8 list \<Rightarrow> int prog" where
  "nbtrfs_unlink_p path = need (parent_path path (count_l path)) (\<lambda>parent.
     directory_remove_entry_p parent (get_name path))"

definition nbtrfs_link_p :: "Env \<Rightarrow> u8 list \<Rightarrow> u8 list \<Rightarrow> int prog" where
  "nbtrfs_link_p E from_path to_path = call (item_search_p from_path) (\<lambda>from_pair.
     call (inode_read_p (pair_inode from_pair)) (\<lambda>(_, no).
     need (parent_path to_path (count_l to_path)) (\<lambda>to_parent.
     let to_name = get_name to_path in
     need no (\<lambda>from_inode.
     call (directory_add_entry_p to_parent to_name (pair_inode from_pair)
       (i_mode from_inode AND S_IFMT) (env_junk E)) (\<lambda>rv.
     if rv = 0 then
       call (inode_write_p (from_inode\<lparr>reference_count := reference_count from_inode + 1\<rparr>)) (\<lambda>_. Return rv)
     else Return rv)))))"

definition nbtrfs_rmdir_p :: "u8 list \<Rightarrow> int prog" where
  "nbtrfs_rmdir_p path = nbtrfs_unlink_p path"

definition nbtrfs_rename_p :: "Env \<Rightarrow> u8 list \<Rightarrow> u8 list \<Rightarrow> int prog" where
  "nbtrfs_rename_p E from_path to_path = call (nbtrfs_link_p E from_path to_path) (\<lambda>rv.
     if rv \<noteq> 0 then Return rv else nbtrfs_unlink_p from_path)"

lemma mknod_run [run_simps]: "direct (nbtrfs_mknod_p E path mode) d = nbtrfs_mknod E d path mode"
  by (auto simp: nbtrfs_mknod_p_def nbtrfs_mknod_def run_simps run_bind intro!: Option.bind_cong split: prod.split)

lemma unlink_run [run_simps]: "direct (nbtrfs_unlink_p path) d = nbtrfs_unlink d path"
  by (auto simp: nbtrfs_unlink_p_def nbtrfs_unlink_def run_simps run_bind)

lemma link_run [run_simps]: "direct (nbtrfs_link_p E from_path to_path) d = nbtrfs_link E d from_path to_path"
  by (auto simp: nbtrfs_link_p_def nbtrfs_link_def run_simps run_bind intro!: Option.bind_cong split: prod.split)

lemma names_run [run_simps]:
  "direct (nbtrfs_create_p E path mode) d = nbtrfs_create E d path mode"
  "direct (nbtrfs_mkdir_p E path mode) d = nbtrfs_mkdir E d path mode"
  "direct (nbtrfs_rmdir_p path) d = nbtrfs_rmdir d path"
  "direct (nbtrfs_rename_p E from_path to_path) d = nbtrfs_rename E d from_path to_path"
  by (auto simp: nbtrfs_create_p_def nbtrfs_create_def nbtrfs_mkdir_p_def nbtrfs_mkdir_def nbtrfs_rmdir_p_def
      nbtrfs_rmdir_def nbtrfs_rename_p_def nbtrfs_rename_def run_simps run_bind intro!: Option.bind_cong)

lemma link_owned [owned]:
  "owns no_pointer (nbtrfs_mknod_p E path mode) F" "owns no_pointer (nbtrfs_unlink_p path) F"
  "owns no_pointer (nbtrfs_link_p E from_path to_path) F"
  by (auto simp: nbtrfs_mknod_p_def nbtrfs_unlink_p_def nbtrfs_link_p_def Let_def intro!: owned)

lemma names_owned [owned]:
  "owns no_pointer (nbtrfs_create_p E path mode) F" "owns no_pointer (nbtrfs_mkdir_p E path mode) F"
  "owns no_pointer (nbtrfs_rmdir_p path) F" "owns no_pointer (nbtrfs_rename_p E from_path to_path) F"
  by (auto simp: nbtrfs_create_p_def nbtrfs_mkdir_p_def nbtrfs_rmdir_p_def nbtrfs_rename_p_def intro!: owned)

subsection \<open>Data\<close>

definition nbtrfs_truncate_p :: "u8 list \<Rightarrow> nat \<Rightarrow> int prog" where
  "nbtrfs_truncate_p path len = Return 0"

definition nbtrfs_open_p :: "u8 list \<Rightarrow> int prog" where
  "nbtrfs_open_p path = Return 0"

definition nbtrfs_ioctl_p :: "u8 list \<Rightarrow> int \<Rightarrow> int prog" where
  "nbtrfs_ioctl_p path cmd = Return (-1)"

function read_loop_p :: "Inode \<Rightarrow> int \<Rightarrow> nat \<Rightarrow> u8 list \<Rightarrow> (int \<times> u8 list) prog" where
  "read_loop_p node remaining off buf =
     (if remaining \<le> 0 then Return (int (length buf), buf)
      else call (inode_get_block_p node (page_index off) 0) (\<lambda>(rv, pnum).
        if rv \<noteq> 0 then Return (rv, buf)
        else if pnum = 0 then Return (int (length buf), buf)
        else Fetch (i_number node) pnum (\<lambda>k. Look k (\<lambda>pg.
          let n = chunk off remaining;
              bytes = rd_bytes pg (4 + off mod USABLE_BLOCK_SIZE) n
          in read_loop_p node (remaining - int n) (off + n) (buf @ bytes)))))"
  by auto
termination
  by (relation "measure (\<lambda>(_, remaining, _, _). nat remaining)") (use chunk_pos in auto)

declare read_loop_p.simps [simp del]

definition nbtrfs_read_p :: "u8 list \<Rightarrow> u64 \<Rightarrow> nat \<Rightarrow> (int \<times> u8 list) prog" where
  "nbtrfs_read_p path len offset = call (item_search_p path) (\<lambda>pair.
     if pair_inode pair = 0 \<and> pair_btree pair = 0 then Return (- ENOENT, [])
     else if pair_btree pair \<noteq> 0 then Return (- EISDIR, [])
     else call (inode_read_p (pair_inode pair)) (\<lambda>(rv, no).
       if rv \<noteq> 0 then Return (rv, [])
       else need no (\<lambda>node.
         let off = (of_nat offset :: u64) in
         if i_size node \<le> off then Return (0, [])
         else
           let len' = (if i_size node < off + len then i_size node - off else len)
           in if len' = 0 then Return (0, [])
              else read_loop_p node (int_of_u64 len') offset [])))"

definition write_block_for_p :: "Inode \<Rightarrow> nat \<Rightarrow> (u64 \<times> Inode) prog" where
  "write_block_for_p node off = call (inode_get_block_p node (page_index off) 0) (\<lambda>(_, pnum).
     if pnum \<noteq> 0 then Return (pnum, node)
     else call alloc_page_p (\<lambda>p.
       if p = 0 then Return (0, node)
       else Fetch (i_number node) p (\<lambda>k. Put k fresh_data_page (
         call (inode_set_block_p node (page_index off) p) (\<lambda>(_, node1).
         call (inode_write_p node1) (\<lambda>_. Return (p, node1)))))))"

function write_loop_p ::
    "Inode \<Rightarrow> int \<Rightarrow> nat \<Rightarrow> u8 list \<Rightarrow> int \<Rightarrow> (bool \<times> int \<times> Inode) prog" where
  "write_loop_p node remaining off buf written =
     (if remaining \<le> 0 then Return (True, written, node)
      else call (write_block_for_p node off) (\<lambda>(pnum, node1).
        if pnum = 0 then Return (False, written, node1)
        else Fetch (i_number node1) pnum (\<lambda>k. Look k (\<lambda>pg.
          let n = chunk off remaining in
          Put k (wr_bytes pg (4 + off mod USABLE_BLOCK_SIZE) (take n buf)) (
          Commit k (i_number node1) pnum (
          write_loop_p node1 (remaining - int n) (off + n) (drop n buf) (written + int n)))))))"
  by auto
termination
  by (relation "measure (\<lambda>(_, remaining, _, _, _). nat remaining)") (use chunk_pos in auto)

declare write_loop_p.simps [simp del]

definition nbtrfs_write_p :: "Env \<Rightarrow> u8 list \<Rightarrow> u8 list \<Rightarrow> nat \<Rightarrow> int prog" where
  "nbtrfs_write_p E path buf offset = call (item_search_p path) (\<lambda>pair0.
     if pair_btree pair0 \<noteq> 0 then Return (- EISDIR)
     else call
       (if pair_inode pair0 = 0 then call (nbtrfs_mknod_p E path (S_IFREG OR 0x1A4)) (\<lambda>_. item_search_p path)
        else Return pair0) (\<lambda>pair.
       call (inode_read_p (pair_inode pair)) (\<lambda>(rv, no).
       if rv \<noteq> 0 then Undefined
       else need no (\<lambda>node.
         call (write_loop_p node (int_of_u64 (of_nat (length buf))) offset buf 0) (\<lambda>(finished, written, node1).
         if \<not> finished then Return written
         else if i_size node1 < of_nat offset + u64_of_int written then
           call (inode_write_p (node1\<lparr>i_size := of_nat offset + u64_of_int written\<rparr>)) (\<lambda>_. Return written)
         else Return written)))))"

lemma read_loop_run [run_simps]:
  "direct (read_loop_p node remaining off buf) d = same_disk d (read_loop d node remaining off buf)"
proof (induction node remaining off buf rule: read_loop_p.induct)
  case (1 node remaining off buf)
  show ?case
    by (subst read_loop_p.simps, subst read_loop.simps)
      (auto simp: run_simps run_bind 1 intro!: Option.bind_cong split: prod.split)
qed

lemma read_run [run_simps]: "direct (nbtrfs_read_p path len offset) d = same_disk d (nbtrfs_read d path len offset)"
  by (auto simp: nbtrfs_read_p_def nbtrfs_read_def run_simps run_bind intro!: Option.bind_cong split: prod.split)

lemma write_block_for_run [run_simps]:
  "direct (write_block_for_p node off) d = map_option last3 (write_block_for d node off)"
  by (auto simp: write_block_for_p_def write_block_for_def run_simps run_bind intro!: Option.bind_cong
      split: prod.split)

lemma write_loop_run [run_simps]:
  "direct (write_loop_p node remaining off buf written) d = map_option last4 (write_loop d node remaining off buf written)"
proof (induction node remaining off buf written arbitrary: d rule: write_loop_p.induct)
  case (1 node remaining off buf written)
  show ?case
    by (subst write_loop_p.simps, subst write_loop.simps)
      (auto simp: run_simps run_bind 1 intro!: Option.bind_cong split: prod.split)
qed

lemma write_run [run_simps]: "direct (nbtrfs_write_p E path buf offset) d = nbtrfs_write E d path buf offset"
  by (auto simp: nbtrfs_write_p_def nbtrfs_write_def run_simps run_bind intro!: Option.bind_cong split: prod.split)

lemma read_loop_owned [owned]: "owns no_pointer (read_loop_p node remaining off buf) F"
proof (induction node remaining off buf arbitrary: F rule: read_loop_p.induct)
  case (1 node remaining off buf)
  show ?case
    by (subst read_loop_p.simps) (auto simp: Let_def intro!: owned 1)
qed

lemma write_block_for_owned [owned]: "owns no_pointer (write_block_for_p node off) F"
  by (auto simp: write_block_for_p_def intro!: owned)

lemma write_loop_owned [owned]: "owns no_pointer (write_loop_p node remaining off buf written) F"
proof (induction node remaining off buf written arbitrary: F rule: write_loop_p.induct)
  case (1 node remaining off buf written)
  show ?case
    by (subst write_loop_p.simps) (auto simp: Let_def intro!: owned 1)
qed

lemma data_owned [owned]:
  "owns no_pointer (nbtrfs_read_p path len offset) F" "owns no_pointer (nbtrfs_write_p E path buf offset) F"
  by (auto simp: nbtrfs_read_p_def nbtrfs_write_p_def Let_def intro!: owned)

subsection \<open>The table of handlers\<close>

definition with_status :: "int prog \<Rightarrow> fuse_reply prog" where
  "with_status p = call p (\<lambda>rv. Return (Status rv))"

fun nbtrfs_ops_p :: "Env \<Rightarrow> fuse_request \<Rightarrow> fuse_reply prog" where
  "nbtrfs_ops_p E (ACCESS path) = with_status (nbtrfs_access_p path)"
| "nbtrfs_ops_p E (GETATTR path) = call (nbtrfs_getattr_p path) (\<lambda>(rv, st). Return (Attributes rv st))"
| "nbtrfs_ops_p E (READDIR path) = call (nbtrfs_readdir_p path) (\<lambda>(rv, es). Return (Entries rv es))"
| "nbtrfs_ops_p E (MKNOD path mode) = with_status (nbtrfs_mknod_p E path mode)"
| "nbtrfs_ops_p E (CREATE path mode) = with_status (nbtrfs_create_p E path mode)"
| "nbtrfs_ops_p E (MKDIR path mode) = with_status (nbtrfs_mkdir_p E path mode)"
| "nbtrfs_ops_p E (LINK from_path to_path) = with_status (nbtrfs_link_p E from_path to_path)"
| "nbtrfs_ops_p E (UNLINK path) = with_status (nbtrfs_unlink_p path)"
| "nbtrfs_ops_p E (RMDIR path) = with_status (nbtrfs_rmdir_p path)"
| "nbtrfs_ops_p E (RENAME from_path to_path) = with_status (nbtrfs_rename_p E from_path to_path)"
| "nbtrfs_ops_p E (CHMOD path mode) = with_status (nbtrfs_chmod_p path mode)"
| "nbtrfs_ops_p E (TRUNCATE path len) = with_status (nbtrfs_truncate_p path len)"
| "nbtrfs_ops_p E (OPEN path) = with_status (nbtrfs_open_p path)"
| "nbtrfs_ops_p E (READ path len offset) = call (nbtrfs_read_p path len offset) (\<lambda>(rv, bs). Return (Data rv bs))"
| "nbtrfs_ops_p E (WRITE path buf offset) = with_status (nbtrfs_write_p E path buf offset)"
| "nbtrfs_ops_p E (UTIMENS path ts0 ts1) = with_status (nbtrfs_utimens_p path ts0 ts1)"
| "nbtrfs_ops_p E (IOCTL path cmd) = with_status (nbtrfs_ioctl_p path cmd)"

lemma reply_run:
  "Option.bind m (\<lambda>x. direct (Return (f x)) d) = map_option (\<lambda>x. (f x, d)) m"
  "Option.bind m2 (\<lambda>x. direct (case x of (a, b) \<Rightarrow> Return (h a b)) d) = map_option (\<lambda>(a, b). (h a b, d)) m2"
  by (cases m; simp) (cases m2; auto)

lemma with_status_run [simp]: "direct (with_status p) d = status (direct p d)"
  by (cases "direct p d") (auto simp: with_status_def status_def)

lemma status_same_disk [simp]: "status (same_disk d m) = map_option (\<lambda>rv. (Status rv, d)) m"
  by (cases m) (simp_all add: status_def)

lemma ops_run: "direct (nbtrfs_ops_p E r) d = nbtrfs_ops E r d"
proof (cases r)
  case (GETATTR path)
  then show ?thesis
    by (simp add: run_simps reply_run del: direct.simps)
next
  case (READDIR path)
  then show ?thesis
    by (simp add: run_simps reply_run del: direct.simps)
next
  case (READ path len offset)
  then show ?thesis
    by (simp add: run_simps reply_run del: direct.simps)
qed (simp_all add: run_simps nbtrfs_truncate_p_def nbtrfs_truncate_def nbtrfs_open_p_def nbtrfs_open_def
    nbtrfs_ioctl_p_def nbtrfs_ioctl_def)

lemma ops_owned: "owns no_pointer (nbtrfs_ops_p E r) F"
  by (cases r)
    (auto simp: with_status_def nbtrfs_truncate_p_def nbtrfs_open_p_def nbtrfs_ioctl_p_def intro!: owned)

end
