(* ===== verification/Cached_Session.thy ===== *)
theory Cached_Session
  imports Cached_Programs Fuse_Programs
begin

text \<open>
  The file system as \<open>nbtrfs\<close> runs it: the handlers over the block cache, from \<open>alloc_cache\<close> at
  mounting to \<open>nbtrfs_destroy\<close>.
\<close>

subsection \<open>Sessions\<close>

text \<open>Each request is served by one run, which starts without pointers.\<close>

fun cached_session ::
    "bool \<Rightarrow> (Env \<times> fuse_request) list \<Rightarrow> DiskInterface \<Rightarrow> cache \<Rightarrow> (fuse_reply list \<times> DiskInterface \<times> cache) option" where
  "cached_session z [] d c = Some ([], d, c)"
| "cached_session z ((E, r) # rs) d c = do {
     (reply, _, d, c) \<leftarrow> over_cache z (nbtrfs_ops_p E r) (\<lambda>_. None) d c;
     (replies, d, c) \<leftarrow> cached_session z rs d c;
     Some (reply # replies, d, c)
   }"

text \<open>The blocks whose changes are not sure to reach the disk after a session on the mapped image.\<close>

fun unsaved_session :: "(Env \<times> fuse_request) list \<Rightarrow> DiskInterface \<Rightarrow> nat set \<Rightarrow> nat set \<Rightarrow> nat set" where
  "unsaved_session [] d U D = U"
| "unsaved_session ((E, r) # rs) d U D =
     (case direct (nbtrfs_ops_p E r) d of
        None \<Rightarrow> U
      | Some (_, d1) \<Rightarrow> (case unsaved (nbtrfs_ops_p E r) d U D of (U1, D1) \<Rightarrow> unsaved_session rs d1 U1 D1))"

text \<open>Whether a session hands a data block to \<open>write_block\<close>.\<close>

fun session_writes_data :: "(Env \<times> fuse_request) list \<Rightarrow> DiskInterface \<Rightarrow> bool" where
  "session_writes_data [] d = False"
| "session_writes_data ((E, r) # rs) d =
     (writes_data (nbtrfs_ops_p E r) d \<or>
      (case direct (nbtrfs_ops_p E r) d of None \<Rightarrow> False | Some (_, d1) \<Rightarrow> session_writes_data rs d1))"

lemma pointers_ok_none: "pointers_ok d c (\<lambda>_. None)"
  by (simp add: pointers_ok_def)

lemma cached_session_direct:
  "session rs dd = Some (out, dd') \<Longrightarrow> same_run z dd d c U D \<Longrightarrow> z \<or> \<not> session_writes_data rs dd \<Longrightarrow>
   \<exists>c' D'. cached_session z rs d c = Some (out, d, c') \<and> same_run z dd' d c' (unsaved_session rs dd U D) D'"
proof (induction rs arbitrary: out dd c U D)
  case (Cons a rs)
  obtain E r where a: "a = (E, r)" by (cases a)
  obtain reply dd1 out1 where 1: "nbtrfs_ops E r dd = Some (reply, dd1)" "session rs dd1 = Some (out1, dd')"
    "out = reply # out1"
    using Cons.prems(1) by (auto simp: a bind_Some_iff)
  let ?p = "nbtrfs_ops_p E r"
  obtain U1 D1 where u: "unsaved ?p dd U D = (U1, D1)" by (cases "unsaved ?p dd U D")
  have run: "direct ?p dd = Some (reply, dd1)"
    using 1(1) by (simp add: ops_run)
  have w: "z \<or> \<not> writes_data ?p dd" "z \<or> \<not> session_writes_data rs dd1"
    using Cons.prems(3) run by (auto simp: a)
  from over_cache_direct [OF run ops_owned Cons.prems(2) pointers_ok_none w(1)]
  obtain ps c1 where c1: "over_cache z ?p (\<lambda>_. None) d c = Some (reply, ps, d, c1)" "same_run z dd1 d c1 U1 D1"
    by (auto simp: u)
  from Cons.IH [OF 1(2) c1(2) w(2)] obtain c2 D2 where "cached_session z rs d c1 = Some (out1, d, c2)"
    "same_run z dd' d c2 (unsaved_session rs dd1 U1 D1) D2"
    by blast
  then show ?case
    using c1(1) run u 1(3) by (auto simp: a)
qed auto

subsection \<open>Mounting and unmounting\<close>

text \<open>A cache with a slot for each block of the volume.\<close>

definition cache_fits :: "u64 \<Rightarrow> DiskInterface \<Rightarrow> bool" where
  "cache_fits ram d \<longleftrightarrow> unat ram < 2 ^ 61 \<and> int (unat (total_blocks d)) \<le> cache_size (alloc_cache ram)"

lemma mount_same_run:
  assumes "cache_fits ram d"
  shows "same_run z d d (alloc_cache ram) {} {}"
proof -
  have small: "unat (size_policy ram) < 2 ^ 31"
    by (rule size_policy_small) (use assms in \<open>simp only: cache_fits_def\<close>)
  have "int (unat (total_blocks d)) \<le> int (unat (size_policy ram))"
    using assms unfolding cache_fits_def alloc_cache_fields int_of_u64_small [OF small] by blast
  then have "unat (total_blocks d) \<le> length (entries (alloc_cache ram))"
    unfolding alloc_cache_fields(7) by (simp only: of_nat_le_iff)
  then show ?thesis
    by (intro same_runI [OF alloc_cache_ok [OF small] alloc_cache_synced _ alloc_cache_agrees])
      (simp_all add: pretend_def kept_def dirty_def alloc_cache_lists)
qed

lemma view_pretend:
  assumes "pretend ds d c" "slots_ok c" "valid_block d k"
  shows "view d c k = view ds c k"
  using assms(1,3) cached_page_in [OF assms(2), of "of_nat k"]
  by (auto simp: view_def pretend_def cached_page_def split: option.split)

lemma same_run_view:
  assumes "same_run z dd d c U D" "valid_block d k"
  shows "view d c k = page_at dd k"
proof -
  from assms(1) obtain ds where ds: "pretend ds d c" "agrees dd ds c" "slots_ok c" "valid_block ds = valid_block d"
    by (auto elim: same_runE)
  then show ?thesis
    using view_pretend [OF ds(1,3) assms(2)] assms(2) by (simp add: agrees_def)
qed

text \<open>
  Unmounting writes the blocks on the list and nothing else, so the disk becomes the image of the
  direct run but for the unsaved blocks, which stay as they were.
\<close>

lemma unmount:
  assumes "same_run z dd d c U D"
  shows "\<exists>d' m. nbtrfs_destroy z d c = Some (d', m) \<and> total_blocks d' = total_blocks d \<and>
    (\<forall>k. page_at d' k = page_at (if k \<in> U then d else dd) k) \<and> dom (pages_left m) = {} \<and> dom (gdl_left m) = {}"
proof -
  from assms obtain xs gs ds where c: "cache_ok c xs gs" "synced ds c gs" "pretend ds d c" "agrees dd ds c"
    "kept ds d c gs U D" "slots_ok c" "valid_block ds = valid_block d" "valid_block dd = valid_block d"
    "total_blocks dd = total_blocks d" "unat (total_blocks d) \<le> length (entries c)"
    "\<forall>k. \<not> valid_block d k \<longrightarrow> page_at dd k = page_at d k" "lists_end z c"
    by (rule same_runE)
  have v: "\<forall>b\<in>cached c. valid_block d (unat b)"
    using c(2,7) by (simp add: synced_def)
  have "ring_size (gdl c) = int (length gs)"
    using c(1) by (auto simp: cache_ok_def gdl_ok_def ring_ok_def)
  then have n: "length gs < Suc (nat (ring_size (gdl c)))" by simp
  obtain d' c' where r: "sync_loop (Suc (nat (ring_size (gdl c)))) z d c = Some (d', c')" "cache_ok c' xs []"
    "total_blocks d' = total_blocks d"
    "\<forall>k. page_at d' k = (if valid_block d k \<and> dirty c gs k then view d c k else page_at d k)" "lists_end z c'"
    using sync_loop_pages [OF c(1) v c(12) n] by blast
  obtain m where m: "nbtrfs_destroy z d c = Some (d', m)" "dom (pages_left m) = {}" "dom (gdl_left m) = {}"
    using free_cache_ok [OF r(2,5)] r(1) by (auto simp: nbtrfs_destroy_def cache_sync_def)
  have "page_at d' k = page_at (if k \<in> U then d else dd) k" for k
  proof (cases "valid_block d k")
    case False
    then show ?thesis using r(4) c(11) by simp
  next
    case True
    note kept = c(5) [unfolded kept_def]
    show ?thesis
    proof (cases "dirty c gs k")
      case d: True
      then have "k \<notin> U" using kept True by blast
      then show ?thesis using r(4) True d same_run_view [OF assms True] by simp
    next
      case False
      have "page_at dd k = page_at d k" if "k \<notin> U"
      proof -
        have u: "unat (of_nat k :: u64) = k" using True by (rule valid_block_unat)
        have "page_at ds k = page_at d k" using kept True False that by blast
        moreover have "view ds c k = page_at ds k"
          using c(2) False u by (auto simp: view_def synced_def dirty_def cached_page_def split: option.split)
        ultimately show ?thesis using c(4,7) True by (simp add: agrees_def)
      qed
      then show ?thesis using r(4) False by simp
    qed
  qed
  then show ?thesis using m r(3) by blast
qed

lemma unmount_saved:
  assumes "same_run z dd d c {} D"
  shows "\<exists>m. nbtrfs_destroy z d c = Some (dd, m) \<and> dom (pages_left m) = {} \<and> dom (gdl_left m) = {}"
proof -
  obtain d' m where d': "nbtrfs_destroy z d c = Some (d', m)" "total_blocks d' = total_blocks d"
    "\<forall>k. page_at d' k = page_at dd k" "dom (pages_left m) = {}" "dom (gdl_left m) = {}"
    using unmount [OF assms] by auto
  have "total_blocks dd = total_blocks d" using assms by (rule same_runE)
  then have "d' = dd"
    using d'(2,3) by (intro disk_eqI) simp_all
  then show ?thesis using d' by blast
qed

end
