(* ===== verification/Saved_Programs.thy ===== *)
theory Saved_Programs
  imports Cached_Session
begin

text \<open>
  Which functions leave no change behind that unmounting would lose: each block they store to
  is handed to \<open>write_block\<close> before they return, or was before and so is still on the list of
  dirty blocks.
\<close>

subsection \<open>A check on the program text\<close>

text \<open>
  From the sets \<open>U\<close> and \<open>D\<close> of \<open>unsaved\<close>, a result \<open>x\<close> comes with unsaved blocks in \<open>L x\<close> only,
  and the blocks \<open>K x\<close> are dirty then.
\<close>

primrec settles :: "('a \<Rightarrow> nat set) \<Rightarrow> ('a \<Rightarrow> nat set) \<Rightarrow> 'a prog \<Rightarrow> nat set \<Rightarrow> nat set \<Rightarrow> bool" where
  "settles L K (Return x) = (\<lambda>U D. U \<subseteq> L x \<and> K x \<subseteq> D)"
| "settles L K Undefined = (\<lambda>U D. True)"
| "settles L K (Fetch n b f) = (\<lambda>U D. settles L K (f (unat b)) U D)"
| "settles L K (Look k f) = (\<lambda>U D. \<forall>pg. settles L K (f pg) U D)"
| "settles L K (Put k pg p) = (\<lambda>U D. settles L K p (stored k U D) D)"
| "settles L K (Commit k n b p) = (\<lambda>U D. settles L K p (U - {k}) (insert k D))"
| "settles L K (Extent f) = (\<lambda>U D. \<forall>t. settles L K (f t) U D)"

lemma settles_run:
  "settles L K p U D \<Longrightarrow> direct p d = Some (x, d') \<Longrightarrow>
   fst (unsaved p d U D) \<subseteq> L x \<and> K x \<subseteq> snd (unsaved p d U D)"
proof (induction p arbitrary: d U D)
  case (Fetch n b f)
  then obtain k where k: "get_block_direct d n b = Some k" "direct (f k) d = Some (x, d')"
    by (auto simp: bind_Some_iff)
  then have "k = unat b"
    using get_block_direct_Some by blast
  then show ?case
    using Fetch.IH [OF rangeI _ k(2)] Fetch.prems(1) k(1) by simp
qed simp_all

lemma stored_mono: "U' \<subseteq> U \<Longrightarrow> D \<subseteq> D' \<Longrightarrow> stored k U' D' \<subseteq> stored k U D"
  by (auto simp: stored_def)

lemma settles_mono: "settles L K p U D \<Longrightarrow> U' \<subseteq> U \<Longrightarrow> D \<subseteq> D' \<Longrightarrow> settles L K p U' D'"
proof (induction p arbitrary: U D U' D')
  case (Return x)
  then show ?case by auto
next
  case (Fetch n b f)
  have "settles L K (f (unat b)) U' D'"
    by (rule Fetch.IH [OF rangeI _ Fetch.prems(2,3)]) (use Fetch.prems(1) in simp)
  then show ?case by simp
next
  case (Look k f)
  have "settles L K (f pg) U' D'" for pg
    by (rule Look.IH [OF rangeI _ Look.prems(2,3)]) (use Look.prems(1) in simp)
  then show ?case by simp
next
  case (Put k pg p)
  have "settles L K p (stored k U' D') D'"
    by (rule Put.IH [OF _ stored_mono [OF Put.prems(2,3)] Put.prems(3)]) (use Put.prems(1) in simp)
  then show ?case by simp
next
  case (Commit k n b p)
  have "settles L K p (U' - {k}) (insert k D')"
    by (rule Commit.IH [of "U - {k}" "insert k D"]) (use Commit.prems in auto)
  then show ?case by simp
next
  case (Extent f)
  have "settles L K (f t) U' D'" for t
    by (rule Extent.IH [OF rangeI _ Extent.prems(2,3)]) (use Extent.prems(1) in simp)
  then show ?case by simp
qed simp

text \<open>Blocks that were unsaved before stay so at most.\<close>

lemma settles_frame: "settles L K p U D \<Longrightarrow> settles (\<lambda>x. L x \<union> W) K p (U \<union> W) D"
proof (induction p arbitrary: U D)
  case (Return x)
  then show ?case by auto
next
  case (Fetch n b f)
  then show ?case using Fetch.IH [OF rangeI] by simp
next
  case (Look k f)
  then show ?case using Look.IH [OF rangeI] by simp
next
  case (Put k pg p)
  have "stored k (U \<union> W) D \<subseteq> stored k U D \<union> W"
    by (auto simp: stored_def)
  then show ?case
    using settles_mono [OF Put.IH [of "stored k U D" D]] Put.prems by simp
next
  case (Commit k n b p)
  have "settles (\<lambda>x. L x \<union> W) K p (U \<union> W - {k}) (insert k D)"
    by (rule settles_mono [OF Commit.IH [of "U - {k}" "insert k D"]]) (use Commit.prems in auto)
  then show ?case by simp
next
  case (Extent f)
  then show ?case using Extent.IH [OF rangeI] by simp
qed simp

text \<open>Blocks that are dirty stay so.\<close>

lemma settles_dirty: "settles L K p U D \<Longrightarrow> W \<subseteq> D \<Longrightarrow> settles L (\<lambda>x. K x \<union> W) p U D"
proof (induction p arbitrary: U D)
  case (Return x)
  then show ?case by auto
next
  case (Fetch n b f)
  then show ?case using Fetch.IH [OF rangeI] by simp
next
  case (Look k f)
  then show ?case using Look.IH [OF rangeI] by simp
next
  case (Commit k n b p)
  then show ?case using Commit.IH [of "U - {k}" "insert k D"] by auto
next
  case (Extent f)
  then show ?case using Extent.IH [OF rangeI] by simp
qed simp_all

lemma settles_call:
  assumes "settles L K p U D" "\<And>x. settles L' K' (g x) (L x) (D \<union> K x)"
  shows "settles L' K' (call p g) U D"
  using assms
proof (induction p arbitrary: U D)
  case (Return x)
  then have "U \<subseteq> L x" "D \<union> K x \<subseteq> D" by auto
  then show ?case
    using settles_mono [OF Return.prems(2) [of x]] by simp
next
  case (Fetch n b f)
  then show ?case using Fetch.IH [OF rangeI _ Fetch.prems(2)] by simp
next
  case (Look k f)
  then show ?case using Look.IH [OF rangeI _ Look.prems(2)] by simp
next
  case (Put k pg p)
  then show ?case using Put.IH [OF _ Put.prems(2)] by simp
next
  case (Commit k n b p)
  have "settles L' K' (g x) (L x) (insert k D \<union> K x)" for x
    by (rule settles_mono [OF Commit.prems(2)]) auto
  then show ?case
    using Commit.IH [of "U - {k}" "insert k D"] Commit.prems(1) by simp
next
  case (Extent f)
  then show ?case using Extent.IH [OF rangeI _ Extent.prems(2)] by simp
qed simp

text \<open>A function that leaves no unsaved block, called where the blocks \<open>D\<close> are dirty.\<close>

abbreviation saves :: "'a prog \<Rightarrow> nat set \<Rightarrow> bool" where
  "saves p D \<equiv> settles no_pointer no_pointer p {} D"

named_theorems settled \<open>functions that leave nothing unsaved\<close>

lemma settles_call_saved [settled]:
  assumes "saves p D" "\<And>x. settles L K (g x) U D"
  shows "settles L K (call p g) U D"
proof (rule settles_call)
  show "settles (\<lambda>_. U) no_pointer p U D"
    using settles_frame [OF assms(1), of U] by simp
qed (use assms(2) in simp)

lemma settles_need [settled]: "(\<And>x. m = Some x \<Longrightarrow> settles L K (f x) U D) \<Longrightarrow> settles L K (need m f) U D"
  by (cases m) simp_all

lemma saves_each [settled]:
  assumes "\<And>i s. i \<in> set is \<Longrightarrow> saves (body i s) D"
  shows "saves (each is body s) D"
  using assms
proof (induction "is" arbitrary: s)
  case (Cons i "is")
  show ?case
    unfolding each.simps
    by (rule settles_call_saved) (use Cons in auto)
qed simp

lemma stored_dirty [simp]: "k \<in> D \<Longrightarrow> stored k U D = U"
  by (simp add: stored_def)

lemma stored_then [simp]: "stored k U D - {k} = U - {k}" "stored k U D \<subseteq> insert k V \<longleftrightarrow> U \<subseteq> insert k V"
  by (auto simp: stored_def)

subsection \<open>Superblock and block allocation\<close>

lemma superblock_saved [settled]:
  "saves superblock_read_p D" "saves (superblock_write_p sb) D" "saves (superblock_write_opt_p sbo) D"
  by (simp_all add: superblock_read_p_def superblock_write_p_def superblock_write_opt_p_def split: option.split)

lemma alloc_scan_saved: "saves (alloc_scan_p r sbo pbm pbmn ii) D"
proof (induction r arbitrary: pbm pbmn ii)
  case (Suc r)
  then show ?case
    unfolding alloc_scan_p.simps
    by (auto simp: Let_def intro!: settled)
qed simp

lemma alloc_saved [settled]: "saves alloc_page_p D" "saves (free_page_p pnum) D"
  by (auto simp: alloc_page_p_def free_page_p_def Let_def intro!: settled alloc_scan_saved)

subsection \<open>Inodes\<close>

lemma inode_saved [settled]:
  "saves (inode_read_p n) D" "saves (inode_write_p m) D" "saves (inode_get_block_p m ix cur) D"
  by (auto simp: inode_read_p_def inode_write_p_def inode_get_block_p_def Let_def intro!: settled)

text \<open>A failure to set up the new inode leaves the bitmap unsaved.\<close>

abbreviation failed :: "int \<Rightarrow> nat set" where
  "failed \<equiv> \<lambda>rv. if rv = -1 then UNIV else {}"

lemma inode_claim_settles: "settles failed no_pointer (inode_claim_p ibm ix ibmn ii mode uid gid) {} D"
  by (auto simp: inode_claim_p_def intro!: settled)

lemma inode_scan_settles: "settles failed no_pointer (inode_scan_p r sb ibm ibmn ii mode uid gid) {} D"
proof (induction r arbitrary: ibm ibmn ii)
  case (Suc r)
  then show ?case
    unfolding inode_scan_p.simps
    by (auto simp: Let_def intro!: settled inode_claim_settles)
qed simp

lemma inode_allocate_settles: "settles failed no_pointer (inode_allocate_p mode uid gid) {} D"
  by (auto simp: inode_allocate_p_def Let_def intro!: settled inode_scan_settles simp del: inode_scan_p.simps)

text \<open>
  The numbers of the first blocks are set in the inode only. Later ones are stored in the
  indirect block, which \<open>inode_set_block\<close> does not hand to \<open>write_block\<close>.
\<close>

lemma inode_set_block_saved: "unat ix < NDIRECT \<Longrightarrow> saves (inode_set_block_p n ix phys) D"
  by (simp add: inode_set_block_p_def)

subsection \<open>The tree\<close>

lemma node_settles [simp]:
  "settles L K (load_node k f) U D \<longleftrightarrow> (\<forall>pg. settles L K (f (node_of_page pg)) U D)"
  "settles L K (save_node k n p) U D \<longleftrightarrow> settles L K p (stored k U D) D"
  "settles L K (with_fuel h) U D \<longleftrightarrow> (\<forall>t :: u64. settles L K (h (Suc (unat t))) U D)"
  by (simp_all add: load_node_def save_node_def with_fuel_def)

lemma btree_node_create_settles: "settles no_pointer created (btree_node_create_p leaf) {} D"
  by (auto simp: btree_node_create_p_def Let_def intro!: settled)

lemma settles_create [settled]:
  assumes "\<And>k page. settles L K (g (Some k, page)) U (insert k D)" "\<And>page. settles L K (g (None, page)) U D"
  shows "settles L K (call (btree_node_create_p leaf) g) U D"
proof (rule settles_call)
  show "settles (\<lambda>_. U) created (btree_node_create_p leaf) U D"
    using settles_frame [OF btree_node_create_settles, of U leaf D] by simp
  show "settles L K (g x) U (D \<union> created x)" for x
    using assms by (cases x; cases "fst x") auto
qed

lemma btree_node_saved [settled]:
  "saves (btree_node_free_p block) D" "saves (btree_node_read_p b) D" "saves (btree_node_write_p n) D"
  "saves (node_get_p b) D" "saves (node_reread_p b old) D"
  by (auto simp: btree_node_free_p_def btree_node_read_p_def btree_node_write_p_def node_get_p_def node_reread_p_def
      intro!: settled)

lemma search_children_saved: "(\<And>c. saves (rec c) D) \<Longrightarrow> saves (search_children_p rec n is) D"
  by (induction "is") (auto intro!: settled)

lemma btree_search_fuel_saved: "saves (btree_search_fuel_p f b k) D"
  by (induction f arbitrary: b) (auto intro!: settled search_children_saved simp del: upt_Suc)

lemma find_depth_loop_saved: "saves (find_depth_loop_p f n depth) D"
  by (induction f arbitrary: n depth) (auto intro!: settled)

lemma find_maximum_fuel_saved: "saves (find_maximum_fuel_p f b) D"
  by (induction f arbitrary: b) (auto intro!: settled simp del: upt_Suc)

lemma btree_search_saved [settled]:
  "saves (btree_search_p b k) D" "saves (btree_find_depth_p b) D" "saves (btree_find_maximum_p b) D"
  by (auto simp: btree_search_p_def btree_find_depth_p_def btree_find_maximum_p_def
      intro!: settled btree_search_fuel_saved find_depth_loop_saved find_maximum_fuel_saved
      simp del: btree_search_fuel_p.simps find_depth_loop_p.simps find_maximum_fuel_p.simps)

lemma pick_child_saved: "saves (pick_child_p n k is i) D"
  by (induction "is" arbitrary: i) (auto intro!: settled)

lemma descend_saved [settled]: "saves (descend_p n k) D"
  by (auto simp: descend_p_def Let_def intro!: settled pick_child_saved simp del: upt_Suc)

lemma insertion_loop_saved: "saves (insertion_loop_p f b k n depth) D"
  by (induction f arbitrary: n depth) (auto intro!: settled split: option.split)

lemma btree_insertion_saved [settled]:
  "saves (insert_pos_step_p root node j pos) D" "saves (refresh_keys_p n) D"
  "saves (btree_insertion_search_p b k) D"
  by (auto simp: insert_pos_step_p_def refresh_keys_p_def btree_insertion_search_p_def
      intro!: settled insertion_loop_saved simp del: insertion_loop_p.simps)

lemma btree_insert_nonfull_saved [settled]:
  "saves (btree_insert_nonfull_p root node) D" "saves (btree_update_parent_keys_p node) D"
  by (auto simp: btree_insert_nonfull_p_def btree_update_parent_keys_p_def Let_def intro!: settled simp del: upt_Suc)

text \<open>Splitting stores to new nodes, which are on the list, and writes the others.\<close>

lemma set_parent_saved [settled]: "saves (set_parent_p c p) D"
  by (auto simp: set_parent_p_def intro!: settled)

lemma split_step_saved [settled]:
  "k \<in> D \<Longrightarrow> saves (split_root_lower_p root k i s) D"
  "k \<in> D \<Longrightarrow> saves (split_root_upper_key_p root k i s) D"
  "k \<in> D \<Longrightarrow> saves (split_root_upper_child_p root k i s) D"
  "k \<in> D \<Longrightarrow> saves (split_child_key_p k i child) D"
  "k \<in> D \<Longrightarrow> saves (split_child_child_p k i child) D"
  by (auto simp: split_root_lower_p_def split_root_upper_key_p_def split_root_upper_child_p_def
      split_child_key_p_def split_child_child_p_def intro!: settled)

lemma btree_split_root_saved [settled]: "saves (btree_split_root_p root) D"
  unfolding btree_split_root_p_def
  by (auto simp: Let_def intro!: settled simp del: upt_Suc)

lemma split_child_fuel_saved: "saves (split_child_fuel_p f node index child) D"
proof (induction f arbitrary: node index child D)
  case (Suc f)
  show ?case
    unfolding split_child_fuel_p.simps
    by (auto simp: Let_def intro!: settled Suc simp del: upt_Suc)
qed simp

lemma btree_split_child_saved [settled]: "saves (btree_split_child_p node index child) D"
  by (auto simp: btree_split_child_p_def intro!: settled split_child_fuel_saved simp del: split_child_fuel_p.simps)

lemma insert_into_saved [settled]:
  "kn \<in> D \<Longrightarrow> saves (insert_into_target_p target kn) D"
  "kn \<in> D \<Longrightarrow> saves (insert_into_full_p b k target kn) D"
  by (auto simp: insert_into_target_p_def insert_into_full_p_def intro!: settled)

lemma btree_insert_saved [settled]: "saves (btree_insert_p b k v type) D"
  by (auto simp: btree_insert_p_def intro!: settled)

end
