(* ===== verification/Saved_Handlers.thy ===== *)
theory Saved_Handlers
  imports Saved_Programs Store_Simulation
begin

text \<open>
  The handlers leave no change behind that unmounting would lose: for reading, attributes and
  data by the text of the programs, for names because the new entry goes into the first block of
  its directory.
\<close>

subsection \<open>Searching and reading\<close>

lemma search_loop_saved: "saves (search_loop_p path is node cp) D"
  by (induction "is" arbitrary: node cp)
    (auto simp: search_step_p_def Let_def intro!: settled split: sum.split prod.split)

lemma item_search_saved [settled]: "saves (item_search_p path) D"
  by (auto simp: item_search_p_def intro!: settled search_loop_saved simp del: upt_Suc)

lemma getattr_saved [settled]:
  "saves (nbtrfs_access_p path) D" "saves (nbtrfs_getattr_p path) D" "saves (getattr_asserted_p path) D"
  "saves (nbtrfs_chmod_p path mode) D" "saves (nbtrfs_utimens_p path ts0 ts1) D"
  by (auto simp: nbtrfs_access_p_def nbtrfs_getattr_p_def getattr_asserted_p_def nbtrfs_chmod_p_def
      nbtrfs_utimens_p_def intro!: settled)

lemma readdir_loop_saved [settled]: "saves (readdir_loop_p path es) D"
  by (induction es) (auto simp: Let_def intro!: settled)

lemma list_loop_saved: "saves (list_loop_p pair node is block db found) D"
  by (induction "is" arbitrary: block db found) (auto simp: Let_def simp del: upt_Suc intro!: settled)

lemma directory_list_saved [settled]: "saves (directory_list_p path) D"
  by (auto simp: directory_list_p_def Let_def simp del: upt_Suc intro!: settled list_loop_saved)

lemma readdir_saved [settled]: "saves (nbtrfs_readdir_p path) D"
  by (auto simp: nbtrfs_readdir_p_def Let_def intro!: settled)

lemma read_loop_saved [settled]: "saves (read_loop_p node remaining off buf) D"
proof (induction node remaining off buf rule: read_loop_p.induct)
  case (1 node remaining off buf)
  show ?case
    by (subst read_loop_p.simps) (auto simp: Let_def intro!: settled 1)
qed

lemma read_saved [settled]: "saves (nbtrfs_read_p path len offset) D"
  by (auto simp: nbtrfs_read_p_def Let_def intro!: settled)

subsection \<open>Data\<close>

text \<open>
  \<open>nbtrfs_write\<close> clears a new block without \<open>write_block\<close>, but writes it when the bytes are in.
\<close>

abbreviation new_block :: "u64 \<times> Inode \<Rightarrow> nat set" where
  "new_block \<equiv> \<lambda>(p, _). if p = 0 then {} else {unat p}"

lemma write_block_for_settles:
  assumes "unat (page_index off) < NDIRECT"
  shows "settles new_block no_pointer (write_block_for_p node off) {} D"
proof -
  have "settles new_block no_pointer (call (inode_set_block_p node (page_index off) p) (\<lambda>(_, node1).
      call (inode_write_p node1) (\<lambda>_. Return (p, node1)))) (stored (unat p) {} D) D" if "p \<noteq> 0" for p
    using that by (auto intro!: settled inode_set_block_saved [OF assms] simp: stored_def)
  then show ?thesis
    by (auto simp: write_block_for_p_def intro!: settled)
qed

lemma write_loop_saved:
  "off + nat remaining \<le> max_direct \<Longrightarrow> saves (write_loop_p node remaining off buf written) D"
proof (induction node remaining off buf written arbitrary: D rule: write_loop_p.induct)
  case (1 node remaining off buf written)
  show ?case
  proof (cases "remaining \<le> 0")
    case True
    then show ?thesis by (subst write_loop_p.simps) simp
  next
    case False
    then have "off < max_direct" using "1.prems" by simp
    then have page: "unat (page_index off) < NDIRECT" using page_index_small(2,3) by simp
    let ?n = "chunk off remaining"
    have "?n \<le> nat remaining" by (simp add: chunk_def)
    then have "off + ?n + nat (remaining - int ?n) \<le> max_direct"
      using "1.prems" False by linarith
    then have rest: "saves (write_loop_p node1 (remaining - int ?n) (off + ?n) (drop ?n buf) (written + int ?n)) D'" for node1 D'
      using "1.IH" [OF False] by (simp add: Let_def) (metis zero_neq_one)
    show ?thesis
      by (subst write_loop_p.simps, simp only: False if_False, rule settles_call [OF write_block_for_settles [OF page]])
        (auto simp: Let_def stored_def intro!: rest)
  qed
qed

subsection \<open>Runs one after the other\<close>

definition all_saved :: "'a prog \<Rightarrow> DiskInterface \<Rightarrow> nat set \<Rightarrow> nat set \<Rightarrow> bool" where
  "all_saved p d U D \<longleftrightarrow> fst (unsaved p d U D) = {}"

lemma unsaved_mono:
  "U' \<subseteq> U \<Longrightarrow> D \<subseteq> D' \<Longrightarrow> fst (unsaved p d U' D') \<subseteq> fst (unsaved p d U D)"
proof (induction p arbitrary: d U D U' D')
  case (Fetch n b f)
  then show ?case using Fetch.IH [OF rangeI] by (simp split: option.split)
next
  case (Look k f)
  then show ?case using Look.IH [OF rangeI] by simp
next
  case (Put k pg p)
  then show ?case using Put.IH [OF stored_mono [OF Put.prems]] by simp
next
  case (Commit k n b p)
  have "U' - {k} \<subseteq> U - {k}" "insert k D \<subseteq> insert k D'" using Commit.prems by auto
  then show ?case using Commit.IH by simp
next
  case (Extent f)
  then show ?case using Extent.IH [OF rangeI] by simp
qed simp_all

lemma all_saved_mono: "all_saved p d U D \<Longrightarrow> U' \<subseteq> U \<Longrightarrow> D \<subseteq> D' \<Longrightarrow> all_saved p d U' D'"
  using unsaved_mono unfolding all_saved_def by blast

lemma unsaved_call:
  "direct p d = Some (x, d') \<Longrightarrow>
   unsaved (call p g) d U D = (case unsaved p d U D of (U1, D1) \<Rightarrow> unsaved (g x) d' U1 D1)"
proof (induction p arbitrary: d U D)
  case (Fetch n b f)
  then show ?case using Fetch.IH [OF rangeI] by (auto simp: bind_Some_iff)
qed simp_all

lemma all_saved_call:
  assumes "settles L no_pointer p U D" "direct p d = Some (x, d')" "all_saved (g x) d' (L x) D"
  shows "all_saved (call p g) d U D"
proof -
  have "settles L (\<lambda>x. no_pointer x \<union> D) p U D"
    by (rule settles_dirty [OF assms(1)]) simp
  from settles_run [OF this assms(2)] have "all_saved (g x) d' (fst (unsaved p d U D)) (snd (unsaved p d U D))"
    by (intro all_saved_mono [OF assms(3)]) simp_all
  then show ?thesis
    unfolding all_saved_def unsaved_call [OF assms(2)] by (cases "unsaved p d U D") simp
qed

lemma all_saved_saved:
  assumes "saves p D" "direct p d = Some (x, d')" "all_saved (g x) d' U D"
  shows "all_saved (call p g) d U D"
proof (rule all_saved_call)
  show "settles (\<lambda>_. U) no_pointer p U D" using settles_frame [OF assms(1), of U] by simp
qed (rule assms(2,3))+

lemma all_saved_then:
  assumes "all_saved p d {} {}" "direct p d = Some (x, d')" "all_saved (g x) d' {} {}"
  shows "all_saved (call p g) d {} {}"
  using all_saved_mono [OF assms(3), of "{}" "snd (unsaved p d {} {})"] assms(1)
  unfolding all_saved_def unsaved_call [OF assms(2)] by (cases "unsaved p d {} {}") simp

lemma all_saved_run: "settles no_pointer no_pointer p U D \<Longrightarrow> direct p d = Some (x, d') \<Longrightarrow> all_saved p d U D"
  using settles_run [of no_pointer no_pointer p U D d x d'] unfolding all_saved_def by blast

lemma all_saved_fetch: "get_block_direct d n b = Some k \<Longrightarrow> all_saved (f k) d U D \<Longrightarrow> all_saved (Fetch n b f) d U D"
  by (simp add: all_saved_def)

lemma all_saved_look: "all_saved (Look k f) d U D \<longleftrightarrow> all_saved (f (page_at d k)) d U D"
  by (simp add: all_saved_def)

subsection \<open>A new entry\<close>

lemma add_to_tree_saved [settled]: "saves (add_to_tree_p pair name inum type e) D"
  by (auto simp: add_to_tree_p_def intro!: settled)

lemma add_commit_saved:
  assumes "U \<subseteq> {k}"
  shows "settles no_pointer no_pointer (add_commit_p pair node name inum type e block k a number) U D"
proof -
  have z: "U - {k} = {}" using assms by simp
  show ?thesis
    by (auto simp: add_commit_p_def z intro!: settled)
qed

abbreviation added_block :: "(Inode \<times> u64 \<times> nat) option \<Rightarrow> nat set" where
  "added_block \<equiv> \<lambda>r. case r of None \<Rightarrow> {} | Some (_, _, k) \<Rightarrow> {k}"

lemma add_block_settles: "settles added_block no_pointer (add_block_p pair node 0) {} D"
  by (auto simp: add_block_p_def stored_def intro!: settled inode_set_block_saved)

text \<open>The first round of the loop, from the block of the directory on.\<close>

definition add_round :: "InodeBtreePair \<Rightarrow> u8 list \<Rightarrow> u64 \<Rightarrow> u32 \<Rightarrow> DirEntry \<Rightarrow> (Inode \<times> u64 \<times> nat \<times> nat) option \<Rightarrow> int prog" where
  "add_round pair name inum type e r =
     (case r of
       None \<Rightarrow> Return (-1)
     | Some (node1, block2, k, db1) \<Rightarrow> Look k (\<lambda>pg.
         if page_type pg \<noteq> block_type_code BLOCK_TYPE_DATA then Return (-1)
         else Look k (\<lambda>head. case add_slot pg True (entry_count head) 0
                [0..<(USABLE_BLOCK_SIZE - sizeof_DirectoryBlock) div sizeof_DirEntry] of
                (Some j, _) \<Rightarrow>
                  add_commit_p pair node1 name inum type e block2 k (entry_at True j) (entry_count pg)
              | (None, count1) \<Rightarrow>
                  add_loop_p pair name inum type e [1..<dir_blocks] node1 block2 k (entry_count pg) count1)))"

lemma add_loop_first:
  "add_loop_p pair name inum type e [0..<dir_blocks] node block db number 0 =
     call (inode_get_block_p node 0 block) (\<lambda>(_, block1).
     call
       (if block1 = 0 then call (add_block_p pair node 0) (\<lambda>r. Return (case r of
          None \<Rightarrow> None | Some (node1, block2, k) \<Rightarrow> Some (node1, block2, k, k)))
        else Fetch (pair_inode pair) block1 (\<lambda>k. Return (Some (node, block1, k, db))))
       (add_round pair name inum type e))"
  unfolding dir_blocks_upt1 add_loop_p.simps add_round_def Let_def semiring_1_class.of_nat_0 simp_thms(6) if_True by (rule refl)

lemma add_round_saved:
  assumes "dir_ok d i n" "n < 15" "dir_first d i \<noteq> 0" "k = unat (dir_first d i)" "U \<subseteq> {k}"
    and "direct (add_round pair name inum type e (Some (node, dir_first d i, k, db))) d = Some (x, d')"
  shows "all_saved (add_round pair name inum type e (Some (node, dir_first d i, k, db))) d U D"
proof -
  note loop = add_loop_dir [OF assms(1-3), folded assms(4)]
  have "direct (add_commit_p pair node name inum type e (dir_first d i) k (entry_at True n) (of_nat n)) d = Some (x, d')"
    using assms(6) loop(2-4) by (simp add: add_round_def
      del: block_type_code.simps USABLE_BLOCK_SIZE_def sizeof_DirEntry_def sizeof_DirectoryBlock_def)
  from all_saved_run [OF add_commit_saved [OF assms(5)] this] show ?thesis
    using loop(2-4) by (simp add: add_round_def all_saved_look
      del: block_type_code.simps USABLE_BLOCK_SIZE_def sizeof_DirEntry_def sizeof_DirectoryBlock_def)
qed

text \<open>The new entry goes into the first block, which is written back with it.\<close>

lemma directory_add_saved:
  assumes "fs_ok d" "finds_dir d path i r" "dir_ok d i n" "n < 15" "index_ok (d, r)" "dir_room d i r ty"
    and "length name < NAME_MAX" "path_hash name \<noteq> 0" "length (entry_name junk) = NAME_MAX"
  shows "all_saved (directory_add_entry_p path name inum ty junk) d {} {}"
proof -
  let ?pair = "dir_pair i r"
  let ?e = "new_entry junk name inum"
  let ?node = "inode_at d i"
  let ?loop = "add_loop_p ?pair name inum ty ?e [0..<dir_blocks] ?node 0 0 0 0"
  note look = finds_dirD [OF assms(1-3)]
  obtain d' where d': "directory_add_entry d path name inum ty junk = Some (0, d')"
    by (rule directory_add_dir [OF assms])
  then have run: "direct ?loop d = Some (0, d')"
    using assms(7) look by (simp add: directory_add_entry_def new_entry_def run_simps del: upt_Suc)
  have first: "inode_get_block_p ?node 0 0 = Return (if dir_first d i \<noteq> 0 then 0 else -1, dir_first d i)"
    by (simp add: inode_get_block_p_def dir_first_def)
  have "all_saved ?loop d {} {}"
  proof (cases "dir_first d i = 0")
    case False
    let ?r = "Some (?node, dir_first d i, unat (dir_first d i), 0)"
    have get: "get_block_direct d (pair_inode ?pair) (dir_first d i) = Some (unat (dir_first d i))"
      by (rule add_loop_dir [OF assms(3,4) False])
    have l: "?loop = Fetch (pair_inode ?pair) (dir_first d i) (\<lambda>k. add_round ?pair name inum ty ?e (Some (?node, dir_first d i, k, 0)))"
      using False by (simp add: add_loop_first first)
    show ?thesis
      unfolding l by (rule all_saved_fetch [OF get], rule add_round_saved [OF assms(3,4) False refl])
        (use run get in \<open>simp_all add: l\<close>)
  next
    case True
    have n: "n = 0" using assms(3) True by (simp add: dir_ok_def)
    have "0 < card (free_set d)" using assms(6) True by (simp add: dir_room_def name_blocks_def)
    then obtain b where b: "next_free d b" "entry_count (page_at d b) = 0"
      using next_free_card assms(6) True by (auto simp: dir_room_def)
    obtain d1 where d1: "add_block d ?pair ?node 0 = Some (Some (inode_at d1 i, of_nat b, b), d1)"
        "dir_ok d1 i 0" "dir_first d1 i = of_nat b" "unat (dir_first d1 i) = b" "dir_first d1 i \<noteq> 0"
      by (rule add_block_dir [OF assms(1) assms(3) [unfolded n] True b])
    let ?h = "\<lambda>r. add_round ?pair name inum ty ?e (case r of
      None \<Rightarrow> None | Some (node1, block2, k) \<Rightarrow> Some (node1, block2, k, k))"
    have l: "?loop = call (add_block_p ?pair ?node 0) ?h"
      using True by (simp add: add_loop_first first call_call)
    have add: "direct (add_block_p ?pair ?node 0) d = Some (Some (inode_at d1 i, of_nat b, b), d1)"
      by (simp add: run_simps d1(1))
    have "all_saved (add_round ?pair name inum ty ?e (Some (inode_at d1 i, dir_first d1 i, b, b))) d1 {b} {}"
      by (rule add_round_saved [OF d1(2) _ d1(5) d1(4) [symmetric]])
        (use run add d1(3) in \<open>simp_all add: l\<close>)
    then show ?thesis
      unfolding l by (intro all_saved_call [OF add_block_settles add]) (simp add: d1(3))
  qed
  then show ?thesis
    using assms(7) look(2) unfolding directory_add_entry_p_def Let_def
    by (intro all_saved_saved [OF item_search_saved])
      (auto simp: run_simps look new_entry_def simp del: upt_Suc intro!: all_saved_saved [OF inode_saved(1)])
qed

subsection \<open>The handlers\<close>

lemma all_saved_steps:
  "inode_read d n = Some x \<Longrightarrow> all_saved (g1 x) d U D \<Longrightarrow> all_saved (call (inode_read_p n) g1) d U D"
  "inode_write d m = Some (rv, d') \<Longrightarrow> all_saved (g2 rv) d' U D \<Longrightarrow> all_saved (call (inode_write_p m) g2) d U D"
  "item_search d path = Some pair \<Longrightarrow> all_saved (g3 pair) d U D \<Longrightarrow> all_saved (call (item_search_p path) g3) d U D"
  by (rule all_saved_saved; auto simp: run_simps intro!: settled)+

lemma all_saved_return: "all_saved (Return x) d {} D"
  by (simp add: all_saved_def)

lemma mknod_saved:
  assumes rep: "represents_at tr d s" and path: "new_path_ok E s path" and room: "has_room (add_file E path mode s)"
  shows "all_saved (nbtrfs_mknod_p E path mode) d {} {}"
proof -
  let ?names = "butlast (names_of path)" and ?name = "last (names_of path)"
  let ?i = "length (files s)"
  let ?n = "new_file_inode E d ?i mode"
  note r = represents_atD [OF rep]
  obtain p ns where "parent_dir s path = Some p" and p: "path_of (?names @ [?name]) = path"
    and "p < ?i" "f_content (files s ! p) = Names ns" and at: "dir_at d ?names p (tr p)"
    and "free_hash ns ?name" and q: "new_name_ok ?name" "length (entry_name (env_junk E)) = NAME_MAX"
    "dir_ok d p (length ns)" "length ns < 15" "index_ok (d, tr p)" "dir_room d p (tr p) (mode AND S_IFMT)"
    and "name_blocks d p (mode AND S_IFMT) = (if ns = [] then 1 else 0) + child_blocks (mode AND S_IFMT)"
    and new: "first_inode d ?i" "p \<noteq> ?i"
    by (rule mknod_place [OF rep path room])
  obtain d1 d2 where a: "inode_allocate d mode (env_uid E) (env_gid E) = Some (int ?i, d1)"
    "inode_read d1 (of_nat ?i) = Some (0, Some (fresh_inode (inode_at d ?i) ?i mode (env_uid E) (env_gid E)))"
    "inode_write d1 ?n = Some (0, d2)" "i_number ?n = of_nat ?i" "fs_step {?i} {} d d2"
    "finds_dir d2 (path_of ?names) p (tr p)" "dir_ok d2 p (length ns)" "index_ok (d2, tr p)"
    "dir_room d2 p (tr p) (mode AND S_IFMT)"
    by (rule mknod_ready [OF r(1) at q(3,5,6) new, of E])
  have name: "name_ok ?name" "length ?name < NAME_MAX" "path_hash ?name \<noteq> 0"
    using q(1) by (simp_all add: new_name_ok_def)
  have no: "names_ok ?names" using at by (simp add: dir_at_def leads_to_def)
  note pa = parent_of_path [OF no name(1), unfolded p]
  have add: "all_saved (directory_add_entry_p (path_of ?names) ?name (i_number ?n) (mode AND S_IFMT) (env_junk E)) d2 {} {}"
    by (rule directory_add_saved [OF fs_stepD(1) [OF a(5)] a(6,7) q(4) a(8,9) name(2,3) q(2)])
  have alloc: "direct (inode_allocate_p mode (env_uid E) (env_gid E)) d = Some (int ?i, d1)"
    by (simp add: run_simps a(1))
  show ?thesis
    unfolding nbtrfs_mknod_p_def pa need_simps Let_def
    by (rule all_saved_call [OF inode_allocate_settles alloc])
      (auto simp: new_file_inode_def [symmetric] intro!: all_saved_steps(1) [OF a(2)] all_saved_steps(2) [OF a(3)] add)
qed

lemma link_saved:
  assumes rep: "represents_at tr d s" and from_path: "path_ok s from_path" "resolve s from_path = Some i" "\<not> is_dir (files s ! i)"
      "f_mode (files s ! i) AND S_IFMT \<noteq> FILE_TYPE_DIRECTORY"
    and path: "new_path_ok E s to_path" and room: "has_room (add_link i to_path s)"
  shows "all_saved (nbtrfs_link_p E from_path to_path) d {} {}"
proof -
  let ?names = "butlast (names_of to_path)" and ?name = "last (names_of to_path)"
  let ?ty = "i_mode (inode_at d i) AND S_IFMT"
  note r = represents_atD [OF rep]
  obtain src p ns where src: "path_of src = from_path" "file_at d src i" and "0 < i" "i < length (files s)"
    "parent_dir s to_path = Some p" and p: "path_of (?names @ [?name]) = to_path"
    and "p < length (files s)" "f_content (files s ! p) = Names ns" and at: "dir_at d ?names p (tr p)"
    and "free_hash ns ?name" and q: "new_name_ok ?name" "length (entry_name (env_junk E)) = NAME_MAX"
    and "p \<noteq> i" and u: "dir_ok d p (length ns)" "length ns < 15" "index_ok (d, tr p)" "dir_room d p (tr p) FILE_TYPE_REGULAR"
    and "name_blocks d p FILE_TYPE_REGULAR = (if ns = [] then 1 else 0) + child_blocks FILE_TYPE_REGULAR"
    and ty: "?ty \<noteq> FILE_TYPE_DIRECTORY" and "i_number (inode_at d i) = of_nat i"
    by (rule link_place [OF assms])
  have name: "name_ok ?name" "length ?name < NAME_MAX" "path_hash ?name \<noteq> 0"
    using q(1) by (simp_all add: new_name_ok_def)
  have no: "names_ok ?names" using at by (simp add: dir_at_def leads_to_def)
  note pa = parent_of_path [OF no name(1), unfolded p]
  note look = item_search_file [OF r(1) src(2), unfolded src(1)]
  note ready = r(1) dir_at_finds [OF r(1) at] u(1-3) dir_room_file [OF ty u(4)] name(2,3) q(2)
  obtain d1 where "directory_add_entry d (path_of ?names) ?name (of_nat i) ?ty (env_junk E) = Some (0, d1)"
    by (rule directory_add_dir [OF ready])
  note d1 = this
  have add: "direct (directory_add_entry_p (path_of ?names) ?name (of_nat i) ?ty (env_junk E)) d = Some (0, d1)"
    by (simp add: run_simps d1)
  let ?n = "(inode_at d i)\<lparr>reference_count := reference_count (inode_at d i) + 1\<rparr>"
  obtain d' where "nbtrfs_link E d from_path to_path = Some (0, d')"
    by (rule link_spec [OF assms])
  then have "inode_write d1 ?n \<noteq> None"
    using look pa add d1 by (auto simp: nbtrfs_link_def bind_Some_iff)
  then obtain rv d2 where d2: "inode_write d1 ?n = Some (rv, d2)" by auto
  have rest: "all_saved (call (directory_add_entry_p (path_of ?names) ?name (of_nat i) ?ty (env_junk E)) (\<lambda>rv.
      if rv = 0 then call (inode_write_p ?n) (\<lambda>_. Return rv) else Return rv)) d {} {}"
    by (rule all_saved_then [OF directory_add_saved [OF ready] add]) (auto intro: all_saved_steps(2) [OF d2] all_saved_return)
  show ?thesis
    unfolding nbtrfs_link_p_def Let_def
    by (rule all_saved_steps(3) [OF look(1)], unfold pa need_simps, rule all_saved_steps(1))
      (use look(3) rest in auto)
qed

text \<open>A write that creates the file runs \<open>mknod\<close> first.\<close>

lemma write_rest_saved:
  assumes "off + length buf \<le> max_direct"
  shows "saves (write_loop_p node (int_of_u64 (of_nat (length buf))) off buf 0) D"
proof -
  have "int_of_u64 (of_nat (length buf)) = int (length buf)"
    using assms by (intro int_of_u64_file(1)) simp
  then show ?thesis
    using assms by (intro write_loop_saved) simp
qed

lemma write_saved:
  assumes "item_search d path = Some pair" "nbtrfs_write E d path buf off = Some (x, d')"
    and "pair_btree pair = 0 \<Longrightarrow> off + length buf \<le> max_direct"
    and "pair_btree pair = 0 \<Longrightarrow> pair_inode pair = 0 \<Longrightarrow> all_saved (nbtrfs_mknod_p E path (S_IFREG OR 0x1A4)) d {} {}"
  shows "all_saved (nbtrfs_write_p E path buf off) d {} {}"
proof (cases "pair_btree pair = 0")
  case True
  note bound = write_rest_saved [OF assms(3) [OF True]]
  let ?tail = "\<lambda>pair. call (inode_read_p (pair_inode pair)) (\<lambda>(rv, no).
       if rv \<noteq> 0 then Undefined
       else need no (\<lambda>node.
         call (write_loop_p node (int_of_u64 (of_nat (length buf))) off buf 0) (\<lambda>(finished, written, node1).
         if \<not> finished then Return written
         else if i_size node1 < of_nat off + u64_of_int written then
           call (inode_write_p (node1\<lparr>i_size := of_nat off + u64_of_int written\<rparr>)) (\<lambda>_. Return written)
         else Return written)))"
  have tail: "saves (?tail pair) {}" for pair
    by (auto intro!: settled bound)
  have run: "direct (nbtrfs_write_p E path buf off) d = Some (x, d')"
    by (simp add: run_simps assms(2))
  show ?thesis
  proof (cases "pair_inode pair = 0")
    case False
    have "direct (?tail pair) d = Some (x, d')"
      using run assms(1) True False by (simp add: nbtrfs_write_p_def run_simps)
    from all_saved_run [OF tail this] show ?thesis
      unfolding nbtrfs_write_p_def by (intro all_saved_steps(3) [OF assms(1)]) (use True False in simp)
  next
    case none: True
    let ?p = "nbtrfs_mknod_p E path (S_IFREG OR 0x1A4)"
    have "direct (nbtrfs_write_p E path buf off) d = direct (call (call ?p (\<lambda>_. item_search_p path)) ?tail) d"
      unfolding nbtrfs_write_p_def
      by (subst direct_call) (simp add: item_search_run assms(1) True none del: direct_call)
    then have "Option.bind (direct ?p d) (\<lambda>(_, d1). direct (call (item_search_p path) ?tail) d1) = Some (x, d')"
      using run unfolding call_call direct_call [of ?p] by (simp del: direct_call)
    then obtain rv d1 where d1: "direct ?p d = Some (rv, d1)" "direct (call (item_search_p path) ?tail) d1 = Some (x, d')"
      by (cases "direct ?p d") (auto simp del: direct_call)
    have "saves (call (item_search_p path) ?tail) {}"
      by (intro settled tail)
    from all_saved_run [OF this d1(2)] have "all_saved (call ?p (\<lambda>_. call (item_search_p path) ?tail)) d {} {}"
      by (rule all_saved_then [OF assms(4) [OF True none] d1(1)])
    then show ?thesis
      unfolding nbtrfs_write_p_def by (intro all_saved_steps(3) [OF assms(1)]) (simp add: call_call True none)
  qed
qed (unfold nbtrfs_write_p_def, rule all_saved_steps(3) [OF assms(1)], simp add: all_saved_return)

lemma write_room:
  assumes "i < length (files s)" "off \<le> length (f_data (files s ! i))" "has_room (snd (put_data i buf off s))"
  shows "off + length buf \<le> max_direct"
proof -
  let ?f = "(files s ! i)\<lparr>f_content := Bytes (spliced (f_data (files s ! i)) off buf)\<rparr>"
  have "files (snd (put_data i buf off s)) = (files s)[i := ?f]"
    by (simp add: put_data_def Let_def set_file_def)
  then have "fits_inode (f_content ?f)"
    using assms(1,3) by (auto simp: has_room_def list_all_length)
  then show ?thesis
    using spliced_facts(1) [OF assms(2), of buf] by simp
qed

lemma write_request_saved:
  assumes rep: "represents_at tr d s" and served: "served (E, WRITE path buf off) s"
  shows "all_saved (nbtrfs_write_p E path buf off) d {} {}"
proof -
  let ?m = "S_IFREG OR 0x1A4 :: u32"
  have adm: "admissible E (WRITE path buf off) s" and room: "has_room (snd (store_spec E (WRITE path buf off) s))"
    using served by (simp_all add: served_def)
  obtain x d' where w: "nbtrfs_write E d path buf off = Some (x, d')"
    using write_step [OF rep served] by (auto simp: status_def)
  note r = represents_atD [OF rep]
  show ?thesis
  proof (cases "resolve s path")
    case None
    then have a: "new_path_ok E s path" "off = 0"
        "has_room (snd (put_data (length (files s)) buf 0 (add_file E path ?m s)))"
      using adm room by simp_all
    have ok: "path_ok s path" using a(1) by (simp add: new_path_ok_def)
    note pr = put_data_room [OF rep a(1,3)]
    have "off + length buf \<le> max_direct"
      using write_room [OF pr(3) _ a(3)] a(2) pr(2) by simp
    then show ?thesis
      using mknod_saved [OF rep a(1) pr(1)] by (intro write_saved [OF new_path_missing [OF rep a(1)] w]) simp_all
  next
    case (Some i)
    have ok: "path_ok s path" using adm Some by simp
    from rep ok show ?thesis
    proof (cases rule: path_cases)
      case (dir j)
      note h = holds_dirD [OF represents_dir(1) [OF rep dir(5,6)]]
      have "(of_nat (tr j) :: u64) \<noteq> 0"
        by (rule node_ok_of_nat_nz [OF index_nodes(2) [OF h(6) disjI1 [OF refl]]])
      then have nz: "pair_btree (dir_pair j (tr j)) \<noteq> 0" by (simp add: dir_pair_def)
      have look: "item_search d path = Some (dir_pair j (tr j))"
        using dir_at_finds [OF r(1) dir(4)] dir(1) by (simp add: finds_dir_def)
      show ?thesis
        by (rule write_saved [OF look w]) (use nz in blast)+
    next
      case (found j)
      note look = item_search_file [OF r(1) found(4), folded found(1)]
      have "has_room (snd (put_data j buf off s))" "off \<le> length (f_data (files s ! j))"
        using adm room found(2,7) by simp_all
      then show ?thesis
        by (intro write_saved [OF look(1) w]) (use write_room [OF found(6)] look(2) in simp_all)
    next
      case missing
      then show ?thesis using Some by simp
    qed
  qed
qed

lemma with_status_saved: "all_saved p d {} {} \<Longrightarrow> direct p d = Some (x, d') \<Longrightarrow> all_saved (with_status p) d {} {}"
  unfolding with_status_def by (rule all_saved_then) (simp_all add: all_saved_return)

text \<open>Every served request leaves nothing unsaved.\<close>

lemma request_saved:
  assumes "represents d s" "served (E, q) s"
  shows "all_saved (nbtrfs_ops_p E q) d {} {}"
proof -
  have adm: "admissible E q s" and room: "has_room (snd (store_spec E q s))"
    using assms(2) by (simp_all add: served_def)
  obtain tr where rep: "represents_at tr d s" using assms(1) unfolding represents_def by blast
  obtain x d' where run: "direct (nbtrfs_ops_p E q) d = Some (x, d')"
    using request_step [OF assms] by (auto simp: ops_run)
  have static: ?thesis if "saves (nbtrfs_ops_p E q) {}"
    by (rule all_saved_run [OF that run])
  have status: "all_saved (with_status p) d {} {}" if "nbtrfs_ops_p E q = with_status p" "all_saved p d {} {}" for p
    using run that by (cases "direct p d") (auto simp: status_def intro: with_status_saved)
  show ?thesis
  proof (cases q)
    case (MKNOD path mode)
    then show ?thesis using status [OF _ mknod_saved [OF rep]] adm room by simp
  next
    case (CREATE path mode)
    then show ?thesis using status [OF _ mknod_saved [OF rep]] adm room by (simp add: nbtrfs_create_p_def)
  next
    case (MKDIR path mode)
    then show ?thesis using status [OF _ mknod_saved [OF rep]] adm room by (simp add: nbtrfs_mkdir_p_def)
  next
    case (LINK from_path to_path)
    then obtain i where i: "resolve s from_path = Some i" using adm by auto
    then show ?thesis
      using LINK status [OF _ link_saved [OF rep _ i]] adm room by (simp add: target_def)
  next
    case (WRITE path buf off)
    then show ?thesis using status [OF _ write_request_saved [OF rep]] assms(2) by simp
  qed (rule static, (use adm in \<open>auto simp: with_status_def nbtrfs_truncate_p_def nbtrfs_open_p_def nbtrfs_ioctl_p_def
      intro!: settled\<close>)[1])+
qed

end
