(* ===== verification/Lost_Stores.thy ===== *)
theory Lost_Stores
  imports Saved_Handlers
begin

text \<open>
  The one store of the handlers that is not handed to \<open>write_block\<close>: the number that
  \<open>inode_set_block\<close> puts into a new indirect block.
\<close>

subsection \<open>The blocks that the allocator hands to write\_block\<close>

primrec commits :: "nat set \<Rightarrow> 'a prog \<Rightarrow> bool" where
  "commits S (Return x) = True"
| "commits S Undefined = True"
| "commits S (Fetch n b f) = commits S (f (unat b))"
| "commits S (Look k f) = (\<forall>pg. commits S (f pg))"
| "commits S (Put k pg p) = commits S p"
| "commits S (Commit k n b p) = (k \<in> S \<and> commits S p)"
| "commits S (Extent f) = (\<forall>t. commits S (f t))"

lemma commits_unsaved: "commits S p \<Longrightarrow> snd (unsaved p d U D) \<subseteq> D \<union> S"
proof (induction p arbitrary: d U D)
  case (Fetch n b f)
  show ?case
  proof (cases "get_block_direct d n b")
    case (Some k)
    then have "k = unat b" using get_block_direct_Some [OF Some] by simp
    then show ?thesis using Fetch.IH [OF rangeI] Fetch.prems Some by simp
  qed auto
next
  case (Look k f)
  then show ?case using Look.IH [OF rangeI] by simp
next
  case (Commit k n b p)
  then show ?case using Commit.IH [of d "U - {k}" "insert k D"] by auto
next
  case (Extent f)
  then show ?case using Extent.IH [OF rangeI] by simp
qed auto

lemma commits_call: "commits S p \<Longrightarrow> (\<And>x. commits S (g x)) \<Longrightarrow> commits S (call p g)"
proof (induction p)
  case (Fetch n b f)
  then show ?case using Fetch.IH [OF rangeI] by simp
next
  case (Look k f)
  then show ?case using Look.IH [OF rangeI] by simp
next
  case (Extent f)
  then show ?case using Extent.IH [OF rangeI] by simp
qed auto

lemma commits_need: "(\<And>x. m = Some x \<Longrightarrow> commits S (f x)) \<Longrightarrow> commits S (need m f)"
  by (cases m) simp_all

lemma superblock_commits: "0 \<in> S \<Longrightarrow> commits S (superblock_write_opt_p sbo)"
  by (simp add: superblock_write_opt_p_def superblock_write_p_def split: option.split)

text \<open>The superblock and the bitmap blocks of the numbers that are scanned.\<close>

definition scanned :: "nat \<Rightarrow> nat set" where
  "scanned n = insert 0 (bitmap_block ` {..<n})"

lemma bitmap_block_u64: "ii < 2 ^ 31 \<Longrightarrow> unat (of_nat (bitmap_block ii) :: u64) = bitmap_block ii"
  by (rule unat_of_nat_u64) (simp add: bitmap_block_def less_mult_imp_div_less)

lemma alloc_scan_commits:
  "scan_at pbm ii \<Longrightarrow> commits (scanned (ii + r)) (alloc_scan_p r sbo pbm pbm ii)"
proof (induction r arbitrary: ii pbm)
  case (Suc r)
  let ?S = "scanned (ii + Suc r)"
  let ?rest = "\<lambda>(pbm, pbmn). let idx = int ii - int ((pbmn - 1) * USABLE_BLOCK_SIZE) in
         Look pbm (\<lambda>bm. need (bitmap_get bm idx) (\<lambda>b.
         if b = 0 then need (bitmap_put bm idx 1) (\<lambda>(rv, pg).
           if rv \<noteq> 0 then Return 0
           else Put pbm pg (call (superblock_write_opt_p (dec_free_blocks sbo)) (\<lambda>_.
             Commit pbm 0 (of_nat pbmn) (Return (of_nat ii)))))
         else alloc_scan_p r sbo pbm pbmn (Suc ii)))"
  have at: "bitmap_block ii \<in> ?S" "0 \<in> ?S"
    by (simp_all add: scanned_def)
  have "commits ?S (alloc_scan_p r sbo (bitmap_block ii) (bitmap_block ii) (Suc ii))"
    using Suc.IH [OF scan_at_Suc, of ii] by simp
  then have rest: "commits ?S (?rest (bitmap_block ii, bitmap_block ii))"
    using at by (auto simp: Let_def intro!: commits_need commits_call superblock_commits)
  show ?case
  proof (cases "2 ^ 31 \<le> ii")
    case False
    have "commits ?S (call
        (if ii mod USABLE_BLOCK_SIZE = 0 \<and> ii \<noteq> 0
         then Fetch 0 (of_nat (pbm + 1)) (\<lambda>k. Return (k, pbm + 1))
         else Return (pbm, pbm)) ?rest)"
    proof (cases "ii mod USABLE_BLOCK_SIZE = 0 \<and> ii \<noteq> 0")
      case True
      then have nx: "pbm + 1 = bitmap_block ii"
        using scan_at_next(1) [OF Suc.prems] by simp
      have "unat (of_nat (bitmap_block ii) :: u64) = bitmap_block ii"
        using False by (intro bitmap_block_u64) simp
      then show ?thesis
        unfolding if_P [OF True] call.simps commits.simps nx by (simp only: rest)
    next
      case no: False
      then have "pbm = bitmap_block ii"
        using scan_at_next(2) [OF Suc.prems] by simp
      then show ?thesis
        unfolding if_not_P [OF no] call.simps using rest by (simp only:)
    qed
    then show ?thesis using False by (simp only: alloc_scan_p.simps if_False)
  qed simp
qed simp

lemma alloc_page_commits: "snd (unsaved alloc_page_p d U D) \<subseteq> D \<union> scanned (n_blocks d)"
proof -
  have "scan_at 1 0" by (simp add: scan_at_def)
  note scan = commits_unsaved [OF alloc_scan_commits [OF this, of "n_blocks d"], of _ d U D]
  show ?thesis
  proof (cases "get_block_direct d 0 1")
    case (Some k)
    then have k: "k = 1" using get_block_direct_Some [OF Some] by simp
    show ?thesis
      using scan by (cases "get_block_direct d 0 0")
        (simp_all add: alloc_page_p_def superblock_read_p_def n_blocks_def [symmetric] Some k)
  qed (simp add: alloc_page_p_def)
qed

subsection \<open>The entry of a new indirect block\<close>

lemma indirect_unsaved:
  assumes "volume_ok d" "next_free d b" "indirect_block n = 0" "12 \<le> unat i" "unat i \<le> 511"
  shows "fst (unsaved (inode_set_block_p n i phys) d {} {}) = {b}"
proof -
  note nf = next_freeD [OF assms(1,2)]
  let ?d1 = "alloc_result d b"
  have run: "direct alloc_page_p d = Some (of_nat b, ?d1)"
    by (simp add: run_simps alloc_page_next [OF assms(1,2)])
  obtain U1 D1 where u: "unsaved alloc_page_p d {} {} = (U1, D1)"
    by (cases "unsaved alloc_page_p d {} {}")
  have "U1 = {}"
    using settles_run [OF alloc_saved(1) [of "{}"] run] u by simp
  moreover have "b \<notin> scanned (n_blocks d)"
    using nf(1,3) by (auto simp: scanned_def)
  then have "b \<notin> D1"
    using alloc_page_commits [of d "{}" "{}"] u by auto
  moreover have bz: "(of_nat b :: u64) \<noteq> 0" "unat (of_nat b :: u64) = b"
    using valid_block_unat [OF nf(2)] nf(1) by force+
  moreover have "get_block_direct ?d1 m (of_nat b) = Some b" for m
    using nf(2) bz(2) alloc_result_frame(3) [of d b b] by simp
  ultimately show ?thesis
    using assms(3-5)
    by (simp add: unsaved_call [OF run] inode_set_block_p_def PTRS_PER_BLOCK_def u Let_def stored_def del: of_nat_eq_0_iff)
qed

end
