(* ===== verification/Quiet_Programs.thy ===== *)
theory Quiet_Programs
  imports Saved_Handlers
begin

text \<open>
  Which functions hand no data block to \<open>write_block\<close>, so that no dirty list is made for them:
  all of \<open>btr.c\<close>, the allocation of blocks, the inodes, and the handlers that only read or
  change attributes. For these nothing depends on what fresh memory reads as.
\<close>

subsection \<open>A check on the program text\<close>

definition quiet :: "'a prog \<Rightarrow> bool" where
  "quiet p \<longleftrightarrow> (\<forall>d. \<not> writes_data p d)"

named_theorems quiet_rules \<open>programs that hand no data block to write\_block\<close>

lemma quiet_steps [quiet_rules]:
  "quiet (Return x)" "quiet Undefined"
  "(\<And>k. quiet (f k)) \<Longrightarrow> quiet (Fetch n b f)"
  "(\<And>pg. quiet (g pg)) \<Longrightarrow> quiet (Look k g)"
  "quiet p \<Longrightarrow> quiet (Put k pg p)"
  "(\<And>t. quiet (h t)) \<Longrightarrow> quiet (Extent h)"
  by (auto simp: quiet_def split: option.split)

lemma quiet_call_at:
  assumes "quiet p" "\<And>x d'. direct p d = Some (x, d') \<Longrightarrow> \<not> writes_data (g x) d'"
  shows "\<not> writes_data (call p g) d"
proof (cases "direct p d")
  case None
  then show ?thesis
    using assms(1) by (simp add: writes_data_undefined quiet_def)
next
  case (Some r)
  then have run: "direct p d = Some (fst r, snd r)" by simp
  show ?thesis
    using assms(1) assms(2) [OF run] by (simp add: writes_data_call [OF run] quiet_def)
qed

lemma quiet_call [quiet_rules]: "quiet p \<Longrightarrow> (\<And>x. quiet (g x)) \<Longrightarrow> quiet (call p g)"
  unfolding quiet_def [of "call p g"]
  by (intro allI quiet_call_at) (simp_all add: quiet_def)

lemma quiet_need [quiet_rules]: "(\<And>x. quiet (f x)) \<Longrightarrow> quiet (need m f)"
  by (cases m) (auto intro: quiet_rules)

lemma quiet_each [quiet_rules]: "(\<And>i s. quiet (body i s)) \<Longrightarrow> quiet (each is body s)"
  by (induction "is" arbitrary: s) (auto intro: quiet_rules)

lemma quiet_node [quiet_rules]:
  "(\<And>n. quiet (f n)) \<Longrightarrow> quiet (load_node k f)"
  "quiet p \<Longrightarrow> quiet (save_node k n p)"
  "(\<And>t. quiet (h t)) \<Longrightarrow> quiet (with_fuel h)"
  by (auto simp: load_node_def save_node_def with_fuel_def intro!: quiet_rules)

subsection \<open>Blocks with another tag\<close>

text \<open>A block with a tag of its own is no data block; the writing functions check the tag or set it.\<close>

lemma other_tag [simp]:
  "page_type pg = block_type_code BLOCK_TYPE_SUPER \<Longrightarrow> \<not> is_data_page pg"
  "page_type pg = block_type_code BLOCK_TYPE_BITMAP \<Longrightarrow> \<not> is_data_page pg"
  "page_type pg = block_type_code BLOCK_TYPE_INODE \<Longrightarrow> \<not> is_data_page pg"
  "page_type pg = block_type_code BLOCK_TYPE_BTREE_NODE \<Longrightarrow> \<not> is_data_page pg"
  by (simp_all add: is_data_page_def page_type_def)

lemma is_data_page_cong: "page_type pg = page_type pg' \<Longrightarrow> is_data_page pg = is_data_page pg'"
  by (simp add: is_data_page_def page_type_def)

text \<open>A run that changes no tag.\<close>

definition keeps_tags :: "'a prog \<Rightarrow> bool" where
  "keeps_tags p \<longleftrightarrow> (\<forall>d x d' k. direct p d = Some (x, d') \<longrightarrow> page_type (page_at d' k) = page_type (page_at d k))"

lemma commit_after:
  assumes "quiet p" "keeps_tags p" "\<not> is_data_page (page_at d k)" "\<And>x. quiet (g x)"
  shows "\<not> writes_data (call p (\<lambda>x. Commit k n b (g x))) d"
proof (rule quiet_call_at [OF assms(1)])
  fix x d'
  assume "direct p d = Some (x, d')"
  then have "page_type (page_at d' k) = page_type (page_at d k)"
    using assms(2) unfolding keeps_tags_def by blast
  then show "\<not> writes_data (Commit k n b (g x)) d'"
    using assms(3,4) is_data_page_cong [of "page_at d' k" "page_at d k"] by (simp add: quiet_def)
qed

lemma superblock_quiet [quiet_rules]:
  "quiet superblock_read_p" "quiet (superblock_write_p sb)" "quiet (superblock_write_opt_p sbo)"
  by (auto simp: superblock_read_p_def superblock_write_p_def superblock_write_opt_p_def quiet_def
      simp del: block_type_code.simps split: option.split)

lemma superblock_keeps_tags: "keeps_tags (superblock_write_opt_p sbo)"
  by (auto simp: keeps_tags_def superblock_write_opt_p_def superblock_write_p_def bind_Some_iff
      split: option.splits if_splits)

lemma bitmap_put_tag: "bitmap_put bm i v = Some (rv, pg) \<Longrightarrow> page_type pg = page_type bm"
  by (auto simp: bitmap_put_def Let_def page_simps split: if_splits)

lemma bitmap_put_ok_tag: "bitmap_put bm i v = Some (0, pg) \<Longrightarrow> \<not> is_data_page pg"
  using bitmap_put_tag [of bm i v 0 pg] by (auto simp: bitmap_put_def split: if_splits)

subsection \<open>Block allocation and inodes\<close>

lemma alloc_scan_quiet: "quiet (alloc_scan_p r sbo pbm pbmn ii)"
proof (induction r arbitrary: pbm pbmn ii)
  case (Suc r)
  have "quiet (Put k pg (call (superblock_write_opt_p sb) (\<lambda>_. Commit k 0 b (Return x))))"
    if "\<not> is_data_page pg" for k pg sb b and x :: u64
    using that commit_after [OF superblock_quiet(3) superblock_keeps_tags, of "set_page _ k pg" k "\<lambda>_. Return x"]
    by (auto simp: quiet_def intro: quiet_rules)
  then have claim: "quiet (need (bitmap_put bm idx 1) (\<lambda>(rv, pg). if rv \<noteq> 0 then Return 0
      else Put k pg (call (superblock_write_opt_p sb) (\<lambda>_. Commit k 0 b (Return x)))))"
    for bm idx k sb b and x :: u64
    using bitmap_put_ok_tag [of bm idx 1]
    by (cases "bitmap_put bm idx 1") (auto simp: quiet_steps(1,2))
  show ?case
    unfolding alloc_scan_p.simps by (auto simp: Let_def intro!: quiet_rules Suc claim)
qed (simp add: quiet_rules)

lemma alloc_quiet [quiet_rules]: "quiet alloc_page_p"
  by (auto simp: alloc_page_p_def intro!: quiet_rules alloc_scan_quiet)

lemma inode_quiet [quiet_rules]:
  "quiet (inode_read_p n)" "quiet (inode_get_block_p m ix cur)" "quiet (inode_set_block_p m ix phys)"
  by (auto simp: inode_read_p_def inode_get_block_p_def inode_set_block_p_def Let_def intro!: quiet_rules)

lemma inode_write_quiet [quiet_rules]: "quiet (inode_write_p n)"
proof -
  have "quiet (Look k (\<lambda>pg. if page_type pg \<noteq> block_type_code BLOCK_TYPE_INODE then Return (-1)
      else let r = sint (i_number n) smod int inode_per_page in if r < 0 then Undefined
      else Put k (inode_to_page n pg (inode_slot (nat r))) (Commit k 0 b (Return 0))))" for k b
    by (simp add: quiet_def inode_slot_def Let_def del: block_type_code.simps)
  then show ?thesis
    unfolding inode_write_p_def Let_def case_prod_beta
    by (intro quiet_call quiet_need quiet_steps(3) superblock_quiet)
qed

subsection \<open>The tree\<close>

lemma btree_node_create_quiet [quiet_rules]: "quiet (btree_node_create_p leaf)"
proof -
  have fresh: "quiet (Look k (\<lambda>pg. Put k (set_page_type pg BLOCK_TYPE_BTREE_NODE) (load_node k (\<lambda>n.
      save_node k (f n) (Commit k 0 (g n) (Return (Some k, page)))))))" for k page f g
    by (simp add: quiet_def load_node_def save_node_def del: block_type_code.simps)
  have "quiet (if page = 0 then Return (None, page) else Fetch 0 page (\<lambda>k. Look k (\<lambda>pg.
      Put k (set_page_type pg BLOCK_TYPE_BTREE_NODE) (load_node k (\<lambda>n.
      save_node k (f n page) (Commit k 0 (g n page) (Return (Some k, page))))))))" for page f g
    by (simp only: if_split quiet_steps(1) simp_thms) (intro impI conjI quiet_steps(3) fresh)
  then show ?thesis
    unfolding btree_node_create_p_def Let_def by (intro quiet_call alloc_quiet)
qed

lemma btree_node_write_quiet [quiet_rules]: "quiet (btree_node_write_p n)"
  by (auto simp: quiet_def btree_node_write_p_def save_node_def simp del: block_type_code.simps split: option.split)

lemma btree_node_quiet [quiet_rules]:
  "quiet (btree_node_read_p b)" "quiet (node_get_p b)" "quiet (node_reread_p b old)"
  by (auto simp: btree_node_read_p_def node_get_p_def node_reread_p_def intro!: quiet_rules)

lemma search_children_quiet: "(\<And>c. quiet (rec c)) \<Longrightarrow> quiet (search_children_p rec n is)"
  by (induction "is") (auto intro!: quiet_rules)

lemma btree_search_fuel_quiet: "quiet (btree_search_fuel_p f b k)"
  by (induction f arbitrary: b) (auto intro!: quiet_rules search_children_quiet simp del: upt_Suc)

lemma find_depth_loop_quiet: "quiet (find_depth_loop_p f n depth)"
  by (induction f arbitrary: n depth) (auto intro!: quiet_rules)

lemma btree_search_quiet [quiet_rules]: "quiet (btree_search_p b k)" "quiet (btree_find_depth_p b)"
  by (auto simp: btree_search_p_def btree_find_depth_p_def
      intro!: quiet_rules btree_search_fuel_quiet find_depth_loop_quiet
      simp del: btree_search_fuel_p.simps find_depth_loop_p.simps)

lemma find_maximum_fuel_quiet: "quiet (find_maximum_fuel_p f b)"
  by (induction f arbitrary: b) (auto intro!: quiet_rules simp del: upt_Suc)

lemma btree_find_maximum_quiet [quiet_rules]: "quiet (btree_find_maximum_p b)"
  by (auto simp: btree_find_maximum_p_def intro!: quiet_rules find_maximum_fuel_quiet
      simp del: find_maximum_fuel_p.simps)

lemma pick_child_quiet: "quiet (pick_child_p n k is i)"
  by (induction "is" arbitrary: i) (auto intro!: quiet_rules)

lemma descend_quiet [quiet_rules]: "quiet (descend_p n k)"
  by (auto simp: descend_p_def Let_def intro!: quiet_rules pick_child_quiet simp del: upt_Suc)

lemma insertion_loop_quiet: "quiet (insertion_loop_p f b k n depth)"
  by (induction f arbitrary: n depth) (auto intro!: quiet_rules split: option.split)

lemma btree_insertion_quiet [quiet_rules]:
  "quiet (insert_pos_step_p root node j pos)" "quiet (refresh_keys_p n)" "quiet (btree_insertion_search_p b k)"
  by (auto simp: insert_pos_step_p_def refresh_keys_p_def btree_insertion_search_p_def
      intro!: quiet_rules insertion_loop_quiet simp del: insertion_loop_p.simps)

lemma btree_insert_nonfull_quiet [quiet_rules]:
  "quiet (btree_insert_nonfull_p root node)" "quiet (btree_update_parent_keys_p node)"
  by (auto simp: btree_insert_nonfull_p_def btree_update_parent_keys_p_def Let_def intro!: quiet_rules
      simp del: upt_Suc)

lemma split_step_quiet [quiet_rules]:
  "quiet (set_parent_p c p)" "quiet (split_root_lower_p root k i s)" "quiet (split_root_upper_key_p root k i s)"
  "quiet (split_root_upper_child_p root k i s)" "quiet (split_child_key_p k i child)"
  "quiet (split_child_child_p k i child)"
  by (auto simp: set_parent_p_def split_root_lower_p_def split_root_upper_key_p_def split_root_upper_child_p_def
      split_child_key_p_def split_child_child_p_def intro!: quiet_rules)

lemma btree_split_root_quiet [quiet_rules]: "quiet (btree_split_root_p root)"
  unfolding btree_split_root_p_def by (auto simp: Let_def intro!: quiet_rules simp del: upt_Suc)

lemma split_child_fuel_quiet: "quiet (split_child_fuel_p f node index child)"
proof (induction f arbitrary: node index child)
  case (Suc f)
  show ?case
    unfolding split_child_fuel_p.simps by (auto simp: Let_def intro!: quiet_rules Suc simp del: upt_Suc)
qed (simp add: quiet_rules)

lemma btree_split_child_quiet [quiet_rules]: "quiet (btree_split_child_p node index child)"
  by (auto simp: btree_split_child_p_def intro!: quiet_rules split_child_fuel_quiet
      simp del: split_child_fuel_p.simps)

lemma insert_into_quiet [quiet_rules]:
  "quiet (insert_into_target_p node kn)" "quiet (insert_into_full_p b k node kn)"
  by (auto simp: insert_into_target_p_def insert_into_full_p_def intro!: quiet_rules)

lemma btree_insert_quiet: "quiet (btree_insert_p b k v ty)"
  by (auto simp: btree_insert_p_def intro!: quiet_rules)

subsection \<open>Handlers that only read or change attributes\<close>

lemma search_loop_quiet: "quiet (search_loop_p path is node cp)"
  by (induction "is" arbitrary: node cp)
    (auto simp: search_step_p_def Let_def intro!: quiet_rules split: sum.split prod.split)

lemma item_search_quiet [quiet_rules]: "quiet (item_search_p path)"
  by (auto simp: item_search_p_def intro!: quiet_rules search_loop_quiet simp del: upt_Suc)

lemma getattr_quiet [quiet_rules]:
  "quiet (nbtrfs_access_p path)" "quiet (nbtrfs_getattr_p path)" "quiet (getattr_asserted_p path)"
  "quiet (nbtrfs_chmod_p path mode)" "quiet (nbtrfs_utimens_p path ts0 ts1)"
  by (auto simp: nbtrfs_access_p_def nbtrfs_getattr_p_def getattr_asserted_p_def nbtrfs_chmod_p_def
      nbtrfs_utimens_p_def intro!: quiet_rules)

lemma readdir_loop_quiet [quiet_rules]: "quiet (readdir_loop_p path es)"
  by (induction es) (auto simp: Let_def intro!: quiet_rules)

lemma list_loop_quiet: "quiet (list_loop_p pair node is block db found)"
  by (induction "is" arbitrary: block db found) (auto simp: Let_def simp del: upt_Suc intro!: quiet_rules)

lemma directory_list_quiet [quiet_rules]: "quiet (directory_list_p path)"
  by (auto simp: directory_list_p_def Let_def simp del: upt_Suc intro!: quiet_rules list_loop_quiet)

lemma readdir_quiet [quiet_rules]: "quiet (nbtrfs_readdir_p path)"
  by (auto simp: nbtrfs_readdir_p_def Let_def intro!: quiet_rules)

lemma read_loop_quiet [quiet_rules]: "quiet (read_loop_p node remaining off buf)"
proof (induction node remaining off buf rule: read_loop_p.induct)
  case (1 node remaining off buf)
  show ?case
    by (subst read_loop_p.simps) (auto simp: Let_def intro!: quiet_rules 1)
qed

lemma read_quiet [quiet_rules]: "quiet (nbtrfs_read_p path len offset)"
  by (auto simp: nbtrfs_read_p_def Let_def intro!: quiet_rules)

text \<open>The requests that make no name and write no data.\<close>

fun no_data :: "fuse_request \<Rightarrow> bool" where
  "no_data (MKNOD path mode) = False"
| "no_data (CREATE path mode) = False"
| "no_data (MKDIR path mode) = False"
| "no_data (LINK from_path to_path) = False"
| "no_data (WRITE path buf off) = False"
| "no_data (UNLINK path) = False"
| "no_data (RMDIR path) = False"
| "no_data (RENAME from_path to_path) = False"
| "no_data _ = True"

lemma no_data_quiet: "no_data q \<Longrightarrow> quiet (nbtrfs_ops_p E q)"
  by (cases q) (auto simp: with_status_def nbtrfs_truncate_p_def nbtrfs_open_p_def nbtrfs_ioctl_p_def
      intro!: quiet_rules)

lemma no_data_session: "list_all (\<lambda>(E, q). no_data q) rs \<Longrightarrow> \<not> session_writes_data rs d"
proof (induction rs arbitrary: d)
  case (Cons a rs)
  obtain E q where a: "a = (E, q)" by (cases a)
  have "\<not> writes_data (nbtrfs_ops_p E q) d"
    using Cons.prems no_data_quiet by (auto simp: a quiet_def)
  then show ?case
    using Cons by (auto simp: a split: option.split)
qed simp

end
