(* ===== verification/Cached_Theorems.thy ===== *)
theory Cached_Theorems
  imports Lost_Stores Quiet_Programs Session_Theorems Cache_Theorems Tree_Theorems Volume_Theorems
begin

text \<open>The properties of the file system as it is mounted, over the block cache.\<close>

subsection \<open>The cache cannot be noticed\<close>

lemma cache_fits_sample: "cache_fits sample_ram sample_volume"
proof -
  have "unat (total_blocks sample_volume) = 512"
    using sample_new by (auto simp: new_volume_def n_blocks_def)
  then show ?thesis
    using sample_size by (simp add: cache_fits_def)
qed

text \<open>A fresh cache, and what a run over it and unmounting make of the image.\<close>

lemma run_and_unmount:
  assumes "cache_fits ram d" "direct p d = Some (x, d')" "owns no_pointer p {}" "all_saved p d {} {}"
    and "z \<or> \<not> writes_data p d"
  shows "\<exists>ps c m. over_cache z p (\<lambda>_. None) d (alloc_cache ram) = Some (x, ps, d, c) \<and>
    nbtrfs_destroy z d c = Some (d', m)"
proof -
  have o: "owns no_pointer p (dom (\<lambda>_. None))" using assms(3) by simp
  from over_cache_direct [OF assms(2) o mount_same_run [OF assms(1)] pointers_ok_none assms(5)] obtain ps c where
    c: "over_cache z p (\<lambda>_. None) d (alloc_cache ram) = Some (x, ps, d, c)"
      "same_run z d' d c (fst (unsaved p d {} {})) (snd (unsaved p d {} {}))"
    by blast
  have "same_run z d' d c {} (snd (unsaved p d {} {}))"
    using c(2) assms(4) unfolding all_saved_def by simp
  from unmount_saved [OF this] show ?thesis
    using c(1) by blast
qed

lemma session_saved:
  "represents d s \<Longrightarrow> all_served request_spec served rs s \<Longrightarrow> unsaved_session rs d {} D = {}"
proof (induction rs arbitrary: d s D)
  case (Cons a rs)
  obtain E r where a: "a = (E, r)" by (cases a)
  have sv: "served (E, r) s" "all_served request_spec served rs (snd (request_spec (E, r) s))"
    using Cons.prems(2) by (simp_all add: a)
  obtain d1 where d1: "nbtrfs_ops E r d = Some (fst (store_spec E r s), d1)" "represents d1 (snd (store_spec E r s))"
    using request_step [OF Cons.prems(1) sv(1)] by blast
  have "all_saved (nbtrfs_ops_p E r) d {} D"
    by (rule all_saved_mono [OF request_saved [OF Cons.prems(1) sv(1)]]) simp_all
  then obtain D1 where u: "unsaved (nbtrfs_ops_p E r) d {} D = ({}, D1)"
    by (cases "unsaved (nbtrfs_ops_p E r) d {} D") (simp add: all_saved_def)
  show ?case
    using Cons.IH [OF d1(2), of D1] sv(2) d1(1) by (simp add: a u ops_run request_spec_def [of "(E, r)"])
qed simp

lemma mounted_session:
  assumes "cache_fits ram d" "represents d s" "all_served request_spec served rs s"
    and "z \<or> \<not> session_writes_data rs d"
  shows "\<exists>c d' m. cached_session z rs d (alloc_cache ram) = Some (fst (run_spec request_spec rs s), d, c) \<and>
    nbtrfs_destroy z d c = Some (d', m) \<and> session rs d = Some (fst (run_spec request_spec rs s), d') \<and>
    represents d' (snd (run_spec request_spec rs s)) \<and> n_blocks d' = n_blocks d"
proof -
  obtain d' where d': "session rs d = Some (fst (run_spec request_spec rs s), d')"
    "represents d' (snd (run_spec request_spec rs s))"
    using handlers.run_simulates [OF assms(2,3)] unfolding session_run by blast
  obtain c D where c: "cached_session z rs d (alloc_cache ram) = Some (fst (run_spec request_spec rs s), d, c)"
    "same_run z d' d c {} D"
    using cached_session_direct [OF d'(1) mount_same_run [OF assms(1)] assms(4)] session_saved [OF assms(2,3)] by metis
  have "n_blocks d' = n_blocks d"
    using c(2) by (auto simp: n_blocks_def elim: same_runE)
  then show ?thesis
    using unmount_saved [OF c(2)] c(1) d' by blast
qed

text \<open>A session that makes no name and writes no data.\<close>

definition sample_attributes :: "(Env \<times> fuse_request) list" where
  "sample_attributes = [(sample_env, GETATTR path_a), (sample_env, ACCESS path_b), (sample_env, CHMOD [slash] 0x41C0)]"

lemma root_path: "names_of [slash] = []" "path_of [] = [slash]" "names_ok []"
  by (simp_all add: names_of_def path_of_def names_ok_def)

lemma sample_attributes_served:
  "all_served request_spec served sample_attributes (new_store 512 1000 1000)"
  "fst (run_spec request_spec sample_attributes (new_store 512 1000 1000))
    = [Attributes (-2) None, Status (-2), Status 0]"
  using name_a_facts name_b_facts sample_names_ok
  by (simp_all add: sample_attributes_def sample_eval sample_served root_path)

lemma sample_attributes_quiet: "\<not> session_writes_data sample_attributes d"
  by (rule no_data_session) (simp add: sample_attributes_def)

text \<open>
  C3: The handlers of nbtrfs over the cache do what they do with CACHE_DISABLED, under two
  conditions: the cache has a slot for each block of the volume (with fewer, get_block evicts a
  page, which is undefined), and a dirty list that dl_push starts ends: its node comes from malloc
  and its next field is never set, so either z holds, which says that the field reads as null, or
  the session hands no data block to write_block, and then no list is made. Every session that is
  defined on the mapped image is defined over the cache as well; the handlers give the same
  replies, and each block as they see it has the bytes that it has on the image of the direct
  session. Unmounting is defined, frees every page, and leaves exactly the image of the direct
  session but for the blocks that were stored to and not handed to write_block, which are as they
  were at mounting.
\<close>

theorem cached_session_is_direct:
  assumes "cache_fits ram d" "session rs d = Some (out, d')" "z \<or> \<not> session_writes_data rs d"
  shows "\<exists>c e m. cached_session z rs d (alloc_cache ram) = Some (out, d, c) \<and>
    (\<forall>k. valid_block d k \<longrightarrow> view d c k = page_at d' k) \<and>
    nbtrfs_destroy z d c = Some (e, m) \<and> dom (pages_left m) = {} \<and>
    (\<forall>k. page_at e k = page_at (if k \<in> unsaved_session rs d {} {} then d else d') k)"
proof -
  obtain c D where c: "cached_session z rs d (alloc_cache ram) = Some (out, d, c)"
    "same_run z d' d c (unsaved_session rs d {} {}) D"
    using cached_session_direct [OF assms(2) mount_same_run [OF assms(1)] assms(3)] by blast
  show ?thesis
    using c(1) same_run_view [OF c(2)] unmount [OF c(2)] by blast
qed

theorem cached_session_is_direct_witness:
  "(\<exists>c e m. cached_session True sample_session sample_volume (alloc_cache sample_ram)
     = Some ([Attributes (-2) None, Status 0, Status 3, Status 2, Status 0, Data 3 [2, 7, 8], Status 0], sample_volume, c) \<and>
     nbtrfs_destroy True sample_volume c = Some (e, m) \<and> dom (pages_left m) = {}) \<and>
   (\<exists>c e m. cached_session False sample_attributes sample_volume (alloc_cache sample_ram)
     = Some ([Attributes (-2) None, Status (-2), Status 0], sample_volume, c) \<and>
     nbtrfs_destroy False sample_volume c = Some (e, m) \<and> dom (pages_left m) = {})"
proof
  have rep: "represents sample_volume (new_store 512 1000 1000)"
    by (rule starts_new_represents [OF starts_new_sample])
  then obtain d where "session sample_session sample_volume
     = Some ([Attributes (-2) None, Status 0, Status 3, Status 2, Status 0, Data 3 [2, 7, 8], Status 0], d)"
    using handlers.run_simulates sample_session_served(1) sample_session_spec(1) unfolding session_run by metis
  from cached_session_is_direct [OF cache_fits_sample this, of True]
  show "\<exists>c e m. cached_session True sample_session sample_volume (alloc_cache sample_ram)
     = Some ([Attributes (-2) None, Status 0, Status 3, Status 2, Status 0, Data 3 [2, 7, 8], Status 0], sample_volume, c) \<and>
     nbtrfs_destroy True sample_volume c = Some (e, m) \<and> dom (pages_left m) = {}"
    by blast
  obtain d where d: "session sample_attributes sample_volume = Some ([Attributes (-2) None, Status (-2), Status 0], d)"
    using handlers.run_simulates [OF rep sample_attributes_served(1)] sample_attributes_served(2)
    unfolding session_run by auto
  show "\<exists>c e m. cached_session False sample_attributes sample_volume (alloc_cache sample_ram)
     = Some ([Attributes (-2) None, Status (-2), Status 0], sample_volume, c) \<and>
     nbtrfs_destroy False sample_volume c = Some (e, m) \<and> dom (pages_left m) = {}"
    using cached_session_is_direct [OF cache_fits_sample d, of False] sample_attributes_quiet by blast
qed

subsection \<open>Nothing is lost\<close>

text \<open>
  C1: The life of a volume as its user sees it. mkfs formats the file; main maps it and allocates
  the cache; every sequence of admissible requests, served over the cache, gets the replies of
  the abstract store; nbtrfs_destroy returns; and when the file is mapped again, with a new cache,
  the next session finds every name of the root, attribute and byte that the store has after the
  first one: no handler leaves a change in the cache that is not written back. The conditions are
  those of C3: a slot in the cache for each block of the volume, and either fresh memory that
  reads as null where a dirty list starts (z), or sessions that only read or change attributes.
\<close>

theorem mounted_store_survives:
  assumes "fits n" "unat ram < 2 ^ 61" "int n \<le> cache_size (alloc_cache ram)"
    and "fsys img = Some (replicate (n * 4096) 0)" "argv \<noteq> []" "last argv = img"
    and "all_served request_spec served rs (new_store n uid gid)"
    and "all_served request_spec served ss (snd (run_spec request_spec rs (new_store n uid gid)))"
    and "z \<or> list_all (\<lambda>(E, q). no_data q) (rs @ ss)"
  shows "\<exists>d0 d1 c1 e1 m1 d2 c2.
    mkfs_main [prog, img] fsys now uid gid = Some (0, Some d0) \<and>
    nbtrfs_main argv (fsys(img := Some (disk_close d0))) ram = Some (Some d1, alloc_cache ram) \<and>
    cached_session z rs d1 (alloc_cache ram) = Some (fst (run_spec request_spec rs (new_store n uid gid)), d1, c1) \<and>
    nbtrfs_destroy z d1 c1 = Some (e1, m1) \<and>
    nbtrfs_main argv (fsys(img := Some (disk_close e1))) ram = Some (Some d2, alloc_cache ram) \<and>
    cached_session z ss d2 (alloc_cache ram)
      = Some (fst (run_spec request_spec ss (snd (run_spec request_spec rs (new_store n uid gid)))), d2, c2)"
proof -
  let ?s = "new_store n uid gid"
  have fits: "cache_fits ram d" if "n_blocks d = n" for d
    using that assms(2,3) by (simp add: cache_fits_def n_blocks_def)
  have quiet: "z \<or> \<not> session_writes_data rs d" "z \<or> \<not> session_writes_data ss d" for d
    using assms(9) no_data_session by auto
  obtain d0 where d0: "mkfs_main [prog, img] fsys now uid gid = Some (0, Some d0)" "n_blocks d0 = n" "represents d0 ?s"
    by (rule mkfs_makes_volume [where fsys = fsys and img = img, OF assms(1,4)])
  obtain d1 where d1: "nbtrfs_main argv (fsys(img := Some (disk_close d0))) ram = Some (Some d1, alloc_cache ram)"
    "n_blocks d1 = n_blocks d0" "represents d1 ?s"
    by (rule main_maps_volume [OF d0(3) assms(5,6)])
  obtain c1 e1 m1 where e1: "cached_session z rs d1 (alloc_cache ram) = Some (fst (run_spec request_spec rs ?s), d1, c1)"
    "nbtrfs_destroy z d1 c1 = Some (e1, m1)" "represents e1 (snd (run_spec request_spec rs ?s))" "n_blocks e1 = n"
    using mounted_session [OF fits d1(3) assms(7) quiet(1)] d0(2) d1(2) by auto
  obtain d2 where d2: "nbtrfs_main argv (fsys(img := Some (disk_close e1))) ram = Some (Some d2, alloc_cache ram)"
    "n_blocks d2 = n_blocks e1" "represents d2 (snd (run_spec request_spec rs ?s))"
    by (rule main_maps_volume [OF e1(3) assms(5,6)])
  obtain c2 where "cached_session z ss d2 (alloc_cache ram)
      = Some (fst (run_spec request_spec ss (snd (run_spec request_spec rs ?s))), d2, c2)"
    using mounted_session [OF fits d2(3) assms(8) quiet(2)] d2(2) e1(4) by auto
  then show ?thesis
    using d0(1) d1(1) e1(1,2) d2(1) by blast
qed

theorem mounted_store_survives_witness:
  "\<exists>d0 d1 c1 e1 m1 d2 c2.
    mkfs_main [[0x6D], [0x69]] (\<lambda>_. Some (replicate (512 * 4096) 0)) 7 1000 1000 = Some (0, Some d0) \<and>
    nbtrfs_main [[0x6E], [0x69]] ((\<lambda>_. Some (replicate (512 * 4096) 0))([0x69] := Some (disk_close d0))) sample_ram
      = Some (Some d1, alloc_cache sample_ram) \<and>
    cached_session True sample_session d1 (alloc_cache sample_ram)
      = Some ([Attributes (-2) None, Status 0, Status 3, Status 2, Status 0, Data 3 [2, 7, 8], Status 0], d1, c1) \<and>
    nbtrfs_destroy True d1 c1 = Some (e1, m1) \<and>
    nbtrfs_main [[0x6E], [0x69]] ((\<lambda>_. Some (replicate (512 * 4096) 0))([0x69] := Some (disk_close e1))) sample_ram
      = Some (Some d2, alloc_cache sample_ram) \<and>
    cached_session True sample_reread d2 (alloc_cache sample_ram) = Some ([Data 4 [1, 2, 7, 8]], d2, c2)"
proof -
  have f: "fits 512" "unat sample_ram < 2 ^ 61" "int 512 \<le> cache_size (alloc_cache sample_ram)"
    "(\<lambda>_ :: u8 list. Some (replicate (512 * 4096) 0)) [0x69] = Some (replicate (512 * 4096) (0 :: u8))"
    "[[0x6E], [0x69]] \<noteq> ([] :: u8 list list)" "last [[0x6E], [0x69]] = [0x69 :: u8]"
    using sample_size by (simp_all add: fits_def)
  show ?thesis
    using mounted_store_survives [where now = 7 and prog = "[0x6D]", OF f sample_session_served(1) sample_reread_served(1) disjI1 [OF TrueI]]
    unfolding sample_reread_served(2) sample_session_spec(1) .
qed

text \<open>
  C13: btree_insert over a fresh cache with a slot for each block of the volume: every insertion
  that is defined on the mapped image is defined over the cache, returns the same, and unmounting
  leaves exactly the image that it makes with CACHE_DISABLED. Each node it changes is handed to
  write_block, or is a new one whose block is already on the list of dirty blocks. The tree hands
  no data block to write_block, so nothing depends on what fresh memory reads as: the statement
  holds for both values of z.
\<close>

theorem btree_insert_reaches_disk:
  assumes "cache_fits ram d" "btree_insert d b k v ty = Some (rv, d')"
  shows "\<exists>ps c m. over_cache z (btree_insert_p b k v ty) (\<lambda>_. None) d (alloc_cache ram) = Some (rv, ps, d, c) \<and>
    nbtrfs_destroy z d c = Some (d', m)"
proof -
  have run: "direct (btree_insert_p b k v ty) d = Some (rv, d')"
    by (simp add: run_simps assms(2))
  have "z \<or> \<not> writes_data (btree_insert_p b k v ty) d"
    using btree_insert_quiet by (simp add: quiet_def)
  then show ?thesis
    by (rule run_and_unmount [OF assms(1) run btree_insert_p_owned all_saved_run [OF btree_insert_saved run]])
qed

text \<open>The second of two insertions: the tree has a leaf when it starts.\<close>

lemma sample_two_inserts:
  obtains d1 d2 where "btree_insert sample_volume 8 5 77 0 = Some (0, d1)" "btree_insert d1 8 3 44 0 = Some (0, d2)"
    "index_entries (d2, 8) = [(3, 44, 0), (5, 77, 0)]" "n_blocks d1 = 512"
proof -
  obtain b d1 where d1: "btree_insert sample_volume 8 5 77 0 = Some (0, d1)" "index_ok (d1, 8)"
      "index_entries (d1, 8) = [(5, 77, 0)]" "flat_inserted sample_volume 8 (leaves sample_volume 8) b 5 77 0 d1"
    using index_insert_step [OF sample_index(1,2), of 5 77 0] sample_index(3) by auto
  have n: "n_blocks d1 = 512" and u: "\<And>c. c < 512 \<Longrightarrow> used d1 c = (c = b \<or> c \<le> 8)"
    using d1(4) sample_facts(1,8) by (simp_all add: flat_inserted_def)
  have "length (leaves d1 8) = 1"
    using arg_cong [OF d1(3), of length] by (simp add: index_entries_def tree_entries_def)
  moreover have "\<not> used d1 (if b = 9 then 10 else 9)"
    using u by simp
  ultimately have "index_room (d1, 8)"
    by (auto simp: index_room_def n intro: exI [of _ "if b = 9 then 10 else 9"])
  then obtain d2 where d2: "index_insert 3 44 0 (d1, 8) = Some (d2, 8)"
      "index_entries (d2, 8) = [(3, 44, 0), (5, 77, 0)]"
    using dir_index.ins_abs [OF d1(2), of 3 44 0] d1(3) by (auto simp: index_insert_def bind_Some_iff)
  then have "btree_insert d1 8 3 44 0 = Some (0, d2)"
    using index_insert_step [OF d1(2) \<open>index_room (d1, 8)\<close>, of 3 44 0] by (auto simp: index_insert_def bind_Some_iff)
  from that [OF d1(1) this d2(2) n] show ?thesis .
qed

theorem btree_insert_reaches_disk_witness:
  "\<exists>d1 d2 ps c m. btree_insert sample_volume 8 5 77 0 = Some (0, d1) \<and> btree_insert d1 8 3 44 0 = Some (0, d2) \<and>
    index_entries (d2, 8) = [(3, 44, 0), (5, 77, 0)] \<and>
    over_cache False (btree_insert_p 8 3 44 0) (\<lambda>_. None) d1 (alloc_cache sample_ram) = Some (0, ps, d1, c) \<and>
    nbtrfs_destroy False d1 c = Some (d2, m)"
proof (rule sample_two_inserts)
  fix d1 d2
  assume d: "btree_insert sample_volume 8 5 77 0 = Some (0, d1)" "btree_insert d1 8 3 44 0 = Some (0, d2)"
    "index_entries (d2, 8) = [(3, 44, 0), (5, 77, 0)]" "n_blocks d1 = 512"
  have "cache_fits sample_ram d1"
    using d(4) sample_size by (simp add: cache_fits_def n_blocks_def)
  from btree_insert_reaches_disk [OF this d(2), of False] show ?thesis
    using d(1-3) by blast
qed

text \<open>
  C14: The exception: inode_set_block for the first block behind the direct ones, over a fresh cache
  on a sound volume, whatever fresh memory reads as. It returns 0 and the handlers find the number in the new indirect block, but
  the block was filled through the pointer of get_block only, and after unmounting it is as it
  was before: the number, and with it the data behind the direct blocks, is lost.
\<close>

theorem indirect_entry_lost:
  assumes "cache_fits ram d" "volume_ok d" "next_free d b" "indirect_block n = 0" "12 \<le> unat i" "unat i \<le> 511"
  shows "\<exists>n' ps c e m. over_cache z (inode_set_block_p n i phys) (\<lambda>_. None) d (alloc_cache ram) = Some ((0, n'), ps, d, c) \<and>
    indirect_block n' = of_nat b \<and> rd64 (view d c b) (4 + 8 * (unat i - 12)) = phys \<and>
    nbtrfs_destroy z d c = Some (e, m) \<and> page_at e b = page_at d b"
proof -
  note nf = next_freeD [OF assms(2,3)]
  let ?d1 = "alloc_result d b"
  let ?pg = "wr64 (set_page_type (page_at ?d1 b) BLOCK_TYPE_DATA) (4 + 8 * (unat i - 12)) phys"
  let ?n = "n\<lparr>indirect_block := of_nat b\<rparr>"
  have vb: "valid_block ?d1 b" using nf(2) alloc_result_frame(3) by simp
  have bz: "(of_nat b :: u64) \<noteq> 0" using valid_block_unat [OF nf(2)] nf(1) by force
  have "inode_set_block d n i phys = Some (0, ?n, set_page ?d1 b ?pg)"
    using assms(4-6) vb bz
    by (simp add: inode_set_block_def PTRS_PER_BLOCK_def alloc_page_next [OF assms(2,3)] Let_def del: of_nat_eq_0_iff)
  then have run: "direct (inode_set_block_p n i phys) d = Some ((0, ?n), set_page ?d1 b ?pg)"
    by (simp add: run_simps)
  have o: "owns no_pointer (inode_set_block_p n i phys) (dom (\<lambda>_. None))"
    by (rule inode_block_owned)
  have quiet: "z \<or> \<not> writes_data (inode_set_block_p n i phys) d"
    using inode_quiet(3) by (simp add: quiet_def)
  obtain ps c D where c: "over_cache z (inode_set_block_p n i phys) (\<lambda>_. None) d (alloc_cache ram) = Some ((0, ?n), ps, d, c)"
    "same_run z (set_page ?d1 b ?pg) d c {b} D"
    using over_cache_direct [OF run o mount_same_run [OF assms(1)] pointers_ok_none quiet]
      indirect_unsaved [OF assms(2-6), of phys] by auto
  have "view d c b = ?pg"
    using same_run_view [OF c(2) nf(2)] by simp
  then have "rd64 (view d c b) (4 + 8 * (unat i - 12)) = phys"
    by (simp add: page_simps)
  moreover obtain e m where "nbtrfs_destroy z d c = Some (e, m)" "page_at e b = page_at d b"
    using unmount [OF c(2)] by auto
  ultimately show ?thesis
    using c(1) by (intro exI [of _ ?n] exI [of _ ps] exI [of _ c] exI [of _ e] exI [of _ m]) simp
qed

theorem indirect_entry_lost_witness:
  "\<exists>n' ps c e m. over_cache False (inode_set_block_p (inode_at sample_volume 1) 12 77) (\<lambda>_. None) sample_volume (alloc_cache sample_ram)
      = Some ((0, n'), ps, sample_volume, c) \<and>
    rd64 (view sample_volume c 9) 4 = 77 \<and>
    nbtrfs_destroy False sample_volume c = Some (e, m) \<and> rd64 (page_at e 9) 4 = 0"
proof -
  have i: "indirect_block (inode_at sample_volume 1) = 0"
    using sample_new by (simp add: new_volume_def sample_layout)
  have b: "12 \<le> unat (12 :: u64)" "unat (12 :: u64) \<le> 511" by simp_all
  have "rd64 (page_at sample_volume 9) 4 = 0"
    by (simp add: sample_blank)
  then show ?thesis
    using indirect_entry_lost [where z = False and phys = 77, OF cache_fits_sample sample_facts(2) sample_next_free i b] by fastforce
qed

end
