(* ===== verification/Spec2Isabelle.thy ===== *)
theory Spec2Isabelle
  imports Volume_Theorems Tree_Theorems Path_Theorems Fuse_Theorems Name_Theorems Cache_Theorems Session_Theorems Cached_Theorems
begin

text \<open>
  A verification library for nbtrfs, a FUSE file system in C. A volume is an image file of
  4096-byte blocks: block 0 is the superblock, then come the bitmap of blocks, the bitmap of
  inodes, the inode table and the root of a B-tree. Directories keep their entries in data
  blocks and in a tree that is keyed by a hash of the name. The handlers of \<open>fuse.c\<close> find a
  path through these trees and read and write files through the inode table; all blocks are
  reached through a block cache.

  \<^bold>\<open>Conventions.\<close> A page is a function from byte offsets to bytes and structures are read and
  written at the offsets the compiler gives them on a 64-bit little-endian machine. Machine
  integers are words of their C width; conversions between \<open>int\<close> and \<open>uint64_t\<close> are written
  out. The state is the image (\<open>DiskInterface\<close>) and, for the cache, the record \<open>cache\<close>; both
  are passed explicitly. Every operation returns an option: \<open>None\<close> means that the C code has
  no defined behaviour there or does not return; error codes are ordinary results. The output
  of \<open>printf\<close> is left out.

  \<^bold>\<open>Components and theories\<close>, from the bottom up:

  \<^item> \<open>Prelude\<close>: word types, C conversions, options, counting loops (\<open>for_each\<close>). \<open>Page\<close>:
    \<open>config.h\<close> and typed access to the bytes of a block.
  \<^item> \<open>Disk\<close>: \<open>disk.c\<close> without allocation, and the block interface of \<open>cache.c\<close> as compiled
    with \<open>CACHE_DISABLED\<close>, where a pointer is the index of a block. The definitions of the
    components use this interface; the programs below carry them over to the cached build.
  \<^item> \<open>Bitmap\<close>, \<open>Superblock\<close>, \<open>Alloc\<close>: \<open>bitmap.c\<close>, \<open>superblock.c\<close> and \<open>alloc_page\<close>,
    \<open>free_page\<close> of \<open>disk.c\<close>. The locale \<open>first_fit\<close> states what a first-fit allocator promises
    and is interpreted on the scan of the block bitmap.
  \<^item> \<open>Inode\<close>, \<open>Inode_Facts\<close>: \<open>inode.c\<close>. \<open>Format\<close>: \<open>disk_format\<close> and \<open>mkfs.c\<close>, with the
    predicate \<open>new_volume\<close> that collects what formatting establishes.
  \<^item> \<open>Btree\<close>, \<open>Btree_Balance\<close>: all of \<open>btr.c\<close> but printing. \<open>Btree_Flat\<close>,
    \<open>Btree_Flat_Insert\<close>, \<open>Btree_Flat_Delete\<close>: the flat trees a directory has, a root with
    leaves, abstracted to the list of their entries in key order. \<open>Dir_Index\<close>: the locale
    \<open>ordered_index\<close> and its interpretation on search, insertion and deletion.
  \<^item> \<open>Path_Strings\<close>, \<open>Hash\<close>, \<open>Directory\<close>, \<open>Fuse\<close>: \<open>string.c\<close>, \<open>hash.c\<close>, \<open>directory.c\<close> and the
    handlers of \<open>fuse.c\<close>, one definition per function and per loop body.
  \<^item> \<open>Fs\<close>, \<open>Fs_Steps\<close>: the invariant \<open>fs_ok\<close> of a mounted volume and the frame of an operation
    (\<open>fs_step\<close>). \<open>Dir_Facts\<close>, \<open>Dir_Ops\<close>, \<open>Dir_Add\<close>: a directory as a list of entries, and what a
    new entry changes. \<open>Fuse_Facts\<close>, \<open>Fuse_Names\<close>, \<open>File_Data\<close>: paths through directories, new
    names, and the content of a file as a function from positions to bytes.
  \<^item> \<open>Session\<close>: the table of handlers as a dispatch of requests, sessions of requests, and
    \<open>main\<close>. \<open>First_File\<close>: what holds on every new volume, and a session on its first file.
  \<^item> \<open>Store_Spec\<close>: the abstract file system, a store of directories, which are lists of names, and
    of files, which are lists of bytes, with the reply and the new store for each request and the
    requests it makes a promise for. \<open>Store_Relation\<close>: when a volume \<open>represents\<close> a store, what
    paths find on it, and the requests that read. \<open>Store_Frame\<close>: what an operation keeps of the
    relation. \<open>Store_Writes\<close>, \<open>Store_Names\<close>, \<open>Store_Simulation\<close>: the requests that change a file,
    those that make a name, and one lemma for all requests (\<open>request_step\<close>). \<open>Simulation\<close>: runs of
    requests, reachable states and the locale \<open>simulation\<close>, interpreted on the handlers in
    \<open>Session_Theorems\<close>. \<open>Image\<close>: two mappings of the same image cannot be told apart.
  \<^item> \<open>Ring\<close>: \<open>lru.c\<close> and \<open>gdl.c\<close> as nodes at addresses, abstracted to lists; the locale
    \<open>recency_list\<close> is interpreted on both. \<open>Cache_Index\<close>: \<open>pci.c\<close> and \<open>fl.c\<close>, with the locale
    \<open>slot_index\<close>. \<open>Dirty_List\<close>: \<open>dl.c\<close>. \<open>Cache\<close>: \<open>cache.c\<close> and \<open>nbtrfs_destroy\<close>.
  \<^item> \<open>Cache_Facts\<close>, \<open>Cache_Steps\<close>: the invariant \<open>cache_ok\<close> of index, slots, buffers and rings,
    the relation \<open>synced\<close> of cache and disk, and what loading, a hit, a write and a sync do to
    them. \<open>Cache_Run\<close>: sequences of accesses, the new cache, unmounting. \<open>Cache_Reach\<close>: the
    states that can be reached. \<open>Cache_Limits\<close>: eviction and the dirty lists.
  \<^item> \<open>Programs\<close>: a C function as a program over the block interface of \<open>cache.h\<close>: which blocks it
    gets, loads, stores and hands to \<open>write_block\<close>. \<open>Alloc_Programs\<close>, \<open>Inode_Programs\<close>,
    \<open>Btree_Programs\<close>, \<open>Balance_Programs\<close>, \<open>Dir_Programs\<close>, \<open>Fuse_Programs\<close>: every function up to the
    table of handlers once more as such a program (\<open>foo_p\<close> for \<open>foo\<close>), each with the lemma that its
    run on the mapped image (\<open>direct\<close>) is the function of the components above, and the lemma
    that it uses only pointers it got (\<open>owns\<close>).
  \<^item> \<open>Cached_Programs\<close>: the same programs over \<open>get_block\<close> and \<open>write_block\<close> of \<open>Cache\<close>
    (\<open>over_cache\<close>), the relation \<open>same_run\<close> of the two runs and the blocks whose changes are not
    on the way to the disk (\<open>unsaved\<close>). \<open>Cached_Session\<close>: sessions over the cache, mounting and
    unmounting. \<open>Saved_Programs\<close>, \<open>Saved_Handlers\<close>: a check on the program text (\<open>settles\<close>) that a
    function hands each block it changed to \<open>write_block\<close>, and what it leaves to be shown on the
    run: the entry of a new name goes into the first block of its directory. \<open>Lost_Stores\<close>: the
    one store that is never handed over, into the new indirect block of \<open>inode_set_block\<close>.
    \<open>Quiet_Programs\<close>: a check (\<open>quiet\<close>) that a function hands no data block to \<open>write_block\<close>,
    which holds of the tree and of the handlers that only read or change attributes.

  \<^bold>\<open>What the properties show.\<close> \<open>Volume_Theorems\<close>: formatting, allocation and the inode table
  meet their specification; freeing an inode and the count of free blocks do not.
  \<open>Tree_Theorems\<close>: on flat trees insertion, deletion and search refine an ordered list; on a
  full root, in borrowing and in merging the code fails. \<open>Path_Theorems\<close>: path helpers, the
  hash and the search along a path, which is undefined from the second name on that is found.
  \<open>Fuse_Theorems\<close>, \<open>Name_Theorems\<close>: creating, writing, reading, unlinking and renaming files in
  the root directory.
  \<open>Cache_Theorems\<close>: a program that uses no more blocks than the cache has slots cannot tell the
  cache from the disk, and unmounting writes everything back, if each change is followed by
  \<open>write_block\<close>, and if fresh memory reads as null or no data block is written; without that a
  sync or unmounting is undefined after one dirty data block, and evicting a block is undefined
  always. \<open>Cached_Theorems\<close>: under the same conditions every session gives the same replies over
  the cache as without it, and unmounting leaves the same image but for the blocks that are not
  handed to \<open>write_block\<close>. For admissible requests there is no such block, so mounting, a session,
  unmounting and mounting again are those of the abstract store. The new indirect block is one:
  what \<open>inode_set_block\<close> stores in it is lost. \<open>Session_Theorems\<close>: on every reachable volume the
  type tags agree with the use of the blocks, and no path of two names that exist can be used.
  The properties below join all layers: from formatting on, any sequence of admissible requests
  is answered exactly like the abstract store answers it, and the store survives unmounting and
  mounting again. An admissible request finds at most one name of its path: files and directories
  of the root can be read, written and changed, and names can be made in the root and (by \<open>mknod\<close>,
  \<open>create\<close>, \<open>mkdir\<close> and \<open>link\<close>) in the directories of the root, where they can never be found
  again. Admissible requests use names whose hashes differ within a directory, write without
  leaving holes, list the root or an empty directory, and need at most 15 names per directory,
  twelve pages per file and the blocks and inodes that the volume has; \<open>rename\<close>, \<open>unlink\<close> and
  \<open>rmdir\<close> are not among them, and their behaviour is stated by properties of their own.

  \<^bold>\<open>Bounds.\<close> \<open>disk_get_block\<close> multiplies in \<open>int\<close>, so blocks from \<open>2 ^ 19\<close> on are undefined.
  Recursion through the tree has the number of blocks plus one as fuel (\<open>tree_fuel\<close>): a longer
  descent visits a block twice and does not end. \<open>cache_sync\<close> has one round more than the
  global dirty list has nodes, and each round takes a node off. The properties of the mounted file
  system over the cache are about volumes that fit into it (64 MiB at least), because the first
  eviction is undefined. New cache sizes are stated for
  less than \<open>2 ^ 61\<close> bytes of memory; from there on the conversion to \<open>int\<close> is out of range.

  \<^bold>\<open>Parameters.\<close> The time, the ids of the caller and the bytes of uninitialised directory entries
  (\<open>Env\<close>); the size of the memory of the machine; and \<open>z\<close>, whether the \<open>next\<close> field that \<open>dl_push\<close>
  never sets reads as null. \<open>malloc\<close> does not promise that, and \<open>dl_pop\<close> fills a node with random
  bytes before it is freed, so a property that needs \<open>z\<close> states it as a hypothesis beside the
  alternative that no data block is written. What the C standard leaves undefined is \<open>None\<close>: an
  index outside an array, a null or dangling pointer, \<open>snprintf\<close> that prints a string into itself
  (\<open>append_name\<close>). One overlap is taken as harmless: \<open>write_block\<close> copies a page onto itself, since
  the handlers pass it the pointer that \<open>get_block\<close> gave them, and the bytes stay as they are.

  \<^bold>\<open>Not modelled.\<close> libfuse, whose requests are arbitrary here; functions that only print (\<open>bitmap_print\<close>, \<open>btree_print\<close>, \<open>print_pair\<close>); failing
  allocations of memory; \<open>journal.h\<close>, which is empty; scripts, tests and build files. Addresses
  of freed memory are never used again in the model of the cache, so a dangling pointer is
  always an error.
\<close>

subsection \<open>Sessions\<close>

text \<open>
  C2: A freshly formatted volume of any admissible size answers every sequence of requests on
  files and directories exactly like the abstract store: as long as the requests are admissible
  and the store has room, no handler fails or runs into undefined behaviour, all replies (codes,
  attributes, listings, bytes) are those of the store, and the volume represents the new store.
  An admissible path finds at most one name, that of a file or directory in the root; names can
  be made in the directories of the root too, but a path to them is not admissible afterwards.
\<close>

theorem session_refines_store:
  assumes "fits n" "length label \<le> 31" "all_served request_spec served rs (new_store n uid gid)"
  shows "\<exists>v d. disk_format (blank_disk n) label now uid gid = Some (0, v) \<and>
    session rs v = Some (fst (run_spec request_spec rs (new_store n uid gid)), d) \<and>
    represents d (snd (run_spec request_spec rs (new_store n uid gid)))"
proof -
  obtain v where v: "disk_format (blank_disk n) label now uid gid = Some (0, v)" "new_volume n label now uid gid v"
    using disk_format_blank [OF assms(1,2)] by blast
  show ?thesis
    using v(1) handlers.run_simulates [OF new_volume_represents [OF assms(1) v(2)] assms(3)]
    unfolding session_run by blast
qed

theorem session_refines_store_witness:
  "\<exists>v d. disk_format (blank_disk 512) [0x76] 7 1000 1000 = Some (0, v) \<and>
    session sample_session v =
      Some ([Attributes (-2) None, Status 0, Status 3, Status 2, Status 0, Data 3 [2, 7, 8], Status 0], d)"
proof -
  have "fits 512" "length [0x76 :: u8] \<le> 31"
    by (simp_all add: fits_def)
  from session_refines_store [OF this sample_session_served(1), of 7] show ?thesis
    unfolding sample_session_spec(1) by blast
qed

text \<open>
  The image is the whole state. mkfs formats the file, main maps it, and a session ends; when
  the file is mapped again later, the next session finds every name, attribute and byte that the
  store has after the first one.
\<close>

lemma session_survives_remount:
  assumes "fits n" "fsys img = Some (replicate (n * 4096) 0)" "argv \<noteq> []" "last argv = img"
    and "all_served request_spec served rs (new_store n uid gid)"
    and "all_served request_spec served ss (snd (run_spec request_spec rs (new_store n uid gid)))"
  shows "\<exists>d0 d1 e1 d2 e2.
    mkfs_main [prog, img] fsys now uid gid = Some (0, Some d0) \<and>
    nbtrfs_main argv (fsys(img := Some (disk_close d0))) ram = Some (Some d1, alloc_cache ram) \<and>
    session rs d1 = Some (fst (run_spec request_spec rs (new_store n uid gid)), e1) \<and>
    nbtrfs_main argv (fsys(img := Some (disk_close e1))) ram = Some (Some d2, alloc_cache ram) \<and>
    session ss d2 = Some (fst (run_spec request_spec ss (snd (run_spec request_spec rs (new_store n uid gid)))), e2)"
proof -
  let ?s = "new_store n uid gid"
  obtain d0 where d0: "mkfs_main [prog, img] fsys now uid gid = Some (0, Some d0)" "n_blocks d0 = n" "represents d0 ?s"
    by (rule mkfs_makes_volume [where fsys = fsys and img = img, OF assms(1,2)])
  obtain d1 where d1: "nbtrfs_main argv (fsys(img := Some (disk_close d0))) ram = Some (Some d1, alloc_cache ram)"
    "n_blocks d1 = n_blocks d0" "represents d1 ?s"
    by (rule main_maps_volume [OF d0(3) assms(3,4)])
  obtain e1 where e1: "session rs d1 = Some (fst (run_spec request_spec rs ?s), e1)" "represents e1 (snd (run_spec request_spec rs ?s))"
    using handlers.run_simulates [OF d1(3) assms(5)] unfolding session_run by blast
  obtain d2 where d2: "nbtrfs_main argv (fsys(img := Some (disk_close e1))) ram = Some (Some d2, alloc_cache ram)"
    "n_blocks d2 = n_blocks e1" "represents d2 (snd (run_spec request_spec rs ?s))"
    by (rule main_maps_volume [OF e1(2) assms(3,4)])
  obtain e2 where e2: "session ss d2 = Some (fst (run_spec request_spec ss (snd (run_spec request_spec rs ?s))), e2)"
    using handlers.run_simulates [OF d2(3) assms(6)] unfolding session_run by blast
  show ?thesis
    using d0(1) d1(1) e1(1) d2(1) e2 by blast
qed

lemma session_survives_remount_witness:
  "\<exists>d0 d1 e1 d2 e2.
    mkfs_main [[0x6D], [0x69]] (\<lambda>_. Some (replicate (512 * 4096) 0)) 7 1000 1000 = Some (0, Some d0) \<and>
    nbtrfs_main [[0x6E], [0x69]] ((\<lambda>_. Some (replicate (512 * 4096) 0))([0x69] := Some (disk_close d0))) 0 = Some (Some d1, alloc_cache 0) \<and>
    session sample_session d1 = Some ([Attributes (-2) None, Status 0, Status 3, Status 2, Status 0, Data 3 [2, 7, 8], Status 0], e1) \<and>
    nbtrfs_main [[0x6E], [0x69]] ((\<lambda>_. Some (replicate (512 * 4096) 0))([0x69] := Some (disk_close e1))) 0 = Some (Some d2, alloc_cache 0) \<and>
    session sample_reread d2 = Some ([Data 4 [1, 2, 7, 8]], e2)"
proof -
  have f: "fits 512" "(\<lambda>_ :: u8 list. Some (replicate (512 * 4096) 0)) [0x69] = Some (replicate (512 * 4096) (0 :: u8))"
    "[[0x6E], [0x69]] \<noteq> ([] :: u8 list list)" "last [[0x6E], [0x69]] = [0x69 :: u8]"
    by (simp_all add: fits_def)
  show ?thesis
    using session_survives_remount [where now = 7 and ram = 0 and prog = "[0x6D]", OF f sample_session_served(1) sample_reread_served(1)]
    unfolding sample_reread_served(2) sample_session_spec(1) .
qed

end
